(* ===== verification/Prelude.thy ===== *)
theory Prelude
  imports Main
begin

text \<open>
  Shared vocabulary of the development: the error monad in which every Python function that
  may raise is modelled, list-backed tables with the lookups and updates the ORM queries
  perform on them, the Python string operations the code uses, and the lemmas about all of
  these that the component theories draw on.
\<close>

section \<open>Theorem collections\<close>

named_theorems raise_simps "inversion of the error monad"
named_theorems table_simps "lookups in updated and extended tables"
named_theorems service_defs "the definitions of the service operations"

section \<open>Python exceptions as values\<close>

text \<open>
  A computation that may raise has type \<open>'e + 'a\<close>: \<open>Inl\<close> carries the exception and
  everything the computation had not committed is dropped with it, which is what closing or
  rolling back a database session does.
\<close>

definition ebind :: "'e + 'a \<Rightarrow> ('a \<Rightarrow> 'e + 'b) \<Rightarrow> 'e + 'b" where
  "ebind m f = (case m of Inl e \<Rightarrow> Inl e | Inr x \<Rightarrow> f x)"

definition guard_or :: "'e \<Rightarrow> bool \<Rightarrow> 'e + unit" where
  "guard_or e b = (if b then Inr () else Inl e)"

definition some_or :: "'e \<Rightarrow> 'a option \<Rightarrow> 'e + 'a" where
  "some_or e x = (case x of None \<Rightarrow> Inl e | Some v \<Rightarrow> Inr v)"

lemma ebind_Inl [simp]: "ebind (Inl e) f = Inl e"
  by (simp add: ebind_def)

lemma ebind_Inr [simp]: "ebind (Inr x) f = f x"
  by (simp add: ebind_def)

lemma ebind_eq_Inr [raise_simps]: "ebind m f = Inr y \<longleftrightarrow> (\<exists>x. m = Inr x \<and> f x = Inr y)"
  by (cases m) auto

lemma ebind_eq_Inl [raise_simps]:
  "ebind m f = Inl e \<longleftrightarrow> m = Inl e \<or> (\<exists>x. m = Inr x \<and> f x = Inl e)"
  by (cases m) auto

lemma guard_or_eq_Inr [raise_simps]: "guard_or e b = Inr u \<longleftrightarrow> b"
  by (simp add: guard_or_def)

lemma guard_or_eq_Inl [raise_simps]: "guard_or e b = Inl e' \<longleftrightarrow> \<not> b \<and> e' = e"
  by (auto simp: guard_or_def)

lemma guard_or_simps [simp]: "guard_or e True = Inr ()" "guard_or e False = Inl e"
  by (simp_all add: guard_or_def)

lemma some_or_eq_Inr [raise_simps]: "some_or e x = Inr v \<longleftrightarrow> x = Some v"
  by (auto simp: some_or_def split: option.splits)

lemma some_or_eq_Inl [raise_simps]: "some_or e x = Inl e' \<longleftrightarrow> x = None \<and> e' = e"
  by (auto simp: some_or_def split: option.splits)

lemma some_or_simps [simp]: "some_or e None = Inl e" "some_or e (Some v) = Inr v"
  by (simp_all add: some_or_def)

lemma ebind_cong: "m = m' \<Longrightarrow> (\<And>x. m' = Inr x \<Longrightarrow> f x = g x) \<Longrightarrow> ebind m f = ebind m' g"
  by (cases m') auto

section \<open>Tables\<close>

text \<open>
  A table is the list of its rows in insertion order. \<open>db.get(Model, id)\<close> and
  \<open>query.filter(...).first()\<close> are \<open>find\<close>: where the code gives no order the first row
  in insertion order stands for whichever row the database returns first. An
  \<open>UPDATE ... WHERE\<close> and a write through an ORM object are \<open>update_where\<close>.
\<close>

definition get_by :: "('r \<Rightarrow> 'k) \<Rightarrow> 'k \<Rightarrow> 'r list \<Rightarrow> 'r option" where
  "get_by key k rows = find (\<lambda>r. key r = k) rows"

definition update_where :: "('r \<Rightarrow> bool) \<Rightarrow> ('r \<Rightarrow> 'r) \<Rightarrow> 'r list \<Rightarrow> 'r list" where
  "update_where p f rows = map (\<lambda>r. if p r then f r else r) rows"

definition put_by :: "('r \<Rightarrow> 'k) \<Rightarrow> 'k \<Rightarrow> ('r \<Rightarrow> 'r) \<Rightarrow> 'r list \<Rightarrow> 'r list" where
  "put_by key k f rows = update_where (\<lambda>r. key r = k) f rows"

lemma get_by_Some [dest]: "get_by key k rows = Some r \<Longrightarrow> r \<in> set rows \<and> key r = k"
  by (auto simp: get_by_def find_Some_iff)

lemma get_by_None: "get_by key k rows = None \<longleftrightarrow> (\<forall>r \<in> set rows. key r \<noteq> k)"
  by (auto simp: get_by_def find_None_iff)

lemma get_by_Nil [simp]: "get_by key k [] = None"
  by (simp add: get_by_def)

lemma get_by_Cons: "get_by key k (r # rows) = (if key r = k then Some r else get_by key k rows)"
  by (simp add: get_by_def)

lemma get_by_append [table_simps]:
  "get_by key k (xs @ ys) = (case get_by key k xs of None \<Rightarrow> get_by key k ys | Some r \<Rightarrow> Some r)"
  by (induction xs) (auto simp: get_by_Cons)

lemma get_by_put_by [table_simps]:
  assumes "\<And>r. key (f r) = key r"
  shows "get_by key k (put_by key j f rows) =
         (if k = j then map_option f (get_by key k rows) else get_by key k rows)"
  using assms by (induction rows) (auto simp: put_by_def update_where_def get_by_Cons)

lemma get_by_unique:
  "distinct (map key rows) \<Longrightarrow> r \<in> set rows \<Longrightarrow> get_by key (key r) rows = Some r"
  by (induction rows) (auto simp: get_by_Cons)

lemma map_key_put_by [simp]:
  assumes "\<And>r. key' (f r) = key' r"
  shows "map key' (put_by key k f rows) = map key' rows"
  using assms by (auto simp: put_by_def update_where_def)

lemma set_put_by: "set (put_by key k f rows) = (\<lambda>r. if key r = k then f r else r) ` set rows"
  by (simp add: put_by_def update_where_def)

lemma put_by_append [table_simps]:
  "put_by key k f (xs @ ys) = put_by key k f xs @ put_by key k f ys"
  by (simp add: put_by_def update_where_def)

lemma put_by_absent: "(\<forall>r \<in> set rows. key r \<noteq> k) \<Longrightarrow> put_by key k f rows = rows"
  by (induction rows) (auto simp: put_by_def update_where_def)

lemma length_put_by [simp]: "length (put_by key k f rows) = length rows"
  by (simp add: put_by_def update_where_def)

text \<open>Identifiers drawn from a counter: distinct, and all below the next one to be drawn.\<close>

definition fresh_ids :: "('r \<Rightarrow> nat) \<Rightarrow> nat \<Rightarrow> 'r list \<Rightarrow> bool" where
  "fresh_ids key n rows \<longleftrightarrow> distinct (map key rows) \<and> (\<forall>i \<in> set (map key rows). i < n)"

lemma fresh_ids_Nil [simp]: "fresh_ids key n []"
  by (simp add: fresh_ids_def)

lemma fresh_ids_mono: "fresh_ids key n rows \<Longrightarrow> n \<le> m \<Longrightarrow> fresh_ids key m rows"
  by (auto simp: fresh_ids_def)

lemma fresh_ids_Suc [simp, intro]: "fresh_ids key n rows \<Longrightarrow> fresh_ids key (Suc n) rows"
  by (rule fresh_ids_mono) auto

lemma fresh_ids_snoc [simp, intro]:
  "fresh_ids key n rows \<Longrightarrow> key r = n \<Longrightarrow> fresh_ids key (Suc n) (rows @ [r])"
  by (auto simp: fresh_ids_def less_Suc_eq)

lemma fresh_ids_put_by [simp]:
  assumes "\<And>r. key (f r) = key r"
  shows "fresh_ids key n (put_by k' k f rows) = fresh_ids key n rows"
  unfolding fresh_ids_def map_key_put_by [of key f, OF assms] by (rule refl)

lemma fresh_ids_get_by: "fresh_ids key n rows \<Longrightarrow> r \<in> set rows \<Longrightarrow> get_by key (key r) rows = Some r"
  by (simp add: fresh_ids_def get_by_unique)

lemma get_by_snoc_new:
  "(\<forall>r \<in> set rows. key r \<noteq> key x) \<Longrightarrow>
   get_by key k (rows @ [x]) = (if k = key x then Some x else get_by key k rows)"
  by (induction rows) (auto simp: get_by_Cons)

text \<open>
  A row found under one key and written through its identifier: the other keys still find
  what they found.
\<close>

lemma get_by_put_by_id:
  assumes "distinct (map rid rows)" "get_by key k rows = Some r" "\<And>x. key (f x) = key x"
  shows "get_by key j (put_by rid (rid r) f rows) =
         (if j = k then Some (f r) else get_by key j rows)"
  using assms(1,2)
proof (induction rows)
  case Nil
  then show ?case by simp
next
  case (Cons x xs)
  show ?case
  proof (cases "key x = k")
    case True
    then have "r = x" using Cons.prems(2) by (simp add: get_by_Cons)
    moreover have "\<forall>y \<in> set xs. rid y \<noteq> rid x" using Cons.prems(1) by (force simp: image_iff)
    then have "put_by rid (rid x) f xs = xs" by (rule put_by_absent)
    ultimately show ?thesis using True assms(3)
      by (simp add: get_by_Cons put_by_def update_where_def)
  next
    case False
    then have "r \<in> set xs" using Cons.prems(2) by (auto simp: get_by_Cons dest: get_by_Some)
    then have "rid x \<noteq> rid r" using Cons.prems(1) by (force simp: image_iff)
    then show ?thesis using Cons False
      by (auto simp: get_by_Cons put_by_def update_where_def)
  qed
qed

text \<open>Sums over a table: what a write to the one row with a given key does to them.\<close>

lemma sum_list_put_by:
  fixes g :: "'r \<Rightarrow> 'a::ab_group_add"
  assumes "distinct (map key rows)" "get_by key k rows = Some r"
  shows "sum_list (map g (put_by key k f rows)) = sum_list (map g rows) - g r + g (f r)"
  using assms
proof (induction rows)
  case Nil
  then show ?case by simp
next
  case (Cons x xs)
  show ?case
  proof (cases "key x = k")
    case True
    then have "\<forall>y \<in> set xs. key y \<noteq> k" using Cons.prems(1) by (force simp: image_iff)
    then have "put_by key k f xs = xs" by (rule put_by_absent)
    then show ?thesis using True Cons.prems(2)
      by (simp add: get_by_Cons put_by_def update_where_def algebra_simps)
  next
    case False
    then show ?thesis using Cons
      by (simp add: get_by_Cons put_by_def update_where_def algebra_simps)
  qed
qed

lemma sum_list_filter_if:
  fixes g :: "'r \<Rightarrow> 'a::monoid_add"
  shows "sum_list (map g (filter p rows)) = sum_list (map (\<lambda>r. if p r then g r else 0) rows)"
  by (induction rows) auto

lemma distinct_filter_key_le_one:
  "distinct (map key rows) \<Longrightarrow> length (filter (\<lambda>r. key r = k) rows) \<le> 1"
  by (induction rows) (auto simp: filter_empty_conv image_iff split: if_splits)

section \<open>Strings\<close>

text \<open>
  Python's \<open>str.strip\<close>, \<open>str.upper\<close>, \<open>str.lower\<close>, \<open>str.split\<close> on ASCII text.
  The ASCII characters Python treats as whitespace are codes 9-13 and 28-32.
\<close>

definition py_isspace :: "char \<Rightarrow> bool" where
  "py_isspace c = (let n = (of_char c :: nat) in (9 \<le> n \<and> n \<le> 13) \<or> (28 \<le> n \<and> n \<le> 32))"

definition py_strip :: "string \<Rightarrow> string" where
  "py_strip s = rev (dropWhile py_isspace (rev (dropWhile py_isspace s)))"

definition upper_char :: "char \<Rightarrow> char" where
  "upper_char c = (let n = (of_char c :: nat) in if 97 \<le> n \<and> n \<le> 122 then char_of (n - 32) else c)"

definition lower_char :: "char \<Rightarrow> char" where
  "lower_char c = (let n = (of_char c :: nat) in if 65 \<le> n \<and> n \<le> 90 then char_of (n + 32) else c)"

definition py_upper :: "string \<Rightarrow> string" where
  "py_upper = map upper_char"

definition py_lower :: "string \<Rightarrow> string" where
  "py_lower = map lower_char"

fun py_split :: "char \<Rightarrow> string \<Rightarrow> string list" where
  "py_split sep [] = [[]]"
| "py_split sep (c # cs) =
     (if c = sep then [] # py_split sep cs
      else case py_split sep cs of [] \<Rightarrow> [[c]] | w # ws \<Rightarrow> (c # w) # ws)"

lemma of_char_upper_char:
  "(of_char (upper_char c) :: nat) =
     (if 97 \<le> (of_char c :: nat) \<and> of_char c \<le> (122 :: nat) then of_char c - 32 else of_char c)"
  by (auto simp: upper_char_def Let_def intro!: mod_less)

lemma of_char_lower_char:
  "(of_char (lower_char c) :: nat) =
     (if 65 \<le> (of_char c :: nat) \<and> of_char c \<le> (90 :: nat) then of_char c + 32 else of_char c)"
  by (auto simp: lower_char_def Let_def intro!: mod_less)

lemma upper_char_idem [simp]: "upper_char (upper_char c) = upper_char c"
  by (subst (1) upper_char_def) (auto simp: Let_def of_char_upper_char)

lemma lower_char_idem [simp]: "lower_char (lower_char c) = lower_char c"
  by (subst (1) lower_char_def) (auto simp: Let_def of_char_lower_char)

lemma py_upper_idem [simp]: "py_upper (py_upper s) = py_upper s"
  by (simp add: py_upper_def)

lemma py_lower_idem [simp]: "py_lower (py_lower s) = py_lower s"
  by (simp add: py_lower_def)

lemma py_isspace_upper_char [simp]: "py_isspace (upper_char c) = py_isspace c"
  by (auto simp: py_isspace_def Let_def of_char_upper_char)

lemma py_isspace_lower_char [simp]: "py_isspace (lower_char c) = py_isspace c"
  by (auto simp: py_isspace_def Let_def of_char_lower_char)

lemma dropWhile_map_same: "(\<And>x. p (f x) = p x) \<Longrightarrow> dropWhile p (map f xs) = map f (dropWhile p xs)"
  by (induction xs) auto

lemma py_strip_upper [simp]: "py_strip (py_upper s) = py_upper (py_strip s)"
  by (simp add: py_strip_def py_upper_def dropWhile_map_same rev_map)

lemma py_strip_lower [simp]: "py_strip (py_lower s) = py_lower (py_strip s)"
  by (simp add: py_strip_def py_lower_def dropWhile_map_same rev_map)

lemma dropWhile_rev_dropWhile:
  "dropWhile p (rev (dropWhile p (rev (dropWhile p xs)))) = rev (dropWhile p (rev (dropWhile p xs)))"
proof (cases "dropWhile p (rev (dropWhile p xs))")
  case Nil
  show ?thesis unfolding Nil by simp
next
  case (Cons y ys)
  let ?m = "dropWhile p xs" and ?d = "dropWhile p (rev (dropWhile p xs))"
  have ne: "?m \<noteq> []" using Cons by (cases "?m") auto
  then have hd: "\<not> p (hd ?m)" by (rule hd_dropWhile)
  have "rev ?m = takeWhile p (rev ?m) @ ?d" by simp
  then have "?m = rev ?d @ rev (takeWhile p (rev ?m))"
    by (metis rev_append rev_rev_ident)
  then have "hd ?m = hd (rev ?d)"
    using Cons by (metis hd_append2 list.distinct(1) rev_is_Nil_conv)
  moreover have "rev ?d \<noteq> []" using Cons by simp
  ultimately show ?thesis using hd by (metis dropWhile_eq_self_iff)
qed

lemma py_strip_idem [simp]: "py_strip (py_strip s) = py_strip s"
  unfolding py_strip_def dropWhile_rev_dropWhile by (simp add: dropWhile_idem)

section \<open>Runs of a transition system\<close>

text \<open>
  What a component shown step by step owes: that a step keeps the invariant, and, where it implements
  a specification, that a step is one abstract step or leaves the abstraction as it was.
\<close>

locale transition_invariant =
  fixes step :: "'s \<Rightarrow> 's \<Rightarrow> bool" and inv :: "'s \<Rightarrow> bool"
  assumes step_inv: "step x y \<Longrightarrow> inv x \<Longrightarrow> inv y"
begin

lemma run_inv: "step\<^sup>*\<^sup>* x y \<Longrightarrow> inv x \<Longrightarrow> inv y"
  by (induction rule: rtranclp_induct) (auto intro: step_inv)

end

locale refinement = transition_invariant +
  fixes abs_step :: "'a \<Rightarrow> 'a \<Rightarrow> bool" and abstraction :: "'s \<Rightarrow> 'a"
  assumes simulated: "step x y \<Longrightarrow> inv x \<Longrightarrow> abstraction y = abstraction x \<or> abs_step (abstraction x) (abstraction y)"
begin

lemma run_simulated: "step\<^sup>*\<^sup>* x y \<Longrightarrow> inv x \<Longrightarrow> abs_step\<^sup>*\<^sup>* (abstraction x) (abstraction y)"
proof (induction rule: rtranclp_induct)
  case (step y z)
  then show ?case using simulated [OF step(2) run_inv [OF step(1)]] by (auto intro: rtranclp.rtrancl_into_rtrancl)
qed simp

end

end
