(* ===== verification/Errors.thy ===== *)
theory Errors
  imports Complex_Main Prelude
begin

text \<open>
  The exceptions of the program, one constructor per class that a caller can tell apart. The
  message texts are dropped except where the code builds its answer from them
  (\<open>LimitExceededError\<close> carries the four figures its message shows) or stores
  them (the settlement worker records the text of \<open>XRPLTransactionError\<close> and
  \<open>SettlementError\<close> as the failure reason).

  \<^item> \<open>app/services/fee_service.py\<close>: FeeError, AmountTooSmallError, UnsupportedPayoutCurrencyError
  \<^item> \<open>app/services/fx_rate_service.py\<close>: FxRateUnavailableError
  \<^item> \<open>app/services/ledger.py\<close>: LedgerError, UnsupportedCurrencyError, InsufficientFundsError
  \<^item> \<open>app/services/limits_service.py\<close>: LimitExceededError
  \<^item> \<open>app/services/cashin_cashout_service.py\<close>: the cash-in, refund, publish and cash-out errors
  \<^item> \<open>app/services/xrpl_service.py\<close>: XRPLTransactionError
  \<^item> \<open>worker/settlement_worker.py\<close>: SettlementError
  \<^item> Python and the database: InvalidOperation, ValueError, AttributeError, IntegrityError (a
    violated unique constraint), DataError (a value outside its \<open>Numeric\<close> column),
    OtherException (anything a third-party call raises that the code does not name, with the
    text \<open>f"{type(exc).__name__}: {exc}"\<close>)
\<close>

datatype limit_period = Daily | Monthly

datatype exc =
    FeeError
  | AmountTooSmallError
  | UnsupportedPayoutCurrencyError
  | FxRateUnavailableError
  | LedgerError
  | UnsupportedCurrencyError
  | InsufficientFundsError
  | LimitExceededError limit_period rat rat rat
  | InvalidCashInMethodError
  | QuoteExpiredError
  | CashInStateError
  | RecipientNotRegisteredError
  | RefundStateError
  | SettlementPublishError
  | CashOutStateError
  | XRPLTransactionError string "string option"
  | SettlementError string
  | InvalidTokenError
  | InvalidOperation
  | ValueError
  | AttributeError
  | IntegrityError
  | DataError
  | OtherException string
  | HTTPException nat

end
