(* ===== verification/PyDecimal.thy ===== *)
theory PyDecimal
  imports Errors
begin

text \<open>
  Python's \<open>decimal.Decimal\<close> as the program uses it. A decimal is represented by its value,
  a rational; arithmetic operators round the exact result to the default context (28
  significant digits, ROUND_HALF_EVEN), and \<open>quantize\<close> rounds to a number of decimal
  places with the rounding mode it is given and raises InvalidOperation when the result needs
  more than 28 digits. The trailing zeros of a decimal, which do not change its value, and the
  exponent limits of the context (999999 digits) are not represented; NaN and the infinities
  are refused by the request schemas before any of this code runs.
\<close>

type_synonym decimal = rat

section \<open>Rounding to an integer\<close>

definition round_down :: "rat \<Rightarrow> int" where
  "round_down x = (if 0 \<le> x then \<lfloor>x\<rfloor> else \<lceil>x\<rceil>)"

definition round_half_up :: "rat \<Rightarrow> int" where
  "round_half_up x = (if 0 \<le> x then \<lfloor>x + 1/2\<rfloor> else - \<lfloor>1/2 - x\<rfloor>)"

definition round_half_even :: "rat \<Rightarrow> int" where
  "round_half_even x =
     (let n = \<lfloor>x\<rfloor>; d = x - of_int n
      in if d < 1/2 then n else if 1/2 < d then n + 1 else if even n then n else n + 1)"

text \<open>
  What the callers of a rounding mode rely on: integers are left alone, and rounding is
  monotone. Everything else that holds of every mode follows.
\<close>

locale rounding =
  fixes rnd :: "rat \<Rightarrow> int"
  assumes rnd_of_int: "rnd (of_int n) = n"
    and rnd_mono: "x \<le> y \<Longrightarrow> rnd x \<le> rnd y"
begin

lemma rnd_ge_floor: "\<lfloor>x\<rfloor> \<le> rnd x"
proof -
  have "rnd (of_int \<lfloor>x\<rfloor>) \<le> rnd x" by (rule rnd_mono) simp
  then show ?thesis by (simp add: rnd_of_int)
qed

lemma rnd_le_ceiling: "rnd x \<le> \<lceil>x\<rceil>"
proof -
  have "rnd x \<le> rnd (of_int \<lceil>x\<rceil>)" by (rule rnd_mono) simp
  then show ?thesis by (simp add: rnd_of_int)
qed

lemma rnd_nonneg: "0 \<le> x \<Longrightarrow> 0 \<le> rnd x"
  using rnd_ge_floor [of x] by linarith

lemma rnd_within_one: "\<bar>of_int (rnd x) - x\<bar> < 1"
  using rnd_ge_floor [of x] rnd_le_ceiling [of x] by linarith

end

locale rounding_nearest = rounding +
  assumes rnd_nearest: "\<bar>of_int (rnd x) - x\<bar> \<le> 1/2"

locale rounding_toward_zero = rounding +
  assumes rnd_toward_zero: "0 \<le> x \<Longrightarrow> of_int (rnd x) \<le> x"
begin

lemma rnd_floor: "0 \<le> x \<Longrightarrow> rnd x = \<lfloor>x\<rfloor>"
  using rnd_toward_zero [of x] rnd_ge_floor [of x] by linarith

end

interpretation down: rounding_toward_zero round_down
proof unfold_locales
  fix n :: int
  show "round_down (of_int n) = n"
    by (simp add: round_down_def)
next
  fix x y :: rat
  assume "x \<le> y"
  moreover have "\<lceil>x\<rceil> \<le> \<lfloor>y\<rfloor>" if "x < 0" "0 \<le> y"
    using that by (meson ceiling_le_zero less_imp_le order_trans zero_le_floor)
  ultimately show "round_down x \<le> round_down y"
    by (auto simp: round_down_def floor_mono ceiling_mono)
next
  fix x :: rat
  assume "0 \<le> x"
  then show "of_int (round_down x) \<le> x"
    by (simp add: round_down_def)
qed

interpretation half_up: rounding_nearest round_half_up
proof unfold_locales
  fix n :: int
  show "round_half_up (of_int n) = n"
    by (auto simp: round_half_up_def) linarith+
next
  fix x y :: rat
  assume "x \<le> y"
  then show "round_half_up x \<le> round_half_up y"
    by (auto simp: round_half_up_def) linarith+
next
  fix x :: rat
  show "\<bar>of_int (round_half_up x) - x\<bar> \<le> 1/2"
  proof (cases "0 \<le> x")
    case True
    then have "round_half_up x = \<lfloor>x + 1/2\<rfloor>" by (simp add: round_half_up_def)
    then show ?thesis by linarith
  next
    case False
    then have "round_half_up x = - \<lfloor>1/2 - x\<rfloor>" by (simp add: round_half_up_def)
    then show ?thesis by linarith
  qed
qed

interpretation half_even: rounding_nearest round_half_even
proof unfold_locales
  fix n :: int
  show "round_half_even (of_int n) = n"
    by (simp add: round_half_even_def)
next
  fix x y :: rat
  assume xy: "x \<le> y"
  then have fl: "\<lfloor>x\<rfloor> \<le> \<lfloor>y\<rfloor>" by (rule floor_mono)
  show "round_half_even x \<le> round_half_even y"
  proof (cases "\<lfloor>x\<rfloor> = \<lfloor>y\<rfloor>")
    case True
    with xy show ?thesis by (auto simp: round_half_even_def Let_def)
  next
    case False
    with fl show ?thesis by (auto simp: round_half_even_def Let_def)
  qed
next
  fix x :: rat
  have "of_int \<lfloor>x\<rfloor> \<le> x" "x < of_int \<lfloor>x\<rfloor> + 1" by linarith+
  then show "\<bar>of_int (round_half_even x) - x\<bar> \<le> 1/2"
    by (auto simp: round_half_even_def Let_def abs_le_iff)
qed

section \<open>The context: 28 significant digits\<close>

definition dec_prec :: int where
  "dec_prec = 28"

text \<open>The number of decimal digits of a positive integer.\<close>

function num_digits :: "int \<Rightarrow> nat" where
  "num_digits n = (if n \<le> 0 then 0 else Suc (num_digits (n div 10)))"
  by pat_completeness auto
termination
  by (relation "measure nat") auto

declare num_digits.simps [simp del]

text \<open>The number of digits before the decimal point: \<open>10^(e-1) \<le> \<bar>x\<bar> < 10^e\<close>.\<close>

definition dec_exponent :: "rat \<Rightarrow> int" where
  "dec_exponent x =
     (let (p, q) = quotient_of \<bar>x\<bar>;
          e = int (num_digits p) - int (num_digits q)
      in if \<bar>x\<bar> < 10 powi e then e else e + 1)"

definition ctx :: "rat \<Rightarrow> decimal" where
  "ctx x = (if x = 0 then 0
            else let e = dec_exponent x
                 in of_int (round_half_even (x * 10 powi (dec_prec - e))) * 10 powi (e - dec_prec))"

definition d_add :: "decimal \<Rightarrow> decimal \<Rightarrow> decimal" where
  "d_add a b = ctx (a + b)"

definition d_sub :: "decimal \<Rightarrow> decimal \<Rightarrow> decimal" where
  "d_sub a b = ctx (a - b)"

definition d_mul :: "decimal \<Rightarrow> decimal \<Rightarrow> decimal" where
  "d_mul a b = ctx (a * b)"

definition d_div :: "decimal \<Rightarrow> decimal \<Rightarrow> decimal" where
  "d_div a b = ctx (a / b)"

definition quantize :: "(rat \<Rightarrow> int) \<Rightarrow> nat \<Rightarrow> decimal \<Rightarrow> exc + decimal" where
  "quantize rnd k x =
     (let n = rnd (x * 10 ^ k)
      in if \<bar>n\<bar> < 10 ^ nat dec_prec then Inr (of_int n / 10 ^ k) else Inl InvalidOperation)"

text \<open>A value with at most \<open>k\<close> decimal places.\<close>

definition scaled :: "nat \<Rightarrow> decimal \<Rightarrow> bool" where
  "scaled k x \<longleftrightarrow> of_int \<lfloor>x * 10 ^ k\<rfloor> = x * 10 ^ k"

text \<open>
  A \<open>Numeric(p, s)\<close> column: the stored value is rounded to \<open>s\<close> decimal places, ties away
  from zero, and a value with more than \<open>p - s\<close> integer digits is refused (the column type
  of the production database, PostgreSQL).
\<close>

definition numeric_col :: "nat \<Rightarrow> nat \<Rightarrow> decimal \<Rightarrow> exc + decimal" where
  "numeric_col p s x =
     (let n = round_half_up (x * 10 ^ s)
      in if \<bar>n\<bar> < 10 ^ p then Inr (of_int n / 10 ^ s) else Inl DataError)"

section \<open>Values with a bounded number of decimal places\<close>

lemma scaled_iff: "scaled k x \<longleftrightarrow> (\<exists>n. x = of_int n / 10 ^ k)"
proof
  assume "scaled k x"
  then have "x * 10 ^ k = of_int \<lfloor>x * 10 ^ k\<rfloor>" unfolding scaled_def by (rule sym)
  then have "x = of_int \<lfloor>x * 10 ^ k\<rfloor> / 10 ^ k" by (metis nonzero_mult_div_cancel_right power_not_zero zero_neq_numeral)
  then show "\<exists>n. x = of_int n / 10 ^ k" by blast
next
  assume "\<exists>n. x = of_int n / 10 ^ k"
  then show "scaled k x" by (auto simp: scaled_def)
qed

lemma scaledI: "x * 10 ^ k = of_int n \<Longrightarrow> scaled k x"
  by (simp add: scaled_def)

lemma scaledE:
  assumes "scaled k x"
  obtains n where "x = of_int n / 10 ^ k" "x * 10 ^ k = of_int n"
  using assms by (auto simp: scaled_iff)

lemma scaled_0 [simp, intro]: "scaled k 0"
  by (simp add: scaled_def)

lemma scaled_of_int [simp, intro]: "scaled k (of_int n)"
  by (rule scaledI [of _ _ "n * 10 ^ k"]) simp

lemma scaled_numeral [simp, intro]: "scaled k (numeral n)" "scaled k 1"
  using scaled_of_int [of k "numeral n"] scaled_of_int [of k 1] by simp_all

lemma scaled_add [intro]: "scaled k x \<Longrightarrow> scaled k y \<Longrightarrow> scaled k (x + y)"
  by (auto elim!: scaledE intro: scaledI [where n = "_ + _"] simp: distrib_right)

lemma scaled_diff [intro]: "scaled k x \<Longrightarrow> scaled k y \<Longrightarrow> scaled k (x - y)"
  by (auto elim!: scaledE intro: scaledI [where n = "_ - _"] simp: left_diff_distrib)

lemma scaled_minus [intro]: "scaled k x \<Longrightarrow> scaled k (- x)"
  using scaled_diff [OF scaled_0] by fastforce

lemma scaled_mult: "scaled j x \<Longrightarrow> scaled k y \<Longrightarrow> scaled (j + k) (x * y)"
  by (auto elim!: scaledE simp: power_add intro: scaledI [where n = "_ * _"])

lemma scaled_mult_of_int [intro]: "scaled k x \<Longrightarrow> scaled k (x * of_int n)"
  using scaled_mult [of k x 0 "of_int n"] by simp

lemma scaled_div_pow10: "scaled k x \<Longrightarrow> scaled (k + j) (x / 10 ^ j)"
  by (auto elim!: scaledE simp: power_add intro: scaledI)

lemma scaled_mono: "scaled j x \<Longrightarrow> j \<le> k \<Longrightarrow> scaled k x"
proof -
  assume "scaled j x" "j \<le> k"
  then obtain n where n: "x * 10 ^ j = of_int n" by (elim scaledE)
  have "x * 10 ^ k = (x * 10 ^ j) * 10 ^ (k - j)"
    using \<open>j \<le> k\<close> by (simp add: power_add [symmetric] mult.assoc)
  also have "\<dots> = of_int (n * 10 ^ (k - j))" by (simp add: n)
  finally show ?thesis by (rule scaledI)
qed

lemma scaled_sum_list: "(\<forall>x \<in> set xs. scaled k x) \<Longrightarrow> scaled k (sum_list xs)"
  by (induction xs) auto

section \<open>The exponent\<close>

lemma num_digits_bounds: "0 < n \<Longrightarrow> 10 ^ (num_digits n - 1) \<le> n \<and> n < 10 ^ num_digits n"
proof (induction n rule: num_digits.induct)
  case (1 n)
  show ?case
  proof (cases "n div 10 \<le> 0")
    case True
    then have "num_digits n = Suc 0" using "1.prems" by (simp add: num_digits.simps [of n] num_digits.simps [of 0])
    with True "1.prems" show ?thesis by auto
  next
    case False
    let ?m = "num_digits (n div 10)"
    have ih: "10 ^ (?m - 1) \<le> n div 10" "n div 10 < 10 ^ ?m" using 1 False by auto
    have "0 < ?m" using ih(2) False by (cases ?m) auto
    then have e: "(10::int) ^ ?m = 10 * 10 ^ (?m - 1)" by (simp flip: power_Suc)
    have d: "10 * (n div 10) \<le> n" "n < 10 * (n div 10) + 10" by presburger+
    have "num_digits n = Suc ?m" using "1.prems" by (simp add: num_digits.simps [of n])
    moreover have "10 ^ ?m \<le> n" using e ih(1) d(1) by linarith
    moreover have "n < 10 ^ Suc ?m" using ih(2) d(2) unfolding power_Suc by linarith
    ultimately show ?thesis by simp
  qed
qed

lemma num_digits_pos: "0 < n \<Longrightarrow> 0 < num_digits n"
  by (simp add: num_digits.simps [of n])

lemma quotient_pos_bounds:
  assumes "0 < p" "0 < q"
  shows "10 powi (int (num_digits p) - int (num_digits q) - 1) < (of_int p / of_int q :: rat)"
    and "(of_int p / of_int q :: rat) < 10 powi (int (num_digits p) - int (num_digits q) + 1)"
proof -
  let ?P = "num_digits p" and ?Q = "num_digits q"
  have P: "10 ^ (?P - 1) \<le> p" "p < 10 ^ ?P" and Q: "10 ^ (?Q - 1) \<le> q" "q < 10 ^ ?Q"
    using num_digits_bounds [of p] num_digits_bounds [of q] assms by auto
  have pos: "0 < ?P" "0 < ?Q"
    using assms by (simp_all add: num_digits_pos)
  have Pr: "(10::rat) ^ (?P - 1) \<le> of_int p" "(of_int p :: rat) < 10 ^ ?P"
    and Qr: "(10::rat) ^ (?Q - 1) \<le> of_int q" "(of_int q :: rat) < 10 ^ ?Q"
    using P [folded of_int_le_iff [where 'a = rat] of_int_less_iff [where 'a = rat]]
      Q [folded of_int_le_iff [where 'a = rat] of_int_less_iff [where 'a = rat]] by simp_all
  have e: "int ?P - int ?Q - 1 = int (?P - 1) - int ?Q" "int ?P - int ?Q + 1 = int ?P - int (?Q - 1)"
    using pos by auto
  have "(10::rat) powi (int ?P - int ?Q - 1) = 10 ^ (?P - 1) / 10 ^ ?Q"
    unfolding e(1) by (subst power_int_diff) simp_all
  also have "\<dots> < of_int p / of_int q"
    using Pr Qr assms by (intro frac_less2) auto
  finally show "10 powi (int ?P - int ?Q - 1) < (of_int p / of_int q :: rat)" .
  have "of_int p / of_int q < (10::rat) ^ ?P / 10 ^ (?Q - 1)"
    using Pr Qr assms by (intro frac_less) auto
  also have "\<dots> = 10 powi (int ?P - int ?Q + 1)"
    unfolding e(2) by (subst power_int_diff) simp_all
  finally show "(of_int p / of_int q :: rat) < 10 powi (int ?P - int ?Q + 1)" .
qed

lemma dec_exponent_bounds:
  assumes "x \<noteq> 0"
  shows "10 powi (dec_exponent x - 1) \<le> \<bar>x\<bar>" "\<bar>x\<bar> < 10 powi (dec_exponent x)"
proof -
  obtain p q where pq: "quotient_of \<bar>x\<bar> = (p, q)" by fastforce
  then have q: "0 < q" and x: "\<bar>x\<bar> = of_int p / of_int q"
    by (auto simp: quotient_of_denom_pos quotient_of_div)
  have "0 < (of_int p / of_int q :: rat)" using assms unfolding x [symmetric] by simp
  then have p: "0 < p" using q by (simp add: zero_less_divide_iff)
  let ?e = "int (num_digits p) - int (num_digits q)"
  have b: "10 powi (?e - 1) < \<bar>x\<bar>" "\<bar>x\<bar> < 10 powi (?e + 1)"
    using quotient_pos_bounds [of p q] p q by (simp_all add: x)
  have e: "dec_exponent x = (if \<bar>x\<bar> < 10 powi ?e then ?e else ?e + 1)"
    by (simp add: dec_exponent_def pq Let_def)
  show "10 powi (dec_exponent x - 1) \<le> \<bar>x\<bar>" "\<bar>x\<bar> < 10 powi (dec_exponent x)"
    unfolding e using b by (simp_all add: linorder_not_less)
qed

section \<open>The context leaves values of up to 28 digits alone\<close>

lemma powi_diff_nat:
  fixes a :: int
  assumes "0 \<le> a"
  shows "(10::rat) powi a = 10 ^ nat a"
  using assms by (simp add: power_int_def)

lemma ctx_scaled:
  assumes s: "scaled k x" and k: "k \<le> 28" and b: "\<bar>x\<bar> < 10 ^ (28 - k)"
  shows "ctx x = x"
proof (cases "x = 0")
  case True
  then show ?thesis by (simp add: ctx_def)
next
  case False
  let ?e = "dec_exponent x"
  have "(10::rat) powi (?e - 1) < 10 powi (28 - int k)"
    using dec_exponent_bounds(1) [OF False] b k
    by (simp add: powi_diff_nat nat_diff_distrib le_less_trans)
  then have "\<not> 28 - int k \<le> ?e - 1"
    using power_int_increasing [of "28 - int k" "?e - 1" "10 :: rat"] by auto
  then have e: "int k \<le> 28 - ?e" by simp
  obtain n where n: "x * 10 ^ k = of_int n" using s by (rule scaledE)
  have "x * 10 powi (28 - ?e) = (x * 10 ^ k) * 10 powi (28 - ?e - int k)"
    by (simp add: power_int_diff)
  also have "\<dots> = of_int (n * 10 ^ nat (28 - ?e - int k))"
    using e by (simp add: n powi_diff_nat)
  finally have x: "x * 10 powi (28 - ?e) = of_int (n * 10 ^ nat (28 - ?e - int k))" .
  have "ctx x = of_int (n * 10 ^ nat (28 - ?e - int k)) * 10 powi (?e - 28)"
    using False by (simp only: ctx_def dec_prec_def Let_def x half_even.rnd_of_int if_False)
  also have "\<dots> = x * (10 powi (28 - ?e) * 10 powi (?e - 28))"
    by (simp only: x [symmetric] mult.assoc)
  also have "\<dots> = x"
    by (simp flip: power_int_add)
  finally show ?thesis .
qed

lemma ctx_error: "\<bar>ctx x - x\<bar> \<le> \<bar>x\<bar> / 10 ^ 27 / 2"
proof (cases "x = 0")
  case True
  then show ?thesis by (simp add: ctx_def)
next
  case False
  let ?e = "dec_exponent x"
  let ?y = "x * 10 powi (28 - ?e)" and ?s = "10 powi (?e - 28) :: rat"
  have inv: "(10::rat) powi (28 - ?e) * 10 powi (?e - 28) = 1"
    by (simp flip: power_int_add)
  have "ctx x - x = (of_int (round_half_even ?y) - ?y) * ?s"
    using False inv by (simp add: ctx_def dec_prec_def Let_def left_diff_distrib mult.assoc)
  then have "\<bar>ctx x - x\<bar> = \<bar>of_int (round_half_even ?y) - ?y\<bar> * ?s"
    by (simp add: abs_mult)
  also have "\<dots> \<le> 1/2 * ?s"
    by (intro mult_right_mono half_even.rnd_nearest) simp
  also have "\<dots> = 10 powi (?e - 1) / 10 ^ 27 / 2"
    by (simp add: power_int_diff)
  also have "\<dots> \<le> \<bar>x\<bar> / 10 ^ 27 / 2"
    using dec_exponent_bounds(1) [OF False] by (simp add: divide_right_mono)
  finally show ?thesis .
qed

lemma ctx_0 [simp]: "ctx 0 = 0"
  by (simp add: ctx_def)

lemma ctx_pos: "0 < x \<Longrightarrow> 0 < ctx x"
  using ctx_error [of x] by (simp add: abs_if field_simps split: if_splits)

lemma ctx_nonneg: "0 \<le> x \<Longrightarrow> 0 \<le> ctx x"
  using ctx_pos [of x] by (cases "x = 0") auto

text \<open>
  Rounding to a number of decimal places sees the exact quotient: a quotient \<open>p / q\<close> that is
  not a whole number of units is at least \<open>1 / q\<close> away from one, and the context moves it less.
\<close>

lemma floor_quotient_near:
  fixes z :: rat
  assumes q: "0 < q" and nd: "\<not> q dvd p" and z: "\<bar>z - of_int p / of_int q\<bar> < 1 / of_int q"
  shows "\<lfloor>z\<rfloor> = p div q"
proof -
  have m: "p = q * (p div q) + p mod q" by simp
  have r: "1 \<le> p mod q" "p mod q \<le> q - 1"
    using q nd pos_mod_bound [of q p] pos_mod_sign [of q p]
    by (simp_all add: dvd_eq_mod_eq_0 int_one_le_iff_zero_less order_less_le)
  have eq: "(of_int p / of_int q :: rat) = of_int (p div q) + of_int (p mod q) / of_int q"
  proof -
    have "(of_int p :: rat) = of_int q * of_int (p div q) + of_int (p mod q)"
      by (metis m of_int_add of_int_mult)
    then show ?thesis using q by (simp add: add_divide_distrib)
  qed
  have lo: "(1 :: rat) / of_int q \<le> of_int (p mod q) / of_int q"
    using r q by (intro divide_right_mono) auto
  have "(of_int (p mod q) :: rat) \<le> of_int q - 1" using r by linarith
  then have hi: "(of_int (p mod q) :: rat) / of_int q \<le> 1 - 1 / of_int q"
    using q by (simp add: field_simps)
  show ?thesis
    by (rule floor_unique) (use z eq lo hi in linarith)+
qed

lemma floor_ctx_quotient:
  assumes q: "0 < q" and p: "0 \<le> p" "p < 10 ^ 27" and k: "k \<le> 27"
    and x: "x * 10 ^ k = of_int p / of_int q"
  shows "\<lfloor>ctx x * 10 ^ k\<rfloor> = p div q"
proof (cases "q dvd p")
  case True
  then obtain m where m: "p = q * m" by (elim dvdE)
  then have xm: "x * 10 ^ k = of_int m" using x q by simp
  have "0 \<le> m" "m \<le> p" using m p(1) q by (auto simp: zero_le_mult_iff mult_le_cancel_right1)
  moreover have "(of_int m :: rat) < of_int (10 ^ 27)"
    using p(2) \<open>m \<le> p\<close> by (simp only: of_int_less_iff)
  ultimately have "\<bar>x * 10 ^ k\<bar> < 10 ^ 27" by (simp add: xm)
  then have "\<bar>x\<bar> * 10 ^ k < 10 ^ 28" by (simp add: abs_mult)
  also have "(10::rat) ^ 28 = 10 ^ (28 - k) * 10 ^ k" using k by (simp flip: power_add)
  finally have "\<bar>x\<bar> < 10 ^ (28 - k)" by simp
  moreover have "scaled k x" using xm by (rule scaledI)
  ultimately have "ctx x = x" using k by (intro ctx_scaled) auto
  then show ?thesis using xm m q by simp
next
  case False
  have "\<bar>ctx x * 10 ^ k - x * 10 ^ k\<bar> = \<bar>ctx x - x\<bar> * 10 ^ k"
    by (simp flip: left_diff_distrib add: abs_mult)
  also have "\<dots> \<le> \<bar>x\<bar> / 10 ^ 27 / 2 * 10 ^ k"
    by (intro mult_right_mono ctx_error) simp
  also have "\<dots> = \<bar>x * 10 ^ k\<bar> / 10 ^ 27 / 2" by (simp add: abs_mult)
  also have "\<dots> = of_int p / 10 ^ 27 / 2 / of_int q" using p q by (simp add: x)
  also have "\<dots> < 1 / of_int q"
  proof (rule divide_strict_right_mono)
    have "(of_int p :: rat) < of_int (10 ^ 27)" using p(2) by (simp only: of_int_less_iff)
    then show "of_int p / 10 ^ 27 / 2 < (1 :: rat)" by simp
  qed (use q in simp)
  finally have "\<bar>ctx x * 10 ^ k - of_int p / of_int q\<bar> < 1 / of_int q" by (simp add: x)
  with q False show ?thesis by (rule floor_quotient_near)
qed

lemma round_half_up_ctx_quotient:
  assumes q: "0 < q" and p: "0 \<le> p" "2 * p + q < 10 ^ 27" and k: "k < 27"
    and x: "x * 10 ^ k = of_int p / of_int q"
  shows "round_half_up (ctx x * 10 ^ k) = (2 * p + q) div (2 * q)"
proof -
  have x0: "0 \<le> x"
    using x p(1) q by (metis divide_nonneg_pos of_int_0_le_iff of_int_0_less_iff
        zero_le_mult_iff not_less zero_less_numeral zero_less_power)
  then have up: "round_half_up (ctx x * 10 ^ k) = \<lfloor>ctx x * 10 ^ k + 1/2\<rfloor>"
    by (simp add: round_half_up_def ctx_nonneg)
  have half: "(of_int (2 * p + q) / of_int (2 * q) :: rat) = of_int p / of_int q + 1/2"
  proof -
    have "(of_int q :: rat) \<noteq> 0" using q by simp
    then have "of_int q / (2 * of_int q) = (1 / 2 :: rat)" by simp
    then show ?thesis by (simp only: of_int_add of_int_mult of_int_numeral add_divide_distrib)
  qed
  show ?thesis
  proof (cases "2 * q dvd 2 * p + q")
    case True
    then obtain m where m: "2 * p + q = 2 * q * m" by (elim dvdE)
    have "x * 10 ^ k + 1/2 = of_int (2 * p + q) / of_int (2 * q)" by (simp only: half x)
    also have "\<dots> = of_int m" using q unfolding m by simp
    finally have xm: "x * 10 ^ k + 1/2 = of_int m" .
    have "x * 10 ^ Suc k = 10 * of_int m - 5" using xm by (simp add: field_simps)
    also have "\<dots> = of_int (10 * m - 5)" by simp
    finally have "scaled (Suc k) x" by (rule scaledI)
    moreover have "x < 10 ^ (28 - Suc k)"
    proof -
      have "(of_int (2 * p + q) :: rat) < of_int (10 ^ 27)" using p(2) by (simp only: of_int_less_iff)
      then have "(of_int p :: rat) < 10 ^ 27" using p(1) q by simp
      then have "x * 10 ^ k < 10 ^ 27"
        using q p(1) by (simp add: x divide_less_eq)
      also have "(10::rat) ^ 27 = 10 ^ (28 - Suc k) * 10 ^ k" using k by (simp flip: power_add)
      finally show ?thesis by simp
    qed
    ultimately have "ctx x = x" using k x0 by (intro ctx_scaled [of "Suc k"]) auto
    then show ?thesis using up xm m q by simp
  next
    case False
    have "\<bar>ctx x * 10 ^ k - x * 10 ^ k\<bar> = \<bar>ctx x - x\<bar> * 10 ^ k"
      by (simp flip: left_diff_distrib add: abs_mult)
    also have "\<dots> \<le> \<bar>x\<bar> / 10 ^ 27 / 2 * 10 ^ k"
      by (intro mult_right_mono ctx_error) simp
    also have "\<dots> = of_int p / 10 ^ 27 / 2 / of_int q" using x0 by (simp flip: x)
    also have "\<dots> < 1 / 2 / of_int q"
    proof (rule divide_strict_right_mono)
      have "(of_int (2 * p + q) :: rat) < of_int (10 ^ 27)" using p(2) by (simp only: of_int_less_iff)
      then show "of_int p / 10 ^ 27 / 2 < (1/2 :: rat)" using p(1) q by simp
    qed (use q in simp)
    finally have "\<bar>(ctx x * 10 ^ k + 1/2) - of_int (2 * p + q) / of_int (2 * q)\<bar> < 1 / of_int (2 * q)"
      by (simp only: half x)
    with q False show ?thesis unfolding up by (intro floor_quotient_near) auto
  qed
qed

section \<open>Quantising\<close>

lemma quantize_scaled_result [raise_simps]:
  "quantize rnd k x = Inr y \<longleftrightarrow> \<bar>rnd (x * 10 ^ k)\<bar> < 10 ^ 28 \<and> y = of_int (rnd (x * 10 ^ k)) / 10 ^ k"
  by (auto simp: quantize_def Let_def dec_prec_def)

lemma quantize_scaled: "quantize rnd k x = Inr y \<Longrightarrow> scaled k y"
  by (auto simp: raise_simps intro: scaledI)

lemma quantize_error: "quantize rnd k x = Inl e \<Longrightarrow> e = InvalidOperation"
  by (auto simp: quantize_def Let_def split: if_splits)

context rounding
begin

lemma quantize_id:
  assumes "scaled k x" "\<bar>x\<bar> < 10 ^ (28 - k)" "k \<le> 28"
  shows "quantize rnd k x = Inr x"
proof -
  obtain n where n: "x * 10 ^ k = of_int n" using assms(1) by (rule scaledE)
  have "\<bar>x\<bar> * 10 ^ k < 10 ^ (28 - k) * 10 ^ k" using assms(2) by simp
  also have "\<dots> = 10 ^ 28" using assms(3) by (simp flip: power_add)
  finally have "\<bar>of_int n :: rat\<bar> < of_int (10 ^ 28)" by (simp flip: n add: abs_mult)
  then have "\<bar>n\<bar> < 10 ^ 28" by (simp only: of_int_abs [symmetric] of_int_less_iff)
  moreover have "x = of_int n / 10 ^ k" by (simp flip: n)
  ultimately show ?thesis by (simp add: quantize_def dec_prec_def n rnd_of_int)
qed

lemma quantize_close:
  assumes "quantize rnd k x = Inr y"
  shows "\<bar>y - x\<bar> * 10 ^ k < 1"
proof -
  have "\<bar>y - x\<bar> * 10 ^ k = \<bar>(y - x) * 10 ^ k\<bar>" by (simp add: abs_mult)
  also have "\<dots> = \<bar>of_int (rnd (x * 10 ^ k)) - x * 10 ^ k\<bar>"
    using assms by (simp add: raise_simps left_diff_distrib)
  also have "\<dots> < 1" by (rule rnd_within_one)
  finally show ?thesis .
qed

lemma quantize_nonneg: "quantize rnd k x = Inr y \<Longrightarrow> 0 \<le> x \<Longrightarrow> 0 \<le> y"
  by (auto simp: raise_simps rnd_nonneg)

lemma quantize_mono:
  assumes "quantize rnd k x = Inr x'" "quantize rnd k y = Inr y'" "x \<le> y"
  shows "x' \<le> y'"
  using assms by (auto simp: raise_simps intro!: divide_right_mono rnd_mono mult_right_mono)

end

context rounding_toward_zero
begin

lemma quantize_le: "quantize rnd k x = Inr y \<Longrightarrow> 0 \<le> x \<Longrightarrow> y \<le> x"
  using rnd_toward_zero [of "x * 10 ^ k"] by (auto simp: raise_simps divide_le_eq)

end

lemma numeric_col_result [raise_simps]:
  "numeric_col p s x = Inr y \<longleftrightarrow>
     \<bar>round_half_up (x * 10 ^ s)\<bar> < 10 ^ p \<and> y = of_int (round_half_up (x * 10 ^ s)) / 10 ^ s"
  by (auto simp: numeric_col_def Let_def)

lemma numeric_col_scaled: "numeric_col p s x = Inr y \<Longrightarrow> scaled s y"
  by (auto simp: raise_simps intro: scaledI)

lemma numeric_col_id:
  assumes "scaled s x" and col: "numeric_col p s x = Inr y"
  shows "y = x"
proof -
  obtain n where "x * 10 ^ s = of_int n" "x = of_int n / 10 ^ s" using assms(1) by (elim scaledE)
  then show ?thesis using col by (simp add: numeric_col_result half_up.rnd_of_int)
qed

lemma numeric_col_fits:
  assumes "scaled s x" "\<bar>x\<bar> * 10 ^ s < 10 ^ p"
  shows "numeric_col p s x = Inr x"
proof -
  obtain n where n: "x * 10 ^ s = of_int n" "x = of_int n / 10 ^ s" using assms(1) by (elim scaledE)
  have "\<bar>of_int n :: rat\<bar> < of_int (10 ^ p)" using assms(2) by (simp flip: n(1) add: abs_mult)
  then have "\<bar>n\<bar> < 10 ^ p" by (simp only: of_int_abs [symmetric] of_int_less_iff)
  then show ?thesis using n by (simp add: numeric_col_def half_up.rnd_of_int)
qed

lemma numeric_col_bound:
  assumes "numeric_col p s x = Inr y"
  shows "\<bar>y\<bar> * 10 ^ s < 10 ^ p"
proof -
  have "(of_int \<bar>round_half_up (x * 10 ^ s)\<bar> :: rat) < of_int (10 ^ p)"
    using assms by (simp only: raise_simps of_int_less_iff)
  then show ?thesis using assms by (simp add: raise_simps abs_mult abs_div)
qed

lemma numeric_col_nonneg: "numeric_col p s x = Inr y \<Longrightarrow> 0 \<le> x \<Longrightarrow> 0 \<le> y"
  by (auto simp: raise_simps half_up.rnd_nonneg)

end
