(* ===== verification/Config.thy ===== *)
theory Config
  imports PyDecimal "HOL-Library.List_Lexorder" "HOL-Library.Char_ord"
begin

text \<open>
  \<open>app/config.py\<close>: the settings the modelled code reads, their defaults, and the two parsed
  list properties. \<open>secret_key\<close>, \<open>private_key_encryption_key\<close> and
  \<open>uctusd_issuer_address\<close> have no default in the code and are arguments of
  \<open>default_settings\<close>. Seconds given as floats are kept as rationals.
\<close>

record settings =
  secret_key :: string
  jwt_algorithm :: string
  access_token_expire_minutes :: int
  cors_origins :: string
  private_key_encryption_key :: string
  uctusd_issuer_address :: string
  uctusd_currency_code :: string
  supported_currencies :: string
  exchange_rate_source :: string
  fixed_remittance_fee_zar :: decimal
  percent_fee_bps :: int
  fx_margin_bps :: int
  cashout_fee_bps :: int
  fx_mock_base_rate :: decimal
  fx_mock_volatility_bps :: int
  fx_api_url :: string
  fx_api_rate_path :: string
  fx_rate_cache_seconds :: int
  fx_rate_max_stale_seconds :: int
  quote_ttl_minutes :: int
  unverified_daily_limit :: decimal
  unverified_monthly_limit :: decimal
  verified_daily_limit :: decimal
  verified_monthly_limit :: decimal
  settlement_stream_name :: string
  settlement_consumer_group :: string
  settlement_block_ms :: int
  settlement_reclaim_idle_ms :: int
  settlement_error_backoff_seconds :: rat

definition default_settings :: "string \<Rightarrow> string \<Rightarrow> string \<Rightarrow> settings" where
  "default_settings secret enc_key issuer = \<lparr>
     secret_key = secret,
     jwt_algorithm = ''HS256'',
     access_token_expire_minutes = 60,
     cors_origins = ''http://localhost:5173,http://localhost:3000'',
     private_key_encryption_key = enc_key,
     uctusd_issuer_address = issuer,
     uctusd_currency_code = ''5543545553440000000000000000000000000000'',
     supported_currencies = ''UCTUSD,USD,ZAR'',
     exchange_rate_source = ''mock'',
     fixed_remittance_fee_zar = 25,
     percent_fee_bps = 150,
     fx_margin_bps = 100,
     cashout_fee_bps = 100,
     fx_mock_base_rate = 37/2,
     fx_mock_volatility_bps = 150,
     fx_api_url = ''https://open.er-api.com/v6/latest/USD'',
     fx_api_rate_path = ''rates.ZAR'',
     fx_rate_cache_seconds = 300,
     fx_rate_max_stale_seconds = 3600,
     quote_ttl_minutes = 15,
     unverified_daily_limit = 0,
     unverified_monthly_limit = 0,
     verified_daily_limit = 3000,
     verified_monthly_limit = 25000,
     settlement_stream_name = ''crossfx-settlement-queue'',
     settlement_consumer_group = ''crossfx-settlement-workers'',
     settlement_block_ms = 5000,
     settlement_reclaim_idle_ms = 60000,
     settlement_error_backoff_seconds = 5\<rparr>"

definition cors_origins_list :: "settings \<Rightarrow> string list" where
  "cors_origins_list s =
     map py_strip (filter (\<lambda>origin. py_strip origin \<noteq> []) (py_split CHR '','' (cors_origins s)))"

definition supported_currencies_list :: "settings \<Rightarrow> string list" where
  "supported_currencies_list s =
     map (\<lambda>code. py_upper (py_strip code))
       (filter (\<lambda>code. py_strip code \<noteq> []) (py_split CHR '','' (supported_currencies s)))"

lemma supported_currencies_default:
  "supported_currencies_list (default_settings sk ek iss) = [''UCTUSD'', ''USD'', ''ZAR'']"
  unfolding supported_currencies_list_def default_settings_def by simp code_simp

text \<open>Every configured currency code is already in normal form, so normalising one twice is harmless.\<close>

lemma supported_currencies_normal:
  "code \<in> set (supported_currencies_list s) \<Longrightarrow> py_upper (py_strip code) = code"
  by (auto simp: supported_currencies_list_def)

lemma supported_currencies_nonempty:
  "code \<in> set (supported_currencies_list s) \<Longrightarrow> code \<noteq> []"
  by (auto simp: supported_currencies_list_def py_upper_def)

end
