(* ===== verification/Models.thy ===== *)
theory Models
  imports Config
begin

text \<open>
  \<open>app/models\<close>: the enums and the table rows, and the database as the record of its tables.

  Identifiers are natural numbers: \<open>uuid.uuid4()\<close> is modelled as a draw that never repeats,
  the counter \<open>next_id\<close> of the database. Instants are integers, microseconds since
  0001-01-01T00:00 UTC; the columns are timezone-naive UTC. The unique constraints of the
  tables are checked by the insert operations, which raise IntegrityError, and the
  \<open>Numeric\<close> columns of the ledger by \<open>numeric_col\<close>, which raises DataError.
\<close>

type_synonym uuid = nat
type_synonym instant = int

section \<open>Enums\<close>

datatype kyc_status = KYC_NOT_STARTED | KYC_PENDING | KYC_APPROVED | KYC_REJECTED

datatype application_status = APP_PENDING | APP_APPROVED | APP_REJECTED

datatype remittance_status =
  QUOTED | CASH_IN_CONFIRMED | QUEUED | SETTLING | SETTLED | FAILED | REFUNDED

datatype cash_out_status = CO_REQUESTED | CO_APPROVED | CO_PROCESSING | CO_COMPLETED | CO_FAILED

datatype pool_role = SEND_POOL | PAYOUT_POOL

datatype direction = INCOMING | OUTGOING

datatype entry_status = ENTRY_PENDING | ENTRY_SUCCESS | ENTRY_FAILED

text \<open>The status enums are finite, so that a statement about all statuses can be evaluated.\<close>

instantiation remittance_status :: enum
begin

definition enum_remittance_status :: "remittance_status list" where
  "enum_remittance_status =
     [QUOTED, CASH_IN_CONFIRMED, QUEUED, SETTLING, SETTLED, FAILED, REFUNDED]"

definition enum_all_remittance_status :: "(remittance_status \<Rightarrow> bool) \<Rightarrow> bool" where
  "enum_all_remittance_status P \<longleftrightarrow>
     P QUOTED \<and> P CASH_IN_CONFIRMED \<and> P QUEUED \<and> P SETTLING \<and> P SETTLED \<and> P FAILED \<and> P REFUNDED"

definition enum_ex_remittance_status :: "(remittance_status \<Rightarrow> bool) \<Rightarrow> bool" where
  "enum_ex_remittance_status P \<longleftrightarrow>
     P QUOTED \<or> P CASH_IN_CONFIRMED \<or> P QUEUED \<or> P SETTLING \<or> P SETTLED \<or> P FAILED \<or> P REFUNDED"

instance
proof
  fix P :: "remittance_status \<Rightarrow> bool"
  show "(UNIV :: remittance_status set) = set enum_class.enum"
  proof (intro set_eqI iffI)
    fix x :: remittance_status
    show "x \<in> set enum_class.enum" by (cases x) (simp_all add: enum_remittance_status_def)
  qed simp
  show "distinct (enum_class.enum :: remittance_status list)"
    by (simp add: enum_remittance_status_def)
  show "enum_class.enum_all P \<longleftrightarrow> Ball UNIV P"
    unfolding enum_all_remittance_status_def by (metis UNIV_I remittance_status.exhaust)
  show "enum_class.enum_ex P \<longleftrightarrow> Bex UNIV P"
    unfolding enum_ex_remittance_status_def by (metis UNIV_I remittance_status.exhaust)
qed

end

instantiation cash_out_status :: enum
begin

definition enum_cash_out_status :: "cash_out_status list" where
  "enum_cash_out_status = [CO_REQUESTED, CO_APPROVED, CO_PROCESSING, CO_COMPLETED, CO_FAILED]"

definition enum_all_cash_out_status :: "(cash_out_status \<Rightarrow> bool) \<Rightarrow> bool" where
  "enum_all_cash_out_status P \<longleftrightarrow>
     P CO_REQUESTED \<and> P CO_APPROVED \<and> P CO_PROCESSING \<and> P CO_COMPLETED \<and> P CO_FAILED"

definition enum_ex_cash_out_status :: "(cash_out_status \<Rightarrow> bool) \<Rightarrow> bool" where
  "enum_ex_cash_out_status P \<longleftrightarrow>
     P CO_REQUESTED \<or> P CO_APPROVED \<or> P CO_PROCESSING \<or> P CO_COMPLETED \<or> P CO_FAILED"

instance
proof
  fix P :: "cash_out_status \<Rightarrow> bool"
  show "(UNIV :: cash_out_status set) = set enum_class.enum"
  proof (intro set_eqI iffI)
    fix x :: cash_out_status
    show "x \<in> set enum_class.enum" by (cases x) (simp_all add: enum_cash_out_status_def)
  qed simp
  show "distinct (enum_class.enum :: cash_out_status list)"
    by (simp add: enum_cash_out_status_def)
  show "enum_class.enum_all P \<longleftrightarrow> Ball UNIV P"
    unfolding enum_all_cash_out_status_def by (metis UNIV_I cash_out_status.exhaust)
  show "enum_class.enum_ex P \<longleftrightarrow> Bex UNIV P"
    unfolding enum_ex_cash_out_status_def by (metis UNIV_I cash_out_status.exhaust)
qed

end

section \<open>Rows\<close>

record user =
  usr_id :: uuid
  usr_email :: string
  usr_hashed_password :: string
  usr_full_name :: string
  usr_kyc_status :: kyc_status
  usr_is_admin :: bool
  usr_created_at :: instant

record kyc_application =
  kyc_id :: uuid
  kyc_user_id :: uuid
  kyc_full_name :: string
  kyc_date_of_birth :: "int \<times> int \<times> int"
  kyc_nationality :: string
  kyc_identification_number :: string
  kyc_residential_address :: string
  kyc_mobile_number :: string
  kyc_email :: string
  kyc_source_of_funds :: string
  kyc_app_status :: application_status
  kyc_reviewed_by_admin_id :: "uuid option"
  kyc_reviewed_at :: "instant option"
  kyc_rejection_reason :: "string option"
  kyc_submitted_at :: instant

record beneficiary =
  ben_id :: uuid
  ben_sender_id :: uuid
  ben_full_name :: string
  ben_contact :: string
  ben_country :: string
  ben_preferred_payout_currency :: string
  ben_relationship_to_sender :: string
  ben_created_at :: instant

record remittance =
  rem_id :: uuid
  rem_idempotency_key :: string
  rem_sender_id :: uuid
  rem_beneficiary_id :: uuid
  rem_zar_send_amount :: decimal
  rem_fx_rate_used :: decimal
  rem_transaction_fee_zar :: decimal
  rem_fx_margin_zar :: decimal
  rem_net_converted_zar :: decimal
  rem_uctusd_amount :: decimal
  rem_status :: remittance_status
  rem_xrpl_tx_hash :: "string option"
  rem_cash_in_method :: "string option"
  rem_created_at :: instant
  rem_quote_expires_at :: "instant option"
  rem_cash_in_confirmed_at :: "instant option"
  rem_settled_at :: "instant option"
  rem_treasury_batch_id :: "string option"
  rem_treasury_settled_at :: "instant option"

record cash_out =
  co_id :: uuid
  co_user_id :: uuid
  co_uctusd_amount :: decimal
  co_cash_out_fee_uctusd :: decimal
  co_net_uctusd :: decimal
  co_payout_currency :: string
  co_payout_amount :: decimal
  co_fx_rate_used :: decimal
  co_status :: cash_out_status
  co_failure_reason :: "string option"
  co_debit_transaction_id :: "uuid option"
  co_credit_transaction_id :: "uuid option"
  co_idempotency_key :: "string option"
  co_xrpl_tx_hash :: "string option"
  co_reviewed_by_admin_id :: "uuid option"
  co_requested_at :: instant
  co_approved_at :: "instant option"
  co_completed_at :: "instant option"

record wallet =
  wal_id :: uuid
  wal_user_id :: uuid
  wal_created_at :: instant

record ledger_balance =
  bal_id :: uuid
  bal_wallet_id :: uuid
  bal_currency :: string
  bal_amount :: decimal
  bal_updated_at :: instant

record wallet_transaction =
  wtx_id :: uuid
  wtx_wallet_id :: uuid
  wtx_remittance_id :: "uuid option"
  wtx_direction :: direction
  wtx_currency :: string
  wtx_amount :: decimal
  wtx_xrpl_tx_hash :: "string option"
  wtx_status :: entry_status
  wtx_failure_reason :: "string option"
  wtx_created_at :: instant

record platform_wallet =
  pw_id :: uuid
  pw_role :: pool_role
  pw_xrpl_address :: string
  pw_xrpl_encrypted_seed :: string
  pw_trustline_established :: "instant option"
  pw_created_at :: instant

record fx_rate =
  fxr_id :: uuid
  fxr_currency_pair :: string
  fxr_rate :: decimal
  fxr_effective_from :: instant
  fxr_source :: "string option"
  fxr_created_at :: instant

definition USD_ZAR :: string where
  "USD_ZAR = ''USD/ZAR''"

section \<open>The database\<close>

record db =
  users :: "user list"
  kyc_applications :: "kyc_application list"
  beneficiaries :: "beneficiary list"
  remittances :: "remittance list"
  cash_outs :: "cash_out list"
  wallets :: "wallet list"
  ledger_balances :: "ledger_balance list"
  wallet_transactions :: "wallet_transaction list"
  platform_wallets :: "platform_wallet list"
  fx_rates :: "fx_rate list"
  next_id :: uuid

definition empty_db :: db where
  "empty_db = \<lparr>users = [], kyc_applications = [], beneficiaries = [], remittances = [],
     cash_outs = [], wallets = [], ledger_balances = [], wallet_transactions = [],
     platform_wallets = [], fx_rates = [], next_id = 0\<rparr>"

definition LIMIT_CONSUMING_STATUSES :: "remittance_status list" where
  "LIMIT_CONSUMING_STATUSES = [QUOTED, CASH_IN_CONFIRMED, QUEUED, SETTLING, SETTLED, FAILED]"

text \<open>\<open>Remittance.is_quote_expired\<close>\<close>

definition is_quote_expired :: "remittance \<Rightarrow> instant \<Rightarrow> bool" where
  "is_quote_expired r now =
     (case rem_quote_expires_at r of
        None \<Rightarrow> False
      | Some expires_at \<Rightarrow> rem_status r = QUOTED \<and> expires_at \<le> now)"

section \<open>Reads and writes by identifier\<close>

definition get_user :: "uuid \<Rightarrow> db \<Rightarrow> user option" where
  "get_user k d = get_by usr_id k (users d)"

definition get_beneficiary_row :: "uuid \<Rightarrow> db \<Rightarrow> beneficiary option" where
  "get_beneficiary_row k d = get_by ben_id k (beneficiaries d)"

definition get_remittance :: "uuid \<Rightarrow> db \<Rightarrow> remittance option" where
  "get_remittance k d = get_by rem_id k (remittances d)"

definition put_remittance :: "uuid \<Rightarrow> (remittance \<Rightarrow> remittance) \<Rightarrow> db \<Rightarrow> db" where
  "put_remittance k f d = d\<lparr>remittances := put_by rem_id k f (remittances d)\<rparr>"

definition get_cash_out_row :: "uuid \<Rightarrow> db \<Rightarrow> cash_out option" where
  "get_cash_out_row k d = get_by co_id k (cash_outs d)"

definition put_cash_out :: "uuid \<Rightarrow> (cash_out \<Rightarrow> cash_out) \<Rightarrow> db \<Rightarrow> db" where
  "put_cash_out k f d = d\<lparr>cash_outs := put_by co_id k f (cash_outs d)\<rparr>"

text \<open>
  The contract every by-identifier table gives its callers: a write through the identifier
  changes that row and no other.
\<close>

locale row_store =
  fixes get :: "'k \<Rightarrow> 'd \<Rightarrow> 'r option"
    and put :: "'k \<Rightarrow> ('r \<Rightarrow> 'r) \<Rightarrow> 'd \<Rightarrow> 'd"
    and key :: "'r \<Rightarrow> 'k"
  assumes get_key: "get k d = Some r \<Longrightarrow> key r = k"
    and get_put: "(\<And>r. key (f r) = key r) \<Longrightarrow>
      get j (put k f d) = (if j = k then map_option f (get j d) else get j d)"
begin

lemma get_put_same: "(\<And>r. key (f r) = key r) \<Longrightarrow> get k d = Some r \<Longrightarrow> get k (put k f d) = Some (f r)"
  by (simp add: get_put)

lemma get_put_other: "(\<And>r. key (f r) = key r) \<Longrightarrow> j \<noteq> k \<Longrightarrow> get j (put k f d) = get j d"
  by (simp add: get_put)

lemma put_keeps_rows:
  assumes "\<And>r. key (f r) = key r" "get j d = Some r"
  shows "\<exists>r'. get j (put k f d) = Some r'"
  using assms by (auto simp: get_put)

lemma put_keeps_field:
  assumes "\<And>r. key (f r) = key r" "\<And>r. fld (f r) = fld r"
  shows "map_option fld (get j (put k f d)) = map_option fld (get j d)"
  using assms by (simp add: get_put option.map_comp comp_def)

end

interpretation rem_store: row_store get_remittance put_remittance rem_id
  by unfold_locales
    (auto simp: get_remittance_def put_remittance_def get_by_put_by)

interpretation co_store: row_store get_cash_out_row put_cash_out co_id
  by unfold_locales
    (auto simp: get_cash_out_row_def put_cash_out_def get_by_put_by)

end
