(* ===== verification/Fees.thy ===== *)
theory Fees
  imports Models
begin

text \<open>
  \<open>app/services/fee_service.py\<close>: the quotation and cash-out arithmetic, with every decimal
  operation rounded to the context as Python rounds it, and its correctness: the context never
  changes a figure within the bounds the request schemas enforce, nothing is charged
  twice or lost, and no credit exceeds what
  the arithmetic supports.
\<close>

section \<open>Constants and results\<close>

text \<open>A quantum of \<open>10^-k\<close> is represented by its number of decimal places.\<close>

definition FIAT_QUANTUM :: nat where "FIAT_QUANTUM = 2"
definition TOKEN_QUANTUM :: nat where "TOKEN_QUANTUM = 6"
definition RATE_QUANTUM :: nat where "RATE_QUANTUM = 6"

definition SETTLEMENT_CURRENCY :: string where "SETTLEMENT_CURRENCY = ''UCTUSD''"
definition SEND_CURRENCY :: string where "SEND_CURRENCY = ''ZAR''"

definition DIRECT_FROM_UCTUSD :: "string list" where
  "DIRECT_FROM_UCTUSD = [''UCTUSD'', ''USD'']"

definition PRICEABLE_PAYOUT_CURRENCIES :: "string list" where
  "PRICEABLE_PAYOUT_CURRENCIES = DIRECT_FROM_UCTUSD @ [''ZAR'']"

record quote =
  q_zar_send_amount :: decimal
  q_fx_rate :: decimal
  q_transaction_fee_zar :: decimal
  q_fx_margin_zar :: decimal
  q_net_converted_zar :: decimal
  q_uctusd_amount :: decimal
  q_effective_rate :: decimal
  q_estimated_payout_currency :: string
  q_cash_out_fee_uctusd :: decimal
  q_estimated_payout_amount :: decimal

record cash_out_quote =
  coq_uctusd_amount :: decimal
  coq_cash_out_fee_uctusd :: decimal
  coq_net_uctusd :: decimal
  coq_payout_currency :: string
  coq_payout_amount :: decimal
  coq_fx_rate :: decimal

section \<open>The operations\<close>

definition fiat :: "decimal \<Rightarrow> exc + decimal" where
  "fiat amount = quantize round_half_up FIAT_QUANTUM amount"

definition token :: "decimal \<Rightarrow> exc + decimal" where
  "token amount = quantize round_down TOKEN_QUANTUM amount"

definition quantum_for :: "string \<Rightarrow> nat" where
  "quantum_for currency = (if currency = SETTLEMENT_CURRENCY then TOKEN_QUANTUM else FIAT_QUANTUM)"

definition convert_from_uctusd :: "decimal \<Rightarrow> string \<Rightarrow> decimal \<Rightarrow> exc + decimal" where
  "convert_from_uctusd amount payout_currency usd_zar_rate =
     (let code = py_upper (py_strip payout_currency)
      in if code \<in> set DIRECT_FROM_UCTUSD then quantize round_down (quantum_for code) amount
         else if code = ''ZAR''
         then quantize round_down (quantum_for code) (d_mul amount usd_zar_rate)
         else Inl UnsupportedPayoutCurrencyError)"

definition calculate_cash_out_payout ::
  "settings \<Rightarrow> decimal \<Rightarrow> string \<Rightarrow> decimal \<Rightarrow> exc + cash_out_quote" where
  "calculate_cash_out_payout s uctusd_amount payout_currency usd_zar_rate =
     (if uctusd_amount \<le> 0 then Inl AmountTooSmallError
      else if usd_zar_rate \<le> 0 then Inl FeeError
      else let code = py_upper (py_strip payout_currency)
      in if code \<notin> set PRICEABLE_PAYOUT_CURRENCIES then Inl UnsupportedPayoutCurrencyError
      else
        ebind (token (d_div (d_mul uctusd_amount (of_int (cashout_fee_bps s))) 10000)) (\<lambda>fee.
        ebind (token (d_sub uctusd_amount fee)) (\<lambda>net.
        if net \<le> 0 then Inl AmountTooSmallError
        else
          ebind (token uctusd_amount) (\<lambda>gross.
          ebind (convert_from_uctusd net code usd_zar_rate) (\<lambda>payout.
          Inr \<lparr>coq_uctusd_amount = gross, coq_cash_out_fee_uctusd = fee, coq_net_uctusd = net,
                coq_payout_currency = code, coq_payout_amount = payout,
                coq_fx_rate = usd_zar_rate\<rparr>)))))"

definition calculate_quote :: "settings \<Rightarrow> decimal \<Rightarrow> decimal \<Rightarrow> string \<Rightarrow> exc + quote" where
  "calculate_quote s zar_send_amount usd_zar_rate payout_currency =
     (if zar_send_amount \<le> 0 then Inl AmountTooSmallError
      else if usd_zar_rate \<le> 0 then Inl FeeError
      else
        ebind (fiat (d_add (fixed_remittance_fee_zar s)
                 (d_div (d_mul zar_send_amount (of_int (percent_fee_bps s))) 10000)))
          (\<lambda>transaction_fee.
        ebind (fiat (d_div (d_mul zar_send_amount (of_int (fx_margin_bps s))) 10000))
          (\<lambda>fx_margin.
        ebind (fiat (d_sub (d_sub zar_send_amount transaction_fee) fx_margin))
          (\<lambda>net_converted_zar.
        if net_converted_zar \<le> 0 then Inl AmountTooSmallError
        else
          ebind (token (d_div net_converted_zar usd_zar_rate)) (\<lambda>uctusd_amount.
          if uctusd_amount \<le> 0 then Inl AmountTooSmallError
          else
            ebind (calculate_cash_out_payout s uctusd_amount payout_currency usd_zar_rate)
              (\<lambda>cash_out.
            ebind (fiat zar_send_amount) (\<lambda>zar.
            ebind (quantize round_half_up RATE_QUANTUM (d_div zar_send_amount uctusd_amount))
              (\<lambda>effective.
            Inr \<lparr>q_zar_send_amount = zar, q_fx_rate = usd_zar_rate,
                  q_transaction_fee_zar = transaction_fee, q_fx_margin_zar = fx_margin,
                  q_net_converted_zar = net_converted_zar, q_uctusd_amount = uctusd_amount,
                  q_effective_rate = effective,
                  q_estimated_payout_currency = coq_payout_currency cash_out,
                  q_cash_out_fee_uctusd = coq_cash_out_fee_uctusd cash_out,
                  q_estimated_payout_amount = coq_payout_amount cash_out\<rparr>))))))))"

section \<open>The figures in exact arithmetic\<close>

text \<open>
  The specification of the two functions: the same figures computed with exact rationals, with
  no context and no InvalidOperation.
\<close>

definition places :: "nat \<Rightarrow> int \<Rightarrow> decimal" where
  "places k n = of_int n / 10 ^ k"

definition exact_payout :: "decimal \<Rightarrow> string \<Rightarrow> decimal \<Rightarrow> decimal" where
  "exact_payout net code rate =
     (let k = quantum_for code
      in places k \<lfloor>(if code = ''ZAR'' then net * rate else net) * 10 ^ k\<rfloor>)"

definition exact_cash_out :: "settings \<Rightarrow> decimal \<Rightarrow> string \<Rightarrow> decimal \<Rightarrow> exc + cash_out_quote" where
  "exact_cash_out s uctusd code rate =
     (let fee = places 6 \<lfloor>uctusd * of_int (cashout_fee_bps s) / 10000 * 10 ^ 6\<rfloor>;
          net = uctusd - fee
      in if net \<le> 0 then Inl AmountTooSmallError
         else Inr \<lparr>coq_uctusd_amount = uctusd, coq_cash_out_fee_uctusd = fee,
                    coq_net_uctusd = net, coq_payout_currency = code,
                    coq_payout_amount = exact_payout net code rate, coq_fx_rate = rate\<rparr>)"

definition exact_quote :: "settings \<Rightarrow> decimal \<Rightarrow> decimal \<Rightarrow> string \<Rightarrow> exc + quote" where
  "exact_quote s zar rate code =
     (let fee = places 2 (round_half_up
            ((fixed_remittance_fee_zar s + zar * of_int (percent_fee_bps s) / 10000) * 10 ^ 2));
          margin = places 2 (round_half_up (zar * of_int (fx_margin_bps s) / 10000 * 10 ^ 2));
          net = zar - fee - margin;
          uctusd = places 6 \<lfloor>net / rate * 10 ^ 6\<rfloor>
      in if net \<le> 0 \<or> uctusd \<le> 0 then Inl AmountTooSmallError
         else ebind (exact_cash_out s uctusd code rate) (\<lambda>c.
           Inr \<lparr>q_zar_send_amount = zar, q_fx_rate = rate, q_transaction_fee_zar = fee,
                 q_fx_margin_zar = margin, q_net_converted_zar = net, q_uctusd_amount = uctusd,
                 q_effective_rate = places 6 (round_half_up (zar / uctusd * 10 ^ 6)),
                 q_estimated_payout_currency = code,
                 q_cash_out_fee_uctusd = coq_cash_out_fee_uctusd c,
                 q_estimated_payout_amount = coq_payout_amount c\<rparr>))"

section \<open>Bounds on the inputs\<close>

text \<open>
  Fee settings that are a percentage and a modest fixed fee in cents; a send amount as the
  schema \<open>QuoteRequest\<close> admits it (two decimal places, at most R1 000 000); a rate as
  \<open>fx_rate_service\<close> returns it (six decimal places) below R1 000 000 per dollar; a cash-out
  amount as \<open>CashOutRequest\<close> admits it.
\<close>

definition fee_settings_ok :: "settings \<Rightarrow> bool" where
  "fee_settings_ok s \<longleftrightarrow>
     scaled 2 (fixed_remittance_fee_zar s) \<and>
     0 \<le> fixed_remittance_fee_zar s \<and> fixed_remittance_fee_zar s \<le> 10 ^ 6 \<and>
     0 \<le> percent_fee_bps s \<and> percent_fee_bps s \<le> 10000 \<and>
     0 \<le> fx_margin_bps s \<and> fx_margin_bps s \<le> 10000 \<and>
     0 \<le> cashout_fee_bps s \<and> cashout_fee_bps s \<le> 10000"

definition send_amount_ok :: "decimal \<Rightarrow> bool" where
  "send_amount_ok zar \<longleftrightarrow> scaled 2 zar \<and> 0 < zar \<and> zar \<le> 10 ^ 6"

definition rate_ok :: "decimal \<Rightarrow> bool" where
  "rate_ok rate \<longleftrightarrow> scaled 6 rate \<and> 0 < rate \<and> rate < 10 ^ 6"

definition token_amount_ok :: "decimal \<Rightarrow> bool" where
  "token_amount_ok x \<longleftrightarrow> scaled 6 x \<and> 0 < x \<and> x \<le> 10 ^ 12"

lemma default_fee_settings_ok: "fee_settings_ok (default_settings sk ek iss)"
  by (simp add: fee_settings_ok_def default_settings_def)

section \<open>The context never changes a figure\<close>

lemma places_scaled [simp, intro]: "scaled k (places k n)"
  by (auto simp: places_def scaled_iff)

lemma places_nonneg [simp]: "0 \<le> places k n \<longleftrightarrow> 0 \<le> n"
  by (simp add: places_def pos_le_divide_eq)

lemma places_floor_le: "places k \<lfloor>x * 10 ^ k\<rfloor> \<le> x"
  by (simp add: places_def pos_divide_le_eq)

lemma less_places_floor: "x < places k \<lfloor>x * 10 ^ k\<rfloor> + 1 / 10 ^ k"
proof -
  have "x * 10 ^ k < of_int \<lfloor>x * 10 ^ k\<rfloor> + 1" by linarith
  then have "x < (of_int \<lfloor>x * 10 ^ k\<rfloor> + 1) / 10 ^ k" by (simp add: pos_less_divide_eq)
  then show ?thesis by (simp add: places_def add_divide_distrib)
qed

lemma ctx_small:
  assumes "scaled k x" "\<bar>x\<bar> \<le> 10 ^ b" "k + b < 28"
  shows "ctx x = x"
proof (rule ctx_scaled)
  have "(10::rat) ^ b < 10 ^ (28 - k)" using assms(3) by (intro power_strict_increasing) auto
  with assms(2) show "\<bar>x\<bar> < 10 ^ (28 - k)" by linarith
qed (use assms in auto)

lemma quantize_small_half_up:
  assumes "0 \<le> x" "x \<le> 10 ^ b" "k + b < 27"
  shows "quantize round_half_up k x = Inr (places k (round_half_up (x * 10 ^ k)))"
proof -
  have "x * 10 ^ k \<le> 10 ^ b * 10 ^ k" using assms(2) by simp
  also have "\<dots> = of_int (10 ^ (b + k))" by (simp add: power_add)
  finally have "round_half_up (x * 10 ^ k) \<le> 10 ^ (b + k)"
    using half_up.rnd_mono half_up.rnd_of_int by metis
  also have "(10::int) ^ (b + k) < 10 ^ 28" using assms(3) by (intro power_strict_increasing) auto
  finally show ?thesis
    using assms(1) half_up.rnd_nonneg [of "x * 10 ^ k"]
    by (simp add: quantize_def dec_prec_def places_def)
qed

lemma quantize_small_down:
  assumes "0 \<le> x" "x \<le> 10 ^ b" "k + b < 28"
  shows "quantize round_down k x = Inr (places k \<lfloor>x * 10 ^ k\<rfloor>)"
proof -
  have "x * 10 ^ k \<le> 10 ^ b * 10 ^ k" using assms(2) by simp
  also have "\<dots> = of_int (10 ^ (b + k))" by (simp add: power_add)
  finally have "\<lfloor>x * 10 ^ k\<rfloor> \<le> 10 ^ (b + k)" by (metis floor_mono floor_of_int)
  also have "(10::int) ^ (b + k) < 10 ^ 28" using assms(3) by (intro power_strict_increasing) auto
  finally show ?thesis
    using assms(1) by (simp add: quantize_def dec_prec_def places_def down.rnd_floor)
qed

lemma quantize_keeps:
  assumes "scaled k x" "\<bar>x\<bar> \<le> 10 ^ b" "k + b < 28"
  shows "quantize round_half_up k x = Inr x" "quantize round_down k x = Inr x"
proof -
  have "(10::rat) ^ b < 10 ^ (28 - k)" using assms(3) by (intro power_strict_increasing) auto
  then have "\<bar>x\<bar> < 10 ^ (28 - k)" using assms(2) by (rule le_less_trans [rotated])
  then show "quantize round_half_up k x = Inr x" "quantize round_down k x = Inr x"
    using assms by (auto intro!: half_up.quantize_id down.quantize_id)
qed

text \<open>A percentage of an amount, in basis points: exact in the context.\<close>

lemma bps_exact:
  assumes "scaled k x" "0 \<le> x" "x \<le> 10 ^ b" "k + b < 20" "0 \<le> bps" "bps \<le> 10000"
  shows "d_div (d_mul x (of_int bps)) 10000 = x * of_int bps / 10000"
    and "0 \<le> x * of_int bps / 10000" "x * of_int bps / 10000 \<le> x"
    and "scaled (k + 4) (x * of_int bps / 10000)"
proof -
  have b: "(of_int bps :: rat) \<le> 10 ^ 4" "(0::rat) \<le> of_int bps" using assms(5,6) by simp_all
  then have m: "x * of_int bps \<le> 10 ^ b * 10 ^ 4" "0 \<le> x * of_int bps"
    using assms(2,3) by (auto intro: mult_mono)
  have s: "scaled k (x * of_int bps)" using assms(1) by auto
  have c1: "ctx (x * of_int bps) = x * of_int bps"
    using s m assms(4) by (intro ctx_small [of k _ "b + 4"]) (auto simp: power_add)
  show le: "x * of_int bps / 10000 \<le> x" using mult_left_mono [OF b(1) assms(2)] by simp
  show ge: "0 \<le> x * of_int bps / 10000" using m by simp
  show s4: "scaled (k + 4) (x * of_int bps / 10000)" using scaled_div_pow10 [OF s, of 4] by simp
  have "ctx (x * of_int bps / 10000) = x * of_int bps / 10000"
    using s4 le ge assms(3,4) by (intro ctx_small [of "k + 4" _ b]) auto
  with c1 show "d_div (d_mul x (of_int bps)) 10000 = x * of_int bps / 10000"
    by (simp add: d_div_def d_mul_def)
qed

lemma payout_exact:
  assumes net: "scaled 6 net" "0 < net" "net \<le> 10 ^ 12"
    and code: "code \<in> set PRICEABLE_PAYOUT_CURRENCIES" and rate: "rate_ok rate"
    and prod: "code = ''ZAR'' \<Longrightarrow> net * rate \<le> 10 ^ 15"
  shows "convert_from_uctusd net code rate = Inr (exact_payout net code rate)"
proof (cases "code = ''ZAR''")
  case True
  have nz: "py_upper (py_strip ''ZAR'') = ''ZAR''" by code_simp
  have r: "0 \<le> net * rate" "net * rate \<le> 10 ^ 15" "scaled 12 (net * rate)"
    using net rate prod True scaled_mult [of 6 net 6 rate] by (auto simp: rate_ok_def)
  then have "d_mul net rate = net * rate"
    unfolding d_mul_def by (intro ctx_small [of 12 _ 15]) auto
  then show ?thesis using True r nz
    by (simp add: convert_from_uctusd_def exact_payout_def quantum_for_def SETTLEMENT_CURRENCY_def
        DIRECT_FROM_UCTUSD_def FIAT_QUANTUM_def quantize_small_down [of _ 15])
next
  case False
  then have c: "code \<in> set DIRECT_FROM_UCTUSD" "code = ''UCTUSD'' \<or> code = ''USD''"
    using code by (auto simp: PRICEABLE_PAYOUT_CURRENCIES_def DIRECT_FROM_UCTUSD_def)
  have "py_upper (py_strip ''UCTUSD'') = ''UCTUSD''" "py_upper (py_strip ''USD'') = ''USD''"
    by code_simp+
  then have n: "py_upper (py_strip code) = code" using c(2) by auto
  show ?thesis using False c n net
    by (auto simp: convert_from_uctusd_def exact_payout_def quantum_for_def TOKEN_QUANTUM_def
        FIAT_QUANTUM_def quantize_small_down [of _ 12])
qed

lemma priceable_normal:
  "code \<in> set PRICEABLE_PAYOUT_CURRENCIES \<Longrightarrow> py_upper (py_strip code) = code"
proof -
  have "list_all (\<lambda>c. py_upper (py_strip c) = c) PRICEABLE_PAYOUT_CURRENCIES" by code_simp
  then show "code \<in> set PRICEABLE_PAYOUT_CURRENCIES \<Longrightarrow> py_upper (py_strip code) = code"
    by (simp add: list_all_iff)
qed

lemma cash_out_exact_core:
  assumes s: "fee_settings_ok s" and u: "token_amount_ok u" and rate: "rate_ok rate"
    and code: "py_upper (py_strip cur) \<in> set PRICEABLE_PAYOUT_CURRENCIES"
    and prod: "py_upper (py_strip cur) = ''ZAR'' \<Longrightarrow> u * rate \<le> 10 ^ 15"
  shows "calculate_cash_out_payout s u cur rate = exact_cash_out s u (py_upper (py_strip cur)) rate"
proof -
  let ?code = "py_upper (py_strip cur)"
  define p where "p = u * of_int (cashout_fee_bps s) / 10000"
  define fee where "fee = places 6 \<lfloor>p * 10 ^ 6\<rfloor>"
  have u': "scaled 6 u" "0 < u" "u \<le> 10 ^ 12" using u by (auto simp: token_amount_ok_def)
  have p: "d_div (d_mul u (of_int (cashout_fee_bps s))) 10000 = p" "0 \<le> p" "p \<le> u"
    using bps_exact [of 6 u 12 "cashout_fee_bps s"] u' s by (auto simp: fee_settings_ok_def p_def)
  have p12: "p \<le> 10 ^ 12" using p(3) u'(3) by (rule order_trans)
  have fee: "token p = Inr fee"
    unfolding token_def TOKEN_QUANTUM_def fee_def
    by (intro quantize_small_down [of _ 12, OF p(2) p12]) simp_all
  have fee_b: "scaled 6 fee" "0 \<le> fee" using p(2) by (auto simp: fee_def)
  have fee_u: "fee \<le> u" unfolding fee_def by (rule order_trans [OF places_floor_le p(3)])
  have net: "scaled 6 (u - fee)" "0 \<le> u - fee" "u - fee \<le> 10 ^ 12" "u - fee \<le> u"
    using u' fee_b fee_u by auto
  have sub: "d_sub u fee = u - fee"
    unfolding d_sub_def using net by (intro ctx_small [of 6 _ 12]) auto
  have tok: "token (u - fee) = Inr (u - fee)" "token u = Inr u"
    unfolding token_def TOKEN_QUANTUM_def using net u' by (auto intro!: quantize_keeps(2) [of _ _ 12])
  have prod': "?code = ''ZAR'' \<Longrightarrow> (u - fee) * rate \<le> 10 ^ 15"
    using prod net rate by (meson mult_right_mono less_imp_le order_trans rate_ok_def)
  have conv: "0 < u - fee \<Longrightarrow>
      convert_from_uctusd (u - fee) ?code rate = Inr (exact_payout (u - fee) ?code rate)"
    using payout_exact [OF net(1) _ net(3) code rate prod'] by blast
  have r: "0 < rate" using rate by (simp add: rate_ok_def)
  show ?thesis
    unfolding calculate_cash_out_payout_def exact_cash_out_def Let_def
      p(1) p_def [symmetric] fee_def [symmetric]
    using u' r code conv by (simp add: fee sub tok not_le)
qed

lemma half_up_places_bound:
  assumes "0 \<le> x" "x \<le> of_int m"
  shows "0 \<le> places k (round_half_up (x * 10 ^ k))" "places k (round_half_up (x * 10 ^ k)) \<le> of_int m"
proof -
  show "0 \<le> places k (round_half_up (x * 10 ^ k))"
    using assms(1) by (simp add: half_up.rnd_nonneg)
  have "x * 10 ^ k \<le> of_int (m * 10 ^ k)" using assms(2) by simp
  then have "round_half_up (x * 10 ^ k) \<le> m * 10 ^ k"
    using half_up.rnd_mono half_up.rnd_of_int by metis
  then have "(of_int (round_half_up (x * 10 ^ k)) :: rat) \<le> of_int (m * 10 ^ k)"
    by (simp only: of_int_le_iff)
  then show "places k (round_half_up (x * 10 ^ k)) \<le> of_int m"
    by (simp add: places_def pos_divide_le_eq)
qed

text \<open>The conversion of the net rand, and the all-in rate, as exact quotients.\<close>

lemma conversion_exact:
  assumes net: "scaled 2 net" "0 < net" "net \<le> 10 ^ 7" and rate: "rate_ok rate"
  shows "token (d_div net rate) = Inr (places 6 \<lfloor>net / rate * 10 ^ 6\<rfloor>)"
    and "places 6 \<lfloor>net / rate * 10 ^ 6\<rfloor> \<le> 10 ^ 13"
proof -
  obtain n where n: "net = of_int n / 10 ^ 2" "net * 10 ^ 2 = of_int n" using net(1) by (rule scaledE)
  obtain k where k: "rate = of_int k / 10 ^ 6" "rate * 10 ^ 6 = of_int k"
    using rate unfolding rate_ok_def by (meson scaledE)
  have k0: "0 < k" using rate k(1) by (simp add: rate_ok_def zero_less_divide_iff)
  have n0: "0 < n" "n \<le> 10 ^ 9" using net n(1) by (simp_all add: zero_less_divide_iff)
  have q: "net / rate * 10 ^ 6 = of_int (n * 10 ^ 10) / of_int k"
    by (simp add: n(1) k(1))
  have p: "n * 10 ^ 10 < 10 ^ 27" using n0 by simp
  have fl: "\<lfloor>ctx (net / rate) * 10 ^ 6\<rfloor> = n * 10 ^ 10 div k"
    using k0 n0 p q by (intro floor_ctx_quotient) auto
  have fl': "\<lfloor>net / rate * 10 ^ 6\<rfloor> = n * 10 ^ 10 div k"
    unfolding q by (rule floor_divide_of_int_eq)
  have pos: "0 \<le> ctx (net / rate)"
    using net rate by (intro ctx_nonneg) (simp add: rate_ok_def)
  have "n * 10 ^ 10 div k \<le> n * 10 ^ 10 div 1"
    using n0 k0 by (intro zdiv_mono2) auto
  then have b: "n * 10 ^ 10 div k \<le> 10 ^ 19" using n0 by simp
  have "0 \<le> n * 10 ^ 10 div k" using n0 k0 by (intro pos_imp_zdiv_nonneg_iff [THEN iffD2]) auto
  with b show "token (d_div net rate) = Inr (places 6 \<lfloor>net / rate * 10 ^ 6\<rfloor>)"
    using pos by (simp add: token_def TOKEN_QUANTUM_def d_div_def quantize_def dec_prec_def
        down.rnd_floor places_def fl [simplified] fl' [simplified])
  show "places 6 \<lfloor>net / rate * 10 ^ 6\<rfloor> \<le> 10 ^ 13"
    unfolding fl' places_def using b by (simp add: pos_divide_le_eq)
qed

lemma effective_rate_exact:
  assumes z: "send_amount_ok zar" and u: "scaled 6 u" "0 < u" "u \<le> 10 ^ 13"
  shows "quantize round_half_up RATE_QUANTUM (d_div zar u) = Inr (places 6 (round_half_up (zar / u * 10 ^ 6)))"
proof -
  obtain a where a: "zar = of_int a / 10 ^ 2" "zar * 10 ^ 2 = of_int a"
    using z unfolding send_amount_ok_def by (meson scaledE)
  obtain b where b: "u = of_int b / 10 ^ 6" "u * 10 ^ 6 = of_int b" using u(1) by (rule scaledE)
  have b0: "0 < b" "b \<le> 10 ^ 19" using u b(1) by (simp_all add: zero_less_divide_iff)
  have a0: "0 < a" "a \<le> 10 ^ 8" using z a(1) by (simp_all add: send_amount_ok_def zero_less_divide_iff)
  have q: "zar / u * 10 ^ 6 = of_int (a * 10 ^ 10) / of_int b"
    by (simp add: a(1) b(1))
  have p: "2 * (a * 10 ^ 10) + b < 10 ^ 27" using a0 b0 by simp
  have "round_half_up (ctx (zar / u) * 10 ^ 6) = (2 * (a * 10 ^ 10) + b) div (2 * b)"
    using a0 b0 p q by (intro round_half_up_ctx_quotient) auto
  moreover have "round_half_up (zar / u * 10 ^ 6) = (2 * (a * 10 ^ 10) + b) div (2 * b)"
  proof -
    have "zar / u * 10 ^ 6 + 1/2 = of_int (2 * (a * 10 ^ 10) + b) / of_int (2 * b)"
      unfolding q using b0 by (simp add: divide_simps)
    then have "\<lfloor>zar / u * 10 ^ 6 + 1/2\<rfloor> = (2 * (a * 10 ^ 10) + b) div (2 * b)"
      by (simp only: floor_divide_of_int_eq)
    then show ?thesis using z u by (simp add: round_half_up_def send_amount_ok_def)
  qed
  moreover have "(2 * (a * 10 ^ 10) + b) div (2 * b) \<le> (2 * (a * 10 ^ 10) + b) div 1"
    using a0 b0 by (intro zdiv_mono2) auto
  moreover have "0 \<le> (2 * (a * 10 ^ 10) + b) div (2 * b)"
    using a0 b0 by (intro pos_imp_zdiv_nonneg_iff [THEN iffD2]) auto
  ultimately show ?thesis
    using a0 b0 by (simp add: quantize_def RATE_QUANTUM_def d_div_def dec_prec_def places_def)
qed


lemma exact_cash_out_code: "exact_cash_out s u code rate = Inr c \<Longrightarrow> coq_payout_currency c = code"
  by (auto simp: exact_cash_out_def Let_def split: if_splits)

lemma quote_exact_core:
  assumes s: "fee_settings_ok s" and z: "send_amount_ok zar" and rate: "rate_ok rate"
    and code: "py_upper (py_strip cur) \<in> set PRICEABLE_PAYOUT_CURRENCIES"
    and fits: "zar \<le> rate * 10 ^ 12"
  shows "calculate_quote s zar rate cur = exact_quote s zar rate (py_upper (py_strip cur))"
proof -
  define F where "F = fixed_remittance_fee_zar s"
  define pf where "pf = zar * of_int (percent_fee_bps s) / 10000"
  define pm where "pm = zar * of_int (fx_margin_bps s) / 10000"
  define fee where "fee = places 2 (round_half_up ((F + pf) * 10 ^ 2))"
  define margin where "margin = places 2 (round_half_up (pm * 10 ^ 2))"
  define net where "net = zar - fee - margin"
  define u where "u = places 6 \<lfloor>net / rate * 10 ^ 6\<rfloor>"
  have z': "scaled 2 zar" "0 < zar" "zar \<le> 10 ^ 6" using z by (auto simp: send_amount_ok_def)
  have F: "scaled 2 F" "0 \<le> F" "F \<le> 10 ^ 6" using s by (auto simp: fee_settings_ok_def F_def)
  have pf: "d_div (d_mul zar (of_int (percent_fee_bps s))) 10000 = pf"
      "0 \<le> pf" "pf \<le> zar" "scaled 6 pf"
    using bps_exact [of 2 zar 6 "percent_fee_bps s"] z' s by (auto simp: fee_settings_ok_def pf_def)
  have pm: "d_div (d_mul zar (of_int (fx_margin_bps s))) 10000 = pm"
      "0 \<le> pm" "pm \<le> zar" "scaled 6 pm"
    using bps_exact [of 2 zar 6 "fx_margin_bps s"] z' s by (auto simp: fee_settings_ok_def pm_def)
  have sum: "scaled 6 (F + pf)" "0 \<le> F + pf" "F + pf \<le> of_int (10 ^ 7)"
    using F z' pf(2-4) scaled_mono [OF F(1), of 6] by auto
  have add: "d_add F pf = F + pf"
    unfolding d_add_def using sum by (intro ctx_small [of 6 _ 7]) auto
  have fee: "fiat (F + pf) = Inr fee"
    unfolding fiat_def FIAT_QUANTUM_def fee_def
    using sum by (intro quantize_small_half_up [of _ 7]) auto
  have pm7: "pm \<le> of_int (10 ^ 7)" using pm(3) z'(3) by simp
  have margin: "fiat pm = Inr margin"
    unfolding fiat_def FIAT_QUANTUM_def margin_def
    using pm pm7 by (intro quantize_small_half_up [of _ 7]) auto
  have b: "0 \<le> fee" "fee \<le> 10 ^ 7" "0 \<le> margin" "margin \<le> 10 ^ 7" "scaled 2 fee" "scaled 2 margin"
    using half_up_places_bound [OF sum(2,3), of 2] half_up_places_bound [OF pm(2) pm7, of 2]
    unfolding fee_def margin_def by auto
  have sc: "scaled 2 (zar - fee)" "scaled 2 net" "net \<le> zar" using z' b by (auto simp: net_def)
  have sub: "d_sub (d_sub zar fee) margin = net"
  proof -
    have "ctx (zar - fee) = zar - fee"
      using sc(1) z' b by (intro ctx_small [of 2 _ 9]) (auto simp: abs_if)
    moreover have "ctx net = net"
      using sc(2) z' b by (intro ctx_small [of 2 _ 9]) (auto simp: abs_if net_def)
    ultimately show ?thesis by (simp add: d_sub_def net_def)
  qed
  have net: "fiat net = Inr net" "fiat zar = Inr zar"
    unfolding fiat_def FIAT_QUANTUM_def
    using sc(2) z' b by (auto intro!: quantize_keeps(1) [of _ _ 9] simp: abs_if net_def)
  have r: "0 < rate" using rate by (auto simp: rate_ok_def)
  have u: "token (d_div net rate) = Inr u" "u \<le> 10 ^ 13" if "0 < net"
    using conversion_exact [OF sc(2) that _ rate] sc(3) z' unfolding u_def by auto
  have u_le: "u * rate \<le> net"
    using places_floor_le [of 6 "net / rate"] r unfolding u_def by (simp add: pos_le_divide_eq)
  have u_ok: "token_amount_ok u" if "0 < u"
  proof -
    have "u * rate \<le> rate * 10 ^ 12" using u_le sc(3) fits by linarith
    then have "u \<le> 10 ^ 12" using r by (simp add: mult.commute)
    with that show ?thesis by (auto simp: token_amount_ok_def u_def)
  qed
  have cash: "calculate_cash_out_payout s u cur rate = exact_cash_out s u (py_upper (py_strip cur)) rate"
    if "0 < u"
    using cash_out_exact_core [OF s u_ok [OF that] rate code] u_le sc(3) z' by auto
  have eff: "quantize round_half_up RATE_QUANTUM (d_div zar u) = Inr (places 6 (round_half_up (zar / u * 10 ^ 6)))"
    if "0 < net" "0 < u"
    using effective_rate_exact [OF z _ that(2)] u(2) [OF that(1)] by (auto simp: u_def)
  show ?thesis
    unfolding calculate_quote_def exact_quote_def Let_def pf(1) pm(1)
      F_def [symmetric] pf_def [symmetric] pm_def [symmetric] fee_def [symmetric]
      margin_def [symmetric] add
    unfolding net_def [symmetric] u_def [symmetric]
    using z' r u cash eff exact_cash_out_code
    by (cases "exact_cash_out s u (py_upper (py_strip cur)) rate")
      (auto simp: fee margin sub net not_le)
qed

section \<open>What a figure in a quote is worth\<close>

lemma calculate_quote_Inr:
  assumes "fee_settings_ok s" "send_amount_ok zar" "rate_ok rate" "zar \<le> rate * 10 ^ 12"
    "py_upper (py_strip cur) \<in> set PRICEABLE_PAYOUT_CURRENCIES"
    "calculate_quote s zar rate cur = Inr q"
  shows "exact_quote s zar rate (py_upper (py_strip cur)) = Inr q"
  using assms quote_exact_core by simp

lemma exact_cash_out_figures:
  assumes "exact_cash_out s u code rate = Inr c" "scaled 6 u"
  shows "coq_uctusd_amount c = u" "coq_cash_out_fee_uctusd c + coq_net_uctusd c = u"
    "0 < coq_net_uctusd c" "coq_payout_amount c = exact_payout (coq_net_uctusd c) code rate"
    "coq_fx_rate c = rate" "coq_payout_currency c = code"
    "scaled 6 (coq_net_uctusd c)" "scaled 6 (coq_cash_out_fee_uctusd c)"
  using assms by (auto simp: exact_cash_out_def Let_def split: if_splits intro!: scaled_diff)

lemma exact_cash_out_fee_nonneg:
  assumes "exact_cash_out s u code rate = Inr c" "0 \<le> u" "0 \<le> cashout_fee_bps s"
  shows "0 \<le> coq_cash_out_fee_uctusd c"
  using assms by (auto simp: exact_cash_out_def Let_def split: if_splits)

lemma exact_payout_bounds:
  fixes net rate :: rat and code :: string
  assumes "0 < net" "0 < rate"
  defines "worth \<equiv> if code = ''ZAR'' then net * rate else net"
  shows "0 \<le> exact_payout net code rate" "exact_payout net code rate \<le> worth"
    "worth < exact_payout net code rate + 1 / 10 ^ quantum_for code"
proof -
  have "0 \<le> worth" using assms by simp
  then have "0 \<le> \<lfloor>worth * 10 ^ quantum_for code\<rfloor>" by simp
  then show "0 \<le> exact_payout net code rate"
    by (simp add: exact_payout_def Let_def worth_def)
  show "exact_payout net code rate \<le> worth"
    unfolding exact_payout_def Let_def worth_def by (rule places_floor_le)
  show "worth < exact_payout net code rate + 1 / 10 ^ quantum_for code"
    unfolding exact_payout_def Let_def worth_def by (rule less_places_floor)
qed

lemma exact_quote_Inr:
  assumes "exact_quote s zar rate code = Inr q" "0 < rate"
  shows "q_zar_send_amount q = zar" "q_fx_rate q = rate"
    "q_transaction_fee_zar q + q_fx_margin_zar q + q_net_converted_zar q = zar"
    "0 < q_net_converted_zar q" "0 < q_uctusd_amount q" "scaled 6 (q_uctusd_amount q)"
    "q_uctusd_amount q * rate \<le> q_net_converted_zar q"
    "q_net_converted_zar q < (q_uctusd_amount q + 1 / 10 ^ 6) * rate"
    "\<exists>c. exact_cash_out s (q_uctusd_amount q) code rate = Inr c \<and>
         q_cash_out_fee_uctusd q = coq_cash_out_fee_uctusd c \<and>
         q_estimated_payout_amount q = coq_payout_amount c"
    "scaled 2 (q_transaction_fee_zar q)" "scaled 2 (q_fx_margin_zar q)"
proof -
  have u: "q_uctusd_amount q = places 6 \<lfloor>q_net_converted_zar q / rate * 10 ^ 6\<rfloor>"
    using assms by (auto simp: exact_quote_def Let_def raise_simps split: if_splits)
  show "q_net_converted_zar q < (q_uctusd_amount q + 1 / 10 ^ 6) * rate"
    using less_places_floor [of "q_net_converted_zar q / rate" 6] assms(2)
    unfolding u by (simp only: pos_divide_less_eq)
  show "q_uctusd_amount q * rate \<le> q_net_converted_zar q"
    using places_floor_le [of 6 "q_net_converted_zar q / rate"] assms(2)
    unfolding u by (simp only: pos_le_divide_eq)
qed (use assms in \<open>auto simp: exact_quote_def Let_def raise_simps split: if_splits\<close>)

lemma exact_quote_error: "exact_quote s zar rate code = Inl e \<Longrightarrow> e = AmountTooSmallError"
  by (auto simp: exact_quote_def exact_cash_out_def Let_def raise_simps split: if_splits)

lemma exact_quote_fees_nonneg:
  assumes "exact_quote s zar rate code = Inr q" "fee_settings_ok s" "send_amount_ok zar"
  shows "0 \<le> q_transaction_fee_zar q \<and> 0 \<le> q_fx_margin_zar q"
proof -
  have "0 \<le> zar * of_int (percent_fee_bps s)" "0 \<le> zar * of_int (fx_margin_bps s)"
    "0 \<le> fixed_remittance_fee_zar s"
    using assms(2,3) by (auto simp: fee_settings_ok_def send_amount_ok_def)
  then show ?thesis using assms(1)
    by (auto simp: exact_quote_def Let_def raise_simps half_up.rnd_nonneg split: if_splits)
qed

text \<open>The payout currency is looked at last, after every figure that can be too small.\<close>

lemma quote_unsupported:
  assumes "py_upper (py_strip cur) \<notin> set PRICEABLE_PAYOUT_CURRENCIES"
    "calculate_quote s zar rate cur = r"
  shows "r = Inl UnsupportedPayoutCurrencyError \<or>
         (\<exists>e. r = Inl e \<and> calculate_quote s zar rate ''USD'' = Inl e)"
proof -
  have "calculate_cash_out_payout s u cur rate = Inl UnsupportedPayoutCurrencyError"
    if "0 < u" "0 < rate" for u
    using assms(1) that by (simp add: calculate_cash_out_payout_def Let_def)
  then show ?thesis using assms(2)
    unfolding calculate_quote_def Let_def
    by (auto simp: ebind_def split: sum.splits if_splits)
qed

text \<open>
  C1. Inside the bounds the request schema and the rate service enforce, \<open>calculate_quote\<close>
  computes exactly the figures of the fee schedule: neither the 28-digit context nor any
  intermediate rounding changes one of them, and no InvalidOperation is raised.
\<close>

theorem calculate_quote_exact:
  assumes "fee_settings_ok s" "send_amount_ok zar" "rate_ok rate" "zar \<le> rate * 10 ^ 12"
    "py_upper (py_strip cur) \<in> set PRICEABLE_PAYOUT_CURRENCIES"
  shows "calculate_quote s zar rate cur = exact_quote s zar rate (py_upper (py_strip cur))"
  using assms by (intro quote_exact_core)

theorem calculate_quote_exact_witness:
  "calculate_quote (default_settings [] [] []) 1000 (37/2) '' usd '' =
   exact_quote (default_settings [] [] []) 1000 (37/2) ''USD''"
proof -
  have c: "py_upper (py_strip '' usd '') = ''USD''" by code_simp
  have "''USD'' \<in> set PRICEABLE_PAYOUT_CURRENCIES" by code_simp
  moreover have "scaled 2 (1000 :: rat)" "scaled 6 (37/2 :: rat)" by code_simp+
  ultimately show ?thesis
    using calculate_quote_exact [of "default_settings [] [] []" 1000 "37/2" "'' usd ''"]
    by (simp add: c default_fee_settings_ok send_amount_ok_def rate_ok_def)
qed

text \<open>Every figure fits the column it is stored in.\<close>

lemma quote_scales:
  assumes "exact_quote s zar rate code = Inr q" "scaled 2 zar" "scaled 6 rate"
  shows "scaled 2 (q_transaction_fee_zar q) \<and> scaled 2 (q_fx_margin_zar q) \<and> scaled 2 (q_net_converted_zar q) \<and>
    scaled 6 (q_fx_rate q) \<and> scaled 6 (q_uctusd_amount q) \<and> scaled 6 (q_effective_rate q) \<and>
    scaled 6 (q_cash_out_fee_uctusd q) \<and> scaled (quantum_for code) (q_estimated_payout_amount q)"
  using assms
  by (auto simp: exact_quote_def exact_cash_out_def exact_payout_def Let_def raise_simps split: if_splits
      intro!: scaled_diff)

text \<open>
  C2. A quote accounts for every cent and never over-credits: fee, margin and converted rand
  add up to the amount sent; the UCTUSD credited is worth at most the converted rand and falls
  short of it by less than one token unit; and the payout estimated for the recipient is what
  a cash-out of the credited amount at the same rate pays. Rand have two decimal places, rates and
  tokens six, and the payout those of its currency.
\<close>

theorem quote_conserves:
  assumes "fee_settings_ok s" "send_amount_ok zar" "rate_ok rate" "zar \<le> rate * 10 ^ 12"
    "py_upper (py_strip cur) \<in> set PRICEABLE_PAYOUT_CURRENCIES"
    "calculate_quote s zar rate cur = Inr q"
  shows "q_zar_send_amount q = zar \<and>
         q_transaction_fee_zar q + q_fx_margin_zar q + q_net_converted_zar q = zar \<and>
         0 < q_net_converted_zar q \<and> 0 < q_uctusd_amount q \<and>
         q_uctusd_amount q * rate \<le> q_net_converted_zar q \<and>
         q_net_converted_zar q < (q_uctusd_amount q + 1 / 10 ^ 6) * rate \<and>
         (\<exists>c. calculate_cash_out_payout s (q_uctusd_amount q) cur rate = Inr c \<and>
              q_cash_out_fee_uctusd q = coq_cash_out_fee_uctusd c \<and>
              q_estimated_payout_amount q = coq_payout_amount c) \<and>
         scaled 2 (q_transaction_fee_zar q) \<and> scaled 2 (q_fx_margin_zar q) \<and> scaled 2 (q_net_converted_zar q) \<and>
         scaled 6 (q_fx_rate q) \<and> scaled 6 (q_uctusd_amount q) \<and> scaled 6 (q_effective_rate q) \<and>
         scaled 6 (q_cash_out_fee_uctusd q) \<and>
         scaled (quantum_for (py_upper (py_strip cur))) (q_estimated_payout_amount q)"
proof -
  let ?code = "py_upper (py_strip cur)"
  have r: "0 < rate" using assms(3) by (simp add: rate_ok_def)
  note f = exact_quote_Inr [OF calculate_quote_Inr [OF assms] r]
  have sc: "scaled 2 zar" "scaled 6 rate" using assms(2,3) by (simp_all add: send_amount_ok_def rate_ok_def)
  have nn: "0 \<le> q_transaction_fee_zar q" "0 \<le> q_fx_margin_zar q"
    using exact_quote_fees_nonneg [OF calculate_quote_Inr [OF assms] assms(1,2)] by auto
  have "q_uctusd_amount q * rate \<le> rate * 10 ^ 12" using f(3,7) nn assms(4) by linarith
  then have "q_uctusd_amount q \<le> 10 ^ 12" using r by (simp add: mult.commute)
  then have u: "token_amount_ok (q_uctusd_amount q)" using f(5,6) by (simp add: token_amount_ok_def)
  have "q_uctusd_amount q * rate \<le> 10 ^ 15"
    using f(3,7) nn assms(2) unfolding send_amount_ok_def by simp
  then show ?thesis
    using f cash_out_exact_core [OF assms(1) u assms(3,5)] quote_scales [OF calculate_quote_Inr [OF assms] sc] by auto
qed

text \<open>The worked example of \<open>docs\<close> section 4.2: R1 000 at 18.50.\<close>

definition worked_quote :: quote where
  "worked_quote = \<lparr>q_zar_send_amount = 1000, q_fx_rate = 37/2, q_transaction_fee_zar = 40,
     q_fx_margin_zar = 10, q_net_converted_zar = 950, q_uctusd_amount = 51351351/1000000,
     q_effective_rate = 19473684/1000000, q_estimated_payout_currency = ''USD'',
     q_cash_out_fee_uctusd = 513513/1000000, q_estimated_payout_amount = 5083/100\<rparr>"

lemma worked_quote_computed:
  "calculate_quote (default_settings [] [] []) 1000 (37/2) ''USD'' = Inr worked_quote"
proof -
  have "exact_quote (default_settings [] [] []) 1000 (37/2) (py_upper (py_strip ''USD'')) =
      Inr worked_quote"
    by code_simp
  moreover have "py_upper (py_strip ''USD'') \<in> set PRICEABLE_PAYOUT_CURRENCIES" by code_simp
  moreover have "send_amount_ok 1000" "rate_ok (37/2)" by code_simp+
  ultimately show ?thesis
    using quote_exact_core [OF default_fee_settings_ok, of 1000 "37/2" "''USD''" "[]" "[]" "[]"]
    by simp
qed

theorem quote_conserves_witness:
  "q_transaction_fee_zar worked_quote + q_fx_margin_zar worked_quote +
     q_net_converted_zar worked_quote = 1000 \<and> 0 < q_uctusd_amount worked_quote"
proof -
  have c: "py_upper (py_strip ''USD'') \<in> set PRICEABLE_PAYOUT_CURRENCIES" by code_simp
  have z: "send_amount_ok 1000" "rate_ok (37/2)" by code_simp+
  show ?thesis
    using quote_conserves [OF default_fee_settings_ok z _ c worked_quote_computed] by simp
qed

text \<open>
  A cash-out of any amount the request schema admits is priced in exact arithmetic: the
  only error is a fee that leaves nothing; otherwise fee and net add up to the amount debited,
  the fee is not negative, and the fiat paid is worth at most the net amount and falls short
  of it by less than one unit of the payout currency.
\<close>

theorem cash_out_conserves:
  assumes "fee_settings_ok s" "token_amount_ok u" "rate_ok rate"
    "py_upper (py_strip cur) \<in> set PRICEABLE_PAYOUT_CURRENCIES" "u * rate \<le> 10 ^ 15"
  shows "case calculate_cash_out_payout s u cur rate of
      Inl e \<Rightarrow> e = AmountTooSmallError
    | Inr c \<Rightarrow>
        coq_uctusd_amount c = u \<and> coq_fx_rate c = rate \<and>
        coq_cash_out_fee_uctusd c + coq_net_uctusd c = u \<and>
        0 \<le> coq_cash_out_fee_uctusd c \<and> 0 < coq_net_uctusd c \<and>
        coq_payout_currency c = py_upper (py_strip cur) \<and>
        (let worth = (if coq_payout_currency c = ''ZAR'' then coq_net_uctusd c * rate
                      else coq_net_uctusd c)
         in coq_payout_amount c \<le> worth \<and>
            worth < coq_payout_amount c + 1 / 10 ^ quantum_for (coq_payout_currency c))"
proof -
  let ?code = "py_upper (py_strip cur)"
  have eq: "calculate_cash_out_payout s u cur rate = exact_cash_out s u ?code rate"
    using assms by (intro cash_out_exact_core) auto
  show ?thesis
  proof (cases "exact_cash_out s u ?code rate")
    case (Inl e)
    then show ?thesis by (auto simp: eq exact_cash_out_def Let_def split: if_splits)
  next
    case (Inr c)
    have u: "scaled 6 u" "0 \<le> u" "0 < rate" "0 \<le> cashout_fee_bps s"
      using assms by (auto simp: token_amount_ok_def rate_ok_def fee_settings_ok_def)
    note f = exact_cash_out_figures [OF Inr u(1)]
    show ?thesis
      using f exact_cash_out_fee_nonneg [OF Inr u(2,4)] exact_payout_bounds [OF f(3) u(3), of ?code]
      by (simp add: eq Inr Let_def)
  qed
qed

lemma cash_out_example:
  "calculate_cash_out_payout (default_settings [] [] []) 50 ''zar'' (37/2) =
     Inr \<lparr>coq_uctusd_amount = 50, coq_cash_out_fee_uctusd = 1/2, coq_net_uctusd = 99/2,
          coq_payout_currency = ''ZAR'', coq_payout_amount = 91575/100, coq_fx_rate = 37/2\<rparr>"
proof -
  have "exact_cash_out (default_settings [] [] []) 50 (py_upper (py_strip ''zar'')) (37/2) =
     Inr \<lparr>coq_uctusd_amount = 50, coq_cash_out_fee_uctusd = 1/2, coq_net_uctusd = 99/2,
          coq_payout_currency = ''ZAR'', coq_payout_amount = 91575/100, coq_fx_rate = 37/2\<rparr>"
    by code_simp
  moreover have "py_upper (py_strip ''zar'') \<in> set PRICEABLE_PAYOUT_CURRENCIES" by code_simp
  moreover have "token_amount_ok 50" "rate_ok (37/2)" by code_simp+
  moreover have "50 * (37/2) \<le> (10 :: rat) ^ 15" by simp
  ultimately show ?thesis
    using cash_out_exact_core [OF default_fee_settings_ok, of 50 "37/2" "''zar''" "[]" "[]" "[]"]
    by simp
qed

theorem cash_out_conserves_witness:
  "calculate_cash_out_payout (default_settings [] [] []) 50 ''zar'' (37/2) =
     Inr \<lparr>coq_uctusd_amount = 50, coq_cash_out_fee_uctusd = 1/2, coq_net_uctusd = 99/2,
          coq_payout_currency = ''ZAR'', coq_payout_amount = 91575/100, coq_fx_rate = 37/2\<rparr> \<and>
   (case calculate_cash_out_payout (default_settings [] [] []) 50 ''zar'' (37/2) of
      Inl e \<Rightarrow> False | Inr c \<Rightarrow> coq_cash_out_fee_uctusd c + coq_net_uctusd c = 50)"
proof -
  have run: "calculate_cash_out_payout (default_settings [] [] []) 50 ''zar'' (37/2) =
     Inr \<lparr>coq_uctusd_amount = 50, coq_cash_out_fee_uctusd = 1/2, coq_net_uctusd = 99/2,
          coq_payout_currency = ''ZAR'', coq_payout_amount = 91575/100, coq_fx_rate = 37/2\<rparr>"
    by (rule cash_out_example)
  have "py_upper (py_strip ''zar'') \<in> set PRICEABLE_PAYOUT_CURRENCIES" by code_simp
  moreover have "token_amount_ok 50" "rate_ok (37/2)" by code_simp+
  moreover have "50 * (37/2) \<le> (10 :: rat) ^ 15" by simp
  ultimately show ?thesis
    using cash_out_conserves [OF default_fee_settings_ok, of 50 "37/2" "''zar''" "[]" "[]" "[]"]
    by (simp add: run)
qed

text \<open>
  Pricing never crashes: for any send amount and rate inside the bounds and any payout
  currency string whatever, the only exceptions are the two members of the FeeError family the
  request handlers answer with a client error.
\<close>

theorem quote_errors_are_handled:
  assumes "fee_settings_ok s" "send_amount_ok zar" "rate_ok rate" "zar \<le> rate * 10 ^ 12"
    "calculate_quote s zar rate cur = Inl e"
  shows "e = AmountTooSmallError \<or>
         e = UnsupportedPayoutCurrencyError \<and>
           py_upper (py_strip cur) \<notin> set PRICEABLE_PAYOUT_CURRENCIES"
proof (cases "py_upper (py_strip cur) \<in> set PRICEABLE_PAYOUT_CURRENCIES")
  case True
  then show ?thesis using assms quote_exact_core [OF assms(1-3) True assms(4)] exact_quote_error by simp
next
  case False
  have "py_upper (py_strip ''USD'') \<in> set PRICEABLE_PAYOUT_CURRENCIES" by code_simp
  from quote_exact_core [OF assms(1-3) this assms(4)] False quote_unsupported [OF False assms(5)]
  show ?thesis using exact_quote_error by auto
qed

theorem quote_errors_are_handled_witness:
  "calculate_quote (default_settings [] [] []) 25 (37/2) ''USD'' = Inl AmountTooSmallError \<and>
   (AmountTooSmallError = AmountTooSmallError \<or>
    AmountTooSmallError = UnsupportedPayoutCurrencyError \<and>
      py_upper (py_strip ''USD'') \<notin> set PRICEABLE_PAYOUT_CURRENCIES)"
proof -
  have "exact_quote (default_settings [] [] []) 25 (37/2) (py_upper (py_strip ''USD'')) =
      Inl AmountTooSmallError"
    by code_simp
  moreover have "py_upper (py_strip ''USD'') \<in> set PRICEABLE_PAYOUT_CURRENCIES" by code_simp
  moreover have z: "send_amount_ok 25" "rate_ok (37/2)" by code_simp+
  ultimately have run:
    "calculate_quote (default_settings [] [] []) 25 (37/2) ''USD'' = Inl AmountTooSmallError"
    using quote_exact_core [OF default_fee_settings_ok, of 25 "37/2" "''USD''" "[]" "[]" "[]"]
    by simp
  show ?thesis
    using quote_errors_are_handled [OF default_fee_settings_ok z _ run] run by simp
qed

end
