(* ===== verification/Ledger.thy ===== *)
theory Ledger
  imports Fees
begin

text \<open>
  \<open>app/services/ledger.py\<close>: wallets, balances and the immutable entries behind them. The
  operations take the database and return it changed, or an exception; nothing commits here.

  The two unique constraints a concurrent request can lose a race on are modelled with the race:
  \<open>other\<close> is what another transaction commits between the SELECT and the INSERT. Section
  \<open>The ledger invariant\<close> states what every operation keeps: one wallet per user, one balance
  row per wallet and currency, one entry per remittance, direction and status, no balance
  negative or outside its column, and every balance equal to the signed sum of the entries that
  move it.
\<close>

section \<open>Inserts, with the constraints of their tables\<close>

definition wallet_of :: "uuid \<Rightarrow> db \<Rightarrow> wallet option" where
  "wallet_of user_id d = get_by wal_user_id user_id (wallets d)"

definition insert_wallet :: "uuid \<Rightarrow> instant \<Rightarrow> db \<Rightarrow> exc + wallet \<times> db" where
  "insert_wallet user_id now d =
     (if \<exists>w \<in> set (wallets d). wal_user_id w = user_id then Inl IntegrityError
      else let w = \<lparr>wal_id = next_id d, wal_user_id = user_id, wal_created_at = now\<rparr>
           in Inr (w, d\<lparr>wallets := wallets d @ [w], next_id := Suc (next_id d)\<rparr>))"

definition bal_key :: "ledger_balance \<Rightarrow> uuid \<times> string" where
  "bal_key b = (bal_wallet_id b, bal_currency b)"

definition balance_row :: "uuid \<Rightarrow> string \<Rightarrow> db \<Rightarrow> ledger_balance option" where
  "balance_row wallet_id code d = get_by bal_key (wallet_id, code) (ledger_balances d)"

definition insert_balance :: "uuid \<Rightarrow> string \<Rightarrow> instant \<Rightarrow> db \<Rightarrow> exc + ledger_balance \<times> db" where
  "insert_balance wallet_id code now d =
     (if \<exists>b \<in> set (ledger_balances d). bal_key b = (wallet_id, code) then Inl IntegrityError
      else let b = \<lparr>bal_id = next_id d, bal_wallet_id = wallet_id, bal_currency = code,
                    bal_amount = 0, bal_updated_at = now\<rparr>
           in Inr (b, d\<lparr>ledger_balances := ledger_balances d @ [b], next_id := Suc (next_id d)\<rparr>))"

text \<open>The constraint \<open>uq_wallet_tx_remittance_direction_status\<close>: NULLs repeat freely.\<close>

definition entry_key :: "wallet_transaction \<Rightarrow> uuid option \<times> direction \<times> entry_status" where
  "entry_key e = (wtx_remittance_id e, wtx_direction e, wtx_status e)"

definition insert_entry :: "wallet_transaction \<Rightarrow> db \<Rightarrow> exc + wallet_transaction \<times> db" where
  "insert_entry e d =
     (if wtx_remittance_id e \<noteq> None \<and>
         (\<exists>x \<in> set (wallet_transactions d). entry_key x = entry_key e)
      then Inl IntegrityError
      else ebind (numeric_col 18 6 (wtx_amount e)) (\<lambda>amount.
        let e' = e\<lparr>wtx_id := next_id d, wtx_amount := amount\<rparr>
        in Inr (e', d\<lparr>wallet_transactions := wallet_transactions d @ [e'],
                      next_id := Suc (next_id d)\<rparr>)))"

definition save_balance :: "uuid \<Rightarrow> decimal \<Rightarrow> instant \<Rightarrow> db \<Rightarrow> exc + db" where
  "save_balance balance_id amount now d =
     ebind (numeric_col 18 6 amount) (\<lambda>a.
       Inr (d\<lparr>ledger_balances := put_by bal_id balance_id
                (\<lambda>b. b\<lparr>bal_amount := a, bal_updated_at := now\<rparr>) (ledger_balances d)\<rparr>))"

text \<open>
  \<open>_insert_or_reselect\<close>: a lost race rolls back to the savepoint and reads the winner's row.
\<close>

definition insert_or_reselect ::
  "(db \<Rightarrow> exc + 'r \<times> db) \<Rightarrow> (db \<Rightarrow> 'r option) \<Rightarrow> db \<Rightarrow> exc + 'r \<times> db" where
  "insert_or_reselect ins reselect d =
     (case ins d of
        Inr done \<Rightarrow> Inr done
      | Inl e \<Rightarrow>
          if e = IntegrityError
          then case reselect d of None \<Rightarrow> Inl e | Some existing \<Rightarrow> Inr (existing, d)
          else Inl e)"

section \<open>The operations\<close>

definition wallet_for_raced ::
  "(db \<Rightarrow> db) \<Rightarrow> uuid \<Rightarrow> instant \<Rightarrow> db \<Rightarrow> exc + wallet \<times> db" where
  "wallet_for_raced other user_id now d =
     (case wallet_of user_id d of
        Some w \<Rightarrow> Inr (w, d)
      | None \<Rightarrow> insert_or_reselect (insert_wallet user_id now) (wallet_of user_id) (other d))"

definition wallet_for :: "uuid \<Rightarrow> instant \<Rightarrow> db \<Rightarrow> exc + wallet \<times> db" where
  "wallet_for = wallet_for_raced (\<lambda>d. d)"

definition normalise_currency :: "settings \<Rightarrow> string \<Rightarrow> exc + string" where
  "normalise_currency s currency =
     (let code = py_upper (py_strip currency)
      in if code \<notin> set (supported_currencies_list s) then Inl UnsupportedCurrencyError
         else Inr code)"

definition validate :: "settings \<Rightarrow> string \<Rightarrow> decimal \<Rightarrow> exc + string" where
  "validate s currency amount =
     (if amount \<le> 0 then Inl LedgerError else normalise_currency s currency)"

definition locked_balance_row_raced ::
  "(db \<Rightarrow> db) \<Rightarrow> uuid \<Rightarrow> string \<Rightarrow> instant \<Rightarrow> db \<Rightarrow> exc + ledger_balance \<times> db" where
  "locked_balance_row_raced other wallet_id code now d =
     (case balance_row wallet_id code d of
        Some row \<Rightarrow> Inr (row, d)
      | None \<Rightarrow>
          insert_or_reselect (insert_balance wallet_id code now) (balance_row wallet_id code)
            (other d))"

definition locked_balance_row ::
  "uuid \<Rightarrow> string \<Rightarrow> instant \<Rightarrow> db \<Rightarrow> exc + ledger_balance \<times> db" where
  "locked_balance_row = locked_balance_row_raced (\<lambda>d. d)"

definition write_entry ::
  "uuid \<Rightarrow> direction \<Rightarrow> string \<Rightarrow> decimal \<Rightarrow> uuid option \<Rightarrow> string option \<Rightarrow> entry_status \<Rightarrow>
   string option \<Rightarrow> instant \<Rightarrow> db \<Rightarrow> exc + wallet_transaction \<times> db" where
  "write_entry wallet_id dir code amount remittance_id tx_hash status failure_reason now d =
     insert_entry
       \<lparr>wtx_id = 0, wtx_wallet_id = wallet_id, wtx_remittance_id = remittance_id,
        wtx_direction = dir, wtx_currency = code, wtx_amount = amount,
        wtx_xrpl_tx_hash = tx_hash, wtx_status = status,
        wtx_failure_reason = failure_reason, wtx_created_at = now\<rparr> d"

definition move_balance ::
  "settings \<Rightarrow> uuid \<Rightarrow> direction \<Rightarrow> string \<Rightarrow> decimal \<Rightarrow> uuid option \<Rightarrow> string option \<Rightarrow>
   instant \<Rightarrow> db \<Rightarrow> exc + wallet_transaction \<times> db" where
  "move_balance s wallet_id dir currency amount remittance_id tx_hash now d =
     ebind (validate s currency amount) (\<lambda>code.
     ebind (locked_balance_row wallet_id code now d) (\<lambda>(row, d1).
     ebind (case dir of
              INCOMING \<Rightarrow> Inr (d_add (bal_amount row) amount)
            | OUTGOING \<Rightarrow>
                let new_amount = d_sub (bal_amount row) amount
                in if new_amount < 0 then Inl InsufficientFundsError else Inr new_amount)
       (\<lambda>new_amount.
     ebind (save_balance (bal_id row) new_amount now d1) (\<lambda>d2.
     write_entry wallet_id dir code amount remittance_id tx_hash ENTRY_SUCCESS None now d2))))"

definition credit ::
  "settings \<Rightarrow> uuid \<Rightarrow> string \<Rightarrow> decimal \<Rightarrow> uuid option \<Rightarrow> string option \<Rightarrow> instant \<Rightarrow> db \<Rightarrow>
   exc + wallet_transaction \<times> db" where
  "credit s wallet_id currency amount remittance_id tx_hash now d =
     move_balance s wallet_id INCOMING currency amount remittance_id tx_hash now d"

definition debit ::
  "settings \<Rightarrow> uuid \<Rightarrow> string \<Rightarrow> decimal \<Rightarrow> uuid option \<Rightarrow> string option \<Rightarrow> instant \<Rightarrow> db \<Rightarrow>
   exc + wallet_transaction \<times> db" where
  "debit s wallet_id currency amount remittance_id tx_hash now d =
     move_balance s wallet_id OUTGOING currency amount remittance_id tx_hash now d"

definition record_external ::
  "settings \<Rightarrow> uuid \<Rightarrow> direction \<Rightarrow> string \<Rightarrow> decimal \<Rightarrow> uuid option \<Rightarrow> string option \<Rightarrow>
   entry_status \<Rightarrow> string option \<Rightarrow> instant \<Rightarrow> db \<Rightarrow> exc + wallet_transaction \<times> db" where
  "record_external s wallet_id dir currency amount remittance_id tx_hash status failure_reason
     now d =
     ebind (validate s currency amount) (\<lambda>code.
       write_entry wallet_id dir code amount remittance_id tx_hash status failure_reason now d)"

definition balance :: "settings \<Rightarrow> uuid \<Rightarrow> string \<Rightarrow> db \<Rightarrow> exc + decimal" where
  "balance s wallet_id currency d =
     ebind (normalise_currency s currency) (\<lambda>code.
       Inr (case balance_row wallet_id code d of None \<Rightarrow> 0 | Some row \<Rightarrow> bal_amount row))"

text \<open>
  \<open>balances\<close>: the currency and amount of each row shown. The dictionary \<open>held\<close> keeps the
  last row of a currency; a currency not held shows a row that is never inserted.
\<close>

definition balances :: "settings \<Rightarrow> uuid \<Rightarrow> db \<Rightarrow> (string \<times> decimal) list" where
  "balances s wallet_id d =
     (let held = rev (filter (\<lambda>b. bal_wallet_id b = wallet_id) (ledger_balances d))
      in map (\<lambda>code. case get_by bal_currency code held of
                       Some row \<Rightarrow> (bal_currency row, bal_amount row)
                     | None \<Rightarrow> (code, 0))
           (supported_currencies_list s))"

section \<open>The ledger invariant\<close>

definition held :: "uuid \<Rightarrow> string \<Rightarrow> db \<Rightarrow> decimal" where
  "held wallet_id code d =
     (case balance_row wallet_id code d of None \<Rightarrow> 0 | Some row \<Rightarrow> bal_amount row)"

text \<open>
  The entries behind a balance are the successful ones, except the rand legs of a remittance
  (what the sender paid in, what a refund paid back), which \<open>record_external\<close> writes for
  money that never sat in a balance.
\<close>

definition moves :: "wallet_transaction \<Rightarrow> bool" where
  "moves e \<longleftrightarrow> wtx_status e = ENTRY_SUCCESS \<and>
     \<not> (wtx_remittance_id e \<noteq> None \<and> wtx_currency e = SEND_CURRENCY)"

definition signed :: "wallet_transaction \<Rightarrow> decimal" where
  "signed e = (case wtx_direction e of INCOMING \<Rightarrow> wtx_amount e | OUTGOING \<Rightarrow> - wtx_amount e)"

definition entry_sum :: "uuid \<Rightarrow> string \<Rightarrow> wallet_transaction list \<Rightarrow> decimal" where
  "entry_sum wallet_id code es =
     sum_list (map (\<lambda>e. if moves e \<and> wtx_wallet_id e = wallet_id \<and> wtx_currency e = code
                        then signed e else 0) es)"

definition wallets_ok :: "db \<Rightarrow> bool" where
  "wallets_ok d \<longleftrightarrow>
     fresh_ids wal_id (next_id d) (wallets d) \<and> distinct (map wal_user_id (wallets d))"

definition balance_ok :: "settings \<Rightarrow> ledger_balance \<Rightarrow> bool" where
  "balance_ok s b \<longleftrightarrow> scaled 6 (bal_amount b) \<and> 0 \<le> bal_amount b \<and> bal_amount b < 10 ^ 12 \<and>
     bal_currency b \<in> set (supported_currencies_list s)"

definition balances_ok :: "settings \<Rightarrow> db \<Rightarrow> bool" where
  "balances_ok s d \<longleftrightarrow>
     fresh_ids bal_id (next_id d) (ledger_balances d) \<and>
     distinct (map bal_key (ledger_balances d)) \<and> (\<forall>b \<in> set (ledger_balances d). balance_ok s b)"

definition entries_ok :: "db \<Rightarrow> bool" where
  "entries_ok d \<longleftrightarrow>
     fresh_ids wtx_id (next_id d) (wallet_transactions d) \<and>
     distinct (map entry_key
       (filter (\<lambda>e. wtx_remittance_id e \<noteq> None) (wallet_transactions d))) \<and>
     (\<forall>e \<in> set (wallet_transactions d).
        scaled 6 (wtx_amount e) \<and> 0 \<le> wtx_amount e)"

definition reconciled :: "db \<Rightarrow> bool" where
  "reconciled d \<longleftrightarrow> (\<forall>w c. held w c d = entry_sum w c (wallet_transactions d))"

definition ledger_shape :: "settings \<Rightarrow> db \<Rightarrow> bool" where
  "ledger_shape s d \<longleftrightarrow> wallets_ok d \<and> balances_ok s d \<and> entries_ok d"

definition ledger_inv :: "settings \<Rightarrow> db \<Rightarrow> bool" where
  "ledger_inv s d \<longleftrightarrow> ledger_shape s d \<and> reconciled d"

text \<open>What a ledger operation leaves alone: every other table, and the rows already written.\<close>

definition ledger_only :: "db \<Rightarrow> db \<Rightarrow> bool" where
  "ledger_only d d' \<longleftrightarrow>
     users d' = users d \<and> kyc_applications d' = kyc_applications d \<and>
     beneficiaries d' = beneficiaries d \<and> remittances d' = remittances d \<and>
     cash_outs d' = cash_outs d \<and> platform_wallets d' = platform_wallets d \<and>
     fx_rates d' = fx_rates d \<and> next_id d \<le> next_id d' \<and>
     (\<exists>es. wallet_transactions d' = wallet_transactions d @ es) \<and>
     (\<exists>ws. wallets d' = wallets d @ ws)"

lemma ledger_only_refl [simp]: "ledger_only d d"
  by (simp add: ledger_only_def)

lemma ledger_only_trans: "ledger_only d d1 \<Longrightarrow> ledger_only d1 d2 \<Longrightarrow> ledger_only d d2"
  by (auto simp: ledger_only_def)

lemma ledger_only_get [simp]:
  assumes "ledger_only d d'"
  shows "get_user k d' = get_user k d" "get_remittance k d' = get_remittance k d"
    "get_cash_out_row k d' = get_cash_out_row k d" "get_beneficiary_row k d' = get_beneficiary_row k d"
  using assms by (simp_all add: ledger_only_def get_user_def get_remittance_def get_cash_out_row_def
      get_beneficiary_row_def)

lemma entry_sum_append [simp]: "entry_sum w c (xs @ ys) = entry_sum w c xs + entry_sum w c ys"
  by (simp add: entry_sum_def)

lemma entry_sum_single [simp]:
  "entry_sum w c [e] = (if moves e \<and> wtx_wallet_id e = w \<and> wtx_currency e = c then signed e else 0)"
  by (simp add: entry_sum_def)

lemma empty_ledger [simp]: "ledger_inv s empty_db"
  by (simp add: ledger_inv_def ledger_shape_def wallets_ok_def balances_ok_def entries_ok_def
      reconciled_def empty_db_def held_def balance_row_def entry_sum_def)

subsection \<open>The inserts and the balance write\<close>

lemma insert_wallet_ok:
  assumes "insert_wallet u now d = Inr (w, d')" "ledger_shape s d"
  shows "ledger_shape s d'" "ledger_only d d'" "wal_user_id w = u" "wallet_of u d' = Some w"
    "wallet_transactions d' = wallet_transactions d" "held x c d' = held x c d"
  using assms
  by (auto simp: insert_wallet_def Let_def ledger_shape_def wallets_ok_def balances_ok_def
      entries_ok_def ledger_only_def held_def balance_row_def wallet_of_def get_by_snoc_new
      image_iff split: if_splits)

lemma insert_balance_Inr:
  "insert_balance w code now d = Inr (b, d') \<Longrightarrow> balance_row w code d = None"
  by (auto simp: insert_balance_def balance_row_def get_by_None split: if_splits)

lemma insert_balance_ok:
  assumes "insert_balance w code now d = Inr (b, d')" "ledger_shape s d"
    "code \<in> set (supported_currencies_list s)"
  shows "ledger_shape s d'" "ledger_only d d'" "balance_row w code d' = Some b" "bal_amount b = 0"
    "wallet_transactions d' = wallet_transactions d" "held x c d' = held x c d"
proof -
  note none = insert_balance_Inr [OF assms(1)]
  have d': "d' = d\<lparr>ledger_balances := ledger_balances d @ [b], next_id := Suc (next_id d)\<rparr>"
    and b: "b = \<lparr>bal_id = next_id d, bal_wallet_id = w, bal_currency = code, bal_amount = 0,
                bal_updated_at = now\<rparr>"
    using assms(1) by (auto simp: insert_balance_def Let_def split: if_splits)
  have new: "\<forall>r \<in> set (ledger_balances d). bal_key r \<noteq> bal_key b" "bal_key b = (w, code)" "bal_amount b = 0"
    using none by (auto simp: balance_row_def get_by_None b bal_key_def)
  show "ledger_shape s d'"
    using assms(2,3) new b
    by (auto simp: d' ledger_shape_def wallets_ok_def balances_ok_def entries_ok_def balance_ok_def)
  show "balance_row w code d' = Some b" "held x c d' = held x c d" "ledger_only d d'"
    "wallet_transactions d' = wallet_transactions d" "bal_amount b = 0"
    using none new(2,3)
    by (auto simp: held_def balance_row_def d' get_by_snoc_new [OF new(1)] ledger_only_def)
qed

lemma insert_entry_ok:
  assumes "insert_entry e d = Inr (e', d')" "ledger_shape s d" "0 \<le> wtx_amount e"
  shows "ledger_shape s d'" "ledger_only d d'"
    "wallet_transactions d' = wallet_transactions d @ [e']"
    "e' = e\<lparr>wtx_id := next_id d, wtx_amount := wtx_amount e'\<rparr>"
    "numeric_col 18 6 (wtx_amount e) = Inr (wtx_amount e')"
    "held x c d' = held x c d"
proof -
  obtain a where a: "numeric_col 18 6 (wtx_amount e) = Inr a"
    and new: "e' = e\<lparr>wtx_id := next_id d, wtx_amount := a\<rparr>"
      "d' = d\<lparr>wallet_transactions := wallet_transactions d @ [e'], next_id := Suc (next_id d)\<rparr>"
    and fresh: "wtx_remittance_id e = None \<or>
      (\<forall>x \<in> set (wallet_transactions d). entry_key x \<noteq> entry_key e)"
    using assms(1) by (auto simp: insert_entry_def Let_def ebind_eq_Inr split: if_splits)
  have "scaled 6 a" "0 \<le> a" using a assms(3) by (auto intro: numeric_col_scaled numeric_col_nonneg)
  moreover have "entry_key e' = entry_key e" by (simp add: new entry_key_def)
  ultimately have "entries_ok d'"
    using assms(2) fresh by (auto simp: new(2) ledger_shape_def entries_ok_def new(1))
  then show "ledger_shape s d'"
    using assms(2) by (auto simp: ledger_shape_def wallets_ok_def balances_ok_def new(2))
qed (use assms in \<open>auto simp: insert_entry_def Let_def ebind_eq_Inr ledger_only_def held_def
      balance_row_def split: if_splits\<close>)

lemma balance_row_Some:
  "balance_row w c d = Some r \<Longrightarrow> r \<in> set (ledger_balances d) \<and> bal_wallet_id r = w \<and> bal_currency r = c"
  by (auto simp: balance_row_def bal_key_def dest: get_by_Some)

lemma save_balance_ok:
  assumes "save_balance (bal_id r) amount now d = Inr d'" "ledger_shape s d"
    "balance_row w code d = Some r" "0 \<le> amount"
  shows "ledger_shape s d'" "ledger_only d d'"
    "wallet_transactions d' = wallet_transactions d"
    "\<exists>a. numeric_col 18 6 amount = Inr a \<and>
         held x c d' = (if x = w \<and> c = code then a else held x c d)"
proof -
  obtain a where a: "numeric_col 18 6 amount = Inr a" and d': "d' = d\<lparr>ledger_balances :=
      put_by bal_id (bal_id r) (\<lambda>b. b\<lparr>bal_amount := a, bal_updated_at := now\<rparr>) (ledger_balances d)\<rparr>"
    using assms(1) by (auto simp: save_balance_def ebind_eq_Inr)
  have shape: "wallets_ok d" "balances_ok s d" "entries_ok d"
    using assms(2) by (auto simp: ledger_shape_def)
  have "\<bar>a\<bar> * 10 ^ 6 < 10 ^ 18" by (rule numeric_col_bound [OF a])
  then have "\<bar>a\<bar> < 10 ^ 12" by simp
  then have "a < 10 ^ 12" by (rule le_less_trans [OF abs_ge_self])
  moreover have "scaled 6 a" "0 \<le> a"
    using a assms(4) by (auto intro: numeric_col_scaled numeric_col_nonneg)
  ultimately have "balances_ok s d'"
    using shape(2) by (auto simp: balances_ok_def d' set_put_by balance_ok_def bal_key_def)
  then show "ledger_shape s d'" using shape
    by (simp add: ledger_shape_def wallets_ok_def entries_ok_def d')
  show "ledger_only d d'" "wallet_transactions d' = wallet_transactions d"
    by (simp_all add: d' ledger_only_def)
  have "distinct (map bal_id (ledger_balances d))" using shape(2) by (simp add: balances_ok_def fresh_ids_def)
  then have "get_by bal_key (x, c) (ledger_balances d') =
      (if (x, c) = (w, code) then Some (r\<lparr>bal_amount := a, bal_updated_at := now\<rparr>)
       else get_by bal_key (x, c) (ledger_balances d))"
    using assms(3) by (simp add: d' balance_row_def get_by_put_by_id bal_key_def)
  then show "\<exists>a. numeric_col 18 6 amount = Inr a \<and>
      held x c d' = (if x = w \<and> c = code then a else held x c d)"
    using a by (auto simp: held_def balance_row_def)
qed

subsection \<open>The operations\<close>

lemma insert_or_reselect_Inr:
  "insert_or_reselect ins sel d = Inr (r, d') \<Longrightarrow>
   ins d = Inr (r, d') \<or> (ins d = Inl IntegrityError \<and> sel d = Some r \<and> d' = d)"
  by (auto simp: insert_or_reselect_def split: sum.splits if_splits option.splits)

lemma wallet_of_Some: "wallet_of u d = Some w \<Longrightarrow> w \<in> set (wallets d) \<and> wal_user_id w = u"
  by (auto simp: wallet_of_def dest: get_by_Some)

lemma wallet_for_raced_ok:
  assumes "wallet_for_raced other u now d = Inr (w, d')" "ledger_shape s d"
    "ledger_shape s (other d)"
  shows "ledger_shape s d'" "wal_user_id w = u" "wallet_of u d' = Some w"
    "d' = d \<or> (ledger_only (other d) d' \<and> held x c d' = held x c (other d) \<and>
       wallet_transactions d' = wallet_transactions (other d))"
proof -
  consider "wallet_of u d = Some w" "d' = d"
    | "insert_wallet u now (other d) = Inr (w, d')"
    | "wallet_of u (other d) = Some w" "d' = other d"
    using assms(1) insert_or_reselect_Inr
    by (fastforce simp: wallet_for_raced_def split: option.splits)
  note cs = this
  show "ledger_shape s d'" "wal_user_id w = u" "wallet_of u d' = Some w"
    by (cases rule: cs; use assms insert_wallet_ok [of u now "other d" w d' s] wallet_of_Some in force)+
  show "d' = d \<or> (ledger_only (other d) d' \<and> held x c d' = held x c (other d) \<and>
       wallet_transactions d' = wallet_transactions (other d))"
    by (cases rule: cs) (use assms insert_wallet_ok [of u now "other d" w d' s] in auto)
qed

lemma wallet_for_ok:
  assumes "wallet_for u now d = Inr (w, d')" "ledger_shape s d"
  shows "ledger_shape s d'" "ledger_only d d'" "wal_user_id w = u" "wallet_of u d' = Some w"
    "wallet_transactions d' = wallet_transactions d" "held x c d' = held x c d"
  using wallet_for_raced_ok(1-3) [OF assms(1) [unfolded wallet_for_def] assms(2) assms(2)]
    wallet_for_raced_ok(4) [OF assms(1) [unfolded wallet_for_def] assms(2) assms(2), of x c]
  by auto

text \<open>A missing wallet is created, so the lookup fails only on a constraint.\<close>

lemma wallet_for_total: "\<exists>w d'. wallet_for u now d = Inr (w, d')"
proof (cases "wallet_of u d")
  case None
  then have "\<not> (\<exists>w \<in> set (wallets d). wal_user_id w = u)" by (simp add: wallet_of_def get_by_None)
  then show ?thesis using None
    by (simp add: wallet_for_def wallet_for_raced_def insert_or_reselect_def insert_wallet_def Let_def)
qed (simp add: wallet_for_def wallet_for_raced_def)

lemma locked_balance_row_ok:
  assumes "locked_balance_row w code now d = Inr (r, d')" "ledger_shape s d"
    "code \<in> set (supported_currencies_list s)"
  shows "ledger_shape s d'" "ledger_only d d'" "balance_row w code d' = Some r"
    "wallet_transactions d' = wallet_transactions d" "held x c d' = held x c d"
proof -
  consider "balance_row w code d = Some r" "d' = d" | "insert_balance w code now d = Inr (r, d')"
    using assms(1) insert_or_reselect_Inr
    by (fastforce simp: locked_balance_row_def locked_balance_row_raced_def split: option.splits)
  note cs = this
  show "ledger_shape s d'" "ledger_only d d'" "balance_row w code d' = Some r"
    "wallet_transactions d' = wallet_transactions d" "held x c d' = held x c d"
    by (cases rule: cs; use assms insert_balance_ok [of w code now d r d' s] in auto)+
qed

lemma locked_balance_row_total: "\<exists>r d'. locked_balance_row w code now d = Inr (r, d')"
proof (cases "balance_row w code d")
  case None
  then have "\<not> (\<exists>b \<in> set (ledger_balances d). bal_key b = (w, code))"
    by (simp add: balance_row_def get_by_None)
  then show ?thesis using None
    by (simp add: locked_balance_row_def locked_balance_row_raced_def insert_or_reselect_def
        insert_balance_def Let_def)
qed (simp add: locked_balance_row_def locked_balance_row_raced_def)

lemma write_entry_ok:
  assumes "write_entry w dir code amount rid h st fr now d = Inr (e, d')" "ledger_shape s d"
    "0 \<le> amount"
  shows "ledger_shape s d'" "ledger_only d d'"
    "wallet_transactions d' = wallet_transactions d @ [e]" "held x c d' = held x c d"
    "wtx_id e = next_id d" "wtx_wallet_id e = w" "wtx_remittance_id e = rid" "wtx_direction e = dir"
    "wtx_currency e = code" "wtx_status e = st" "wtx_xrpl_tx_hash e = h"
    "wtx_failure_reason e = fr"
    "numeric_col 18 6 amount = Inr (wtx_amount e)"
proof -
  let ?e = "\<lparr>wtx_id = 0, wtx_wallet_id = w, wtx_remittance_id = rid, wtx_direction = dir,
        wtx_currency = code, wtx_amount = amount, wtx_xrpl_tx_hash = h, wtx_status = st,
        wtx_failure_reason = fr, wtx_created_at = now\<rparr>"
  have ins: "insert_entry ?e d = Inr (e, d')" using assms(1) by (simp add: write_entry_def)
  note ok = insert_entry_ok [OF ins assms(2)]
  show "ledger_shape s d'" "ledger_only d d'"
    "wallet_transactions d' = wallet_transactions d @ [e]" "held x c d' = held x c d"
    using ok assms(3) by simp_all
  have eq: "e = ?e\<lparr>wtx_id := next_id d, wtx_amount := wtx_amount e\<rparr>"
    using ok(4) assms(3) by simp
  show "wtx_id e = next_id d" "wtx_wallet_id e = w" "wtx_remittance_id e = rid"
    "wtx_direction e = dir" "wtx_currency e = code" "wtx_status e = st" "wtx_xrpl_tx_hash e = h"
    "wtx_failure_reason e = fr"
    by (subst eq; simp)+
  show "numeric_col 18 6 amount = Inr (wtx_amount e)" using ok(5) assms(3) by simp
qed

lemma validate_Inr:
  "validate s currency amount = Inr code \<longleftrightarrow>
     0 < amount \<and> code = py_upper (py_strip currency) \<and> code \<in> set (supported_currencies_list s)"
  by (auto simp: validate_def normalise_currency_def Let_def not_le)

lemma column_small:
  assumes "scaled 6 a" "numeric_col 18 6 a = Inr b"
  shows "b = a" "\<bar>a\<bar> < 10 ^ 12"
proof -
  show eq: "b = a" using assms by (rule numeric_col_id)
  have "\<bar>b\<bar> * 10 ^ 6 < 10 ^ 18" by (rule numeric_col_bound [OF assms(2)])
  then show "\<bar>a\<bar> < 10 ^ 12" by (simp add: eq)
qed

lemma d_add_sub_token:
  assumes "scaled 6 a" "scaled 6 b" "\<bar>a\<bar> < 10 ^ 12" "\<bar>b\<bar> < 10 ^ 12"
  shows "d_add a b = a + b" "d_sub a b = a - b"
proof -
  have "\<bar>a + b\<bar> \<le> 10 ^ 13" "\<bar>a - b\<bar> \<le> 10 ^ 13"
    using assms(3,4) by (simp_all add: abs_le_iff abs_less_iff)
  then show "d_add a b = a + b" "d_sub a b = a - b"
    unfolding d_add_def d_sub_def using assms(1,2) by (auto intro!: ctx_small [of 6 _ 13])
qed

lemma held_of_row: "balance_row w c d = Some r \<Longrightarrow> held w c d = bal_amount r"
  by (simp add: held_def)

lemma row_ok: "balance_row w c d = Some r \<Longrightarrow> ledger_shape s d \<Longrightarrow> balance_ok s r"
  by (auto dest: balance_row_Some simp: ledger_shape_def balances_ok_def)

text \<open>
  The step every credit and debit takes: the one balance moves by exactly the signed amount,
  and exactly one successful entry is appended.
\<close>

lemma move_balance_ok:
  assumes run: "move_balance s w dir currency amount rid h now d = Inr (e, d')"
    and inv: "ledger_shape s d" and amt: "scaled 6 amount"
  defines "code \<equiv> py_upper (py_strip currency)"
    and "delta \<equiv> (case dir of INCOMING \<Rightarrow> amount | OUTGOING \<Rightarrow> - amount)"
  shows "ledger_shape s d'" "ledger_only d d'"
    "held x c d' = held x c d + (if x = w \<and> c = code then delta else 0)"
    "wallet_transactions d' = wallet_transactions d @ [e]"
    "wtx_wallet_id e = w" "wtx_remittance_id e = rid" "wtx_direction e = dir"
    "wtx_currency e = code" "wtx_status e = ENTRY_SUCCESS" "wtx_amount e = amount"
    "wtx_xrpl_tx_hash e = h"
    "0 < amount" "amount < 10 ^ 12" "code \<in> set (supported_currencies_list s)"
    "dir = OUTGOING \<longrightarrow> amount \<le> held w code d"
proof -
  obtain r d1 new d2 where v: "validate s currency amount = Inr code"
    and lock: "locked_balance_row w code now d = Inr (r, d1)"
    and new: "(case dir of INCOMING \<Rightarrow> Inr (d_add (bal_amount r) amount)
            | OUTGOING \<Rightarrow> (let n = d_sub (bal_amount r) amount
                in if n < 0 then Inl InsufficientFundsError else Inr n)) = Inr new"
    and save: "save_balance (bal_id r) new now d1 = Inr d2"
    and wr: "write_entry w dir code amount rid h ENTRY_SUCCESS None now d2 = Inr (e, d')"
    using run unfolding move_balance_def
    by (auto simp: validate_Inr code_def ebind_eq_Inr)
  have pos: "0 < amount" "code \<in> set (supported_currencies_list s)"
    using v by (auto simp: validate_Inr)
  note l = locked_balance_row_ok [OF lock inv pos(2)]
  have r: "scaled 6 (bal_amount r)" "0 \<le> bal_amount r" "bal_amount r < 10 ^ 12"
    using row_ok [OF l(3,1)] by (auto simp: balance_ok_def)
  have "0 \<le> d_add (bal_amount r) amount"
    unfolding d_add_def using r pos by (intro ctx_nonneg) simp
  then have new0: "0 \<le> new"
    using new by (auto simp: Let_def split: direction.splits if_splits)
  note sv = save_balance_ok [OF save l(1,3) new0]
  note w = write_entry_ok [OF wr sv(1) less_imp_le [OF pos(1)]]
  note col = column_small [OF amt w(13)]
  have small: "\<bar>bal_amount r\<bar> < 10 ^ 12" using r by simp
  have eqs: "d_add (bal_amount r) amount = bal_amount r + amount"
    "d_sub (bal_amount r) amount = bal_amount r - amount"
    using d_add_sub_token [OF r(1) amt small col(2)] by auto
  have hr: "bal_amount r = held w code d" using l(5) [of w code] held_of_row [OF l(3)] by simp
  have new': "new = held w code d + delta"
    using new [unfolded hr] by (auto simp: eqs [unfolded hr] delta_def Let_def split: direction.splits if_splits)
  then have "scaled 6 new" using r(1) amt hr
    by (auto simp: delta_def split: direction.splits intro!: scaled_add scaled_diff)
  then have "numeric_col 18 6 new = Inr a \<Longrightarrow> a = new" for a by (rule column_small)
  then show "held x c d' = held x c d + (if x = w \<and> c = code then delta else 0)"
    using sv(4) [of x c] w(4) [of x c] l(5) [of x c] new' by auto
  show "ledger_shape s d'" by (rule w)
  show "ledger_only d d'" using l(2) sv(2) w(2) by (blast intro: ledger_only_trans)
  show "wallet_transactions d' = wallet_transactions d @ [e]" using w(3) sv(3) l(4) by simp
  show "wtx_wallet_id e = w" "wtx_remittance_id e = rid" "wtx_direction e = dir"
    "wtx_currency e = code" "wtx_status e = ENTRY_SUCCESS" "wtx_xrpl_tx_hash e = h"
    by (rule w)+
  show "wtx_amount e = amount" "0 < amount" "amount < 10 ^ 12" "code \<in> set (supported_currencies_list s)"
    using col pos by auto
  show "dir = OUTGOING \<longrightarrow> amount \<le> held w code d"
    using new' new0 by (auto simp: delta_def)
qed

lemma record_external_ok:
  assumes run: "record_external s w dir currency amount rid h st fr now d = Inr (e, d')"
    and inv: "ledger_shape s d"
  defines "code \<equiv> py_upper (py_strip currency)"
  shows "ledger_shape s d'" "ledger_only d d'" "held x c d' = held x c d"
    "wallet_transactions d' = wallet_transactions d @ [e]"
    "wtx_wallet_id e = w" "wtx_remittance_id e = rid" "wtx_direction e = dir"
    "wtx_currency e = code" "wtx_status e = st" "wtx_xrpl_tx_hash e = h"
    "numeric_col 18 6 amount = Inr (wtx_amount e)" "0 < amount"
    "code \<in> set (supported_currencies_list s)"
proof -
  have v: "0 < amount" "code \<in> set (supported_currencies_list s)"
    and wr: "write_entry w dir code amount rid h st fr now d = Inr (e, d')"
    using run by (auto simp: record_external_def ebind_eq_Inr validate_Inr code_def)
  note ok = write_entry_ok [OF wr inv less_imp_le [OF v(1)]]
  show "ledger_shape s d'" "ledger_only d d'" "held x c d' = held x c d"
    "wallet_transactions d' = wallet_transactions d @ [e]"
    "wtx_wallet_id e = w" "wtx_remittance_id e = rid" "wtx_direction e = dir"
    "wtx_currency e = code" "wtx_status e = st" "wtx_xrpl_tx_hash e = h"
    "numeric_col 18 6 amount = Inr (wtx_amount e)" "0 < amount"
    "code \<in> set (supported_currencies_list s)"
    by (rule ok v)+
qed

text \<open>The four preservation lemmas of the invariant.\<close>

lemma send_currency_normal [simp]: "py_upper (py_strip SEND_CURRENCY) = SEND_CURRENCY"
  by code_simp

lemma settlement_currency_normal [simp]:
  "py_upper (py_strip SETTLEMENT_CURRENCY) = SETTLEMENT_CURRENCY"
  by code_simp

lemma settlement_not_send [simp]: "SETTLEMENT_CURRENCY \<noteq> SEND_CURRENCY" "SEND_CURRENCY \<noteq> SETTLEMENT_CURRENCY"
  by (simp_all add: SETTLEMENT_CURRENCY_def SEND_CURRENCY_def)

lemma wallet_for_inv:
  "wallet_for u now d = Inr (w, d') \<Longrightarrow> ledger_inv s d \<Longrightarrow> ledger_inv s d'"
  using wallet_for_ok by (auto simp: ledger_inv_def reconciled_def)

lemma move_balance_inv:
  assumes "move_balance s w dir currency amount rid h now d = Inr (e, d')" "ledger_inv s d"
    "scaled 6 amount" "rid = None \<or> py_upper (py_strip currency) \<noteq> SEND_CURRENCY"
  shows "ledger_inv s d'"
proof -
  have sh: "ledger_shape s d" using assms(2) by (simp add: ledger_inv_def)
  note ok = move_balance_ok [OF assms(1) sh assms(3)]
  have "reconciled d'"
    unfolding reconciled_def
  proof (intro allI)
    fix x c
    show "held x c d' = entry_sum x c (wallet_transactions d')"
      unfolding ok(3) [of x c] ok(4) using assms(2,4) ok(5-10)
      by (auto simp: ledger_inv_def reconciled_def moves_def signed_def split: direction.splits)
  qed
  with ok(1) show ?thesis by (simp add: ledger_inv_def)
qed

lemma record_external_inv:
  assumes "record_external s w dir currency amount rid h st fr now d = Inr (e, d')" "ledger_inv s d"
    "st \<noteq> ENTRY_SUCCESS \<or> rid \<noteq> None \<and> py_upper (py_strip currency) = SEND_CURRENCY"
  shows "ledger_inv s d'"
proof -
  have sh: "ledger_shape s d" using assms(2) by (simp add: ledger_inv_def)
  note ok = record_external_ok [OF assms(1) sh]
  have "\<not> moves e" using assms(3) ok(6,8,9) by (auto simp: moves_def)
  then show ?thesis using ok(1) assms(2) unfolding ledger_inv_def reconciled_def ok(3,4) by auto
qed

section \<open>The contract the services rely on\<close>

text \<open>
  What the cash-in, cash-out and settlement code relies on: a movement changes one balance by
  exactly its amount, and a debit goes through exactly when the balance covers it.
\<close>

locale money_ledger =
  fixes inv :: "'d \<Rightarrow> bool"
    and bal :: "'w \<Rightarrow> 'c \<Rightarrow> 'd \<Rightarrow> decimal"
    and ok :: "'c \<Rightarrow> decimal \<Rightarrow> bool"
    and cred :: "'w \<Rightarrow> 'c \<Rightarrow> decimal \<Rightarrow> 'd \<Rightarrow> exc + 'e \<times> 'd"
    and debt :: "'w \<Rightarrow> 'c \<Rightarrow> decimal \<Rightarrow> 'd \<Rightarrow> exc + 'e \<times> 'd"
  assumes bal_nonneg: "inv d \<Longrightarrow> 0 \<le> bal w c d"
    and credit_effect: "inv d \<Longrightarrow> ok c a \<Longrightarrow> cred w c a d = Inr (e, d') \<Longrightarrow>
      inv d' \<and> (\<forall>x k. bal x k d' = bal x k d + (if x = w \<and> k = c then a else 0))"
    and debit_effect: "inv d \<Longrightarrow> ok c a \<Longrightarrow> debt w c a d = Inr (e, d') \<Longrightarrow>
      inv d' \<and> (\<forall>x k. bal x k d' = bal x k d - (if x = w \<and> k = c then a else 0))"
    and debit_refused: "inv d \<Longrightarrow> ok c a \<Longrightarrow> bal w c d < a \<Longrightarrow>
      debt w c a d = Inl InsufficientFundsError"
    and debit_covered: "inv d \<Longrightarrow> ok c a \<Longrightarrow> a \<le> bal w c d \<Longrightarrow> \<exists>e d'. debt w c a d = Inr (e, d')"
begin

lemma debit_iff:
  assumes "inv d" "ok c a"
  shows "(\<exists>e d'. debt w c a d = Inr (e, d')) \<longleftrightarrow> a \<le> bal w c d"
  using debit_refused [OF assms, of w] debit_covered [OF assms, of w] by force

text \<open>One balance cannot back two reservations it does not cover together.\<close>

lemma second_debit_refused:
  assumes "inv d" "ok c a" "ok c b" "debt w c a d = Inr (e, d1)" "bal w c d < a + b"
  shows "debt w c b d1 = Inl InsufficientFundsError"
  using debit_effect [OF assms(1,2,4)] assms(3,5) by (auto intro!: debit_refused)

text \<open>A reversal puts every balance back.\<close>

lemma refund_restores:
  assumes "inv d" "ok c a" "debt w c a d = Inr (e, d1)" "inv d1'" "\<And>x k. bal x k d1' = bal x k d1"
    "cred w c a d1' = Inr (e', d2)"
  shows "bal x k d2 = bal x k d"
  using debit_effect [OF assms(1-3)] credit_effect [OF assms(4,2,6)] assms(5) by auto

end

definition token_movement :: "settings \<Rightarrow> string \<Rightarrow> decimal \<Rightarrow> bool" where
  "token_movement s code amount \<longleftrightarrow>
     code \<in> set (supported_currencies_list s) \<and> scaled 6 amount \<and> 0 < amount \<and> amount < 10 ^ 12"

lemma held_ok:
  assumes "ledger_inv s d"
  shows "0 \<le> held w c d" "held w c d < 10 ^ 12" "scaled 6 (held w c d)"
proof -
  have "balance_ok s r" if "balance_row w c d = Some r" for r
    using that assms row_ok by (auto simp: ledger_inv_def)
  then show "0 \<le> held w c d" "held w c d < 10 ^ 12" "scaled 6 (held w c d)"
    by (auto simp: held_def balance_ok_def split: option.splits)
qed

lemma token_movement_normal:
  "token_movement s code a \<Longrightarrow> py_upper (py_strip code) = code"
  by (auto simp: token_movement_def intro: supported_currencies_normal)

lemma movement_column:
  assumes "scaled 6 a" "0 \<le> a" "a < 10 ^ 12"
  shows "numeric_col 18 6 a = Inr a"
  using assms by (intro numeric_col_fits) auto

lemma validate_movement: "token_movement s code a \<Longrightarrow> validate s code a = Inr code"
  using token_movement_normal by (fastforce simp: validate_Inr token_movement_def)

text \<open>How a debit comes out, when nothing about the request itself is wrong.\<close>

lemma debit_outcome:
  assumes inv: "ledger_inv s d" and mv: "token_movement s code a"
  shows "held w code d < a \<Longrightarrow> debit s w code a rid h now d = Inl InsufficientFundsError"
    and "a \<le> held w code d \<Longrightarrow> rid = None \<Longrightarrow> \<exists>e d'. debit s w code a rid h now d = Inr (e, d')"
proof -
  obtain r d1 where lock: "locked_balance_row w code now d = Inr (r, d1)"
    using locked_balance_row_total by blast
  have sh: "ledger_shape s d" and cur: "code \<in> set (supported_currencies_list s)"
    and a: "scaled 6 a" "0 < a" "a < 10 ^ 12"
    using inv mv by (auto simp: ledger_inv_def token_movement_def)
  note l = locked_balance_row_ok [OF lock sh cur]
  have r: "bal_amount r = held w code d"
    using l(5) [of w code] held_of_row [OF l(3)] by simp
  note h = held_ok [OF inv, of w code]
  have sub: "d_sub (bal_amount r) a = held w code d - a"
    unfolding r using h a by (intro d_add_sub_token) auto
  show "held w code d < a \<Longrightarrow> debit s w code a rid h now d = Inl InsufficientFundsError"
    by (simp add: debit_def move_balance_def validate_movement [OF mv] lock sub)
  assume cov: "a \<le> held w code d" and none: "rid = None"
  have "scaled 6 (held w code d - a)" using h(3) a(1) by (rule scaled_diff)
  then have "numeric_col 18 6 (held w code d - a) = Inr (held w code d - a)"
    using cov h a by (intro movement_column) auto
  moreover have "numeric_col 18 6 a = Inr a" using a by (intro movement_column) auto
  ultimately show "\<exists>e d'. debit s w code a rid h now d = Inr (e, d')"
    using cov none
    by (simp add: debit_def move_balance_def validate_movement [OF mv] lock sub save_balance_def
        write_entry_def insert_entry_def Let_def)
qed

lemma credit_outcome:
  assumes inv: "ledger_inv s d" and mv: "token_movement s code a"
    and fits: "held w code d + a < 10 ^ 12"
    and fresh: "rid = None \<or>
      (\<forall>x \<in> set (wallet_transactions d). entry_key x \<noteq> (rid, INCOMING, ENTRY_SUCCESS))"
  shows "\<exists>e d'. credit s w code a rid h now d = Inr (e, d')"
proof -
  obtain r d1 where lock: "locked_balance_row w code now d = Inr (r, d1)"
    using locked_balance_row_total by blast
  have sh: "ledger_shape s d" and cur: "code \<in> set (supported_currencies_list s)"
    and a: "scaled 6 a" "0 < a" "a < 10 ^ 12"
    using inv mv by (auto simp: ledger_inv_def token_movement_def)
  note l = locked_balance_row_ok [OF lock sh cur]
  have r: "bal_amount r = held w code d"
    using l(5) [of w code] held_of_row [OF l(3)] by simp
  note h = held_ok [OF inv, of w code]
  have add: "d_add (bal_amount r) a = held w code d + a"
    unfolding r using h a by (intro d_add_sub_token) auto
  have "numeric_col 18 6 (held w code d + a) = Inr (held w code d + a)"
    using fits h a by (intro movement_column scaled_add) auto
  moreover have "numeric_col 18 6 a = Inr a" using a by (intro movement_column) auto
  ultimately show ?thesis using fresh l(4)
    by (auto simp: credit_def move_balance_def validate_movement [OF mv] lock add save_balance_def
        write_entry_def insert_entry_def Let_def entry_key_def)
qed

lemma wallet_for_raced_total: "\<exists>w d'. wallet_for_raced other u now d = Inr (w, d')"
proof (cases "wallet_of u d")
  case None
  then show ?thesis
    by (auto simp: wallet_for_raced_def insert_or_reselect_def insert_wallet_def Let_def
        wallet_of_def get_by_None split: option.splits)
qed (simp add: wallet_for_raced_def)

lemma filter_unique_key:
  "distinct (map key xs) \<Longrightarrow> x \<in> set xs \<Longrightarrow> filter (\<lambda>y. key y = key x) xs = [x]"
  by (induction xs) (auto simp: filter_empty_conv image_iff)

interpretation lg: money_ledger "ledger_inv s" held "token_movement s"
    "\<lambda>w c a d. credit s w c a None h now d" "\<lambda>w c a d. debit s w c a None h now d"
  for s :: settings and h :: "string option" and now :: instant
proof unfold_locales
  fix d w c show "ledger_inv s d \<Longrightarrow> 0 \<le> held w c d" by (rule held_ok)
next
  fix d c a w e d'
  assume inv: "ledger_inv s d" and mv: "token_movement s c a"
    and run: "credit s w c a None h now d = Inr (e, d')"
  have sh: "ledger_shape s d" and a: "scaled 6 a" using inv mv by (auto simp: ledger_inv_def token_movement_def)
  show "ledger_inv s d' \<and> (\<forall>x k. held x k d' = held x k d + (if x = w \<and> k = c then a else 0))"
    using move_balance_ok(3) [OF run [unfolded credit_def] sh a]
      move_balance_inv [OF run [unfolded credit_def] inv a]
    by (simp add: token_movement_normal [OF mv])
next
  fix d c a w e d'
  assume inv: "ledger_inv s d" and mv: "token_movement s c a"
    and run: "debit s w c a None h now d = Inr (e, d')"
  have sh: "ledger_shape s d" and a: "scaled 6 a" using inv mv by (auto simp: ledger_inv_def token_movement_def)
  show "ledger_inv s d' \<and> (\<forall>x k. held x k d' = held x k d - (if x = w \<and> k = c then a else 0))"
    using move_balance_ok(3) [OF run [unfolded debit_def] sh a]
      move_balance_inv [OF run [unfolded debit_def] inv a]
    by (simp add: token_movement_normal [OF mv])
qed (auto intro: debit_outcome)

section \<open>Histories\<close>

text \<open>
  The writes the services make to the ledger, as one step of a history: a wallet is opened, a
  movement in UCTUSD or a fiat balance goes through, an external leg is recorded. The premises
  are what the call sites guarantee: amounts come from columns with at most six places, a
  movement that carries a remittance is never in the send currency, and an external leg is
  either a failure or the rand leg of a remittance.
\<close>

inductive ledger_step :: "settings \<Rightarrow> db \<Rightarrow> db \<Rightarrow> bool" for s :: settings where
  open_wallet: "wallet_for u now d = Inr (w, d') \<Longrightarrow> ledger_step s d d'"
| credited: "credit s w c a rid h now d = Inr (e, d') \<Longrightarrow> scaled 6 a \<Longrightarrow>
    rid = None \<or> py_upper (py_strip c) \<noteq> SEND_CURRENCY \<Longrightarrow> ledger_step s d d'"
| debited: "debit s w c a rid h now d = Inr (e, d') \<Longrightarrow> scaled 6 a \<Longrightarrow>
    rid = None \<or> py_upper (py_strip c) \<noteq> SEND_CURRENCY \<Longrightarrow> ledger_step s d d'"
| recorded: "record_external s w dir c a rid h st fr now d = Inr (e, d') \<Longrightarrow>
    st \<noteq> ENTRY_SUCCESS \<or> rid \<noteq> None \<and> py_upper (py_strip c) = SEND_CURRENCY \<Longrightarrow> ledger_step s d d'"

lemma ledger_step_inv: "ledger_step s d d' \<Longrightarrow> ledger_inv s d \<Longrightarrow> ledger_inv s d'"
  by (induction rule: ledger_step.induct)
    (auto intro: wallet_for_inv move_balance_inv record_external_inv simp: credit_def debit_def)

interpretation ledger_run: transition_invariant "ledger_step s" "ledger_inv s"
  by unfold_locales (rule ledger_step_inv)

lemma distinct_map_same:
  "distinct (map f xs) \<Longrightarrow> x \<in> set xs \<Longrightarrow> y \<in> set xs \<Longrightarrow> f x = f y \<Longrightarrow> x = y"
  by (simp add: distinct_map inj_on_def)

lemma entries_unique:
  assumes "entries_ok d" "e \<in> set (wallet_transactions d)" "e' \<in> set (wallet_transactions d)"
    "wtx_remittance_id e = Some r" "entry_key e' = entry_key e"
  shows "e' = e"
proof -
  have "distinct (map entry_key (filter (\<lambda>e. wtx_remittance_id e \<noteq> None) (wallet_transactions d)))"
    using assms(1) by (simp add: entries_ok_def)
  then show ?thesis
    by (rule distinct_map_same) (use assms in \<open>auto simp: entry_key_def\<close>)
qed

text \<open>
  C3. Through any history of ledger writes from the empty database, every balance is the signed
  sum of the entries that move it, none is negative or reaches \<open>10 ^ 12\<close>, all have six decimal
  places, and no remittance ever has two successful incoming entries: a settlement cannot be credited
  twice, and one that was credited cannot also be refunded. The writes are those of \<open>ledger_step\<close>, which
  are the calls the services make: amounts of at most six decimal places, movements for a remittance in
  another currency than the rand, and entries that move no balance either FAILED or a remittance's rand.
\<close>

theorem ledger_history_sound:
  assumes "(ledger_step s)\<^sup>*\<^sup>* empty_db d"
  shows "held w c d = entry_sum w c (wallet_transactions d) \<and>
         0 \<le> held w c d \<and> held w c d < 10 ^ 12 \<and> scaled 6 (held w c d) \<and>
         (\<forall>e \<in> set (wallet_transactions d). \<forall>e' \<in> set (wallet_transactions d).
            wtx_remittance_id e \<noteq> None \<and> wtx_remittance_id e' = wtx_remittance_id e \<and>
            wtx_direction e = INCOMING \<and> wtx_direction e' = INCOMING \<and>
            wtx_status e = ENTRY_SUCCESS \<and> wtx_status e' = ENTRY_SUCCESS \<longrightarrow> e' = e)"
proof -
  have inv: "ledger_inv s d" using ledger_run.run_inv [OF assms] by simp
  then have "entries_ok d" "reconciled d" by (auto simp: ledger_inv_def ledger_shape_def)
  then show ?thesis
    using held_ok [OF inv, of w c] entries_unique [of d]
    by (auto simp: reconciled_def entry_key_def)
qed

definition demo_settings :: settings where
  "demo_settings = default_settings [] [] []"

lemma supported_demo: "supported_currencies_list demo_settings = [''UCTUSD'', ''USD'', ''ZAR'']"
  by (simp add: demo_settings_def supported_currencies_default)

theorem ledger_history_sound_witness:
  "\<exists>w d. (ledger_step demo_settings)\<^sup>*\<^sup>* empty_db d \<and> held w ''UCTUSD'' d = 30 \<and>
         entry_sum w ''UCTUSD'' (wallet_transactions d) = 30"
proof -
  let ?S = "ledger_step demo_settings"
  have mv: "token_movement demo_settings ''UCTUSD'' 50" "token_movement demo_settings ''UCTUSD'' 20"
    by (auto simp: token_movement_def supported_demo)
  have n: "py_upper (py_strip ''UCTUSD'') \<noteq> SEND_CURRENCY" by code_simp
  obtain w d1 where w: "wallet_for 7 0 empty_db = Inr (w, d1)" using wallet_for_total by blast
  have i1: "ledger_inv demo_settings d1" using w by (rule wallet_for_inv) simp
  have h1: "held (wal_id w) ''UCTUSD'' d1 = 0" "wallet_transactions d1 = []"
    using wallet_for_ok(5,6) [OF w, of demo_settings] empty_ledger [of demo_settings]
    by (auto simp: ledger_inv_def empty_db_def held_def balance_row_def)
  obtain e d2 where c: "credit demo_settings (wal_id w) ''UCTUSD'' 50 (Some 9) None 1 d1 = Inr (e, d2)"
    using credit_outcome [OF i1 mv(1)] h1 by fastforce
  note e2 = move_balance_inv [OF c [unfolded credit_def] i1]
    move_balance_ok(3) [OF c [unfolded credit_def], of "wal_id w" "''UCTUSD''"]
  have i2: "ledger_inv demo_settings d2" using e2(1) n by auto
  have h2: "held (wal_id w) ''UCTUSD'' d2 = 50"
    using e2(2) i1 h1 token_movement_normal [OF mv(1)] by (auto simp: ledger_inv_def)
  obtain e' d3 where d: "debit demo_settings (wal_id w) ''UCTUSD'' 20 None None 2 d2 = Inr (e', d3)"
    using debit_outcome(2) [OF i2 mv(2)] h2 by fastforce
  have h3: "held (wal_id w) ''UCTUSD'' d3 = 30"
    using lg.debit_effect [OF i2 mv(2) d] h2 by auto
  have "?S empty_db d1" "?S d1 d2" "?S d2 d3" using w c d n by (auto intro: ledger_step.intros)
  then have r: "?S\<^sup>*\<^sup>* empty_db d3"
    by (blast intro: converse_rtranclp_into_rtranclp rtranclp.rtrancl_refl)
  from ledger_history_sound [OF r, of "wal_id w" "''UCTUSD''"] r h3 show ?thesis by auto
qed

text \<open>
  \<open>credit\<close> and \<open>debit\<close> move one balance by exactly the amount and append exactly one
  entry carrying it; every other balance, every earlier entry and every other table is as
  before. A debit is refused with InsufficientFundsError exactly when the balance does not
  cover it, so no sequence of reservations can overdraw.
\<close>

theorem ledger_movements_exact:
  assumes "ledger_inv s d" "token_movement s code a"
  shows "(\<forall>e d'. credit s w code a rid h now d = Inr (e, d') \<longrightarrow>
           (\<forall>x c. held x c d' = held x c d + (if x = w \<and> c = code then a else 0)) \<and>
           wallet_transactions d' = wallet_transactions d @ [e] \<and> wtx_amount e = a \<and>
           ledger_only d d') \<and>
         (\<forall>e d'. debit s w code a rid h now d = Inr (e, d') \<longrightarrow>
           (\<forall>x c. held x c d' = held x c d - (if x = w \<and> c = code then a else 0)) \<and>
           wallet_transactions d' = wallet_transactions d @ [e] \<and> wtx_amount e = a \<and>
           ledger_only d d') \<and>
         ((\<exists>e d'. debit s w code a None h now d = Inr (e, d')) \<longleftrightarrow> a \<le> held w code d) \<and>
         (held w code d < a \<longrightarrow> debit s w code a rid h now d = Inl InsufficientFundsError)"
proof (intro conjI allI impI)
  have sh: "ledger_shape s d" and a: "scaled 6 a"
    using assms by (auto simp: ledger_inv_def token_movement_def)
  note n = token_movement_normal [OF assms(2)]
  fix e d' x c
  {
    assume run: "credit s w code a rid h now d = Inr (e, d')"
    note ok = move_balance_ok(2-4,10) [OF run [unfolded credit_def] sh a]
    show "held x c d' = held x c d + (if x = w \<and> c = code then a else 0)"
      using ok(2) [of x c] by (simp add: n)
    show "wallet_transactions d' = wallet_transactions d @ [e]" "wtx_amount e = a" "ledger_only d d'"
      by (rule ok)+
  next
    assume run: "debit s w code a rid h now d = Inr (e, d')"
    note ok = move_balance_ok(2-4,10) [OF run [unfolded debit_def] sh a]
    show "held x c d' = held x c d - (if x = w \<and> c = code then a else 0)"
      using ok(2) [of x c] by (simp add: n)
    show "wallet_transactions d' = wallet_transactions d @ [e]" "wtx_amount e = a" "ledger_only d d'"
      by (rule ok)+
  }
  show "(\<exists>e d'. debit s w code a None h now d = Inr (e, d')) \<longleftrightarrow> a \<le> held w code d"
    using assms by (rule lg.debit_iff)
  assume "held w code d < a"
  then show "debit s w code a rid h now d = Inl InsufficientFundsError"
    by (rule debit_outcome(1) [OF assms])
qed

theorem ledger_movements_exact_witness:
  "debit demo_settings 3 ''UCTUSD'' 20 None None 2 empty_db = Inl InsufficientFundsError"
proof -
  have "token_movement demo_settings ''UCTUSD'' 20" by (auto simp: token_movement_def supported_demo)
  from ledger_movements_exact [OF empty_ledger this, of 3 None None 2] show ?thesis
    by (simp add: empty_db_def held_def balance_row_def)
qed

text \<open>
  Losing the first-use race is not an error: whatever another transaction commits between
  the SELECT and the INSERT of \<open>wallet_for\<close>, the call returns the one wallet the user then
  has, and no second one is created.
\<close>

theorem wallet_race_harmless:
  assumes "ledger_shape s d" "ledger_shape s (other d)"
  shows "\<exists>w d'. wallet_for_raced other u now d = Inr (w, d') \<and> wal_user_id w = u \<and>
           ledger_shape s d' \<and> filter (\<lambda>x. wal_user_id x = u) (wallets d') = [w]"
proof -
  obtain w d' where run: "wallet_for_raced other u now d = Inr (w, d')"
    using wallet_for_raced_total by blast
  note ok = wallet_for_raced_ok(1-3) [OF run assms]
  have "distinct (map wal_user_id (wallets d'))" using ok(1) by (simp add: ledger_shape_def wallets_ok_def)
  then show ?thesis using run ok wallet_of_Some [OF ok(3)] filter_unique_key by fastforce
qed

theorem wallet_race_harmless_witness:
  "\<exists>w d'. wallet_for_raced
       (\<lambda>d. d\<lparr>wallets := [\<lparr>wal_id = 0, wal_user_id = 7, wal_created_at = 5\<rparr>], next_id := 1\<rparr>)
       7 6 empty_db = Inr (w, d') \<and> wal_id w = 0 \<and> length (wallets d') = 1"
proof -
  let ?other = "\<lambda>d. d\<lparr>wallets := [\<lparr>wal_id = 0, wal_user_id = 7, wal_created_at = 5\<rparr>], next_id := 1\<rparr>"
  have e: "ledger_shape demo_settings empty_db"
    using empty_ledger [of demo_settings] by (simp add: ledger_inv_def)
  have "ledger_shape demo_settings (?other empty_db)"
    by (simp add: ledger_shape_def wallets_ok_def balances_ok_def entries_ok_def empty_db_def
        fresh_ids_def)
  from wallet_race_harmless [OF e, of ?other, OF this, of 7 6]
  show ?thesis
    by (auto simp: wallet_for_raced_def wallet_of_def empty_db_def get_by_Cons
        insert_or_reselect_def insert_wallet_def)
qed

end
