(* ===== verification/Queue.thy ===== *)
theory Queue
  imports Ledger
begin

text \<open>
  \<open>app/services/settlement_queue.py\<close>: the messages put on the Redis stream and how they are read
  back. Redis is not part of the repository: its commands are arguments (\<open>xadd\<close>, \<open>xreadgroup\<close>,
  ...), functions from the state of the server to a result or an exception and the state after.
  A message is the dictionary of its fields, an association list of strings, because it crosses
  the wire as text; \<open>uuid_str\<close> and \<open>uuid_parse\<close> are the text form of an identifier
  (Python's \<open>str(uuid)\<close> and \<open>uuid.UUID\<close>). \<open>uuid.UUID\<close> reads the 32 characters left after
  removing the decoration with \<open>int(_, 16)\<close>; the model takes hexadecimal digits only.
\<close>

section \<open>Identifiers as text\<close>

definition hex_digit :: "nat \<Rightarrow> char" where
  "hex_digit n = char_of (if n < 10 then 48 + n else 87 + n)"

definition hex_value :: "char \<Rightarrow> nat option" where
  "hex_value c =
     (let n = (of_char c :: nat)
      in if 48 \<le> n \<and> n \<le> 57 then Some (n - 48)
         else if 97 \<le> n \<and> n \<le> 102 then Some (n - 87)
         else if 65 \<le> n \<and> n \<le> 70 then Some (n - 55) else None)"

fun to_hex :: "nat \<Rightarrow> nat \<Rightarrow> string" where
  "to_hex 0 n = []"
| "to_hex (Suc k) n = to_hex k (n div 16) @ [hex_digit (n mod 16)]"

fun from_hex :: "nat \<Rightarrow> string \<Rightarrow> nat option" where
  "from_hex acc [] = Some acc"
| "from_hex acc (c # cs) =
     (case hex_value c of None \<Rightarrow> None | Some v \<Rightarrow> from_hex (acc * 16 + v) cs)"

definition uuid_str :: "uuid \<Rightarrow> string" where
  "uuid_str u =
     (let h = to_hex 32 u
      in take 8 h @ ''-'' @ take 4 (drop 8 h) @ ''-'' @ take 4 (drop 12 h) @ ''-'' @
         take 4 (drop 16 h) @ ''-'' @ drop 20 h)"

fun py_replace_empty :: "string \<Rightarrow> string \<Rightarrow> string" where
  "py_replace_empty pat [] = []"
| "py_replace_empty pat (c # cs) =
     (if pat \<noteq> [] \<and> take (length pat) (c # cs) = pat
      then py_replace_empty pat (drop (length pat - 1) cs)
      else c # py_replace_empty pat cs)"

definition strip_braces :: "string \<Rightarrow> string" where
  "strip_braces s =
     (let brace = (\<lambda>c. c = CHR ''{'' \<or> c = CHR ''}'')
      in rev (dropWhile brace (rev (dropWhile brace s))))"

definition uuid_parse :: "string \<Rightarrow> uuid option" where
  "uuid_parse s =
     (let h = py_replace_empty ''-''
                (strip_braces (py_replace_empty ''uuid:'' (py_replace_empty ''urn:'' s)))
      in if length h \<noteq> 32 then None else from_hex 0 h)"

section \<open>Messages\<close>

type_synonym message = "(string \<times> string) list"

definition settlement_message :: "string \<Rightarrow> uuid \<Rightarrow> message" where
  "settlement_message idempotency_key remittance_id =
     [(''idempotency_key'', idempotency_key), (''remittance_id'', uuid_str remittance_id)]"

definition cash_out_message :: "uuid \<Rightarrow> message" where
  "cash_out_message cash_out_id =
     [(''kind'', ''cash_out''), (''idempotency_key'', ''cash_out:'' @ uuid_str cash_out_id),
      (''cash_out_id'', uuid_str cash_out_id)]"

section \<open>The queue's operations\<close>

text \<open>
  The stream, the group and the block time are the attributes the constructor sets from the
  settings.
\<close>

record queue_config =
  qc_stream :: string
  qc_group :: string
  qc_block_ms :: int

definition settlement_queue ::
  "settings \<Rightarrow> string option \<Rightarrow> string option \<Rightarrow> int option \<Rightarrow> queue_config" where
  "settlement_queue s stream grp block_ms =
     \<lparr>qc_stream = (case stream of Some x \<Rightarrow> if x = [] then settlement_stream_name s else x
                    | None \<Rightarrow> settlement_stream_name s),
      qc_group = (case grp of Some x \<Rightarrow> if x = [] then settlement_consumer_group s else x
                   | None \<Rightarrow> settlement_consumer_group s),
      qc_block_ms = (case block_ms of Some x \<Rightarrow> x | None \<Rightarrow> settlement_block_ms s)\<rparr>"

text \<open>The connection's read timeout, in seconds: it outlasts the blocking read.\<close>

definition socket_timeout :: "queue_config \<Rightarrow> rat" where
  "socket_timeout q = of_int (qc_block_ms q) / 1000 + 10"

datatype redis_error = ResponseError string | RedisFailure

definition ensure_consumer_group ::
  "(string \<Rightarrow> string \<Rightarrow> 'r \<Rightarrow> (redis_error + unit) \<times> 'r) \<Rightarrow> (string \<Rightarrow> bool) \<Rightarrow>
   queue_config \<Rightarrow> 'r \<Rightarrow> (redis_error + unit) \<times> 'r" where
  "ensure_consumer_group xgroup_create mentions_busygroup q r =
     (case xgroup_create (qc_stream q) (qc_group q) r of
        (Inr u, r') \<Rightarrow> (Inr (), r')
      | (Inl (ResponseError msg), r') \<Rightarrow>
          if mentions_busygroup msg then (Inr (), r') else (Inl (ResponseError msg), r')
      | (Inl e, r') \<Rightarrow> (Inl e, r'))"

definition publish ::
  "(string \<Rightarrow> message \<Rightarrow> 'r \<Rightarrow> (redis_error + string) \<times> 'r) \<Rightarrow> queue_config \<Rightarrow> string \<Rightarrow> uuid \<Rightarrow>
   'r \<Rightarrow> (redis_error + string) \<times> 'r" where
  "publish xadd q idempotency_key remittance_id r =
     xadd (qc_stream q) (settlement_message idempotency_key remittance_id) r"

definition publish_cash_out ::
  "(string \<Rightarrow> message \<Rightarrow> 'r \<Rightarrow> (redis_error + string) \<times> 'r) \<Rightarrow> queue_config \<Rightarrow> uuid \<Rightarrow>
   'r \<Rightarrow> (redis_error + string) \<times> 'r" where
  "publish_cash_out xadd q cash_out_id r = xadd (qc_stream q) (cash_out_message cash_out_id) r"

type_synonym entry = "string \<times> message"

text \<open>\<open>_entries\<close>: a response lists the streams read, here at most one.\<close>

definition entries_of :: "(string \<times> entry list) list \<Rightarrow> entry list" where
  "entries_of response = (case response of [] \<Rightarrow> [] | (stream, es) # rest \<Rightarrow> es)"

type_synonym 'r xreadgroup =
  "string \<Rightarrow> string \<Rightarrow> string \<times> string \<Rightarrow> int \<Rightarrow> int option \<Rightarrow> 'r \<Rightarrow>
   (redis_error + (string \<times> entry list) list) \<times> 'r"

definition map_reply :: "('a \<Rightarrow> 'b) \<Rightarrow> ('e + 'a) \<times> 'r \<Rightarrow> ('e + 'b) \<times> 'r" where
  "map_reply f x = (case x of (Inl e, r) \<Rightarrow> (Inl e, r) | (Inr a, r) \<Rightarrow> (Inr (f a), r))"

definition read_new ::
  "'r xreadgroup \<Rightarrow> queue_config \<Rightarrow> string \<Rightarrow> int \<Rightarrow> 'r \<Rightarrow> (redis_error + entry list) \<times> 'r" where
  "read_new xreadgroup q consumer count r =
     map_reply entries_of
       (xreadgroup (qc_group q) consumer (qc_stream q, ''>'') count (Some (qc_block_ms q)) r)"

definition read_pending ::
  "'r xreadgroup \<Rightarrow> queue_config \<Rightarrow> string \<Rightarrow> int \<Rightarrow> 'r \<Rightarrow> (redis_error + entry list) \<times> 'r" where
  "read_pending xreadgroup q consumer count r =
     map_reply entries_of (xreadgroup (qc_group q) consumer (qc_stream q, ''0'') count None r)"

text \<open>
  A response of \<open>XAUTOCLAIM\<close> is a list: the cursor, the entries and, on newer servers, the
  deleted identifiers. \<open>claimed_of\<close> is what the code takes from it: \<open>None\<close> is a response with
  fewer than two elements.
\<close>

definition reclaim_stale ::
  "(string \<Rightarrow> string \<Rightarrow> string \<Rightarrow> int \<Rightarrow> int \<Rightarrow> 'r \<Rightarrow>
     (redis_error + entry list option) \<times> 'r) \<Rightarrow>
   queue_config \<Rightarrow> string \<Rightarrow> int \<Rightarrow> int \<Rightarrow> 'r \<Rightarrow> (redis_error + entry list) \<times> 'r" where
  "reclaim_stale xautoclaim q consumer min_idle_ms count r =
     (case xautoclaim (qc_stream q) (qc_group q) consumer min_idle_ms count r of
        (Inl (ResponseError msg), r') \<Rightarrow> (Inr [], r')
      | (Inl e, r') \<Rightarrow> (Inl e, r')
      | (Inr None, r') \<Rightarrow> (Inr [], r')
      | (Inr (Some es), r') \<Rightarrow> (Inr es, r'))"

definition acknowledge ::
  "(string \<Rightarrow> string \<Rightarrow> string \<Rightarrow> 'r \<Rightarrow> (redis_error + unit) \<times> 'r) \<Rightarrow> queue_config \<Rightarrow> string \<Rightarrow>
   'r \<Rightarrow> (redis_error + unit) \<times> 'r" where
  "acknowledge xack q entry_id r = xack (qc_stream q) (qc_group q) entry_id r"

definition depth :: "(string \<Rightarrow> 'r \<Rightarrow> (redis_error + int) \<times> 'r) \<Rightarrow> queue_config \<Rightarrow> 'r \<Rightarrow>
   (redis_error + int) \<times> 'r" where
  "depth xlen q r = xlen (qc_stream q) r"

section \<open>A message survives the wire\<close>

lemma hex_value_digit: "n < 16 \<Longrightarrow> hex_value (hex_digit n) = Some n"
  by (auto simp: hex_value_def hex_digit_def Let_def)

lemma length_to_hex [simp]: "length (to_hex k n) = k"
  by (induction k n rule: to_hex.induct) simp_all

lemma from_hex_append:
  "from_hex acc (xs @ ys) = (case from_hex acc xs of None \<Rightarrow> None | Some a \<Rightarrow> from_hex a ys)"
  by (induction acc xs rule: from_hex.induct) (auto split: option.splits)

lemma from_to_hex: "from_hex acc (to_hex k n) = Some (acc * 16 ^ k + n mod 16 ^ k)"
proof (induction k n arbitrary: acc rule: to_hex.induct)
  case (1 n)
  then show ?case by simp
next
  case (2 k n)
  have n: "n mod (16 * 16 ^ k) = 16 * (n div 16 mod 16 ^ k) + n mod 16"
    by (rule mod_mult2_eq)
  have "from_hex acc (to_hex (Suc k) n) = Some ((acc * 16 ^ k + n div 16 mod 16 ^ k) * 16 + n mod 16)"
    by (simp add: from_hex_append 2 hex_value_digit)
  also have "(acc * 16 ^ k + n div 16 mod 16 ^ k) * 16 + n mod 16 = acc * 16 ^ Suc k + n mod 16 ^ Suc k"
    unfolding power_Suc n by (simp only: distrib_right distrib_left mult.commute mult.left_commute add.assoc)
  finally show ?case .
qed

lemma hex_digit_plain:
  assumes "n < 16"
  shows "hex_digit n \<notin> {CHR ''-'', CHR '':'', CHR ''{'', CHR ''}'', CHR ''u''}"
proof -
  have "hex_value c = None" if "c \<in> {CHR ''-'', CHR '':'', CHR ''{'', CHR ''}'', CHR ''u''}" for c
    using that by (auto simp: hex_value_def)
  then show ?thesis using hex_value_digit [OF assms] by fastforce
qed

lemma to_hex_plain: "c \<in> set (to_hex k n) \<Longrightarrow> c \<notin> {CHR ''-'', CHR '':'', CHR ''{'', CHR ''}'', CHR ''u''}"
  by (induction k n rule: to_hex.induct) (use hex_digit_plain in \<open>auto split: if_splits\<close>)

text \<open>A pattern whose first character does not occur is never found.\<close>

lemma py_replace_empty_absent: "p \<notin> set s \<Longrightarrow> py_replace_empty (p # ps) s = s"
  by (induction s) auto

lemma py_replace_dash: "py_replace_empty ''-'' s = filter (\<lambda>c. c \<noteq> CHR ''-'') s"
  by (induction s) auto

lemma strip_braces_absent:
  assumes "CHR ''{'' \<notin> set s" "CHR ''}'' \<notin> set s"
  shows "strip_braces s = s"
proof -
  have "dropWhile (\<lambda>c. c = CHR ''{'' \<or> c = CHR ''}'') xs = xs" if "set xs = set s" for xs
    using assms that by (cases xs) auto
  then show ?thesis by (simp add: strip_braces_def Let_def)
qed

lemma split_groups:
  "take 8 h @ take 4 (drop 8 h) @ take 4 (drop 12 h) @ take 4 (drop 16 h) @ drop 20 h = h"
proof -
  have s: "take 4 (drop k h) @ drop (k + 4) h = drop k h" for k
    using append_take_drop_id [of 4 "drop k h"] by (simp add: drop_drop add.commute)
  show ?thesis using s [of 8] s [of 12] s [of 16] by simp
qed

lemma filter_dash_absent: "CHR ''-'' \<notin> set xs \<Longrightarrow> filter (\<lambda>c. c \<noteq> CHR ''-'') xs = xs"
  by (auto simp: filter_id_conv)

lemma filter_dashes:
  assumes "CHR ''-'' \<notin> set a" "CHR ''-'' \<notin> set b" "CHR ''-'' \<notin> set c" "CHR ''-'' \<notin> set d" "CHR ''-'' \<notin> set e"
  shows "filter (\<lambda>x. x \<noteq> CHR ''-'') (a @ ''-'' @ b @ ''-'' @ c @ ''-'' @ d @ ''-'' @ e) = a @ b @ c @ d @ e"
  using assms by (simp add: filter_dash_absent)

lemma undashed: "CHR ''-'' \<notin> set h \<Longrightarrow>
  filter (\<lambda>c. c \<noteq> CHR ''-'') (take 8 h @ ''-'' @ take 4 (drop 8 h) @ ''-'' @ take 4 (drop 12 h) @ ''-'' @
     take 4 (drop 16 h) @ ''-'' @ drop 20 h) = h"
  by (rule trans [OF filter_dashes split_groups]) (meson in_set_takeD in_set_dropD)+

lemma set_uuid_str: "set (uuid_str u) \<subseteq> insert (CHR ''-'') (set (to_hex 32 u))"
  unfolding uuid_str_def Let_def by (auto dest!: in_set_takeD in_set_dropD)

lemma uuid_roundtrip:
  assumes "u < 16 ^ 32"
  shows "uuid_parse (uuid_str u) = Some u"
proof -
  define h where "h = to_hex 32 u"
  have plain: "CHR ''-'' \<notin> set h" "CHR ''{'' \<notin> set h" "CHR ''}'' \<notin> set h" "CHR ''u'' \<notin> set h"
    unfolding h_def by (auto dest: to_hex_plain)
  have u: "CHR ''u'' \<notin> set (uuid_str u)" "CHR ''{'' \<notin> set (uuid_str u)" "CHR ''}'' \<notin> set (uuid_str u)"
    using set_uuid_str [of u] plain unfolding h_def [symmetric] by blast+
  have s: "strip_braces (py_replace_empty ''uuid:'' (py_replace_empty ''urn:'' (uuid_str u))) = uuid_str u"
    by (simp only: py_replace_empty_absent [OF u(1)] strip_braces_absent [OF u(2,3)])
  have f: "py_replace_empty ''-'' (uuid_str u) = h"
    unfolding py_replace_dash uuid_str_def Let_def h_def [symmetric] by (rule undashed [OF plain(1)])
  have "from_hex 0 h = Some (0 * 16 ^ 32 + u mod 16 ^ 32)" unfolding h_def by (rule from_to_hex)
  then have v: "from_hex 0 h = Some u" by (simp only: mod_less [OF assms] mult_zero_left add_0)
  have "length h = 32" unfolding h_def by (rule length_to_hex)
  then show ?thesis unfolding uuid_parse_def s f Let_def by (simp only: v if_False simp_thms)
qed

end
