(* ===== verification/CashIO.thy ===== *)
theory CashIO
  imports Queue
begin

text \<open>
  \<open>app/services/cashin_cashout_service.py\<close>: confirming a cash-in, handing a remittance to the
  queue, requeueing or refunding a failed one, and the life of a cash-out. A row object held by
  the session is the row argument; a write to it changes the row with its identifier. Nothing
  here commits: an exception drops the changed database.
\<close>

section \<open>Payout currencies and the recipient\<close>

definition CASH_IN_METHODS :: "string list" where
  "CASH_IN_METHODS = [''agent_cash'', ''bank_transfer'', ''card'']"

definition payout_currencies :: "settings \<Rightarrow> string list" where
  "payout_currencies s =
     sort (remdups (filter (\<lambda>c. c \<in> set PRICEABLE_PAYOUT_CURRENCIES \<and> c \<noteq> SETTLEMENT_CURRENCY)
                      (supported_currencies_list s)))"

text \<open>
  The lookup asks for the first matching row and for no order: the list stands for the rows as the
  database happens to go through them, which nothing in the code fixes. E-mails that differ only in
  case are the one way in which more than one row matches (\<open>Recipients\<close>).
\<close>

definition user_by_contact :: "string \<Rightarrow> db \<Rightarrow> user option" where
  "user_by_contact contact d =
     find (\<lambda>u. py_lower (usr_email u) = py_lower (py_strip contact)) (users d)"

definition assert_recipient_registered :: "remittance \<Rightarrow> db \<Rightarrow> exc + user" where
  "assert_recipient_registered r d =
     ebind (some_or RecipientNotRegisteredError (get_beneficiary_row (rem_beneficiary_id r) d))
       (\<lambda>b. some_or RecipientNotRegisteredError (user_by_contact (ben_contact b) d))"

section \<open>Cash-in\<close>

definition simulate_cash_in :: "remittance \<Rightarrow> string \<Rightarrow> instant \<Rightarrow> db \<Rightarrow> exc + bool \<times> db" where
  "simulate_cash_in r meth now d =
     (let normalised = py_lower (py_strip meth)
      in if normalised \<notin> set CASH_IN_METHODS then Inl InvalidCashInMethodError
      else if rem_status r = CASH_IN_CONFIRMED \<or> rem_status r = QUEUED then Inr (False, d)
      else if rem_status r \<noteq> QUOTED then Inl CashInStateError
      else if is_quote_expired r now then Inl QuoteExpiredError
      else ebind (assert_recipient_registered r d) (\<lambda>recipient.
        Inr (True, put_remittance (rem_id r) (\<lambda>x. x\<lparr>rem_cash_in_method := Some normalised,
               rem_status := CASH_IN_CONFIRMED, rem_cash_in_confirmed_at := Some now,
               rem_quote_expires_at := None\<rparr>) d)))"

definition queue_for_settlement ::
  "(string \<Rightarrow> uuid \<Rightarrow> 'r \<Rightarrow> (redis_error + string) \<times> 'r) \<Rightarrow> remittance \<Rightarrow> db \<Rightarrow> 'r \<Rightarrow>
   (exc + string \<times> db) \<times> 'r" where
  "queue_for_settlement pub r d q =
     (if rem_status r \<noteq> CASH_IN_CONFIRMED \<and> rem_status r \<noteq> QUEUED then (Inl CashInStateError, q)
      else case pub (rem_idempotency_key r) (rem_id r) q of
             (Inl e, q') \<Rightarrow> (Inl SettlementPublishError, q')
           | (Inr entry_id, q') \<Rightarrow>
               (Inr (entry_id, put_remittance (rem_id r) (\<lambda>x. x\<lparr>rem_status := QUEUED\<rparr>) d), q'))"

section \<open>Failure recovery\<close>

definition requeue_failed_remittance :: "remittance \<Rightarrow> db \<Rightarrow> exc + db" where
  "requeue_failed_remittance r d =
     (if rem_status r \<noteq> FAILED then Inl CashInStateError
      else if rem_cash_in_confirmed_at r = None then Inl CashInStateError
      else ebind (assert_recipient_registered r d) (\<lambda>recipient.
        Inr (put_remittance (rem_id r) (\<lambda>x. x\<lparr>rem_status := CASH_IN_CONFIRMED\<rparr>) d)))"

definition refund_failed_remittance ::
  "settings \<Rightarrow> remittance \<Rightarrow> instant \<Rightarrow> db \<Rightarrow> exc + db" where
  "refund_failed_remittance s r now d =
     (if rem_status r \<noteq> FAILED then Inl RefundStateError
      else if rem_cash_in_confirmed_at r = None then Inl RefundStateError
      else
        ebind (some_or RefundStateError (get_user (rem_sender_id r) d)) (\<lambda>sender.
        ebind (wallet_for (usr_id sender) now d) (\<lambda>(w, d1).
        ebind (record_external s (wal_id w) INCOMING SEND_CURRENCY (rem_zar_send_amount r)
                 (Some (rem_id r)) None ENTRY_SUCCESS None now d1) (\<lambda>(e, d2).
        Inr (put_remittance (rem_id r) (\<lambda>x. x\<lparr>rem_status := REFUNDED\<rparr>) d2)))))"

section \<open>Cash-out\<close>

text \<open>
  The row inserted by a request: the columns are \<open>Numeric(18, 6)\<close> and \<open>Numeric(12, 6)\<close>, and
  the index \<open>uq_cash_outs_idempotency_key\<close> is unique over the whole table.
\<close>

definition insert_cash_out :: "cash_out \<Rightarrow> db \<Rightarrow> exc + cash_out \<times> db" where
  "insert_cash_out c d =
     (if co_idempotency_key c \<noteq> None \<and>
         (\<exists>x \<in> set (cash_outs d). co_idempotency_key x = co_idempotency_key c)
      then Inl IntegrityError
      else
        ebind (numeric_col 18 6 (co_uctusd_amount c)) (\<lambda>gross.
        ebind (numeric_col 18 6 (co_cash_out_fee_uctusd c)) (\<lambda>fee.
        ebind (numeric_col 18 6 (co_net_uctusd c)) (\<lambda>net.
        ebind (numeric_col 18 6 (co_payout_amount c)) (\<lambda>payout.
        ebind (numeric_col 12 6 (co_fx_rate_used c)) (\<lambda>rate.
        let c' = c\<lparr>co_id := next_id d, co_uctusd_amount := gross, co_cash_out_fee_uctusd := fee,
                   co_net_uctusd := net, co_payout_amount := payout, co_fx_rate_used := rate\<rparr>
        in Inr (c', d\<lparr>cash_outs := cash_outs d @ [c'], next_id := Suc (next_id d)\<rparr>)))))))"

definition new_cash_out ::
  "uuid \<Rightarrow> cash_out_quote \<Rightarrow> uuid \<Rightarrow> string option \<Rightarrow> instant \<Rightarrow> cash_out" where
  "new_cash_out user_id q debit_id idempotency_key now =
     \<lparr>co_id = 0, co_user_id = user_id, co_uctusd_amount = coq_uctusd_amount q,
      co_cash_out_fee_uctusd = coq_cash_out_fee_uctusd q, co_net_uctusd = coq_net_uctusd q,
      co_payout_currency = coq_payout_currency q, co_payout_amount = coq_payout_amount q,
      co_fx_rate_used = coq_fx_rate q, co_status = CO_REQUESTED, co_failure_reason = None,
      co_debit_transaction_id = Some debit_id, co_credit_transaction_id = None,
      co_idempotency_key = idempotency_key, co_xrpl_tx_hash = None,
      co_reviewed_by_admin_id = None, co_requested_at = now, co_approved_at = None,
      co_completed_at = None\<rparr>"

definition replayed_cash_out :: "uuid \<Rightarrow> string option \<Rightarrow> db \<Rightarrow> cash_out option" where
  "replayed_cash_out user_id idempotency_key d =
     (case idempotency_key of
        None \<Rightarrow> None
      | Some key \<Rightarrow>
          find (\<lambda>c. co_user_id c = user_id \<and> co_idempotency_key c = Some key) (cash_outs d))"

definition request_cash_out ::
  "settings \<Rightarrow> uuid \<Rightarrow> decimal \<Rightarrow> string \<Rightarrow> decimal \<Rightarrow> string option \<Rightarrow> instant \<Rightarrow> db \<Rightarrow>
   exc + cash_out \<times> db" where
  "request_cash_out s user_id uctusd_amount payout_currency usd_zar_rate idempotency_key now d =
     (case replayed_cash_out user_id idempotency_key d of
        Some existing \<Rightarrow> Inr (existing, d)
      | None \<Rightarrow>
          ebind (calculate_cash_out_payout s uctusd_amount payout_currency usd_zar_rate) (\<lambda>q.
          ebind (guard_or UnsupportedPayoutCurrencyError
                   (coq_payout_currency q \<in> set (payout_currencies s))) (\<lambda>_.
          ebind (wallet_for user_id now d) (\<lambda>(w, d1).
          ebind (debit s (wal_id w) SETTLEMENT_CURRENCY (coq_uctusd_amount q) None None now d1)
            (\<lambda>(e, d2).
          insert_cash_out (new_cash_out user_id q (wtx_id e) idempotency_key now) d2)))))"

definition approve_cash_out :: "cash_out \<Rightarrow> instant \<Rightarrow> db \<Rightarrow> exc + db" where
  "approve_cash_out c now d =
     (if co_status c \<noteq> CO_REQUESTED then Inl CashOutStateError
      else Inr (put_cash_out (co_id c)
                  (\<lambda>x. x\<lparr>co_status := CO_APPROVED, co_approved_at := Some now\<rparr>) d))"

definition queue_cash_out_burn ::
  "(uuid \<Rightarrow> 'r \<Rightarrow> (redis_error + string) \<times> 'r) \<Rightarrow> cash_out \<Rightarrow> 'r \<Rightarrow> (exc + string) \<times> 'r" where
  "queue_cash_out_burn pub c q =
     (if co_status c \<noteq> CO_APPROVED then (Inl CashOutStateError, q)
      else case pub (co_id c) q of
             (Inl e, q') \<Rightarrow> (Inl SettlementPublishError, q')
           | (Inr entry_id, q') \<Rightarrow> (Inr entry_id, q'))"

definition complete_cash_out ::
  "settings \<Rightarrow> cash_out \<Rightarrow> string \<Rightarrow> instant \<Rightarrow> db \<Rightarrow> exc + db" where
  "complete_cash_out s c tx_hash now d =
     ebind (some_or AttributeError (get_user (co_user_id c) d)) (\<lambda>user.
     ebind (wallet_for (usr_id user) now d) (\<lambda>(w, d1).
     ebind (credit s (wal_id w) (co_payout_currency c) (co_payout_amount c) None None now d1)
       (\<lambda>(e, d2).
     Inr (put_cash_out (co_id c) (\<lambda>x. x\<lparr>co_credit_transaction_id := Some (wtx_id e),
            co_xrpl_tx_hash := Some tx_hash, co_status := CO_COMPLETED,
            co_completed_at := Some now\<rparr>) d2))))"

definition fail_cash_out ::
  "settings \<Rightarrow> cash_out \<Rightarrow> string \<Rightarrow> instant \<Rightarrow> cash_out_status list \<Rightarrow> db \<Rightarrow> exc + db" where
  "fail_cash_out s c reason now from_states d =
     (if co_status c \<notin> set from_states then Inl CashOutStateError
      else
        ebind (some_or AttributeError (get_user (co_user_id c) d)) (\<lambda>user.
        ebind (wallet_for (usr_id user) now d) (\<lambda>(w, d1).
        ebind (credit s (wal_id w) SETTLEMENT_CURRENCY (co_uctusd_amount c) None None now d1)
          (\<lambda>(e, d2).
        Inr (put_cash_out (co_id c) (\<lambda>x. x\<lparr>co_status := CO_FAILED,
               co_failure_reason := Some (take 500 reason), co_completed_at := Some now\<rparr>) d2)))))"

text \<open>The states an admin may fail a cash-out from: the default of \<open>from_states\<close>.\<close>

definition ADMIN_FAIL_STATES :: "cash_out_status list" where
  "ADMIN_FAIL_STATES = [CO_REQUESTED, CO_APPROVED]"

section \<open>The invariant of the business tables\<close>

text \<open>
  The configuration the services assume: both currencies of the corridor are in
  \<open>SUPPORTED_CURRENCIES\<close>.
\<close>

definition corridor_ok :: "settings \<Rightarrow> bool" where
  "corridor_ok s \<longleftrightarrow>
     SETTLEMENT_CURRENCY \<in> set (supported_currencies_list s) \<and>
     SEND_CURRENCY \<in> set (supported_currencies_list s)"

definition remittance_ok :: "remittance \<Rightarrow> bool" where
  "remittance_ok r \<longleftrightarrow>
     token_amount_ok (rem_uctusd_amount r) \<and> rem_uctusd_amount r < 10 ^ 12 \<and>
     scaled 2 (rem_zar_send_amount r) \<and> 0 < rem_zar_send_amount r \<and>
     (rem_status r \<noteq> QUOTED \<longrightarrow> rem_cash_in_confirmed_at r \<noteq> None)"

definition cash_out_ok :: "settings \<Rightarrow> cash_out \<Rightarrow> bool" where
  "cash_out_ok s c \<longleftrightarrow>
     token_amount_ok (co_uctusd_amount c) \<and> co_uctusd_amount c < 10 ^ 12 \<and>
     scaled 6 (co_net_uctusd c) \<and> 0 < co_net_uctusd c \<and> co_net_uctusd c \<le> co_uctusd_amount c \<and>
     scaled 6 (co_payout_amount c) \<and> 0 \<le> co_payout_amount c \<and>
     co_payout_currency c \<in> set (payout_currencies s)"

text \<open>What the successful incoming entry of a remittance says about it.\<close>

definition credited :: "uuid \<Rightarrow> wallet_transaction \<Rightarrow> bool" where
  "credited rid e \<longleftrightarrow> wtx_remittance_id e = Some rid \<and> wtx_direction e = INCOMING \<and>
     wtx_status e = ENTRY_SUCCESS \<and> wtx_currency e = SETTLEMENT_CURRENCY"

definition repaid :: "uuid \<Rightarrow> wallet_transaction \<Rightarrow> bool" where
  "repaid rid e \<longleftrightarrow> wtx_remittance_id e = Some rid \<and> wtx_direction e = INCOMING \<and>
     wtx_status e = ENTRY_SUCCESS \<and> wtx_currency e = SEND_CURRENCY"

definition entry_linked :: "db \<Rightarrow> wallet_transaction \<Rightarrow> bool" where
  "entry_linked d e \<longleftrightarrow>
     (\<forall>rid. wtx_remittance_id e = Some rid \<longrightarrow>
        (\<exists>r. get_remittance rid d = Some r \<and>
             (credited rid e \<longrightarrow> wtx_amount e = rem_uctusd_amount r) \<and>
             (repaid rid e \<longrightarrow> wtx_amount e = rem_zar_send_amount r)))"

definition status_linked :: "wallet_transaction list \<Rightarrow> remittance \<Rightarrow> bool" where
  "status_linked es r \<longleftrightarrow>
     (rem_status r = SETTLED \<longrightarrow> (\<exists>e \<in> set es. credited (rem_id r) e)) \<and>
     (rem_status r = REFUNDED \<longrightarrow> (\<exists>e \<in> set es. repaid (rem_id r) e))"

definition app_inv :: "settings \<Rightarrow> db \<Rightarrow> bool" where
  "app_inv s d \<longleftrightarrow>
     ledger_inv s d \<and>
     fresh_ids rem_id (next_id d) (remittances d) \<and> (\<forall>r \<in> set (remittances d). remittance_ok r) \<and>
     fresh_ids co_id (next_id d) (cash_outs d) \<and> (\<forall>c \<in> set (cash_outs d). cash_out_ok s c) \<and>
     (\<forall>e \<in> set (wallet_transactions d). entry_linked d e) \<and>
     (\<forall>r \<in> set (remittances d). status_linked (wallet_transactions d) r)"

lemma app_inv_empty [simp]: "app_inv s empty_db"
  using empty_ledger [of s] by (simp add: app_inv_def) (simp add: empty_db_def)

lemma ledger_inv_same:
  assumes "wallets d' = wallets d" "ledger_balances d' = ledger_balances d"
    "wallet_transactions d' = wallet_transactions d" "next_id d \<le> next_id d'" "ledger_inv s d"
  shows "ledger_inv s d'"
proof -
  note mono = fresh_ids_mono [OF _ assms(4)]
  have "held w c d' = held w c d" for w c
    using assms(2) by (simp add: held_def balance_row_def)
  then show ?thesis
    using assms(1,2,3,5)
    by (simp add: ledger_inv_def ledger_shape_def wallets_ok_def balances_ok_def entries_ok_def
        reconciled_def mono)
qed

lemma ledger_inv_put [simp]:
  "ledger_inv s (put_remittance k f d) = ledger_inv s d"
  "ledger_inv s (put_cash_out k g d) = ledger_inv s d"
  by (simp_all add: ledger_inv_def ledger_shape_def wallets_ok_def balances_ok_def entries_ok_def
      reconciled_def held_def balance_row_def put_remittance_def put_cash_out_def)

lemma put_fields [simp]:
  "wallet_transactions (put_remittance k f d) = wallet_transactions d"
  "wallet_transactions (put_cash_out k g d) = wallet_transactions d"
  "next_id (put_remittance k f d) = next_id d" "next_id (put_cash_out k g d) = next_id d"
  "cash_outs (put_remittance k f d) = cash_outs d" "remittances (put_cash_out k g d) = remittances d"
  "remittances (put_remittance k f d) = put_by rem_id k f (remittances d)"
  "cash_outs (put_cash_out k g d) = put_by co_id k g (cash_outs d)"
  "held w c (put_remittance k f d) = held w c d" "held w c (put_cash_out k g d) = held w c d"
  "users (put_remittance k f d) = users d" "users (put_cash_out k g d) = users d"
  "beneficiaries (put_remittance k f d) = beneficiaries d"
  "platform_wallets (put_remittance k f d) = platform_wallets d"
  "wallets (put_remittance k f d) = wallets d" "wallets (put_cash_out k g d) = wallets d"
  by (simp_all add: put_remittance_def put_cash_out_def held_def balance_row_def)

text \<open>A ledger operation that appends one entry keeps the rest of the invariant if the entry is linked.\<close>

lemma app_inv_ledger:
  assumes "app_inv s d" "ledger_only d d'" "ledger_inv s d'"
    "wallet_transactions d' = wallet_transactions d @ es" "\<forall>e \<in> set es. entry_linked d e"
  shows "app_inv s d'"
proof -
  have same: "remittances d' = remittances d" "cash_outs d' = cash_outs d" "next_id d \<le> next_id d'"
    using assms(2) by (auto simp: ledger_only_def)
  have "entry_linked d' e \<longleftrightarrow> entry_linked d e" for e
    using ledger_only_get(2) [OF assms(2)] by (simp add: entry_linked_def)
  moreover have "status_linked (wallet_transactions d') r" if "status_linked (wallet_transactions d) r" for r
    using that assms(4) by (auto simp: status_linked_def)
  ultimately show ?thesis using assms(1,3,4,5) same(1,2)
    by (auto simp: app_inv_def intro: fresh_ids_mono [OF _ same(3)])
qed

text \<open>A write to one remittance that keeps its figures and justifies its new status.\<close>

lemma app_inv_put_remittance:
  assumes inv: "app_inv s d"
    and f: "\<And>x. rem_id (f x) = rem_id x"
      "\<And>x. rem_uctusd_amount (f x) = rem_uctusd_amount x"
      "\<And>x. rem_zar_send_amount (f x) = rem_zar_send_amount x"
    and ok: "\<And>x. x \<in> set (remittances d) \<Longrightarrow> rem_id x = k \<Longrightarrow>
      (rem_status (f x) \<noteq> QUOTED \<longrightarrow> rem_cash_in_confirmed_at (f x) \<noteq> None) \<and>
      status_linked (wallet_transactions d) (f x)"
  shows "app_inv s (put_remittance k f d)"
proof -
  have "entry_linked (put_remittance k f d) e" if "entry_linked d e" for e
    using that f by (fastforce simp: entry_linked_def rem_store.get_put)
  moreover have "\<forall>r \<in> set (put_by rem_id k f (remittances d)). remittance_ok r \<and>
      status_linked (wallet_transactions d) r"
    using inv f ok by (auto simp: app_inv_def set_put_by remittance_ok_def)
  ultimately show ?thesis using inv f by (simp add: app_inv_def)
qed

text \<open>A write to one cash-out that keeps its figures.\<close>

lemma app_inv_put_cash_out:
  assumes "app_inv s d" "\<And>x. co_id (f x) = co_id x" "\<And>x. cash_out_ok s (f x) = cash_out_ok s x"
  shows "app_inv s (put_cash_out k f d)"
proof -
  have "entry_linked (put_cash_out k f d) e = entry_linked d e" for e
    by (simp add: entry_linked_def get_remittance_def)
  then show ?thesis using assms by (auto simp: app_inv_def set_put_by)
qed

lemma app_inv_remittance:
  "app_inv s d \<Longrightarrow> get_remittance k d = Some r \<Longrightarrow>
     remittance_ok r \<and> status_linked (wallet_transactions d) r \<and> r \<in> set (remittances d) \<and> rem_id r = k"
  by (auto simp: app_inv_def get_remittance_def dest: get_by_Some)

lemma app_inv_cash_out:
  "app_inv s d \<Longrightarrow> get_cash_out_row k d = Some c \<Longrightarrow>
     cash_out_ok s c \<and> c \<in> set (cash_outs d) \<and> co_id c = k"
  by (auto simp: app_inv_def get_cash_out_row_def dest: get_by_Some)

lemma app_inv_ledger_inv: "app_inv s d \<Longrightarrow> ledger_inv s d" "app_inv s d \<Longrightarrow> ledger_shape s d"
  by (auto simp: app_inv_def ledger_inv_def)

section \<open>The operations keep the invariant\<close>

lemma corridor_normal:
  "corridor_ok s \<Longrightarrow> SETTLEMENT_CURRENCY \<in> set (supported_currencies_list s)"
  "corridor_ok s \<Longrightarrow> SEND_CURRENCY \<in> set (supported_currencies_list s)"
  by (auto simp: corridor_ok_def)

lemma payout_currency_facts:
  assumes "c \<in> set (payout_currencies s)"
  shows "c \<in> set (supported_currencies_list s)" "c \<noteq> SETTLEMENT_CURRENCY" "py_upper (py_strip c) = c"
    "c \<in> set PRICEABLE_PAYOUT_CURRENCIES"
  using assms supported_currencies_normal by (auto simp: payout_currencies_def)

lemma wallet_for_app:
  assumes "wallet_for u now d = Inr (w, d')" "app_inv s d"
  shows "app_inv s d'" "wallet_transactions d' = wallet_transactions d" "held x c d' = held x c d"
    "ledger_only d d'"
proof -
  note ok = wallet_for_ok [OF assms(1) app_inv_ledger_inv(2) [OF assms(2)]]
  show "wallet_transactions d' = wallet_transactions d" "held x c d' = held x c d" "ledger_only d d'"
    by (rule ok)+
  show "app_inv s d'"
    using app_inv_ledger [OF assms(2) ok(2) wallet_for_inv [OF assms(1) app_inv_ledger_inv(1) [OF assms(2)]], of "[]"]
      ok(5) by simp
qed

text \<open>A movement without a remittance: what a cash-out does.\<close>

lemma plain_move_app:
  assumes run: "move_balance s w dir cur a None h now d = Inr (e, d')" and inv: "app_inv s d"
    and a: "scaled 6 a"
  shows "app_inv s d'" "ledger_only d d'" "wallet_transactions d' = wallet_transactions d @ [e]"
    "wtx_amount e = a" "wtx_direction e = dir" "wtx_currency e = py_upper (py_strip cur)"
    "wtx_remittance_id e = None" "wtx_status e = ENTRY_SUCCESS" "wtx_wallet_id e = w"
    "held x c d' = held x c d + (if x = w \<and> c = py_upper (py_strip cur)
       then case dir of INCOMING \<Rightarrow> a | OUTGOING \<Rightarrow> - a else 0)"
proof -
  note ok = move_balance_ok [OF run app_inv_ledger_inv(2) [OF inv] a]
  have "entry_linked d e" using ok(6) by (simp add: entry_linked_def)
  then show "app_inv s d'"
    using app_inv_ledger [OF inv ok(2) move_balance_inv [OF run app_inv_ledger_inv(1) [OF inv] a] ok(4)]
    by simp
  show "ledger_only d d'" "wallet_transactions d' = wallet_transactions d @ [e]"
    "wtx_amount e = a" "wtx_direction e = dir" "wtx_currency e = py_upper (py_strip cur)"
    "wtx_remittance_id e = None" "wtx_status e = ENTRY_SUCCESS" "wtx_wallet_id e = w"
    "held x c d' = held x c d + (if x = w \<and> c = py_upper (py_strip cur)
       then case dir of INCOMING \<Rightarrow> a | OUTGOING \<Rightarrow> - a else 0)"
    by (rule ok)+
qed

lemma simulate_cash_in_app:
  assumes "simulate_cash_in r meth now d = Inr (b, d')" "app_inv s d"
    "get_remittance (rem_id r) d = Some r"
  shows "app_inv s d'" "wallet_transactions d' = wallet_transactions d" "cash_outs d' = cash_outs d"
    "held x c d' = held x c d"
proof -
  obtain f where "d' = d \<or> (d' = put_remittance (rem_id r) f d \<and> rem_status r = QUOTED \<and>
      f = (\<lambda>x. x\<lparr>rem_cash_in_method := Some (py_lower (py_strip meth)),
               rem_status := CASH_IN_CONFIRMED, rem_cash_in_confirmed_at := Some now,
               rem_quote_expires_at := None\<rparr>))"
    using assms(1) by (auto simp: simulate_cash_in_def Let_def ebind_eq_Inr split: if_splits)
  note cs = this
  show "app_inv s d'"
    using cs assms(2) by (auto intro!: app_inv_put_remittance simp: status_linked_def)
  show "wallet_transactions d' = wallet_transactions d" "cash_outs d' = cash_outs d"
    "held x c d' = held x c d"
    using cs by auto
qed

text \<open>
  Marking QUEUED is a blind write: whatever the row has become since its status was read, the
  invariant survives it, because it claims nothing that needs an entry behind it.
\<close>

lemma mark_queued_app:
  assumes "app_inv s d" "\<And>r. get_remittance k d = Some r \<Longrightarrow> rem_cash_in_confirmed_at r \<noteq> None"
  shows "app_inv s (put_remittance k (\<lambda>x. x\<lparr>rem_status := QUEUED\<rparr>) d)"
proof (rule app_inv_put_remittance)
  fix x assume "x \<in> set (remittances d)" "rem_id x = k"
  then have "get_remittance k d = Some x"
    using assms(1) by (auto simp: app_inv_def get_remittance_def fresh_ids_get_by)
  then show "(rem_status (x\<lparr>rem_status := QUEUED\<rparr>) \<noteq> QUOTED \<longrightarrow>
      rem_cash_in_confirmed_at (x\<lparr>rem_status := QUEUED\<rparr>) \<noteq> None) \<and>
    status_linked (wallet_transactions d) (x\<lparr>rem_status := QUEUED\<rparr>)"
    using assms(2) by (simp add: status_linked_def)
qed (use assms in auto)

lemma requeue_app:
  assumes "requeue_failed_remittance r d = Inr d'" "app_inv s d" "get_remittance (rem_id r) d = Some r"
  shows "app_inv s d'" "wallet_transactions d' = wallet_transactions d" "cash_outs d' = cash_outs d"
proof -
  have d': "d' = put_remittance (rem_id r) (\<lambda>x. x\<lparr>rem_status := CASH_IN_CONFIRMED\<rparr>) d"
    and conf: "rem_cash_in_confirmed_at r \<noteq> None"
    using assms(1) by (auto simp: requeue_failed_remittance_def ebind_eq_Inr split: if_splits)
  show "wallet_transactions d' = wallet_transactions d" "cash_outs d' = cash_outs d" by (simp_all add: d')
  have "get_remittance k d = Some x" if "x \<in> set (remittances d)" "rem_id x = k" for x k
    using assms(2) that by (auto simp: app_inv_def get_remittance_def fresh_ids_get_by)
  then show "app_inv s d'" unfolding d'
    using assms(2,3) conf by (intro app_inv_put_remittance) (auto simp: status_linked_def)
qed

text \<open>All the UCTUSD the ledger owes its users: the signed sum of the entries that move it.\<close>

definition uct_entry :: "wallet_transaction \<Rightarrow> decimal" where
  "uct_entry e = (if moves e \<and> wtx_currency e = SETTLEMENT_CURRENCY then signed e else 0)"

definition uct_claims :: "db \<Rightarrow> decimal" where
  "uct_claims d = sum_list (map uct_entry (wallet_transactions d))"

lemma uct_claims_append:
  "wallet_transactions d' = wallet_transactions d @ es \<Longrightarrow>
     uct_claims d' = uct_claims d + sum_list (map uct_entry es)"
  by (simp add: uct_claims_def)

lemma uct_claims_same: "wallet_transactions d' = wallet_transactions d \<Longrightarrow> uct_claims d' = uct_claims d"
  by (simp add: uct_claims_def)

lemma refund_app:
  assumes run: "refund_failed_remittance s r now d = Inr d'" and inv: "app_inv s d"
    and r: "get_remittance (rem_id r) d = Some r"
  shows "app_inv s d'" "cash_outs d' = cash_outs d"
    "\<exists>e. wallet_transactions d' = wallet_transactions d @ [e] \<and> repaid (rem_id r) e \<and>
         wtx_amount e = rem_zar_send_amount r"
    "held x c d' = held x c d" "uct_claims d' = uct_claims d"
    "rem_status r = FAILED" "get_remittance (rem_id r) d' = Some (r\<lparr>rem_status := REFUNDED\<rparr>)"
proof -
  obtain sender :: user and w d1 e d2 where st: "rem_status r = FAILED" "rem_cash_in_confirmed_at r \<noteq> None"
    and w: "wallet_for (usr_id sender) now d = Inr (w, d1)"
    and rec: "record_external s (wal_id w) INCOMING SEND_CURRENCY (rem_zar_send_amount r)
                 (Some (rem_id r)) None ENTRY_SUCCESS None now d1 = Inr (e, d2)"
    and d': "d' = put_remittance (rem_id r) (\<lambda>x. x\<lparr>rem_status := REFUNDED\<rparr>) d2"
    using run by (auto simp: refund_failed_remittance_def ebind_eq_Inr split: if_splits)
  note wf = wallet_for_app [OF w inv]
  note rx = record_external_ok [OF rec app_inv_ledger_inv(2) [OF wf(1)]]
  have linv: "ledger_inv s d2"
    using record_external_inv [OF rec app_inv_ledger_inv(1) [OF wf(1)]] by simp
  have rok: "remittance_ok r" "scaled 2 (rem_zar_send_amount r)"
    using app_inv_remittance [OF inv r] by (auto simp: remittance_ok_def)
  have amt: "wtx_amount e = rem_zar_send_amount r"
    using rx(11) scaled_mono [OF rok(2), of 6] by (auto intro: numeric_col_id)
  have rep: "repaid (rem_id r) e" using rx(6-9) by (simp add: repaid_def)
  have r1: "get_remittance (rem_id r) d1 = Some r" using r wf(4) by simp
  have "entry_linked d1 e" using rx(6) r1 amt by (auto simp: entry_linked_def credited_def rx(8))
  then have inv2: "app_inv s d2"
    using app_inv_ledger [OF wf(1) rx(2) linv rx(4)] by simp
  have r2: "get_remittance (rem_id r) d2 = Some r" using r1 rx(2) by simp
  have only: "x = r" if "x \<in> set (remittances d2)" "rem_id x = rem_id r" for x
    using that inv2 r2 by (metis app_inv_def fresh_ids_get_by get_remittance_def option.inject)
  show "app_inv s d'" unfolding d'
    using st rep rx(4) only by (intro app_inv_put_remittance [OF inv2]) (auto simp: status_linked_def)
  show "cash_outs d' = cash_outs d" using rx(2) wf(4) by (simp add: d' ledger_only_def)
  show wt: "\<exists>e. wallet_transactions d' = wallet_transactions d @ [e] \<and> repaid (rem_id r) e \<and>
         wtx_amount e = rem_zar_send_amount r"
    using rx(4) wf(2) rep amt by (simp add: d')
  show "held x c d' = held x c d" using rx(3) wf(3) by (simp add: d')
  show "uct_claims d' = uct_claims d"
    using wt by (auto simp: uct_claims_append uct_entry_def repaid_def)
  show "rem_status r = FAILED" by (rule st)
  show "get_remittance (rem_id r) d' = Some (r\<lparr>rem_status := REFUNDED\<rparr>)"
    unfolding d' using r2 by (intro rem_store.get_put_same) simp_all
qed

subsection \<open>Cash-outs\<close>

definition cash_out_request_ok :: "settings \<Rightarrow> decimal \<Rightarrow> decimal \<Rightarrow> bool" where
  "cash_out_request_ok s u rate \<longleftrightarrow>
     fee_settings_ok s \<and> token_amount_ok u \<and> u < 10 ^ 12 \<and> rate_ok rate \<and> u * rate \<le> 10 ^ 15"

lemma priced_cash_out:
  assumes "calculate_cash_out_payout s u cur rate = Inr q" "cash_out_request_ok s u rate"
  shows "py_upper (py_strip cur) \<in> set PRICEABLE_PAYOUT_CURRENCIES"
    "coq_payout_currency q = py_upper (py_strip cur)"
    "coq_uctusd_amount q = u" "coq_cash_out_fee_uctusd q + coq_net_uctusd q = u"
    "0 < coq_net_uctusd q" "coq_net_uctusd q \<le> u" "scaled 6 (coq_net_uctusd q)"
    "coq_payout_amount q = exact_payout (coq_net_uctusd q) (py_upper (py_strip cur)) rate"
    "scaled 6 (coq_payout_amount q)" "0 \<le> coq_payout_amount q" "coq_fx_rate q = rate"
proof -
  let ?code = "py_upper (py_strip cur)"
  have ok: "fee_settings_ok s" "token_amount_ok u" "rate_ok rate" "u * rate \<le> 10 ^ 15"
    using assms(2) by (auto simp: cash_out_request_ok_def)
  have u: "scaled 6 u" "0 \<le> u" "0 < rate" "0 < u" "0 \<le> cashout_fee_bps s"
    using ok by (auto simp: token_amount_ok_def rate_ok_def fee_settings_ok_def)
  show code: "?code \<in> set PRICEABLE_PAYOUT_CURRENCIES"
    using assms(1) by (auto simp: calculate_cash_out_payout_def Let_def split: if_splits)
  have eq: "exact_cash_out s u ?code rate = Inr q"
    using cash_out_exact_core [OF ok(1-3) code] ok(4) assms(1) by simp
  note f = exact_cash_out_figures [OF eq u(1)]
  have fee: "0 \<le> coq_cash_out_fee_uctusd q" by (rule exact_cash_out_fee_nonneg [OF eq u(2,5)])
  show "coq_payout_currency q = ?code" "coq_uctusd_amount q = u"
    "coq_cash_out_fee_uctusd q + coq_net_uctusd q = u" "0 < coq_net_uctusd q"
    "scaled 6 (coq_net_uctusd q)" "coq_fx_rate q = rate"
    "coq_payout_amount q = exact_payout (coq_net_uctusd q) ?code rate"
    by (rule f)+
  show "coq_net_uctusd q \<le> u" using f(2) fee by linarith
  have "scaled (quantum_for ?code) (coq_payout_amount q)" unfolding f(4) exact_payout_def Let_def by simp
  then show "scaled 6 (coq_payout_amount q)"
    by (rule scaled_mono) (simp add: quantum_for_def TOKEN_QUANTUM_def FIAT_QUANTUM_def)
  show "0 \<le> coq_payout_amount q" unfolding f(4) by (rule exact_payout_bounds(1) [OF f(3) u(3)])
qed

lemma insert_cash_out_ok:
  assumes "insert_cash_out c d = Inr (c', d')" "scaled 6 (co_uctusd_amount c)"
    "scaled 6 (co_cash_out_fee_uctusd c)" "scaled 6 (co_net_uctusd c)" "scaled 6 (co_payout_amount c)"
    "scaled 6 (co_fx_rate_used c)"
  shows "c' = c\<lparr>co_id := next_id d\<rparr>"
    "d' = d\<lparr>cash_outs := cash_outs d @ [c'], next_id := Suc (next_id d)\<rparr>"
    "co_idempotency_key c = None \<or>
       (\<forall>x \<in> set (cash_outs d). co_idempotency_key x \<noteq> co_idempotency_key c)"
  using assms numeric_col_id
  by (auto simp: insert_cash_out_def Let_def ebind_eq_Inr split: if_splits)

lemma signed_uct_entry:
  assumes "wtx_remittance_id e = None" "wtx_status e = ENTRY_SUCCESS" "wtx_wallet_id e = w"
  shows "uct_entry e = (if wtx_currency e = SETTLEMENT_CURRENCY then signed e else 0)"
  using assms by (simp add: uct_entry_def moves_def)

lemma request_new_app:
  assumes run: "request_cash_out s uid u cur rate key now d = Inr (c, d')"
    and new: "replayed_cash_out uid key d = None"
    and inv: "app_inv s d" and req: "cash_out_request_ok s u rate"
  shows "app_inv s d'" "cash_outs d' = cash_outs d @ [c]" "remittances d' = remittances d"
    "co_status c = CO_REQUESTED" "co_uctusd_amount c = u" "co_user_id c = uid"
    "co_idempotency_key c = key" "users d' = users d"
    "\<exists>e w. wallet_transactions d' = wallet_transactions d @ [e] \<and>
         wallet_of uid d' = Some w \<and> wtx_wallet_id e = wal_id w \<and> wtx_direction e = OUTGOING \<and>
         wtx_amount e = u \<and> u \<le> held (wal_id w) SETTLEMENT_CURRENCY d \<and>
         co_debit_transaction_id c = Some (wtx_id e) \<and>
         (\<forall>w0. wallet_of uid d = Some w0 \<longrightarrow> w0 = w) \<and>
         (\<forall>x k. held x k d' = held x k d -
            (if x = wal_id w \<and> k = SETTLEMENT_CURRENCY then u else 0))"
    "uct_claims d' = uct_claims d - u"
    "calculate_cash_out_payout s u cur rate = Inr q \<Longrightarrow>
       co_net_uctusd c = coq_net_uctusd q \<and> co_payout_amount c = coq_payout_amount q \<and>
       co_payout_currency c = coq_payout_currency q \<and> co_cash_out_fee_uctusd c = coq_cash_out_fee_uctusd q"
proof -
  obtain q0 w d1 e d2 where pr: "calculate_cash_out_payout s u cur rate = Inr q0"
    and cur: "coq_payout_currency q0 \<in> set (payout_currencies s)"
    and w: "wallet_for uid now d = Inr (w, d1)"
    and deb: "debit s (wal_id w) SETTLEMENT_CURRENCY (coq_uctusd_amount q0) None None now d1 = Inr (e, d2)"
    and ins: "insert_cash_out (new_cash_out uid q0 (wtx_id e) key now) d2 = Inr (c, d')"
    using run new by (auto simp: request_cash_out_def ebind_eq_Inr guard_or_eq_Inr)
  note p = priced_cash_out [OF pr req]
  have u: "scaled 6 u" "0 < u" "u < 10 ^ 12" "scaled 6 rate"
    using req by (auto simp: cash_out_request_ok_def token_amount_ok_def rate_ok_def)
  note wf = wallet_for_app [OF w inv]
  have run2: "move_balance s (wal_id w) OUTGOING SETTLEMENT_CURRENCY u None None now d1 = Inr (e, d2)"
    using deb p(3) by (simp add: debit_def)
  note mv = plain_move_app [OF run2 wf(1) u(1)]
  have fee: "scaled 6 (coq_cash_out_fee_uctusd q0)"
  proof -
    have "coq_cash_out_fee_uctusd q0 = u - coq_net_uctusd q0" using p(4) by linarith
    then show ?thesis using u(1) p(7) by auto
  qed
  note ic = insert_cash_out_ok [OF ins]
  have c: "c = (new_cash_out uid q0 (wtx_id e) key now)\<lparr>co_id := next_id d2\<rparr>"
    and d': "d' = d2\<lparr>cash_outs := cash_outs d2 @ [c], next_id := Suc (next_id d2)\<rparr>"
    using ic u p fee by (auto simp: new_cash_out_def)
  have cos: "cash_outs d2 = cash_outs d" "remittances d2 = remittances d"
    using mv(2) wf(4) by (auto simp: ledger_only_def)
  have cok: "cash_out_ok s c"
    using req p cur by (auto simp: c new_cash_out_def cash_out_ok_def cash_out_request_ok_def)
  have linv: "ledger_inv s d'"
    by (rule ledger_inv_same [OF _ _ _ _ app_inv_ledger_inv(1) [OF mv(1)]]) (simp_all add: d')
  have "entry_linked d' x = entry_linked d2 x" for x
    by (simp add: entry_linked_def d' get_remittance_def)
  then show "app_inv s d'"
    using mv(1) linv cok by (auto simp: app_inv_def d' c)
  show "cash_outs d' = cash_outs d @ [c]" "remittances d' = remittances d" using cos by (simp_all add: d')
  show "co_status c = CO_REQUESTED" "co_uctusd_amount c = u" "co_user_id c = uid"
    "co_idempotency_key c = key"
    using p(3) by (simp_all add: c new_cash_out_def)
  show "users d' = users d" using mv(2) wf(4) by (simp add: d' ledger_only_def)
  have wt: "wallet_transactions d' = wallet_transactions d @ [e]" using mv(3) wf(2) by (simp add: d')
  have h: "held x k d' = held x k d - (if x = wal_id w \<and> k = SETTLEMENT_CURRENCY then u else 0)" for x k
    using mv(10) [of x k] wf(3) [of x k] by (simp add: d' held_def balance_row_def)
  have wo: "wallet_of uid d1 = Some w"
    using wallet_for_ok(4) [OF w app_inv_ledger_inv(2) [OF inv]] .
  then have "wallet_of uid d' = Some w"
    using mv(2) by (auto simp: d' ledger_only_def wallet_of_def get_by_append)
  moreover have keep: "\<forall>w0. wallet_of uid d = Some w0 \<longrightarrow> w0 = w"
    using w by (auto simp: wallet_for_def wallet_for_raced_def)
  moreover have "u \<le> held (wal_id w) SETTLEMENT_CURRENCY d"
    using move_balance_ok(15) [OF run2 app_inv_ledger_inv(2) [OF wf(1)] u(1)] wf(3) by simp
  ultimately show "\<exists>e w. wallet_transactions d' = wallet_transactions d @ [e] \<and>
         wallet_of uid d' = Some w \<and> wtx_wallet_id e = wal_id w \<and> wtx_direction e = OUTGOING \<and>
         wtx_amount e = u \<and> u \<le> held (wal_id w) SETTLEMENT_CURRENCY d \<and>
         co_debit_transaction_id c = Some (wtx_id e) \<and>
         (\<forall>w0. wallet_of uid d = Some w0 \<longrightarrow> w0 = w) \<and>
         (\<forall>x k. held x k d' = held x k d -
            (if x = wal_id w \<and> k = SETTLEMENT_CURRENCY then u else 0))"
    using wt h mv(4,5,9) keep by (auto simp: c new_cash_out_def)
  show "uct_claims d' = uct_claims d - u"
    using uct_claims_append [OF wt] mv(4-8) by (simp add: uct_entry_def moves_def signed_def)
  show "calculate_cash_out_payout s u cur rate = Inr q \<Longrightarrow>
       co_net_uctusd c = coq_net_uctusd q \<and> co_payout_amount c = coq_payout_amount q \<and>
       co_payout_currency c = coq_payout_currency q \<and> co_cash_out_fee_uctusd c = coq_cash_out_fee_uctusd q"
    using pr by (simp add: c new_cash_out_def)
qed

lemma request_replay:
  "replayed_cash_out uid key d = Some c \<Longrightarrow> request_cash_out s uid u cur rate key now d = Inr (c, d)"
  by (simp add: request_cash_out_def)

lemma approve_app:
  assumes "approve_cash_out c now d = Inr d'" "app_inv s d"
  shows "app_inv s d'" "wallet_transactions d' = wallet_transactions d" "remittances d' = remittances d"
    "co_status c = CO_REQUESTED"
    "d' = put_cash_out (co_id c) (\<lambda>x. x\<lparr>co_status := CO_APPROVED, co_approved_at := Some now\<rparr>) d"
  using assms
  by (auto simp: approve_cash_out_def cash_out_ok_def split: if_splits intro!: app_inv_put_cash_out)

text \<open>
  The two ends of a cash-out: one credit to the wallet of its user, in the payout currency or, for
  a refund, in UCTUSD.
\<close>

lemma cash_out_credit_app:
  assumes w: "wallet_for uid now d = Inr (w, d1)"
    and cr: "credit s (wal_id w) cur a None None now d1 = Inr (e, d2)"
    and inv: "app_inv s d" and a: "scaled 6 a"
  shows "app_inv s d2" "cash_outs d2 = cash_outs d" "remittances d2 = remittances d"
    "wallet_transactions d2 = wallet_transactions d @ [e]" "wtx_amount e = a"
    "wallet_of uid d2 = Some w" "users d2 = users d"
    "held x k d2 = held x k d + (if x = wal_id w \<and> k = py_upper (py_strip cur) then a else 0)"
    "uct_claims d2 = uct_claims d + (if py_upper (py_strip cur) = SETTLEMENT_CURRENCY then a else 0)"
proof -
  note wf = wallet_for_app [OF w inv]
  note mv = plain_move_app [OF cr [unfolded credit_def] wf(1) a]
  show "app_inv s d2" by (rule mv)
  show "cash_outs d2 = cash_outs d" "remittances d2 = remittances d" "users d2 = users d"
    using mv(2) wf(4) by (auto simp: ledger_only_def)
  show wt: "wallet_transactions d2 = wallet_transactions d @ [e]" using mv(3) wf(2) by simp
  show "wtx_amount e = a" by (rule mv)
  show "wallet_of uid d2 = Some w"
    using wallet_for_ok(4) [OF w app_inv_ledger_inv(2) [OF inv]] mv(2)
    by (auto simp: ledger_only_def wallet_of_def get_by_append)
  show "held x k d2 = held x k d + (if x = wal_id w \<and> k = py_upper (py_strip cur) then a else 0)"
    using mv(10) [of x k] wf(3) [of x k] by simp
  show "uct_claims d2 = uct_claims d + (if py_upper (py_strip cur) = SETTLEMENT_CURRENCY then a else 0)"
    using uct_claims_append [OF wt] mv(4-8) by (simp add: uct_entry_def moves_def signed_def)
qed

lemma complete_app:
  assumes run: "complete_cash_out s c h now d = Inr d'" and inv: "app_inv s d"
    and c: "get_cash_out_row (co_id c) d = Some c"
  shows "app_inv s d'" "remittances d' = remittances d" "uct_claims d' = uct_claims d"
    "\<exists>w e. wallet_of (co_user_id c) d' = Some w \<and>
       (\<forall>x k. held x k d' = held x k d +
          (if x = wal_id w \<and> k = co_payout_currency c then co_payout_amount c else 0)) \<and>
       wallet_transactions d' = wallet_transactions d @ [e] \<and>
       cash_outs d' = put_by co_id (co_id c) (\<lambda>x. x\<lparr>co_credit_transaction_id := Some (wtx_id e),
            co_xrpl_tx_hash := Some h, co_status := CO_COMPLETED, co_completed_at := Some now\<rparr>)
          (cash_outs d)"
proof -
  obtain usr :: user and w d1 e d2 where usr: "get_user (co_user_id c) d = Some usr"
    and w: "wallet_for (usr_id usr) now d = Inr (w, d1)"
    and cr: "credit s (wal_id w) (co_payout_currency c) (co_payout_amount c) None None now d1 = Inr (e, d2)"
    and d': "d' = put_cash_out (co_id c) (\<lambda>x. x\<lparr>co_credit_transaction_id := Some (wtx_id e),
            co_xrpl_tx_hash := Some h, co_status := CO_COMPLETED, co_completed_at := Some now\<rparr>) d2"
    using run by (auto simp: complete_cash_out_def ebind_eq_Inr some_or_eq_Inr)
  have cok: "cash_out_ok s c" using app_inv_cash_out [OF inv c] by simp
  then have a: "scaled 6 (co_payout_amount c)" by (simp add: cash_out_ok_def)
  have n: "py_upper (py_strip (co_payout_currency c)) = co_payout_currency c"
    "co_payout_currency c \<noteq> SETTLEMENT_CURRENCY"
    using cok payout_currency_facts by (auto simp: cash_out_ok_def)
  have uid: "usr_id usr = co_user_id c" using usr by (auto simp: get_user_def dest: get_by_Some)
  note cc = cash_out_credit_app [OF w cr inv a]
  show "app_inv s d'" unfolding d' using cc(1) by (rule app_inv_put_cash_out) (simp_all add: cash_out_ok_def)
  show "remittances d' = remittances d" using cc(3) by (simp add: d')
  show "uct_claims d' = uct_claims d" using cc(9) n uct_claims_same [of d' d2] by (simp add: d')
  show "\<exists>w e. wallet_of (co_user_id c) d' = Some w \<and>
       (\<forall>x k. held x k d' = held x k d +
          (if x = wal_id w \<and> k = co_payout_currency c then co_payout_amount c else 0)) \<and>
       wallet_transactions d' = wallet_transactions d @ [e] \<and>
       cash_outs d' = put_by co_id (co_id c) (\<lambda>x. x\<lparr>co_credit_transaction_id := Some (wtx_id e),
            co_xrpl_tx_hash := Some h, co_status := CO_COMPLETED, co_completed_at := Some now\<rparr>)
          (cash_outs d)"
    using cc(2,4,6,8) n uid by (auto simp: d' wallet_of_def)
qed

lemma fail_app:
  assumes run: "fail_cash_out s c reason now states d = Inr d'" and inv: "app_inv s d"
    and c: "get_cash_out_row (co_id c) d = Some c"
  shows "app_inv s d'" "remittances d' = remittances d"
    "uct_claims d' = uct_claims d + co_uctusd_amount c" "co_status c \<in> set states"
    "\<exists>w e. wallet_of (co_user_id c) d' = Some w \<and>
       (\<forall>x k. held x k d' = held x k d +
          (if x = wal_id w \<and> k = SETTLEMENT_CURRENCY then co_uctusd_amount c else 0)) \<and>
       wallet_transactions d' = wallet_transactions d @ [e] \<and>
       cash_outs d' = put_by co_id (co_id c) (\<lambda>x. x\<lparr>co_status := CO_FAILED,
               co_failure_reason := Some (take 500 reason), co_completed_at := Some now\<rparr>)
          (cash_outs d)"
    "wallet_of x d = Some w0 \<Longrightarrow> wallet_of x d' = Some w0"
proof -
  obtain usr :: user and w d1 e d2 where st: "co_status c \<in> set states"
    and usr: "get_user (co_user_id c) d = Some usr"
    and w: "wallet_for (usr_id usr) now d = Inr (w, d1)"
    and cr: "credit s (wal_id w) SETTLEMENT_CURRENCY (co_uctusd_amount c) None None now d1 = Inr (e, d2)"
    and d': "d' = put_cash_out (co_id c) (\<lambda>x. x\<lparr>co_status := CO_FAILED,
               co_failure_reason := Some (take 500 reason), co_completed_at := Some now\<rparr>) d2"
    using run by (auto simp: fail_cash_out_def ebind_eq_Inr some_or_eq_Inr split: if_splits)
  have a: "scaled 6 (co_uctusd_amount c)"
    using app_inv_cash_out [OF inv c] by (simp add: cash_out_ok_def token_amount_ok_def)
  have uid: "usr_id usr = co_user_id c" using usr by (auto simp: get_user_def dest: get_by_Some)
  have "wallet_of x d2 = Some w0" if "wallet_of x d = Some w0" for x w0
  proof -
    note wf = wallet_for_app [OF w inv]
    note mv = plain_move_app(2) [OF cr [unfolded credit_def] wf(1) a]
    show ?thesis using that wf(4) mv by (auto simp: ledger_only_def wallet_of_def get_by_append)
  qed
  then show "wallet_of x d = Some w0 \<Longrightarrow> wallet_of x d' = Some w0" for x w0
    by (simp add: d' wallet_of_def)
  note cc = cash_out_credit_app [OF w cr inv a]
  show "app_inv s d'" unfolding d' using cc(1) by (rule app_inv_put_cash_out) (simp_all add: cash_out_ok_def)
  show "remittances d' = remittances d" using cc(3) by (simp add: d')
  show "uct_claims d' = uct_claims d + co_uctusd_amount c"
    using cc(9) uct_claims_same [of d' d2] by (simp add: d')
  show "co_status c \<in> set states" by (rule st)
  show "\<exists>w e. wallet_of (co_user_id c) d' = Some w \<and>
       (\<forall>x k. held x k d' = held x k d +
          (if x = wal_id w \<and> k = SETTLEMENT_CURRENCY then co_uctusd_amount c else 0)) \<and>
       wallet_transactions d' = wallet_transactions d @ [e] \<and>
       cash_outs d' = put_by co_id (co_id c) (\<lambda>x. x\<lparr>co_status := CO_FAILED,
               co_failure_reason := Some (take 500 reason), co_completed_at := Some now\<rparr>)
          (cash_outs d)"
    using cc(2,4,6,8) uid by (auto simp: d' wallet_of_def)
qed

section \<open>When the operations go through\<close>

text \<open>A priced cash-out fits its row when its payout does.\<close>

lemma insert_priced:
  assumes pr: "calculate_cash_out_payout s u cur rate = Inr q" and req: "cash_out_request_ok s u rate"
    and pay: "coq_payout_amount q < 10 ^ 12"
  shows "key = None \<or> (\<forall>x \<in> set (cash_outs d). co_idempotency_key x \<noteq> key) \<Longrightarrow>
      \<exists>c d'. insert_cash_out (new_cash_out uid q i key now) d = Inr (c, d')"
    "insert_cash_out (new_cash_out uid q i key now) d \<noteq> Inl DataError"
proof -
  note p = priced_cash_out [OF pr req]
  have u: "scaled 6 u" "0 < u" "u < 10 ^ 12" "scaled 6 rate" "0 < rate" "rate < 10 ^ 6"
    using req by (auto simp: cash_out_request_ok_def token_amount_ok_def rate_ok_def)
  have fee: "scaled 6 (coq_cash_out_fee_uctusd q)" "0 \<le> coq_cash_out_fee_uctusd q"
    "coq_cash_out_fee_uctusd q < 10 ^ 12"
  proof -
    have eq: "coq_cash_out_fee_uctusd q = u - coq_net_uctusd q" using p(4) by linarith
    then show "scaled 6 (coq_cash_out_fee_uctusd q)" using u(1) p(7) by auto
    show "0 \<le> coq_cash_out_fee_uctusd q" "coq_cash_out_fee_uctusd q < 10 ^ 12"
      using eq p(5,6) u(3) by linarith+
  qed
  have cols: "numeric_col 18 6 u = Inr u" "numeric_col 18 6 (coq_cash_out_fee_uctusd q) = Inr (coq_cash_out_fee_uctusd q)"
    "numeric_col 18 6 (coq_net_uctusd q) = Inr (coq_net_uctusd q)"
    "numeric_col 18 6 (coq_payout_amount q) = Inr (coq_payout_amount q)"
    using u fee p(5-10) pay by (auto intro!: movement_column)
  have rate: "numeric_col 12 6 rate = Inr rate" using u by (intro numeric_col_fits) auto
  note fits = cols rate p(3,11) insert_cash_out_def new_cash_out_def Let_def
  show "\<exists>c d'. insert_cash_out (new_cash_out uid q i key now) d = Inr (c, d')"
    if "key = None \<or> (\<forall>x \<in> set (cash_outs d). co_idempotency_key x \<noteq> key)"
    using that by (simp add: fits)
  show "insert_cash_out (new_cash_out uid q i key now) d \<noteq> Inl DataError" by (simp add: fits)
qed

lemma request_outcome:
  assumes inv: "app_inv s d" and cor: "corridor_ok s" and req: "cash_out_request_ok s u rate"
    and new: "replayed_cash_out uid key d = None"
    and cur: "py_upper (py_strip cur) \<in> set (payout_currencies s)"
    and pr: "calculate_cash_out_payout s u cur rate = Inr q"
    and w: "wallet_of uid d = Some w"
  shows "held (wal_id w) SETTLEMENT_CURRENCY d < u \<Longrightarrow>
      request_cash_out s uid u cur rate key now d = Inl InsufficientFundsError"
    and "u \<le> held (wal_id w) SETTLEMENT_CURRENCY d \<Longrightarrow> coq_payout_amount q < 10 ^ 12 \<Longrightarrow>
      key = None \<or> (\<forall>x \<in> set (cash_outs d). co_idempotency_key x \<noteq> key) \<Longrightarrow>
      \<exists>c d'. request_cash_out s uid u cur rate key now d = Inr (c, d')"
proof -
  have mv: "token_movement s SETTLEMENT_CURRENCY u"
    using req cor by (auto simp: cash_out_request_ok_def token_amount_ok_def token_movement_def corridor_ok_def)
  note p = priced_cash_out [OF pr req]
  note li = app_inv_ledger_inv(1) [OF inv]
  have wf: "wallet_for uid now d = Inr (w, d)" using w by (simp add: wallet_for_def wallet_for_raced_def)
  have g: "guard_or UnsupportedPayoutCurrencyError (coq_payout_currency q \<in> set (payout_currencies s)) = Inr ()"
    using cur p(2) by simp
  show "held (wal_id w) SETTLEMENT_CURRENCY d < u \<Longrightarrow>
      request_cash_out s uid u cur rate key now d = Inl InsufficientFundsError"
    using debit_outcome(1) [OF li mv] by (simp add: request_cash_out_def new pr g wf p(3))
  assume cov: "u \<le> held (wal_id w) SETTLEMENT_CURRENCY d" and pay: "coq_payout_amount q < 10 ^ 12"
    and key: "key = None \<or> (\<forall>x \<in> set (cash_outs d). co_idempotency_key x \<noteq> key)"
  obtain e d2 where deb: "debit s (wal_id w) SETTLEMENT_CURRENCY u None None now d = Inr (e, d2)"
    using debit_outcome(2) [OF li mv cov] by blast
  have "scaled 6 u" using mv by (simp add: token_movement_def)
  then have cos: "cash_outs d2 = cash_outs d"
    using plain_move_app(2) [OF deb [unfolded debit_def] inv] by (simp add: ledger_only_def)
  obtain c d' where "insert_cash_out (new_cash_out uid q (wtx_id e) key now) d2 = Inr (c, d')"
    using insert_priced(1) [OF pr req pay, of key d2] key cos by metis
  then show "\<exists>c d'. request_cash_out s uid u cur rate key now d = Inr (c, d')"
    using p(3) by (simp add: request_cash_out_def new pr g wf deb)
qed

lemma app_inv_get_cash_out: "app_inv s d \<Longrightarrow> c \<in> set (cash_outs d) \<Longrightarrow> get_cash_out_row (co_id c) d = Some c"
  by (auto simp: app_inv_def get_cash_out_row_def intro: fresh_ids_get_by)

lemma app_inv_get_remittance: "app_inv s d \<Longrightarrow> r \<in> set (remittances d) \<Longrightarrow> get_remittance (rem_id r) d = Some r"
  by (auto simp: app_inv_def get_remittance_def intro: fresh_ids_get_by)

section \<open>A database to evaluate on\<close>

definition demo_user :: "uuid \<Rightarrow> string \<Rightarrow> user" where
  "demo_user k email = \<lparr>usr_id = k, usr_email = email, usr_hashed_password = [], usr_full_name = [],
     usr_kyc_status = KYC_APPROVED, usr_is_admin = False, usr_created_at = 0\<rparr>"

definition demo_db :: db where
  "demo_db = empty_db\<lparr>users := [demo_user 1 ''ann@x.org'', demo_user 2 ''Bob@x.org''],
     beneficiaries := [\<lparr>ben_id = 3, ben_sender_id = 1, ben_full_name = [], ben_contact = ''bob@x.org'',
       ben_country = [], ben_preferred_payout_currency = ''USD'', ben_relationship_to_sender = [],
       ben_created_at = 0\<rparr>], next_id := 10\<rparr>"

lemma demo_db_app [simp]: "app_inv s demo_db"
  by (simp add: app_inv_def demo_db_def empty_db_def ledger_inv_def ledger_shape_def wallets_ok_def
      balances_ok_def entries_ok_def reconciled_def held_def balance_row_def entry_sum_def)

lemma corridor_demo: "corridor_ok demo_settings"
  by (simp add: corridor_ok_def supported_demo SETTLEMENT_CURRENCY_def SEND_CURRENCY_def)

lemma payout_currencies_demo: "set (payout_currencies demo_settings) = {''USD'', ''ZAR''}"
  by (auto simp: payout_currencies_def supported_demo PRICEABLE_PAYOUT_CURRENCIES_def
      DIRECT_FROM_UCTUSD_def SETTLEMENT_CURRENCY_def)

lemma token_movement_demo:
  "0 < (a :: rat) \<Longrightarrow> a < 10 ^ 12 \<Longrightarrow> scaled 6 a \<Longrightarrow> token_movement demo_settings SETTLEMENT_CURRENCY a"
  using corridor_demo by (simp add: token_movement_def corridor_ok_def)

text \<open>A user with a UCTUSD balance.\<close>

lemma demo_funded:
  assumes "0 < a" "a < 10 ^ 12" "scaled 6 a"
  shows "\<exists>d w. app_inv demo_settings d \<and> wallet_of 2 d = Some w \<and>
     (\<forall>x k. held x k d = (if x = wal_id w \<and> k = SETTLEMENT_CURRENCY then a else 0)) \<and>
     cash_outs d = [] \<and> users d = users demo_db \<and> uct_claims d = a"
proof -
  obtain w d1 where w: "wallet_for 2 0 demo_db = Inr (w, d1)" using wallet_for_total by blast
  note wf = wallet_for_app [OF w demo_db_app [of demo_settings]]
  have h: "held x k d1 = 0" for x k
    using wf(3) by (simp add: demo_db_def empty_db_def held_def balance_row_def)
  have mv: "token_movement demo_settings SETTLEMENT_CURRENCY a" using assms by (rule token_movement_demo)
  obtain e d2 where c: "credit demo_settings (wal_id w) SETTLEMENT_CURRENCY a None None 0 d1 = Inr (e, d2)"
    using credit_outcome [OF app_inv_ledger_inv(1) [OF wf(1)] mv] h assms by fastforce
  note cc = cash_out_credit_app [OF w c demo_db_app [of demo_settings] assms(3)]
  have z: "held x k demo_db = 0" "uct_claims demo_db = 0" for x k
    by (simp_all add: demo_db_def empty_db_def held_def balance_row_def uct_claims_def)
  have "\<forall>x k. held x k d2 = (if x = wal_id w \<and> k = SETTLEMENT_CURRENCY then a else 0)" "uct_claims d2 = a"
    using cc(8,9) z by simp_all
  then show ?thesis using cc(1,2,6,7) by (auto simp: demo_db_def empty_db_def)
qed

section \<open>Cash-in and recovery\<close>

text \<open>
  C4. Confirming a cash-in takes a live quote with a registered recipient to CASH_IN_CONFIRMED,
  locks its figures so that it can no longer expire, and is idempotent: confirming the row it
  leaves behind, at any later time and by any valid method, changes nothing and reports that
  nothing was confirmed. Nothing but that one row changes.
\<close>

theorem cash_in_idempotent:
  assumes "get_remittance (rem_id r) d = Some r" "simulate_cash_in r meth now d = Inr (True, d')"
  shows "rem_status r = QUOTED \<and> \<not> is_quote_expired r now \<and>
         (\<exists>u. assert_recipient_registered r d = Inr u) \<and>
         (\<exists>r'. get_remittance (rem_id r) d' = Some r' \<and> rem_status r' = CASH_IN_CONFIRMED \<and>
            (\<forall>t. \<not> is_quote_expired r' t) \<and>
            rem_uctusd_amount r' = rem_uctusd_amount r \<and>
            rem_zar_send_amount r' = rem_zar_send_amount r \<and>
            (\<forall>m t. py_lower (py_strip m) \<in> set CASH_IN_METHODS \<longrightarrow>
               simulate_cash_in r' m t d' = Inr (False, d'))) \<and>
         (\<forall>k. k \<noteq> rem_id r \<longrightarrow> get_remittance k d' = get_remittance k d) \<and>
         d'\<lparr>remittances := remittances d\<rparr> = d"
proof -
  let ?f = "\<lambda>x :: remittance. x\<lparr>rem_cash_in_method := Some (py_lower (py_strip meth)),
      rem_status := CASH_IN_CONFIRMED, rem_cash_in_confirmed_at := Some now,
      rem_quote_expires_at := None\<rparr>"
  have d': "d' = put_remittance (rem_id r) ?f d" and st: "rem_status r = QUOTED"
    "\<not> is_quote_expired r now" "\<exists>u. assert_recipient_registered r d = Inr u"
    using assms(2) by (auto simp: simulate_cash_in_def Let_def ebind_eq_Inr split: if_splits)
  have "get_remittance (rem_id r) d' = Some (?f r)"
    unfolding d' using assms(1) by (intro rem_store.get_put_same) simp_all
  moreover have "get_remittance k d' = get_remittance k d" if "k \<noteq> rem_id r" for k
    unfolding d' using that by (intro rem_store.get_put_other) simp_all
  moreover have "d'\<lparr>remittances := remittances d\<rparr> = d" by (simp add: d' put_remittance_def)
  ultimately show ?thesis using st
    by (auto simp: is_quote_expired_def simulate_cash_in_def Let_def)
qed

definition demo_remittance :: remittance where
  "demo_remittance = \<lparr>rem_id = 5, rem_idempotency_key = ''k5'', rem_sender_id = 1,
     rem_beneficiary_id = 3, rem_zar_send_amount = 1000, rem_fx_rate_used = 37/2,
     rem_transaction_fee_zar = 40, rem_fx_margin_zar = 10, rem_net_converted_zar = 950,
     rem_uctusd_amount = 51351351/1000000, rem_status = QUOTED, rem_xrpl_tx_hash = None,
     rem_cash_in_method = None, rem_created_at = 0, rem_quote_expires_at = Some 900,
     rem_cash_in_confirmed_at = None, rem_settled_at = None, rem_treasury_batch_id = None,
     rem_treasury_settled_at = None\<rparr>"

definition demo_quoted :: db where
  "demo_quoted = demo_db\<lparr>remittances := [demo_remittance]\<rparr>"

lemma demo_recipient: "assert_recipient_registered demo_remittance demo_quoted = Inr (demo_user 2 ''Bob@x.org'')"
  by code_simp

lemma get_demo_remittance: "get_remittance 5 demo_quoted = Some demo_remittance"
  by (simp add: demo_quoted_def get_remittance_def get_by_Cons demo_remittance_def)

lemma demo_cash_in:
  "\<exists>d'. simulate_cash_in demo_remittance '' Card '' 100 demo_quoted = Inr (True, d')"
proof -
  have "py_lower (py_strip '' Card '') \<in> set CASH_IN_METHODS" by code_simp
  then show ?thesis
    by (simp add: simulate_cash_in_def Let_def demo_recipient)
      (simp add: demo_remittance_def is_quote_expired_def)
qed

theorem cash_in_idempotent_witness:
  "\<exists>d'. simulate_cash_in demo_remittance '' Card '' 100 demo_quoted = Inr (True, d') \<and>
     (\<exists>r'. get_remittance 5 d' = Some r' \<and> rem_status r' = CASH_IN_CONFIRMED)"
proof -
  have i: "rem_id demo_remittance = 5" by (simp add: demo_remittance_def)
  obtain d' where run: "simulate_cash_in demo_remittance '' Card '' 100 demo_quoted = Inr (True, d')"
    using demo_cash_in by blast
  from cash_in_idempotent [of demo_remittance demo_quoted, OF _ run] show ?thesis
    using run get_demo_remittance i by auto
qed

text \<open>
  C5. A refund happens at most once and never beside a credit. It needs a FAILED remittance whose
  cash-in was confirmed, writes one successful incoming entry of exactly the rand sent, moves no
  balance, and leaves a row that can be neither refunded again nor requeued; and a remittance
  that already has its successful incoming entry, by credit or by refund, is refused whatever
  status the row carries.
\<close>

theorem refund_once:
  assumes "app_inv s d" "get_remittance (rem_id r) d = Some r"
  shows "(\<forall>d'. refund_failed_remittance s r now d = Inr d' \<longrightarrow>
           rem_status r = FAILED \<and>
           (\<exists>e. wallet_transactions d' = wallet_transactions d @ [e] \<and> repaid (rem_id r) e \<and>
                wtx_amount e = rem_zar_send_amount r) \<and>
           (\<forall>w k. held w k d' = held w k d) \<and>
           (\<exists>r'. get_remittance (rem_id r) d' = Some r' \<and> rem_status r' = REFUNDED \<and>
                refund_failed_remittance s r' now d' = Inl RefundStateError \<and>
                requeue_failed_remittance r' d' = Inl CashInStateError)) \<and>
         ((\<exists>e \<in> set (wallet_transactions d). credited (rem_id r) e \<or> repaid (rem_id r) e) \<longrightarrow>
           (\<exists>ex. refund_failed_remittance s r now d = Inl ex))"
proof (intro conjI allI impI)
  fix d'
  assume run: "refund_failed_remittance s r now d = Inr d'"
  note f = refund_app [OF run assms]
  show "rem_status r = FAILED" by (rule f)
  show "\<exists>e. wallet_transactions d' = wallet_transactions d @ [e] \<and> repaid (rem_id r) e \<and>
      wtx_amount e = rem_zar_send_amount r" by (rule f)
  show "held w k d' = held w k d" for w k by (rule f)
  show "\<exists>r'. get_remittance (rem_id r) d' = Some r' \<and> rem_status r' = REFUNDED \<and>
      refund_failed_remittance s r' now d' = Inl RefundStateError \<and>
      requeue_failed_remittance r' d' = Inl CashInStateError"
    using f(7) by (simp add: refund_failed_remittance_def requeue_failed_remittance_def)
next
  assume ex: "\<exists>e \<in> set (wallet_transactions d). credited (rem_id r) e \<or> repaid (rem_id r) e"
  show "\<exists>ex. refund_failed_remittance s r now d = Inl ex"
  proof (cases "refund_failed_remittance s r now d")
    case (Inr d')
    obtain e' where e': "wallet_transactions d' = wallet_transactions d @ [e']" "repaid (rem_id r) e'"
      using refund_app(3) [OF Inr assms] by auto
    obtain e where e: "e \<in> set (wallet_transactions d)" "entry_key e = entry_key e'" "wtx_remittance_id e = Some (rem_id r)"
      using ex e'(2) by (auto simp: credited_def repaid_def entry_key_def)
    have ok: "entries_ok d'"
      using app_inv_ledger_inv(2) [OF refund_app(1) [OF Inr assms]] by (simp add: ledger_shape_def)
    have "e' = e" by (rule entries_unique [OF ok _ _ e(3)]) (use e e' in auto)
    moreover have "distinct (wallet_transactions d')"
      using ok by (simp add: entries_ok_def fresh_ids_def distinct_map)
    ultimately show ?thesis using e(1) e'(1) by simp
  qed blast
qed

lemma record_external_outcome:
  assumes "token_movement s code a"
    "rid = None \<or> (\<forall>x \<in> set (wallet_transactions d). entry_key x \<noteq> (rid, dir, st))"
  shows "\<exists>e d'. record_external s w dir code a rid h st fr now d = Inr (e, d')"
proof -
  have "numeric_col 18 6 a = Inr a" using assms(1) by (intro movement_column) (auto simp: token_movement_def)
  then show ?thesis using assms(2)
    by (auto simp: record_external_def validate_movement [OF assms(1)] write_entry_def insert_entry_def
        entry_key_def Let_def)
qed

lemma refund_outcome:
  assumes inv: "app_inv s d" and cor: "corridor_ok s" and st: "rem_status r = FAILED" "rem_cash_in_confirmed_at r \<noteq> None"
    and sender: "get_user (rem_sender_id r) d = Some u"
    and amt: "scaled 6 (rem_zar_send_amount r)" "0 < rem_zar_send_amount r" "rem_zar_send_amount r < 10 ^ 12"
    and fresh: "\<forall>x \<in> set (wallet_transactions d). entry_key x \<noteq> (Some (rem_id r), INCOMING, ENTRY_SUCCESS)"
  shows "\<exists>d'. refund_failed_remittance s r now d = Inr d'"
proof -
  obtain w d1 where w: "wallet_for (usr_id u) now d = Inr (w, d1)" using wallet_for_total by blast
  have mv: "token_movement s SEND_CURRENCY (rem_zar_send_amount r)"
    using cor amt by (simp add: token_movement_def corridor_ok_def)
  obtain e d2 where "record_external s (wal_id w) INCOMING SEND_CURRENCY (rem_zar_send_amount r)
      (Some (rem_id r)) None ENTRY_SUCCESS None now d1 = Inr (e, d2)"
    using record_external_outcome [OF mv, of "Some (rem_id r)" d1] fresh
      wallet_for_app(2) [OF w inv] by fastforce
  then show ?thesis using st sender w by (auto simp: refund_failed_remittance_def)
qed

definition demo_failed :: remittance where
  "demo_failed = demo_remittance\<lparr>rem_status := FAILED, rem_cash_in_confirmed_at := Some 100\<rparr>"

definition demo_failed_db :: db where
  "demo_failed_db = demo_db\<lparr>remittances := [demo_failed]\<rparr>"

lemma demo_failed_ok: "app_inv s demo_failed_db" "get_remittance 5 demo_failed_db = Some demo_failed"
    "rem_id demo_failed = 5" "rem_status demo_failed = FAILED"
proof -
  have "scaled 2 (1000 :: rat)" "token_amount_ok (51351351/1000000)" by code_simp+
  then have "remittance_ok demo_failed"
    by (simp add: remittance_ok_def demo_failed_def demo_remittance_def)
  moreover have "ledger_inv s demo_failed_db"
    by (rule ledger_inv_same [OF _ _ _ _ app_inv_ledger_inv(1) [OF demo_db_app]])
      (simp_all add: demo_failed_db_def)
  ultimately show "app_inv s demo_failed_db"
    by (simp add: app_inv_def demo_failed_db_def demo_db_def empty_db_def fresh_ids_def
        demo_failed_def demo_remittance_def status_linked_def)
qed (simp_all add: demo_failed_db_def demo_failed_def demo_remittance_def get_remittance_def get_by_Cons)

theorem refund_once_witness:
  "\<exists>d'. refund_failed_remittance demo_settings demo_failed 200 demo_failed_db = Inr d' \<and>
     (\<exists>e. wallet_transactions d' = [e] \<and> wtx_amount e = 1000) \<and>
     (\<exists>r'. get_remittance 5 d' = Some r' \<and>
       refund_failed_remittance demo_settings r' 200 d' = Inl RefundStateError)"
proof -
  have sc: "scaled 6 (rem_zar_send_amount demo_failed)" "0 < rem_zar_send_amount demo_failed"
    "rem_zar_send_amount demo_failed < 10 ^ 12" "rem_cash_in_confirmed_at demo_failed \<noteq> None"
    "get_user (rem_sender_id demo_failed) demo_failed_db = Some (demo_user 1 ''ann@x.org'')"
    "wallet_transactions demo_failed_db = []"
    by (simp_all add: demo_failed_def demo_remittance_def demo_failed_db_def demo_db_def get_user_def
        get_by_Cons demo_user_def empty_db_def)
  obtain d' where run: "refund_failed_remittance demo_settings demo_failed 200 demo_failed_db = Inr d'"
    using refund_outcome [OF demo_failed_ok(1) corridor_demo demo_failed_ok(4) sc(4,5,1,2,3)] sc(6)
    by auto
  have g: "get_remittance (rem_id demo_failed) demo_failed_db = Some demo_failed"
    using demo_failed_ok by simp
  have z: "rem_zar_send_amount demo_failed = 1000" by (simp add: demo_failed_def demo_remittance_def)
  from refund_once [OF demo_failed_ok(1) g, of demo_settings 200] run
  show ?thesis using sc(6) demo_failed_ok(3) z by auto
qed

section \<open>Cash-out\<close>

lemma find_append_None: "find p xs = None \<Longrightarrow> find p (xs @ ys) = find p ys"
  by (induction xs) (auto split: if_splits)

lemma replay_found:
  assumes "replayed_cash_out uid (Some k) d = None" "cash_outs d' = cash_outs d @ [c]"
    "co_user_id c = uid" "co_idempotency_key c = Some k"
  shows "replayed_cash_out uid (Some k) d' = Some c"
  using assms by (simp add: replayed_cash_out_def find_append_None)

lemma replayed_Some:
  "replayed_cash_out uid key d = Some c \<Longrightarrow> c \<in> set (cash_outs d) \<and> co_user_id c = uid \<and> co_idempotency_key c = key"
  by (auto simp: replayed_cash_out_def find_Some_iff split: option.splits)

text \<open>
  C6. A request under an idempotency key debits once. After a request has gone through, the same
  user repeating it with the same key, whatever amount, currency, rate and time the retry
  carries, gets the row of the first request and changes nothing.
\<close>

theorem cash_out_replay_is_noop:
  assumes "app_inv s d" "cash_out_request_ok s u rate"
    "request_cash_out s uid u cur rate (Some key) now d = Inr (c, d')"
  shows "request_cash_out s uid u2 cur2 rate2 (Some key) now2 d' = Inr (c, d')"
proof (cases "replayed_cash_out uid (Some key) d")
  case None
  note f = request_new_app [OF assms(3) None assms(1,2)]
  show ?thesis by (rule request_replay) (rule replay_found [OF None f(2) f(6,7)])
next
  case (Some c')
  then have "request_cash_out s uid u cur rate (Some key) now d = Inr (c', d)" by (rule request_replay)
  with assms(3) Some show ?thesis by (auto intro: request_replay)
qed

lemma demo_request_ok:
  "cash_out_request_ok demo_settings 20 (37/2)" "cash_out_request_ok demo_settings (5/1000) (37/2)"
proof -
  have "token_amount_ok 20" "rate_ok (37/2)" "token_amount_ok (5/1000)" by code_simp+
  then show "cash_out_request_ok demo_settings 20 (37/2)" "cash_out_request_ok demo_settings (5/1000) (37/2)"
    using default_fee_settings_ok by (simp_all add: cash_out_request_ok_def demo_settings_def)
qed

lemma demo_priced:
  "calculate_cash_out_payout demo_settings 20 ''USD'' (37/2) =
     Inr \<lparr>coq_uctusd_amount = 20, coq_cash_out_fee_uctusd = 1/5, coq_net_uctusd = 99/5,
          coq_payout_currency = ''USD'', coq_payout_amount = 99/5, coq_fx_rate = 37/2\<rparr>"
  "calculate_cash_out_payout demo_settings (5/1000) ''USD'' (37/2) =
     Inr \<lparr>coq_uctusd_amount = 5/1000, coq_cash_out_fee_uctusd = 5/100000, coq_net_uctusd = 495/100000,
          coq_payout_currency = ''USD'', coq_payout_amount = 0, coq_fx_rate = 37/2\<rparr>"
proof -
  have e: "exact_cash_out (default_settings [] [] []) 20 (py_upper (py_strip ''USD'')) (37/2) =
     Inr \<lparr>coq_uctusd_amount = 20, coq_cash_out_fee_uctusd = 1/5, coq_net_uctusd = 99/5,
          coq_payout_currency = ''USD'', coq_payout_amount = 99/5, coq_fx_rate = 37/2\<rparr>"
    "exact_cash_out (default_settings [] [] []) (5/1000) (py_upper (py_strip ''USD'')) (37/2) =
     Inr \<lparr>coq_uctusd_amount = 5/1000, coq_cash_out_fee_uctusd = 5/100000, coq_net_uctusd = 495/100000,
          coq_payout_currency = ''USD'', coq_payout_amount = 0, coq_fx_rate = 37/2\<rparr>"
    by code_simp+
  have c: "py_upper (py_strip ''USD'') \<in> set PRICEABLE_PAYOUT_CURRENCIES" by code_simp
  have a: "token_amount_ok 20" "rate_ok (37/2)" "token_amount_ok (5/1000)" by code_simp+
  show "calculate_cash_out_payout demo_settings 20 ''USD'' (37/2) =
     Inr \<lparr>coq_uctusd_amount = 20, coq_cash_out_fee_uctusd = 1/5, coq_net_uctusd = 99/5,
          coq_payout_currency = ''USD'', coq_payout_amount = 99/5, coq_fx_rate = 37/2\<rparr>"
    unfolding demo_settings_def
    using cash_out_exact_core [OF default_fee_settings_ok a(1,2) c] e(1) by simp
  show "calculate_cash_out_payout demo_settings (5/1000) ''USD'' (37/2) =
     Inr \<lparr>coq_uctusd_amount = 5/1000, coq_cash_out_fee_uctusd = 5/100000, coq_net_uctusd = 495/100000,
          coq_payout_currency = ''USD'', coq_payout_amount = 0, coq_fx_rate = 37/2\<rparr>"
    unfolding demo_settings_def
    using cash_out_exact_core [OF default_fee_settings_ok a(3,2) c] e(2) by simp
qed

lemma demo_requested:
  "\<exists>d w c d'. app_inv demo_settings d \<and> wallet_of 2 d = Some w \<and>
     (\<forall>x k. held x k d = (if x = wal_id w \<and> k = SETTLEMENT_CURRENCY then 50 else 0)) \<and>
     cash_outs d = [] \<and> users d = users demo_db \<and>
     request_cash_out demo_settings 2 20 ''USD'' (37/2) (Some ''k'') 0 d = Inr (c, d')"
proof -
  have "scaled 6 (50 :: rat)" by simp
  then obtain d w where d: "app_inv demo_settings d" "wallet_of 2 d = Some w"
    "\<forall>x k. held x k d = (if x = wal_id w \<and> k = SETTLEMENT_CURRENCY then 50 else 0)"
    "cash_outs d = []" "users d = users demo_db"
    using demo_funded [of 50] by auto
  have c: "py_upper (py_strip ''USD'') \<in> set (payout_currencies demo_settings)"
    unfolding payout_currencies_demo by code_simp
  have n: "replayed_cash_out 2 (Some ''k'') d = None" by (simp add: replayed_cash_out_def d(4))
  show ?thesis
    using request_outcome(2) [OF d(1) corridor_demo demo_request_ok(1) n c demo_priced(1) d(2)] d by auto
qed

theorem cash_out_replay_is_noop_witness:
  "\<exists>d c d'. request_cash_out demo_settings 2 20 ''USD'' (37/2) (Some ''k'') 0 d = Inr (c, d') \<and>
     request_cash_out demo_settings 2 35 ''ZAR'' 19 (Some ''k'') 1 d' = Inr (c, d')"
  using demo_requested cash_out_replay_is_noop [OF _ demo_request_ok(1)] by blast

text \<open>
  A request reserves exactly what it is for. It goes through when the user's UCTUSD covers
  it and is refused with InsufficientFundsError when not; when it goes through, that one balance
  falls by the gross amount, no other balance changes, one outgoing entry is written and named
  by the new row, which is REQUESTED with the figures of the price.
\<close>

theorem cash_out_request_reserves:
  assumes "app_inv s d" "corridor_ok s" "cash_out_request_ok s u rate"
    "replayed_cash_out uid key d = None"
    "key = None \<or> (\<forall>x \<in> set (cash_outs d). co_idempotency_key x \<noteq> key)"
    "py_upper (py_strip cur) \<in> set (payout_currencies s)"
    "calculate_cash_out_payout s u cur rate = Inr q" "coq_payout_amount q < 10 ^ 12"
    "wallet_of uid d = Some w"
  shows "if held (wal_id w) SETTLEMENT_CURRENCY d < u
         then request_cash_out s uid u cur rate key now d = Inl InsufficientFundsError
         else \<exists>c d' e. request_cash_out s uid u cur rate key now d = Inr (c, d') \<and>
           (\<forall>x k. held x k d' = held x k d -
              (if x = wal_id w \<and> k = SETTLEMENT_CURRENCY then u else 0)) \<and>
           wallet_transactions d' = wallet_transactions d @ [e] \<and> wtx_amount e = u \<and>
           wtx_direction e = OUTGOING \<and> cash_outs d' = cash_outs d @ [c] \<and>
           co_debit_transaction_id c = Some (wtx_id e) \<and> co_status c = CO_REQUESTED \<and>
           co_net_uctusd c = coq_net_uctusd q \<and> co_payout_amount c = coq_payout_amount q \<and>
           co_payout_currency c = coq_payout_currency q"
proof (cases "held (wal_id w) SETTLEMENT_CURRENCY d < u")
  case True
  then show ?thesis using request_outcome(1) [OF assms(1-4,6,7,9)] by simp
next
  case False
  then have "u \<le> held (wal_id w) SETTLEMENT_CURRENCY d" by simp
  from request_outcome(2) [OF assms(1-4,6,7,9) this assms(8,5)]
  obtain c d' where run: "request_cash_out s uid u cur rate key now d = Inr (c, d')" by blast
  note f = request_new_app [OF run assms(4,1,3)]
  obtain e where e: "wallet_transactions d' = wallet_transactions d @ [e]"
    "wtx_direction e = OUTGOING" "wtx_amount e = u" "co_debit_transaction_id c = Some (wtx_id e)"
    "\<forall>x k. held x k d' = held x k d - (if x = wal_id w \<and> k = SETTLEMENT_CURRENCY then u else 0)"
    using f(9) assms(9) by blast
  show ?thesis using False run e f(2,4) f(11) [OF assms(7)] by auto
qed

theorem cash_out_request_reserves_witness:
  "\<exists>d c d'. request_cash_out demo_settings 2 20 ''USD'' (37/2) (Some ''k'') 0 d = Inr (c, d') \<and>
     co_net_uctusd c = 99/5 \<and> (\<exists>w. held w SETTLEMENT_CURRENCY d = 50 \<and> held w SETTLEMENT_CURRENCY d' = 30)"
proof -
  have "scaled 6 (50 :: rat)" by simp
  then obtain d w where d: "app_inv demo_settings d" "wallet_of 2 d = Some w"
    "\<forall>x k. held x k d = (if x = wal_id w \<and> k = SETTLEMENT_CURRENCY then 50 else 0)"
    "cash_outs d = []"
    using demo_funded [of 50] by auto
  have c: "py_upper (py_strip ''USD'') \<in> set (payout_currencies demo_settings)"
    unfolding payout_currencies_demo by code_simp
  have n: "replayed_cash_out 2 (Some ''k'') d = None" by (simp add: replayed_cash_out_def d(4))
  show ?thesis
    using cash_out_request_reserves [OF d(1) corridor_demo demo_request_ok(1) n _ c demo_priced(1) _ d(2), of 0]
      d(3,4) by fastforce
qed

text \<open>
  C7. Rejecting a cash-out is a full reversal: a request followed by a refusal leaves every
  balance of every wallet as it was before the request, with the debit and its reversal both on
  record, and the refused row cannot be failed again or approved.
\<close>

theorem cash_out_reject_restores:
  assumes "app_inv s d" "cash_out_request_ok s u rate" "replayed_cash_out uid key d = None"
    "request_cash_out s uid u cur rate key now d = Inr (c, d1)"
    "fail_cash_out s c reason now2 ADMIN_FAIL_STATES d1 = Inr d2"
  shows "(\<forall>x k. held x k d2 = held x k d) \<and>
         (\<exists>e e'. wallet_transactions d2 = wallet_transactions d @ [e, e']) \<and>
         (\<exists>c'. get_cash_out_row (co_id c) d2 = Some c' \<and> co_status c' = CO_FAILED \<and>
            fail_cash_out s c' reason now2 ADMIN_FAIL_STATES d2 = Inl CashOutStateError \<and>
            approve_cash_out c' now2 d2 = Inl CashOutStateError)"
proof -
  note f = request_new_app [OF assms(4,3,1,2)]
  have row: "get_cash_out_row (co_id c) d1 = Some c"
    by (rule app_inv_get_cash_out [OF f(1)]) (simp add: f(2))
  note g = fail_app [OF assms(5) f(1) row]
  obtain e w where e: "wallet_transactions d1 = wallet_transactions d @ [e]" "wallet_of uid d1 = Some w"
    "\<forall>x k. held x k d1 = held x k d - (if x = wal_id w \<and> k = SETTLEMENT_CURRENCY then u else 0)"
    using f(9) by blast
  obtain w' e' where e': "wallet_of uid d2 = Some w'"
    "\<forall>x k. held x k d2 = held x k d1 + (if x = wal_id w' \<and> k = SETTLEMENT_CURRENCY then u else 0)"
    "wallet_transactions d2 = wallet_transactions d1 @ [e']"
    "cash_outs d2 = put_by co_id (co_id c) (\<lambda>x. x\<lparr>co_status := CO_FAILED,
        co_failure_reason := Some (take 500 reason), co_completed_at := Some now2\<rparr>) (cash_outs d1)"
    using g(5) f(5,6) by blast
  have "w' = w" using g(6) [of uid w] e(2) e'(1) by simp
  then have "\<forall>x k. held x k d2 = held x k d" using e(3) e'(2) by simp
  moreover have "get_cash_out_row (co_id c) d2 = Some (c\<lparr>co_status := CO_FAILED,
        co_failure_reason := Some (take 500 reason), co_completed_at := Some now2\<rparr>)"
    using row by (simp add: get_cash_out_row_def e'(4) get_by_put_by)
  ultimately show ?thesis using e(1) e'(3)
    by (simp add: fail_cash_out_def approve_cash_out_def ADMIN_FAIL_STATES_def)
qed

lemma credit_user_outcome:
  assumes inv: "app_inv s d" and usr: "get_user uid d = Some u" and mv: "token_movement s code a"
    and fits: "\<And>w. held w code d + a < 10 ^ 12"
  shows "\<exists>w d1 e d2. wallet_for (usr_id u) now d = Inr (w, d1) \<and>
           credit s (wal_id w) code a None None now d1 = Inr (e, d2)"
proof -
  obtain w d1 where w: "wallet_for (usr_id u) now d = Inr (w, d1)" using wallet_for_total by blast
  note wf = wallet_for_app [OF w inv]
  have "held (wal_id w) code d1 + a < 10 ^ 12" using fits wf(3) by simp
  then show ?thesis using w credit_outcome [OF app_inv_ledger_inv(1) [OF wf(1)] mv] by blast
qed

lemma fail_outcome:
  assumes "app_inv s d" "corridor_ok s" "get_user (co_user_id c) d = Some u" "co_status c \<in> set states"
    "cash_out_ok s c" "\<And>w. held w SETTLEMENT_CURRENCY d + co_uctusd_amount c < 10 ^ 12"
  shows "\<exists>d'. fail_cash_out s c reason now states d = Inr d'"
proof -
  have "token_movement s SETTLEMENT_CURRENCY (co_uctusd_amount c)"
    using assms(2,5) by (auto simp: cash_out_ok_def token_amount_ok_def token_movement_def corridor_ok_def)
  from credit_user_outcome [OF assms(1,3) this assms(6), of now] assms(3,4) show ?thesis
    by (auto simp: fail_cash_out_def)
qed

theorem cash_out_reject_restores_witness:
  "\<exists>d c d1 d2. request_cash_out demo_settings 2 20 ''USD'' (37/2) (Some ''k'') 0 d = Inr (c, d1) \<and>
     fail_cash_out demo_settings c ''no'' 1 ADMIN_FAIL_STATES d1 = Inr d2 \<and>
     (\<exists>w. held w SETTLEMENT_CURRENCY d = 50 \<and> held w SETTLEMENT_CURRENCY d2 = 50)"
proof -
  obtain d w c d1 where d: "app_inv demo_settings d" "wallet_of 2 d = Some w"
    "\<forall>x k. held x k d = (if x = wal_id w \<and> k = SETTLEMENT_CURRENCY then 50 else 0)"
    "cash_outs d = []" "users d = users demo_db"
    and run: "request_cash_out demo_settings 2 20 ''USD'' (37/2) (Some ''k'') 0 d = Inr (c, d1)"
    using demo_requested by blast
  have n: "replayed_cash_out 2 (Some ''k'') d = None" by (simp add: replayed_cash_out_def d(4))
  note f = request_new_app [OF run n d(1) demo_request_ok(1)]
  have usr: "get_user (co_user_id c) d1 = Some (demo_user 2 ''Bob@x.org'')"
    using f(6,8) d(5) by (simp add: get_user_def demo_db_def get_by_Cons demo_user_def)
  have "c \<in> set (cash_outs d1)" by (simp add: f(2))
  then have ok: "cash_out_ok demo_settings c" using f(1) by (simp add: app_inv_def)
  have le: "held x k d1 \<le> 50" for x k using f(9) d(3) by auto
  have fits: "held x SETTLEMENT_CURRENCY d1 + co_uctusd_amount c < 10 ^ 12" for x
  proof (rule le_less_trans)
    show "held x SETTLEMENT_CURRENCY d1 + co_uctusd_amount c \<le> 70" using le f(5) by simp
  qed simp
  obtain d2 where rej: "fail_cash_out demo_settings c ''no'' 1 ADMIN_FAIL_STATES d1 = Inr d2"
    using fail_outcome [OF f(1) corridor_demo usr _ ok fits, of ADMIN_FAIL_STATES] f(4)
    by (auto simp: ADMIN_FAIL_STATES_def)
  have "held (wal_id w) SETTLEMENT_CURRENCY d = 50" "held (wal_id w) SETTLEMENT_CURRENCY d2 = 50"
    using cash_out_reject_restores [OF d(1) demo_request_ok(1) n run rej] d(3) by auto
  then show ?thesis using run rej by blast
qed

text \<open>
  C8. Completing a cash-out pays the quoted fiat amount, and only it, into the wallet of its
  user, keeps the UCTUSD claims of the ledger as they are (the gross was taken at the request),
  and stamps the row with the burn and the credit it names; a cash-out whose price rounds to
  nothing can be requested and burned but never completed: the credit of zero raises LedgerError.
\<close>

theorem cash_out_completion:
  assumes "app_inv s d" "get_cash_out_row (co_id c) d = Some c"
  shows "(\<forall>d'. complete_cash_out s c h now d = Inr d' \<longrightarrow>
            uct_claims d' = uct_claims d \<and> 0 < co_payout_amount c \<and>
            (\<exists>w e c'. wallet_of (co_user_id c) d' = Some w \<and>
               (\<forall>x k. held x k d' = held x k d +
                  (if x = wal_id w \<and> k = co_payout_currency c then co_payout_amount c else 0)) \<and>
               wallet_transactions d' = wallet_transactions d @ [e] \<and>
               get_cash_out_row (co_id c) d' = Some c' \<and> co_status c' = CO_COMPLETED \<and>
               co_xrpl_tx_hash c' = Some h \<and> co_credit_transaction_id c' = Some (wtx_id e))) \<and>
         (co_payout_amount c = 0 \<longrightarrow> get_user (co_user_id c) d \<noteq> None \<longrightarrow>
            complete_cash_out s c h now d = Inl LedgerError)"
proof (intro conjI allI impI)
  fix d'
  assume run: "complete_cash_out s c h now d = Inr d'"
  note f = complete_app [OF run assms]
  show "uct_claims d' = uct_claims d" by (rule f)
  show "0 < co_payout_amount c"
    using run by (auto simp: complete_cash_out_def ebind_eq_Inr credit_def move_balance_def validate_Inr)
  obtain w e where e: "wallet_of (co_user_id c) d' = Some w"
    "\<forall>x k. held x k d' = held x k d +
          (if x = wal_id w \<and> k = co_payout_currency c then co_payout_amount c else 0)"
    "wallet_transactions d' = wallet_transactions d @ [e]"
    "cash_outs d' = put_by co_id (co_id c) (\<lambda>x. x\<lparr>co_credit_transaction_id := Some (wtx_id e),
            co_xrpl_tx_hash := Some h, co_status := CO_COMPLETED, co_completed_at := Some now\<rparr>)
          (cash_outs d)"
    using f(4) by blast
  have "get_cash_out_row (co_id c) d' = Some (c\<lparr>co_credit_transaction_id := Some (wtx_id e),
            co_xrpl_tx_hash := Some h, co_status := CO_COMPLETED, co_completed_at := Some now\<rparr>)"
    using assms(2) by (simp add: get_cash_out_row_def e(4) get_by_put_by)
  then show "\<exists>w e c'. wallet_of (co_user_id c) d' = Some w \<and>
               (\<forall>x k. held x k d' = held x k d +
                  (if x = wal_id w \<and> k = co_payout_currency c then co_payout_amount c else 0)) \<and>
               wallet_transactions d' = wallet_transactions d @ [e] \<and>
               get_cash_out_row (co_id c) d' = Some c' \<and> co_status c' = CO_COMPLETED \<and>
               co_xrpl_tx_hash c' = Some h \<and> co_credit_transaction_id c' = Some (wtx_id e)"
    using e(1,2,3) by auto
next
  assume z: "co_payout_amount c = 0" and usr: "get_user (co_user_id c) d \<noteq> None"
  obtain u where u: "get_user (co_user_id c) d = Some u" using usr by auto
  obtain w d1 where w: "wallet_for (usr_id u) now d = Inr (w, d1)" using wallet_for_total by blast
  show "complete_cash_out s c h now d = Inl LedgerError"
    by (simp add: complete_cash_out_def u w z credit_def move_balance_def validate_def)
qed

text \<open>
  A balance of half a cent cashed out to USD: priced, requested, and paid nothing.
\<close>

lemma demo_dust_request:
  "\<exists>d c d'. request_cash_out demo_settings 2 (5/1000) ''USD'' (37/2) None 0 d = Inr (c, d') \<and>
     app_inv demo_settings d' \<and> get_cash_out_row (co_id c) d' = Some c \<and>
     co_payout_amount c = 0 \<and> 0 < co_net_uctusd c \<and>
     get_user (co_user_id c) d' = Some (demo_user 2 ''Bob@x.org'')"
proof -
  have "scaled 6 (50 :: rat)" by simp
  then obtain d w where d: "app_inv demo_settings d" "wallet_of 2 d = Some w"
    "\<forall>x k. held x k d = (if x = wal_id w \<and> k = SETTLEMENT_CURRENCY then 50 else 0)"
    "cash_outs d = []" "users d = users demo_db"
    using demo_funded [of 50] by auto
  have c: "py_upper (py_strip ''USD'') \<in> set (payout_currencies demo_settings)"
    unfolding payout_currencies_demo by code_simp
  have n: "replayed_cash_out 2 None d = None" by (simp add: replayed_cash_out_def)
  have "\<exists>c d'. request_cash_out demo_settings 2 (5/1000) ''USD'' (37/2) None 0 d = Inr (c, d')"
    using d(3) by (intro request_outcome(2) [OF d(1) corridor_demo demo_request_ok(2) n c demo_priced(2) d(2)])
      simp_all
  then obtain c d' where run: "request_cash_out demo_settings 2 (5/1000) ''USD'' (37/2) None 0 d = Inr (c, d')"
    by blast
  note f = request_new_app [OF run n d(1) demo_request_ok(2)]
  have "get_cash_out_row (co_id c) d' = Some c" by (rule app_inv_get_cash_out [OF f(1)]) (simp add: f(2))
  moreover have "get_user (co_user_id c) d' = Some (demo_user 2 ''Bob@x.org'')"
    using f(6,8) d(5) by (simp add: get_user_def demo_db_def get_by_Cons demo_user_def)
  moreover have "co_net_uctusd c = 495/100000" "co_payout_amount c = 0"
    using f(11) [OF demo_priced(2)] by simp_all
  then have "0 < co_net_uctusd c" "co_payout_amount c = 0" by simp_all
  ultimately show ?thesis using run f(1) by blast
qed

theorem cash_out_completion_witness:
  "\<exists>c d. app_inv demo_settings d \<and> get_cash_out_row (co_id c) d = Some c \<and> 0 < co_net_uctusd c \<and>
     complete_cash_out demo_settings c ''hash'' 1 d = Inl LedgerError"
proof -
  obtain c d where d: "app_inv demo_settings d" "get_cash_out_row (co_id c) d = Some c"
    "co_payout_amount c = 0" "0 < co_net_uctusd c"
    "get_user (co_user_id c) d = Some (demo_user 2 ''Bob@x.org'')"
    using demo_dust_request by blast
  from cash_out_completion [OF d(1,2), of "''hash''" 1] d show ?thesis by auto
qed

text \<open>
  Two users cannot use the same idempotency key: the lookup is by user, the index over the
  whole table, so the second user's request, whatever its price and however large the balance,
  ends in an IntegrityError, which no handler of the request catches.
\<close>

theorem cash_out_key_collision:
  assumes "x \<in> set (cash_outs d)" "co_idempotency_key x = Some key"
    "\<forall>c \<in> set (cash_outs d). co_idempotency_key c = Some key \<longrightarrow> co_user_id c \<noteq> uid"
    "app_inv s d" "corridor_ok s" "cash_out_request_ok s u rate"
    "calculate_cash_out_payout s u cur rate = Inr q" "py_upper (py_strip cur) \<in> set (payout_currencies s)"
    "wallet_of uid d = Some w" "u \<le> held (wal_id w) SETTLEMENT_CURRENCY d"
  shows "request_cash_out s uid u cur rate (Some key) now d = Inl IntegrityError"
proof -
  have n: "replayed_cash_out uid (Some key) d = None"
    using assms(3) by (auto simp: replayed_cash_out_def find_None_iff)
  have mv: "token_movement s SETTLEMENT_CURRENCY u"
    using assms(5,6)
    by (auto simp: cash_out_request_ok_def token_amount_ok_def token_movement_def corridor_ok_def)
  note p = priced_cash_out [OF assms(7,6)]
  have wf: "wallet_for uid now d = Inr (w, d)" using assms(9) by (simp add: wallet_for_def wallet_for_raced_def)
  obtain e d2 where deb: "debit s (wal_id w) SETTLEMENT_CURRENCY u None None now d = Inr (e, d2)"
    using debit_outcome(2) [OF app_inv_ledger_inv(1) [OF assms(4)] mv assms(10)] by blast
  have "scaled 6 u" using assms(6) by (simp add: cash_out_request_ok_def token_amount_ok_def)
  then have "cash_outs d2 = cash_outs d"
    using plain_move_app(2) [OF deb [unfolded debit_def] assms(4)] by (simp add: ledger_only_def)
  then show ?thesis using assms(1,2,8) p(2,3)
    by (auto simp: request_cash_out_def n assms(7) wf deb insert_cash_out_def new_cash_out_def)
qed

theorem cash_out_key_collision_witness:
  "\<exists>d. cash_outs d \<noteq> [] \<and>
     request_cash_out demo_settings 2 20 ''USD'' (37/2) (Some ''k'') 0 d = Inl IntegrityError"
proof -
  have "scaled 6 (50 :: rat)" by simp
  then obtain d w where d: "app_inv demo_settings d" "wallet_of 2 d = Some w"
    "\<forall>x k. held x k d = (if x = wal_id w \<and> k = SETTLEMENT_CURRENCY then 50 else 0)" "cash_outs d = []"
    using demo_funded [of 50] by auto
  have c: "py_upper (py_strip ''USD'') \<in> set (payout_currencies demo_settings)"
    unfolding payout_currencies_demo by code_simp
  define x where "x = (new_cash_out 1 \<lparr>coq_uctusd_amount = 20, coq_cash_out_fee_uctusd = 1/5,
      coq_net_uctusd = 99/5, coq_payout_currency = ''USD'', coq_payout_amount = 99/5,
      coq_fx_rate = 37/2\<rparr> 0 (Some ''k'') 0)\<lparr>co_id := next_id d\<rparr>"
  define d1 where "d1 = d\<lparr>cash_outs := [x], next_id := Suc (next_id d)\<rparr>"
  have x: "co_idempotency_key x = Some ''k''" "co_user_id x = 1" "cash_out_ok demo_settings x"
    using demo_request_ok(1) priced_cash_out(7,9) [OF demo_priced(1) demo_request_ok(1)]
    by (auto simp: x_def new_cash_out_def cash_out_ok_def payout_currencies_demo cash_out_request_ok_def)
  have "ledger_inv demo_settings d1"
    by (rule ledger_inv_same [OF _ _ _ _ app_inv_ledger_inv(1) [OF d(1)]]) (simp_all add: d1_def)
  moreover have "entry_linked d1 e = entry_linked d e" for e
    by (simp add: entry_linked_def d1_def get_remittance_def)
  ultimately have inv: "app_inv demo_settings d1"
    using d(1) x(3) by (simp add: app_inv_def d1_def x_def fresh_ids_def [of co_id])
  have h: "wallet_of 2 d1 = Some w" "20 \<le> held (wal_id w) SETTLEMENT_CURRENCY d1" "x \<in> set (cash_outs d1)"
    using d(2,3) by (simp_all add: d1_def wallet_of_def held_def balance_row_def)
  have "\<forall>c \<in> set (cash_outs d1). co_idempotency_key c = Some ''k'' \<longrightarrow> co_user_id c \<noteq> 2"
    using x(2) by (simp add: d1_def)
  from cash_out_key_collision [OF h(3) x(1) this inv corridor_demo demo_request_ok(1) demo_priced(1) c h(1,2)]
  show ?thesis using h(3) by (metis empty_iff list.set(1))
qed

end
