(* ===== verification/Xrpl.thy ===== *)
theory Xrpl
  imports Queue
begin

text \<open>
  \<open>app/services/xrpl_service.py\<close> and \<open>app/security/encryption.py\<close>: what is signed and submitted
  to the XRP Ledger, and how the reply becomes a hash or an exception. xrpl-py, the node and
  Fernet are not part of the repository; they are the fields of \<open>xrpl_lib\<close>, with the state of
  the network as the type variable \<open>'x\<close>.
\<close>

section \<open>Libraries\<close>

record issued_amount =
  ia_currency :: string
  ia_issuer :: string
  ia_value :: string

datatype xrpl_tx =
    Payment string string issued_amount
  | TrustSet string issued_amount

text \<open>
  A reply of \<open>submit_and_wait\<close>: a response with its \<open>TransactionResult\<close> and \<open>hash\<close> (each may
  be missing), an \<open>XRPLReliableSubmissionException\<close> with its text, or any other exception.
\<close>

datatype submit_reply =
    Response "string option" "string option"
  | ReliableSubmissionFailure string
  | SubmitRaises string

record 'x xrpl_lib =
  lib_encrypt :: "string \<Rightarrow> string \<Rightarrow> string"
  lib_decrypt :: "string \<Rightarrow> string \<Rightarrow> exc + string"
  lib_address :: "string \<Rightarrow> exc + string"
  lib_submit :: "xrpl_tx \<Rightarrow> string \<Rightarrow> 'x \<Rightarrow> submit_reply \<times> 'x"
  lib_faucet :: "'x \<Rightarrow> (exc + string \<times> string) \<times> 'x"
  lib_tx_status :: "string \<Rightarrow> 'x \<Rightarrow> exc + bool \<times> string"
  lib_account_lines :: "string \<Rightarrow> string \<Rightarrow> 'x \<Rightarrow> exc + (string \<times> decimal) list"

record xrpl_service =
  xs_issuer :: string
  xs_currency_code :: string

definition TRUSTLINE_LIMIT :: string where
  "TRUSTLINE_LIMIT = ''1000000000''"

definition encrypt_seed :: "'x xrpl_lib \<Rightarrow> settings \<Rightarrow> string \<Rightarrow> string" where
  "encrypt_seed lib s plain_seed = lib_encrypt lib (private_key_encryption_key s) plain_seed"

definition decrypt_seed :: "'x xrpl_lib \<Rightarrow> settings \<Rightarrow> string \<Rightarrow> exc + string" where
  "decrypt_seed lib s encrypted_seed = lib_decrypt lib (private_key_encryption_key s) encrypted_seed"

section \<open>Result codes\<close>

text \<open>The expression \<open>\bte[cfslmr][A-Za-z_]+\b\<close>, searched for from the left.\<close>

definition code_letter :: "char \<Rightarrow> bool" where
  "code_letter c = (let n = (of_char c :: nat)
     in (65 \<le> n \<and> n \<le> 90) \<or> (97 \<le> n \<and> n \<le> 122) \<or> n = 95)"

definition word_char :: "char \<Rightarrow> bool" where
  "word_char c = (let n = (of_char c :: nat) in code_letter c \<or> (48 \<le> n \<and> n \<le> 57))"

definition match_code :: "string \<Rightarrow> string option" where
  "match_code s =
     (let body = takeWhile code_letter (drop 3 s); rest = dropWhile code_letter (drop 3 s)
      in if take 2 s = ''te'' \<and> drop 2 s \<noteq> [] \<and> s ! 2 \<in> set ''cfslmr'' \<and> body \<noteq> [] \<and>
            (rest = [] \<or> \<not> word_char (hd rest))
         then Some (take 3 s @ body) else None)"

fun search_code :: "bool \<Rightarrow> string \<Rightarrow> string option" where
  "search_code after_word [] = None"
| "search_code after_word (c # cs) =
     (case (if after_word then None else match_code (c # cs)) of
        Some code \<Rightarrow> Some code
      | None \<Rightarrow> search_code (word_char c) cs)"

definition extract_result_code :: "string \<Rightarrow> string option" where
  "extract_result_code text = search_code False text"

section \<open>The service\<close>

definition new_xrpl_service :: "settings \<Rightarrow> string option \<Rightarrow> string option \<Rightarrow> xrpl_service" where
  "new_xrpl_service s issuer code =
     \<lparr>xs_issuer = (case issuer of Some x \<Rightarrow> if x = [] then uctusd_issuer_address s else x
                    | None \<Rightarrow> uctusd_issuer_address s),
      xs_currency_code = (case code of Some x \<Rightarrow> if x = [] then uctusd_currency_code s else x
                    | None \<Rightarrow> uctusd_currency_code s)\<rparr>"

definition amount_of :: "xrpl_service \<Rightarrow> string \<Rightarrow> issued_amount" where
  "amount_of svc val = \<lparr>ia_currency = xs_currency_code svc, ia_issuer = xs_issuer svc, ia_value = val\<rparr>"

definition submit :: "'x xrpl_lib \<Rightarrow> xrpl_tx \<Rightarrow> string \<Rightarrow> 'x \<Rightarrow> (exc + string) \<times> 'x" where
  "submit lib tx seed x =
     (case lib_submit lib tx seed x of
        (ReliableSubmissionFailure text, x') \<Rightarrow>
          let code = extract_result_code text
          in (Inl (XRPLTransactionError
                ((''XRPL transaction failed: '') @ (case code of Some c \<Rightarrow> c | None \<Rightarrow> text)) code), x')
      | (SubmitRaises text, x') \<Rightarrow> (Inl (OtherException text), x')
      | (Response result h, x') \<Rightarrow>
          if result \<noteq> Some ''tesSUCCESS''
          then (Inl (XRPLTransactionError
                 (''XRPL transaction failed: '' @ (case result of Some c \<Rightarrow> c | None \<Rightarrow> ''None'')) result), x')
          else (some_or (OtherException (''KeyError: '' @ [CHR 0x27] @ ''hash'' @ [CHR 0x27])) h, x'))"

definition seed_for :: "'x xrpl_lib \<Rightarrow> settings \<Rightarrow> platform_wallet \<Rightarrow> exc + string" where
  "seed_for lib s pool = decrypt_seed lib s (pw_xrpl_encrypted_seed pool)"

definition create_testnet_account :: "'x xrpl_lib \<Rightarrow> 'x \<Rightarrow> (exc + string \<times> string) \<times> 'x" where
  "create_testnet_account lib x = lib_faucet lib x"

text \<open>Both transactions are built for the address of the signing wallet and submitted once.\<close>

definition sign_and_submit ::
  "'x xrpl_lib \<Rightarrow> (string \<Rightarrow> xrpl_tx) \<Rightarrow> string \<Rightarrow> 'x \<Rightarrow> (exc + string) \<times> 'x" where
  "sign_and_submit lib build seed x =
     (case lib_address lib seed of
        Inl e \<Rightarrow> (Inl e, x)
      | Inr address \<Rightarrow> submit lib (build address) seed x)"

definition establish_trustline ::
  "'x xrpl_lib \<Rightarrow> xrpl_service \<Rightarrow> string \<Rightarrow> 'x \<Rightarrow> (exc + string) \<times> 'x" where
  "establish_trustline lib svc wallet_seed x =
     sign_and_submit lib (\<lambda>a. TrustSet a (amount_of svc TRUSTLINE_LIMIT)) wallet_seed x"

definition send_payment ::
  "'x xrpl_lib \<Rightarrow> xrpl_service \<Rightarrow> string \<Rightarrow> string \<Rightarrow> string \<Rightarrow> 'x \<Rightarrow> (exc + string) \<times> 'x" where
  "send_payment lib svc sender_seed destination amount x =
     sign_and_submit lib (\<lambda>a. Payment a destination (amount_of svc amount)) sender_seed x"

definition with_seed ::
  "'x xrpl_lib \<Rightarrow> settings \<Rightarrow> platform_wallet \<Rightarrow> (string \<Rightarrow> 'x \<Rightarrow> (exc + 'a) \<times> 'x) \<Rightarrow> 'x \<Rightarrow>
   (exc + 'a) \<times> 'x" where
  "with_seed lib s pool f x = (case seed_for lib s pool of Inl e \<Rightarrow> (Inl e, x) | Inr seed \<Rightarrow> f seed x)"

definition establish_pool_trustline ::
  "'x xrpl_lib \<Rightarrow> settings \<Rightarrow> xrpl_service \<Rightarrow> platform_wallet \<Rightarrow> 'x \<Rightarrow> (exc + string) \<times> 'x" where
  "establish_pool_trustline lib s svc pool x =
     with_seed lib s pool (establish_trustline lib svc) x"

definition send_pooled_payment ::
  "'x xrpl_lib \<Rightarrow> settings \<Rightarrow> xrpl_service \<Rightarrow> platform_wallet \<Rightarrow> string \<Rightarrow> string \<Rightarrow> 'x \<Rightarrow>
   (exc + string) \<times> 'x" where
  "send_pooled_payment lib s svc source_pool destination amount x =
     with_seed lib s source_pool (\<lambda>seed. send_payment lib svc seed destination amount) x"

definition burn ::
  "'x xrpl_lib \<Rightarrow> settings \<Rightarrow> xrpl_service \<Rightarrow> platform_wallet \<Rightarrow> string \<Rightarrow> 'x \<Rightarrow> (exc + string) \<times> 'x" where
  "burn lib s svc source_pool amount x =
     with_seed lib s source_pool (\<lambda>seed. send_payment lib svc seed (xs_issuer svc) amount) x"

datatype chain_status = TxPending | TxSuccess | TxFailed

definition transaction_status :: "'x xrpl_lib \<Rightarrow> string \<Rightarrow> 'x \<Rightarrow> exc + chain_status" where
  "transaction_status lib tx_hash x =
     ebind (lib_tx_status lib tx_hash x) (\<lambda>(validated, result).
       Inr (if \<not> validated then TxPending
            else if result = ''tesSUCCESS'' then TxSuccess else TxFailed))"

definition issued_balance :: "'x xrpl_lib \<Rightarrow> xrpl_service \<Rightarrow> string \<Rightarrow> 'x \<Rightarrow> exc + decimal" where
  "issued_balance lib svc address x =
     ebind (lib_account_lines lib address (xs_issuer svc) x) (\<lambda>lines.
       Inr (case find (\<lambda>(cur, bal). cur = xs_currency_code svc) lines of
              Some (cur, bal) \<Rightarrow> bal | None \<Rightarrow> 0))"

section \<open>Setting up the pools (scripts/init_platform_wallets.py)\<close>

definition pool_of :: "pool_role \<Rightarrow> db \<Rightarrow> platform_wallet option" where
  "pool_of role d = get_by pw_role role (platform_wallets d)"

text \<open>\<open>platform_wallets.role\<close> is unique.\<close>

definition insert_pool :: "platform_wallet \<Rightarrow> db \<Rightarrow> exc + platform_wallet \<times> db" where
  "insert_pool p d =
     (if pool_of (pw_role p) d \<noteq> None then Inl IntegrityError
      else let p' = p\<lparr>pw_id := next_id d\<rparr>
           in Inr (p', d\<lparr>platform_wallets := platform_wallets d @ [p'], next_id := Suc (next_id d)\<rparr>))"

definition create_pool ::
  "'x xrpl_lib \<Rightarrow> settings \<Rightarrow> xrpl_service \<Rightarrow> pool_role \<Rightarrow> string option \<Rightarrow> bool \<Rightarrow> instant \<Rightarrow> db \<Rightarrow> 'x \<Rightarrow>
   (exc + (platform_wallet \<times> string option) \<times> db) \<times> 'x" where
  "create_pool lib s svc role seed skip_trustline now d x =
     (case pool_of role d of
        Some existing \<Rightarrow> (Inr ((existing, None), d), x)
      | None \<Rightarrow>
          let (account, x1) =
            (case (case seed of Some sd \<Rightarrow> if sd = [] then None else Some sd | None \<Rightarrow> None) of
               Some sd \<Rightarrow> (ebind (lib_address lib sd) (\<lambda>a. Inr (a, sd, None)), x)
             | None \<Rightarrow> (case create_testnet_account lib x of
                         (Inl e, x') \<Rightarrow> (Inl e, x')
                       | (Inr (a, sd), x') \<Rightarrow> (Inr (a, sd, Some sd), x')))
          in case account of
               Inl e \<Rightarrow> (Inl e, x1)
             | Inr (address, sd, revealed) \<Rightarrow>
                 (case insert_pool \<lparr>pw_id = 0, pw_role = role, pw_xrpl_address = address,
                          pw_xrpl_encrypted_seed = encrypt_seed lib s sd,
                          pw_trustline_established = None, pw_created_at = now\<rparr> d of
                    Inl e \<Rightarrow> (Inl e, x1)
                  | Inr (pool, d1) \<Rightarrow>
                      if skip_trustline then (Inr ((pool, revealed), d1), x1)
                      else case establish_pool_trustline lib s svc pool x1 of
                             (Inl e, x2) \<Rightarrow> (Inl e, x2)
                           | (Inr h, x2) \<Rightarrow>
                               let pool' = pool\<lparr>pw_trustline_established := Some now\<rparr>
                               in (Inr ((pool', revealed),
                                    d1\<lparr>platform_wallets := put_by pw_id (pw_id pool)
                                         (\<lambda>p. p\<lparr>pw_trustline_established := Some now\<rparr>)
                                         (platform_wallets d1)\<rparr>), x2)))"

text \<open>
  \<open>main\<close>: both pools in one transaction. Any exception rolls the rows back; what was submitted
  to the network stays.
\<close>

definition init_platform_wallets ::
  "'x xrpl_lib \<Rightarrow> settings \<Rightarrow> xrpl_service \<Rightarrow> string option \<Rightarrow> string option \<Rightarrow> bool \<Rightarrow> instant \<Rightarrow> db \<Rightarrow>
   'x \<Rightarrow> (exc + (pool_role \<times> string) list) \<times> db \<times> 'x" where
  "init_platform_wallets lib s svc send_seed payout_seed skip_trustlines now d x =
     (case create_pool lib s svc SEND_POOL send_seed skip_trustlines now d x of
        (Inl e, x1) \<Rightarrow> (Inl e, d, x1)
      | (Inr ((p1, new1), d1), x1) \<Rightarrow>
          (case create_pool lib s svc PAYOUT_POOL payout_seed skip_trustlines now d1 x1 of
             (Inl e, x2) \<Rightarrow> (Inl e, d, x2)
           | (Inr ((p2, new2), d2), x2) \<Rightarrow>
               (Inr ((case new1 of Some sd \<Rightarrow> [(SEND_POOL, sd)] | None \<Rightarrow> []) @
                     (case new2 of Some sd \<Rightarrow> [(PAYOUT_POOL, sd)] | None \<Rightarrow> [])), d2, x2)))"

section \<open>Amounts as text\<close>

text \<open>
  The text of an amount read from a \<open>Numeric(18, 6)\<close> column: Python prints the six decimal
  places the database returns. \<open>parse_amount\<close> is how the network reads it.
\<close>

fun dec_digits :: "nat \<Rightarrow> nat \<Rightarrow> string" where
  "dec_digits 0 n = []"
| "dec_digits (Suc k) n = dec_digits k (n div 10) @ [char_of (48 + n mod 10)]"

function nat_str :: "nat \<Rightarrow> string" where
  "nat_str n = (if n < 10 then [char_of (48 + n)] else nat_str (n div 10) @ [char_of (48 + n mod 10)])"
  by pat_completeness auto
termination
  by (relation "measure id") auto

declare nat_str.simps [simp del]

definition token_str :: "decimal \<Rightarrow> string" where
  "token_str x =
     (let n = nat \<lfloor>x * 10 ^ 6\<rfloor>
      in nat_str (n div 10 ^ 6) @ ''.'' @ dec_digits 6 (n mod 10 ^ 6))"

fun from_dec :: "nat \<Rightarrow> string \<Rightarrow> nat option" where
  "from_dec acc [] = Some acc"
| "from_dec acc (c # cs) =
     (let v = (of_char c :: nat)
      in if 48 \<le> v \<and> v \<le> 57 then from_dec (acc * 10 + (v - 48)) cs else None)"

definition parse_amount :: "string \<Rightarrow> decimal option" where
  "parse_amount s =
     (case py_split CHR ''.'' s of
        [whole] \<Rightarrow> map_option of_nat (from_dec 0 whole)
      | [whole, fr] \<Rightarrow>
          (case (from_dec 0 whole, from_dec 0 fr) of
             (Some a, Some b) \<Rightarrow> Some (of_nat a + of_nat b / 10 ^ length fr)
           | _ \<Rightarrow> None)
      | _ \<Rightarrow> None)"

lemma from_dec_append:
  "from_dec acc (xs @ ys) = (case from_dec acc xs of None \<Rightarrow> None | Some a \<Rightarrow> from_dec a ys)"
  by (induction acc xs rule: from_dec.induct) (auto simp: Let_def)

lemma from_dec_digit: "d < 10 \<Longrightarrow> from_dec acc [char_of (48 + d)] = Some (acc * 10 + d)"
  by simp

lemma length_dec_digits [simp]: "length (dec_digits k n) = k"
  by (induction k n rule: dec_digits.induct) simp_all

lemma from_dec_digits: "from_dec acc (dec_digits k n) = Some (acc * 10 ^ k + n mod 10 ^ k)"
proof (induction k n arbitrary: acc rule: dec_digits.induct)
  case (1 n)
  then show ?case by simp
next
  case (2 k n)
  have n: "n mod (10 * 10 ^ k) = 10 * (n div 10 mod 10 ^ k) + n mod 10"
    by (rule mod_mult2_eq)
  have "from_dec acc (dec_digits (Suc k) n) = Some ((acc * 10 ^ k + n div 10 mod 10 ^ k) * 10 + n mod 10)"
    by (simp add: from_dec_append 2 from_dec_digit del: from_dec.simps)
  also have "(acc * 10 ^ k + n div 10 mod 10 ^ k) * 10 + n mod 10 = acc * 10 ^ Suc k + n mod 10 ^ Suc k"
    unfolding power_Suc n by (simp only: distrib_right distrib_left mult.commute mult.left_commute add.assoc)
  finally show ?case .
qed

lemma from_dec_nat_str: "from_dec 0 (nat_str n) = Some n"
proof (induction n rule: nat_str.induct)
  case (1 n)
  show ?case
    by (subst nat_str.simps) (auto simp: from_dec_append 1 from_dec_digit simp del: from_dec.simps)
qed

lemma digit_not_dot: "d < 10 \<Longrightarrow> char_of (48 + d :: nat) \<noteq> CHR ''.''"
proof
  assume "d < 10" "char_of (48 + d) = CHR ''.''"
  then have "of_char (char_of (48 + d) :: char) = (of_char (CHR ''.'') :: nat)" by simp
  then show False using \<open>d < 10\<close> by simp
qed

lemma dec_digits_no_dot: "CHR ''.'' \<notin> set (dec_digits k n)"
proof (induction k n rule: dec_digits.induct)
  case (2 k n)
  then show ?case using digit_not_dot [of "n mod 10"] by (auto dest: sym)
qed simp

lemma nat_str_no_dot: "CHR ''.'' \<notin> set (nat_str n)"
proof (induction n rule: nat_str.induct)
  case (1 n)
  show ?case
    using 1 digit_not_dot [of n] digit_not_dot [of "n mod 10"]
    by (subst nat_str.simps) (auto dest: sym)
qed

lemma py_split_absent: "c \<notin> set xs \<Longrightarrow> py_split c xs = [xs]"
  by (induction xs) auto

lemma py_split_once:
  "c \<notin> set xs \<Longrightarrow> c \<notin> set ys \<Longrightarrow> py_split c (xs @ c # ys) = [xs, ys]"
  by (induction xs) (auto simp: py_split_absent)

lemma token_roundtrip:
  assumes "scaled 6 x" "0 \<le> x"
  shows "parse_amount (token_str x) = Some x"
proof -
  obtain m where m: "x * 10 ^ 6 = of_int m" "x = of_int m / 10 ^ 6" using assms(1) by (rule scaledE)
  have "0 \<le> m" using assms(2) m(2) by (simp add: zero_le_divide_iff)
  define n where "n = nat m"
  have x: "x = of_nat n / 10 ^ 6" using m(2) \<open>0 \<le> m\<close> by (simp add: n_def)
  have fl: "nat \<lfloor>x * 10 ^ 6\<rfloor> = n" unfolding m(1) by (simp add: n_def)
  let ?a = "n div 10 ^ 6" and ?b = "n mod 10 ^ 6"
  have sp: "py_split CHR ''.'' (nat_str ?a @ ''.'' @ dec_digits 6 ?b) = [nat_str ?a, dec_digits 6 ?b]"
    using py_split_once [OF nat_str_no_dot dec_digits_no_dot] by simp
  have f: "from_dec 0 (dec_digits 6 ?b) = Some ?b"
    using from_dec_digits [of 0 6 ?b] by (simp only: mult_zero_left add_0 mod_mod_trivial)
  have "n = ?a * 10 ^ 6 + ?b" by simp
  then have "(of_nat n :: rat) = of_nat ?a * 10 ^ 6 + of_nat ?b"
    by (metis of_nat_add of_nat_mult of_nat_numeral of_nat_power)
  then have "x = of_nat ?a + of_nat ?b / 10 ^ 6" unfolding x by (simp add: add_divide_distrib)
  then show ?thesis
    unfolding parse_amount_def token_str_def Let_def fl sp list.case f from_dec_nat_str prod.case
      option.case length_dec_digits by simp
qed

end
