(* ===== verification/Worker.thy ===== *)
theory Worker
  imports CashIO Xrpl
begin

text \<open>
  \<open>worker/settlement_worker.py\<close>: claiming a message, the on-chain leg, and recording what
  happened. A handler returns its outcome or the exception it lets escape, with the database as
  committed (an open transaction is rolled back with the exception) and the state of the
  network. \<open>now\<close> is the clock, the same through one handler. The text of an exception that is
  only logged is dropped.
\<close>

section \<open>Claims and lookups\<close>

definition CLAIMABLE :: "remittance_status list" where
  "CLAIMABLE = [CASH_IN_CONFIRMED, QUEUED]"

definition RECLAIMABLE :: "remittance_status list" where
  "RECLAIMABLE = CLAIMABLE @ [SETTLING]"

datatype settlement_outcome = OUT_SETTLED | OUT_FAILED | OUT_SKIPPED

text \<open>A dictionary lookup; \<open>truthy\<close> is Python's test of a value that may be missing or empty.\<close>

definition message_get :: "string \<Rightarrow> message \<Rightarrow> string option" where
  "message_get key m = map_of m key"

definition truthy :: "string option \<Rightarrow> bool" where
  "truthy x = (case x of None \<Rightarrow> False | Some s \<Rightarrow> s \<noteq> [])"

definition message_remittance_id :: "message \<Rightarrow> uuid option" where
  "message_remittance_id m =
     (if \<not> truthy (message_get ''idempotency_key'' m) \<or> \<not> truthy (message_get ''remittance_id'' m)
      then None
      else uuid_parse (the (message_get ''remittance_id'' m)))"

text \<open>
  The compare-and-swap: one UPDATE, committed, with the number of rows it changed.
\<close>

definition claim :: "uuid \<Rightarrow> bool \<Rightarrow> db \<Rightarrow> bool \<times> db" where
  "claim rid reclaimed d =
     (let claimable = (if reclaimed then RECLAIMABLE else CLAIMABLE);
          hit = (\<lambda>r. rem_id r = rid \<and> rem_status r \<in> set claimable)
      in (length (filter hit (remittances d)) = 1,
          d\<lparr>remittances := update_where hit (\<lambda>r. r\<lparr>rem_status := SETTLING\<rparr>) (remittances d)\<rparr>))"

definition claim_cash_out :: "uuid \<Rightarrow> db \<Rightarrow> bool \<times> db" where
  "claim_cash_out cid d =
     (let hit = (\<lambda>c. co_id c = cid \<and> co_status c = CO_APPROVED)
      in (length (filter hit (cash_outs d)) = 1,
          d\<lparr>cash_outs := update_where hit (\<lambda>c. c\<lparr>co_status := CO_PROCESSING\<rparr>) (cash_outs d)\<rparr>))"

definition role_value :: "pool_role \<Rightarrow> string" where
  "role_value role = (case role of SEND_POOL \<Rightarrow> ''send_pool'' | PAYOUT_POOL \<Rightarrow> ''payout_pool'')"

definition load_pool :: "pool_role \<Rightarrow> db \<Rightarrow> exc + platform_wallet" where
  "load_pool role d =
     some_or (SettlementError (''No '' @ role_value role @
         '' PlatformWallet row exists. Run: python -m scripts.init_platform_wallets''))
       (pool_of role d)"

definition resolve_recipient :: "remittance \<Rightarrow> db \<Rightarrow> exc + user" where
  "resolve_recipient r d =
     ebind (some_or (SettlementError (''Remittance '' @ uuid_str (rem_id r) @ '' has no beneficiary row''))
              (get_beneficiary_row (rem_beneficiary_id r) d))
       (\<lambda>b. some_or (SettlementError
              (''No registered user matches the beneficiary contact for remittance '' @
               uuid_str (rem_id r) @ '' - the recipient must register before settlement''))
              (user_by_contact (ben_contact b) d))"

text \<open>What a handler stores as the reason of a failure it caught.\<close>

definition failure_text :: "exc \<Rightarrow> string" where
  "failure_text e =
     (case e of SettlementError m \<Rightarrow> m | XRPLTransactionError m c \<Rightarrow> m | OtherException t \<Rightarrow> t
      | _ \<Rightarrow> [])"

section \<open>Recording a settlement\<close>

definition success_writes ::
  "settings \<Rightarrow> remittance \<Rightarrow> uuid \<Rightarrow> string \<Rightarrow> instant \<Rightarrow> db \<Rightarrow> exc + db" where
  "success_writes s r recipient_id tx_hash now d =
     ebind (wallet_for recipient_id now d) (\<lambda>(w, d1).
     ebind (credit s (wal_id w) SETTLEMENT_CURRENCY (rem_uctusd_amount r) (Some (rem_id r))
              (Some tx_hash) now d1) (\<lambda>(e, d2).
     ebind (case get_user (rem_sender_id r) d2 of
              None \<Rightarrow> Inr d2
            | Some sender \<Rightarrow>
                ebind (wallet_for (usr_id sender) now d2) (\<lambda>(w', d3).
                ebind (record_external s (wal_id w') OUTGOING SEND_CURRENCY (rem_zar_send_amount r)
                         (Some (rem_id r)) (Some tx_hash) ENTRY_SUCCESS None now d3)
                  (\<lambda>(e', d4). Inr d4))) (\<lambda>d5.
     Inr ((put_remittance (rem_id r) (\<lambda>x. x\<lparr>rem_status := SETTLED, rem_xrpl_tx_hash := Some tx_hash,
            rem_settled_at := Some now, rem_treasury_batch_id := Some (to_hex 32 (next_id d5)),
            rem_treasury_settled_at := Some now\<rparr>) d5)\<lparr>next_id := Suc (next_id d5)\<rparr>))))"

definition record_success ::
  "settings \<Rightarrow> remittance \<Rightarrow> uuid \<Rightarrow> string \<Rightarrow> instant \<Rightarrow> db \<Rightarrow> (exc + settlement_outcome) \<times> db" where
  "record_success s r recipient_id tx_hash now d =
     (case success_writes s r recipient_id tx_hash now d of
        Inr d' \<Rightarrow> (Inr OUT_SETTLED, d')
      | Inl e \<Rightarrow> (Inl (SettlementError ''ledger write failed after on-chain success''), d))"

definition failure_writes ::
  "settings \<Rightarrow> uuid \<Rightarrow> string \<Rightarrow> uuid option \<Rightarrow> instant \<Rightarrow> db \<Rightarrow> exc + db" where
  "failure_writes s rid reason recipient now d =
     ebind (some_or AttributeError (get_remittance rid d)) (\<lambda>r.
       let d1 = put_remittance rid (\<lambda>x. x\<lparr>rem_status := FAILED\<rparr>) d
       in case recipient of
            None \<Rightarrow> Inr d1
          | Some user_id \<Rightarrow>
              ebind (wallet_for user_id now d1) (\<lambda>(w, d2).
              ebind (record_external s (wal_id w) INCOMING SETTLEMENT_CURRENCY (rem_uctusd_amount r)
                       (Some rid) None ENTRY_FAILED (Some (take 500 reason)) now d2)
                (\<lambda>(e, d3). Inr d3)))"

definition fail_settlement ::
  "settings \<Rightarrow> uuid \<Rightarrow> string \<Rightarrow> uuid option \<Rightarrow> instant \<Rightarrow> db \<Rightarrow> (exc + settlement_outcome) \<times> db" where
  "fail_settlement s rid reason recipient now d =
     (case failure_writes s rid reason recipient now d of
        Inr d' \<Rightarrow> (Inr OUT_FAILED, d')
      | Inl e \<Rightarrow>
          if e = IntegrityError
          then (Inr OUT_FAILED, put_remittance rid (\<lambda>x. x\<lparr>rem_status := FAILED\<rparr>) d)
          else (Inl e, d))"

section \<open>Settling one message\<close>

text \<open>
  Everything after the claim: the recipient and the pools, the payment, the record. The payment
  is between the pools, for the amount of the row.
\<close>

definition settle_claimed ::
  "'x xrpl_lib \<Rightarrow> settings \<Rightarrow> xrpl_service \<Rightarrow> remittance \<Rightarrow> instant \<Rightarrow> db \<Rightarrow> 'x \<Rightarrow>
   ((exc + settlement_outcome) \<times> db) \<times> 'x" where
  "settle_claimed lib s svc r now d x =
     (case resolve_recipient r d of
        Inl e \<Rightarrow> (fail_settlement s (rem_id r) (failure_text e) None now d, x)
      | Inr recipient \<Rightarrow>
          (case ebind (load_pool SEND_POOL d) (\<lambda>sp. ebind (load_pool PAYOUT_POOL d) (\<lambda>pp. Inr (sp, pp))) of
             Inl e \<Rightarrow> (fail_settlement s (rem_id r) (failure_text e) (Some (usr_id recipient)) now d, x)
           | Inr (send_pool, payout_pool) \<Rightarrow>
               (case send_pooled_payment lib s svc send_pool (pw_xrpl_address payout_pool)
                       (token_str (rem_uctusd_amount r)) x of
                  (Inl e, x') \<Rightarrow>
                    (fail_settlement s (rem_id r) (failure_text e) (Some (usr_id recipient)) now d, x')
                | (Inr tx_hash, x') \<Rightarrow>
                    (record_success s r (usr_id recipient) tx_hash now d, x'))))"

definition settle ::
  "'x xrpl_lib \<Rightarrow> settings \<Rightarrow> xrpl_service \<Rightarrow> message \<Rightarrow> bool \<Rightarrow> instant \<Rightarrow> db \<Rightarrow> 'x \<Rightarrow>
   ((exc + settlement_outcome) \<times> db) \<times> 'x" where
  "settle lib s svc m reclaimed now d x =
     (case message_remittance_id m of
        None \<Rightarrow> ((Inr OUT_SKIPPED, d), x)
      | Some rid \<Rightarrow>
          (case claim rid reclaimed d of
             (False, d1) \<Rightarrow> ((Inr OUT_SKIPPED, d1), x)
           | (True, d1) \<Rightarrow>
               (case get_remittance rid d1 of
                  None \<Rightarrow> ((Inl AttributeError, d1), x)
                | Some r \<Rightarrow> settle_claimed lib s svc r now d1 x)))"

section \<open>Burning one cash-out\<close>

definition fail_claimed_cash_out ::
  "settings \<Rightarrow> uuid \<Rightarrow> string \<Rightarrow> instant \<Rightarrow> db \<Rightarrow> (exc + settlement_outcome) \<times> db" where
  "fail_claimed_cash_out s cid reason now d =
     (case ebind (some_or AttributeError (get_cash_out_row cid d))
             (\<lambda>c. fail_cash_out s c reason now [CO_PROCESSING] d) of
        Inl e \<Rightarrow> (Inl e, d)
      | Inr d' \<Rightarrow> (Inr OUT_FAILED, d'))"

definition record_burn ::
  "settings \<Rightarrow> cash_out \<Rightarrow> string \<Rightarrow> instant \<Rightarrow> db \<Rightarrow> (exc + settlement_outcome) \<times> db" where
  "record_burn s c tx_hash now d =
     (case complete_cash_out s c tx_hash now d of
        Inl e \<Rightarrow> (Inl (SettlementError ''cash-out ledger write failed after on-chain success''), d)
      | Inr d' \<Rightarrow> (Inr OUT_SETTLED, d'))"

definition burn_claimed ::
  "'x xrpl_lib \<Rightarrow> settings \<Rightarrow> xrpl_service \<Rightarrow> cash_out \<Rightarrow> instant \<Rightarrow> db \<Rightarrow> 'x \<Rightarrow>
   ((exc + settlement_outcome) \<times> db) \<times> 'x" where
  "burn_claimed lib s svc c now d x =
     (case load_pool PAYOUT_POOL d of
        Inl e \<Rightarrow> (fail_claimed_cash_out s (co_id c) (failure_text e) now d, x)
      | Inr payout_pool \<Rightarrow>
          (case burn lib s svc payout_pool (token_str (co_net_uctusd c)) x of
             (Inl e, x') \<Rightarrow> (fail_claimed_cash_out s (co_id c) (failure_text e) now d, x')
           | (Inr tx_hash, x') \<Rightarrow> (record_burn s c tx_hash now d, x')))"

definition burn_cash_out ::
  "'x xrpl_lib \<Rightarrow> settings \<Rightarrow> xrpl_service \<Rightarrow> message \<Rightarrow> instant \<Rightarrow> db \<Rightarrow> 'x \<Rightarrow>
   ((exc + settlement_outcome) \<times> db) \<times> 'x" where
  "burn_cash_out lib s svc m now d x =
     (case uuid_parse (case message_get ''cash_out_id'' m of None \<Rightarrow> ''None'' | Some t \<Rightarrow> t) of
        None \<Rightarrow> ((Inr OUT_SKIPPED, d), x)
      | Some cid \<Rightarrow>
          (case claim_cash_out cid d of
             (False, d1) \<Rightarrow> ((Inr OUT_SKIPPED, d1), x)
           | (True, d1) \<Rightarrow>
               (case get_cash_out_row cid d1 of
                  None \<Rightarrow> ((Inl AttributeError, d1), x)
                | Some c \<Rightarrow> burn_claimed lib s svc c now d1 x)))"

section \<open>The consume loop\<close>

text \<open>The worker's collaborators and its consumer name; the state of the three stores it uses.\<close>

record ('x, 'r) worker =
  wk_settings :: settings
  wk_lib :: "'x xrpl_lib"
  wk_xrpl :: xrpl_service
  wk_queue :: queue_config
  wk_consumer :: string
  wk_xgroup_create :: "string \<Rightarrow> string \<Rightarrow> 'r \<Rightarrow> (redis_error + unit) \<times> 'r"
  wk_busygroup :: "string \<Rightarrow> bool"
  wk_xreadgroup :: "'r xreadgroup"
  wk_xautoclaim :: "string \<Rightarrow> string \<Rightarrow> string \<Rightarrow> int \<Rightarrow> int \<Rightarrow> 'r \<Rightarrow>
     (redis_error + entry list option) \<times> 'r"
  wk_xack :: "string \<Rightarrow> string \<Rightarrow> string \<Rightarrow> 'r \<Rightarrow> (redis_error + unit) \<times> 'r"

record ('x, 'r) world =
  wo_db :: db
  wo_chain :: 'x
  wo_redis :: 'r
  wo_now :: instant

definition redis_exc :: "redis_error \<Rightarrow> exc" where
  "redis_exc e = OtherException (case e of ResponseError m \<Rightarrow> ''ResponseError: '' @ m
                                          | RedisFailure \<Rightarrow> ''RedisError'')"

text \<open>
  \<open>handle\<close>: the outcome of the message, then the acknowledgement. A SettlementError is swallowed
  and the message left unacknowledged; the result says whether it was acknowledged.
\<close>

definition handle ::
  "('x, 'r) worker \<Rightarrow> entry \<Rightarrow> bool \<Rightarrow> ('x, 'r) world \<Rightarrow> (exc + bool) \<times> ('x, 'r) world" where
  "handle k en reclaimed w =
     (let (entry_id, m) = en;
          ((result, d'), x') =
            (if message_get ''kind'' m = Some ''cash_out''
             then burn_cash_out (wk_lib k) (wk_settings k) (wk_xrpl k) m (wo_now w) (wo_db w) (wo_chain w)
             else settle (wk_lib k) (wk_settings k) (wk_xrpl k) m reclaimed (wo_now w) (wo_db w) (wo_chain w));
          w1 = w\<lparr>wo_db := d', wo_chain := x'\<rparr>
      in case result of
           Inl (SettlementError t) \<Rightarrow> (Inr False, w1)
         | Inl e \<Rightarrow> (Inl e, w1)
         | Inr outcome \<Rightarrow>
             (case acknowledge (wk_xack k) (wk_queue k) entry_id (wo_redis w1) of
                (Inl e, r') \<Rightarrow> (Inl (redis_exc e), w1\<lparr>wo_redis := r'\<rparr>)
              | (Inr u, r') \<Rightarrow> (Inr True, w1\<lparr>wo_redis := r'\<rparr>)))"

fun handle_all ::
  "('x, 'r) worker \<Rightarrow> entry list \<Rightarrow> bool \<Rightarrow> ('x, 'r) world \<Rightarrow> (exc + unit) \<times> ('x, 'r) world" where
  "handle_all k [] reclaimed w = (Inr (), w)"
| "handle_all k (en # es) reclaimed w =
     (case handle k en reclaimed w of
        (Inl e, w') \<Rightarrow> (Inl e, w')
      | (Inr acked, w') \<Rightarrow> handle_all k es reclaimed w')"

definition handle_reply ::
  "('x, 'r) worker \<Rightarrow> ('r \<Rightarrow> (redis_error + entry list) \<times> 'r) \<Rightarrow> bool \<Rightarrow> ('x, 'r) world \<Rightarrow>
   (exc + unit) \<times> ('x, 'r) world" where
  "handle_reply k read reclaimed w =
     (case read (wo_redis w) of
        (Inl e, r') \<Rightarrow> (Inl (redis_exc e), w\<lparr>wo_redis := r'\<rparr>)
      | (Inr es, r') \<Rightarrow> handle_all k es reclaimed (w\<lparr>wo_redis := r'\<rparr>))"

definition reclaim_abandoned ::
  "('x, 'r) worker \<Rightarrow> ('x, 'r) world \<Rightarrow> (exc + unit) \<times> ('x, 'r) world" where
  "reclaim_abandoned k w =
     handle_reply k (reclaim_stale (wk_xautoclaim k) (wk_queue k) (wk_consumer k)
                       (settlement_reclaim_idle_ms (wk_settings k)) 10) True w"

text \<open>One turn of the loop: an exception ends the turn, is logged, and the loop goes on.\<close>

definition loop_turn :: "('x, 'r) worker \<Rightarrow> ('x, 'r) world \<Rightarrow> ('x, 'r) world" where
  "loop_turn k w =
     (case reclaim_abandoned k w of
        (Inl e, w') \<Rightarrow> w'
      | (Inr u, w') \<Rightarrow>
          snd (handle_reply k (read_new (wk_xreadgroup k) (wk_queue k) (wk_consumer k) 1) False w'))"

text \<open>Starting up: an exception here, before the loop, ends the process.\<close>

definition start_up ::
  "('x, 'r) worker \<Rightarrow> ('x, 'r) world \<Rightarrow> (exc + unit) \<times> ('x, 'r) world" where
  "start_up k w =
     (case ensure_consumer_group (wk_xgroup_create k) (wk_busygroup k) (wk_queue k) (wo_redis w) of
        (Inl e, r') \<Rightarrow> (Inl (redis_exc e), w\<lparr>wo_redis := r'\<rparr>)
      | (Inr u, r') \<Rightarrow>
          handle_reply k (read_pending (wk_xreadgroup k) (wk_queue k) (wk_consumer k) 10) True
            (w\<lparr>wo_redis := r'\<rparr>))"

text \<open>\<open>run\<close>, stopped by a signal after \<open>turns\<close> turns; the clock may move between turns.\<close>

fun run_turns :: "nat \<Rightarrow> (('x, 'r) world \<Rightarrow> ('x, 'r) world) \<Rightarrow> ('x, 'r) worker \<Rightarrow> ('x, 'r) world \<Rightarrow>
   ('x, 'r) world" where
  "run_turns 0 between k w = w"
| "run_turns (Suc n) between k w = run_turns n between k (between (loop_turn k w))"

definition run :: "nat \<Rightarrow> (('x, 'r) world \<Rightarrow> ('x, 'r) world) \<Rightarrow> ('x, 'r) worker \<Rightarrow> ('x, 'r) world \<Rightarrow>
   (exc + unit) \<times> ('x, 'r) world" where
  "run turns between k w =
     (case start_up k w of
        (Inl e, w') \<Rightarrow> (Inl e, w')
      | (Inr u, w') \<Rightarrow> (Inr (), run_turns turns between k w'))"

section \<open>The contract of a claim\<close>

text \<open>
  A compare-and-swap on a status: it wins exactly when the row is in one of the states claimed
  from, it moves that row and no other, and the state it moves to is not one it claims from.
\<close>

fun wins_in :: "('d \<Rightarrow> bool \<times> 'd) \<Rightarrow> nat \<Rightarrow> 'd \<Rightarrow> nat" where
  "wins_in f 0 d = 0"
| "wins_in f (Suc n) d = (if fst (f d) then 1 else 0) + wins_in f n (snd (f d))"

locale compare_and_swap =
  fixes cas :: "'k \<Rightarrow> 'd \<Rightarrow> bool \<times> 'd"
    and state :: "'k \<Rightarrow> 'd \<Rightarrow> 's option"
    and claimed_from :: "'s set" and target :: 's and ok :: "'d \<Rightarrow> bool"
  assumes wins: "ok d \<Longrightarrow> fst (cas k d) \<longleftrightarrow> (\<exists>s \<in> claimed_from. state k d = Some s)"
    and state_after: "ok d \<Longrightarrow>
      state j (snd (cas k d)) = (if j = k \<and> fst (cas k d) then Some target else state j d)"
    and keeps_ok: "ok d \<Longrightarrow> ok (snd (cas k d))"
    and target_taken: "target \<notin> claimed_from"
begin

lemma second_loses: "ok d \<Longrightarrow> fst (cas k d) \<Longrightarrow> \<not> fst (cas k (snd (cas k d)))"
  using wins [OF keeps_ok, of d k k] state_after [of d k k] target_taken by auto

lemma none_after: "ok d \<Longrightarrow> state k d = Some target \<Longrightarrow> wins_in (cas k) n d = 0"
proof (induction n arbitrary: d)
  case (Suc n)
  have "\<not> fst (cas k d)" using wins [OF Suc.prems(1)] Suc.prems(2) target_taken by auto
  then show ?case
    using Suc.IH [OF keeps_ok [OF Suc.prems(1)]] state_after [OF Suc.prems(1)] Suc.prems(2) by simp
qed simp

text \<open>However often a message is delivered, at most one delivery wins.\<close>

lemma at_most_one: "ok d \<Longrightarrow> wins_in (cas k) n d \<le> 1"
proof (induction n arbitrary: d)
  case (Suc n)
  show ?case
  proof (cases "fst (cas k d)")
    case True
    then have "state k (snd (cas k d)) = Some target" using state_after [OF Suc.prems] by simp
    then show ?thesis using none_after [OF keeps_ok [OF Suc.prems]] True by simp
  next
    case False
    then show ?thesis using Suc.IH [OF keeps_ok [OF Suc.prems]] by simp
  qed
qed simp

end

lemma length_filter_unique:
  assumes "distinct (map key rows)"
  shows "length (filter (\<lambda>r. key r = k \<and> P r) rows) = 1 \<longleftrightarrow>
         (\<exists>r. get_by key k rows = Some r \<and> P r)"
  using assms
proof (induction rows)
  case (Cons x xs)
  have none: "filter (\<lambda>r. key r = key x \<and> P r) xs = []" if "key x \<notin> key ` set xs"
    using that by (auto simp: filter_empty_conv image_iff)
  show ?case
  proof (cases "key x = k")
    case True
    then show ?thesis using Cons.prems none by (auto simp: get_by_Cons)
  next
    case False
    then show ?thesis using Cons by (simp add: get_by_Cons)
  qed
qed simp

definition claimable_states :: "bool \<Rightarrow> remittance_status list" where
  "claimable_states reclaimed = (if reclaimed then RECLAIMABLE else CLAIMABLE)"

lemma claim_put:
  "snd (claim rid reclaimed d) = put_remittance rid
     (\<lambda>x. if rem_status x \<in> set (claimable_states reclaimed) then x\<lparr>rem_status := SETTLING\<rparr> else x) d"
  by (auto simp: claim_def Let_def put_remittance_def put_by_def update_where_def claimable_states_def)

lemma claim_cash_out_put:
  "snd (claim_cash_out cid d) = put_cash_out cid
     (\<lambda>x. if co_status x = CO_APPROVED then x\<lparr>co_status := CO_PROCESSING\<rparr> else x) d"
  by (auto simp: claim_cash_out_def Let_def put_cash_out_def put_by_def update_where_def)

lemma claim_wins:
  assumes "distinct (map rem_id (remittances d))"
  shows "fst (claim rid reclaimed d) \<longleftrightarrow>
    (\<exists>r. get_remittance rid d = Some r \<and> rem_status r \<in> set (claimable_states reclaimed))"
  using length_filter_unique [OF assms]
  by (simp add: claim_def Let_def claimable_states_def get_remittance_def)

lemma claim_cash_out_wins:
  assumes "distinct (map co_id (cash_outs d))"
  shows "fst (claim_cash_out cid d) \<longleftrightarrow>
    (\<exists>c. get_cash_out_row cid d = Some c \<and> co_status c = CO_APPROVED)"
  using length_filter_unique [OF assms]
  by (simp add: claim_cash_out_def Let_def get_cash_out_row_def)

definition status_of :: "uuid \<Rightarrow> db \<Rightarrow> remittance_status option" where
  "status_of rid d = map_option rem_status (get_remittance rid d)"

definition cash_out_status_of :: "uuid \<Rightarrow> db \<Rightarrow> cash_out_status option" where
  "cash_out_status_of cid d = map_option co_status (get_cash_out_row cid d)"

interpretation rem_claim: compare_and_swap "\<lambda>rid. claim rid False" status_of "set CLAIMABLE" SETTLING
    "\<lambda>d. distinct (map rem_id (remittances d))"
proof unfold_locales
  fix d :: db and k j
  assume d: "distinct (map rem_id (remittances d))"
  show w: "fst (claim k False d) \<longleftrightarrow> (\<exists>s \<in> set CLAIMABLE. status_of k d = Some s)"
    using claim_wins [OF d] by (auto simp: claimable_states_def status_of_def)
  show "status_of j (snd (claim k False d)) =
      (if j = k \<and> fst (claim k False d) then Some SETTLING else status_of j d)"
    unfolding w claim_put
    by (cases "get_remittance j d") (auto simp: status_of_def rem_store.get_put claimable_states_def)
  show "distinct (map rem_id (remittances (snd (claim k False d))))"
    unfolding claim_put using d by simp
qed (simp add: CLAIMABLE_def)

interpretation co_claim: compare_and_swap claim_cash_out cash_out_status_of "{CO_APPROVED}" CO_PROCESSING
    "\<lambda>d. distinct (map co_id (cash_outs d))"
proof unfold_locales
  fix d :: db and k j
  assume d: "distinct (map co_id (cash_outs d))"
  show w: "fst (claim_cash_out k d) \<longleftrightarrow> (\<exists>s \<in> {CO_APPROVED}. cash_out_status_of k d = Some s)"
    using claim_cash_out_wins [OF d] by (auto simp: cash_out_status_of_def)
  show "cash_out_status_of j (snd (claim_cash_out k d)) =
      (if j = k \<and> fst (claim_cash_out k d) then Some CO_PROCESSING else cash_out_status_of j d)"
    unfolding w claim_cash_out_put
    by (cases "get_cash_out_row j d") (auto simp: cash_out_status_of_def co_store.get_put)
  show "distinct (map co_id (cash_outs (snd (claim_cash_out k d))))"
    unfolding claim_cash_out_put using d by simp
qed simp

section \<open>What the worker's writes keep\<close>

definition confirmed :: "uuid \<Rightarrow> db \<Rightarrow> bool" where
  "confirmed rid d \<longleftrightarrow> (\<exists>r. get_remittance rid d = Some r \<and> rem_cash_in_confirmed_at r \<noteq> None)"

text \<open>A transaction never loses a remittance, changes its amount, or forgets its cash-in.\<close>

definition keeps_rems :: "db \<Rightarrow> db \<Rightarrow> bool" where
  "keeps_rems d d' \<longleftrightarrow>
     (\<forall>k r. get_remittance k d = Some r \<longrightarrow>
        (\<exists>r'. get_remittance k d' = Some r' \<and> rem_uctusd_amount r' = rem_uctusd_amount r \<and>
              (rem_cash_in_confirmed_at r \<noteq> None \<longrightarrow> rem_cash_in_confirmed_at r' \<noteq> None)))"

lemma keeps_rems_refl [simp]: "keeps_rems d d"
  by (simp add: keeps_rems_def)

lemma keeps_rems_trans: "keeps_rems d d1 \<Longrightarrow> keeps_rems d1 d2 \<Longrightarrow> keeps_rems d d2"
  unfolding keeps_rems_def by metis

lemma keeps_rems_same: "remittances d' = remittances d \<Longrightarrow> keeps_rems d d'"
  by (simp add: keeps_rems_def get_remittance_def)

lemma keeps_rems_ledger: "ledger_only d d' \<Longrightarrow> keeps_rems d d'"
  by (simp add: keeps_rems_same ledger_only_def)

lemma keeps_rems_put:
  assumes "\<And>x. rem_id (f x) = rem_id x" "\<And>x. rem_uctusd_amount (f x) = rem_uctusd_amount x"
    "\<And>x. rem_cash_in_confirmed_at x \<noteq> None \<Longrightarrow> rem_cash_in_confirmed_at (f x) \<noteq> None"
  shows "keeps_rems d (put_remittance k f d)"
  using assms by (auto simp: keeps_rems_def rem_store.get_put)

lemma confirmed_keeps: "keeps_rems d d' \<Longrightarrow> confirmed k d \<Longrightarrow> confirmed k d'"
  unfolding keeps_rems_def confirmed_def by metis

lemma app_inv_distinct:
  "app_inv s d \<Longrightarrow> distinct (map rem_id (remittances d))"
  "app_inv s d \<Longrightarrow> distinct (map co_id (cash_outs d))"
  by (auto simp: app_inv_def fresh_ids_def)

lemma row_unique:
  "app_inv s d \<Longrightarrow> get_remittance k d = Some r \<Longrightarrow> x \<in> set (remittances d) \<Longrightarrow> rem_id x = k \<Longrightarrow> x = r"
  using app_inv_get_remittance [of s d x] by simp

lemma claim_app:
  assumes "app_inv s d"
  shows "app_inv s (snd (claim rid reclaimed d))"
    "wallet_transactions (snd (claim rid reclaimed d)) = wallet_transactions d"
    "cash_outs (snd (claim rid reclaimed d)) = cash_outs d"
    "fst (claim rid reclaimed d) \<Longrightarrow> confirmed rid (snd (claim rid reclaimed d))"
    "keeps_rems d (snd (claim rid reclaimed d))"
proof -
  show "keeps_rems d (snd (claim rid reclaimed d))"
    unfolding claim_put by (rule keeps_rems_put) simp_all
  have q: "QUOTED \<notin> set (claimable_states reclaimed)"
    by (simp add: claimable_states_def RECLAIMABLE_def CLAIMABLE_def)
  show "app_inv s (snd (claim rid reclaimed d))"
    unfolding claim_put
  proof (rule app_inv_put_remittance [OF assms])
    fix x assume x: "x \<in> set (remittances d)"
    have ok: "remittance_ok x" "status_linked (wallet_transactions d) x"
      using assms x by (auto simp: app_inv_def)
    let ?f = "\<lambda>x. if rem_status x \<in> set (claimable_states reclaimed) then x\<lparr>rem_status := SETTLING\<rparr> else x"
    show "(rem_status (?f x) \<noteq> QUOTED \<longrightarrow> rem_cash_in_confirmed_at (?f x) \<noteq> None) \<and>
        status_linked (wallet_transactions d) (?f x)"
      using ok q by (auto simp: remittance_ok_def status_linked_def)
  qed simp_all
  show "wallet_transactions (snd (claim rid reclaimed d)) = wallet_transactions d"
    "cash_outs (snd (claim rid reclaimed d)) = cash_outs d"
    by (simp_all add: claim_put)
  assume "fst (claim rid reclaimed d)"
  then obtain r where r: "get_remittance rid d = Some r" "rem_status r \<in> set (claimable_states reclaimed)"
    using claim_wins [OF app_inv_distinct(1) [OF assms]] by blast
  moreover have "rem_cash_in_confirmed_at r \<noteq> None"
    using app_inv_remittance [OF assms r(1)] r(2) q by (auto simp: remittance_ok_def)
  ultimately show "confirmed rid (snd (claim rid reclaimed d))"
    unfolding claim_put by (auto simp: confirmed_def rem_store.get_put)
qed

lemma claim_cash_out_app:
  assumes "app_inv s d"
  shows "app_inv s (snd (claim_cash_out cid d))"
    "wallet_transactions (snd (claim_cash_out cid d)) = wallet_transactions d"
    "remittances (snd (claim_cash_out cid d)) = remittances d"
proof -
  have "cash_out_ok s (if co_status x = CO_APPROVED then x\<lparr>co_status := CO_PROCESSING\<rparr> else x) =
      cash_out_ok s x" for x
    by (cases "co_status x = CO_APPROVED") (simp_all add: cash_out_ok_def)
  then show "app_inv s (snd (claim_cash_out cid d))"
    unfolding claim_cash_out_put by (intro app_inv_put_cash_out [OF assms]) simp_all
qed (simp_all add: claim_cash_out_put)

text \<open>A record that moves no balance and carries a remittance that exists.\<close>

lemma record_external_app:
  assumes run: "record_external s w dir cur a (Some rid) h st fr now d = Inr (e, d')"
    and inv: "app_inv s d" and r: "get_remittance rid d = Some r"
    and ext: "st \<noteq> ENTRY_SUCCESS \<or> dir = OUTGOING \<and> py_upper (py_strip cur) = SEND_CURRENCY"
  shows "app_inv s d'" "ledger_only d d'" "wallet_transactions d' = wallet_transactions d @ [e]"
    "uct_entry e = 0"
proof -
  note ok = record_external_ok [OF run app_inv_ledger_inv(2) [OF inv]]
  have "ledger_inv s d'"
    using record_external_inv [OF run app_inv_ledger_inv(1) [OF inv]] ext by auto
  moreover have "entry_linked d e"
    using r ext ok(6-9) by (auto simp: entry_linked_def credited_def repaid_def)
  ultimately show "app_inv s d'" using app_inv_ledger [OF inv ok(2) _ ok(4)] by simp
  show "ledger_only d d'" "wallet_transactions d' = wallet_transactions d @ [e]" by (rule ok)+
  show "uct_entry e = 0"
    using ext ok(6-9) by (auto simp: uct_entry_def moves_def)
qed

text \<open>The credit of a settlement: the row's own amount, to the recipient.\<close>

lemma settlement_credit_app:
  assumes run: "credit s w SETTLEMENT_CURRENCY (rem_uctusd_amount r) (Some (rem_id r)) h now d = Inr (e, d')"
    and inv: "app_inv s d" and r: "get_remittance (rem_id r) d = Some r"
  shows "app_inv s d'" "ledger_only d d'" "wallet_transactions d' = wallet_transactions d @ [e]"
    "credited (rem_id r) e" "wtx_amount e = rem_uctusd_amount r" "wtx_wallet_id e = w"
    "uct_entry e = rem_uctusd_amount r" "wtx_xrpl_tx_hash e = h"
    "held x k d' = held x k d + (if x = w \<and> k = SETTLEMENT_CURRENCY then rem_uctusd_amount r else 0)"
proof -
  have a: "scaled 6 (rem_uctusd_amount r)"
    using app_inv_remittance [OF inv r] by (simp add: remittance_ok_def token_amount_ok_def)
  note ok = move_balance_ok [OF run [unfolded credit_def] app_inv_ledger_inv(2) [OF inv] a]
  have "ledger_inv s d'"
    using move_balance_inv [OF run [unfolded credit_def] app_inv_ledger_inv(1) [OF inv] a] by simp
  moreover show cr: "credited (rem_id r) e" using ok(6-9) by (simp add: credited_def)
  then have "entry_linked d e"
    using r ok(6,8,10) by (auto simp: entry_linked_def repaid_def)
  ultimately show "app_inv s d'" using app_inv_ledger [OF inv ok(2) _ ok(4)] by simp
  show "ledger_only d d'" "wallet_transactions d' = wallet_transactions d @ [e]"
    "wtx_amount e = rem_uctusd_amount r" "wtx_wallet_id e = w" "wtx_xrpl_tx_hash e = h" by (rule ok)+
  show "uct_entry e = rem_uctusd_amount r"
    using ok(7-10) by (simp add: uct_entry_def moves_def signed_def)
  show "held x k d' = held x k d + (if x = w \<and> k = SETTLEMENT_CURRENCY then rem_uctusd_amount r else 0)"
    using ok(3) [of x k] by simp
qed

lemma app_inv_next_id: "app_inv s d \<Longrightarrow> app_inv s (d\<lparr>next_id := Suc (next_id d)\<rparr>)"
proof -
  assume inv: "app_inv s d"
  have "ledger_inv s (d\<lparr>next_id := Suc (next_id d)\<rparr>)"
    by (rule ledger_inv_same [OF _ _ _ _ app_inv_ledger_inv(1) [OF inv]]) simp_all
  moreover have "entry_linked (d\<lparr>next_id := Suc (next_id d)\<rparr>) e = entry_linked d e" for e
    by (simp add: entry_linked_def get_remittance_def)
  ultimately show "app_inv s (d\<lparr>next_id := Suc (next_id d)\<rparr>)"
    using inv by (simp add: app_inv_def)
qed

text \<open>
  The successful record: the recipient's credit, the sender's external entry when the sender is
  still on record, and the stamp on the row.
\<close>

lemma success_writes_app:
  assumes run: "success_writes s r uid h now d = Inr d'" and inv: "app_inv s d"
    and r: "get_remittance (rem_id r) d = Some r0" and same: "rem_uctusd_amount r0 = rem_uctusd_amount r"
    and conf: "rem_cash_in_confirmed_at r0 \<noteq> None"
  shows "app_inv s d'" "cash_outs d' = cash_outs d"
    "uct_claims d' = uct_claims d + rem_uctusd_amount r"
    "status_of (rem_id r) d' = Some SETTLED"
    "\<exists>e es w. wallet_transactions d' = wallet_transactions d @ e # es \<and> credited (rem_id r) e \<and>
       wtx_amount e = rem_uctusd_amount r \<and> wtx_xrpl_tx_hash e = Some h \<and>
       wallet_of uid d' = Some w \<and> wtx_wallet_id e = wal_id w \<and>
       (\<forall>x k. held x k d' = held x k d +
          (if x = wal_id w \<and> k = SETTLEMENT_CURRENCY then rem_uctusd_amount r else 0))"
    "keeps_rems d d'"
proof -
  let ?amt = "rem_uctusd_amount r"
  obtain w d1 e d2 d5 where w: "wallet_for uid now d = Inr (w, d1)"
    and cr: "credit s (wal_id w) SETTLEMENT_CURRENCY ?amt (Some (rem_id r)) (Some h) now d1 = Inr (e, d2)"
    and ext: "(case get_user (rem_sender_id r) d2 of None \<Rightarrow> Inr d2
            | Some sender \<Rightarrow>
                ebind (wallet_for (usr_id sender) now d2) (\<lambda>(w', d3).
                ebind (record_external s (wal_id w') OUTGOING SEND_CURRENCY (rem_zar_send_amount r)
                         (Some (rem_id r)) (Some h) ENTRY_SUCCESS None now d3) (\<lambda>(e', d4). Inr d4))) = Inr d5"
    and d': "d' = (put_remittance (rem_id r) (\<lambda>x. x\<lparr>rem_status := SETTLED, rem_xrpl_tx_hash := Some h,
            rem_settled_at := Some now, rem_treasury_batch_id := Some (to_hex 32 (next_id d5)),
            rem_treasury_settled_at := Some now\<rparr>) d5)\<lparr>next_id := Suc (next_id d5)\<rparr>"
    using run by (auto simp: success_writes_def ebind_eq_Inr)
  note wf = wallet_for_app [OF w inv]
  have r1: "get_remittance (rem_id r) d1 = Some r0" using r wf(4) by simp
  have rid: "rem_id r0 = rem_id r" using r by (auto simp: get_remittance_def dest: get_by_Some)
  have r1': "get_remittance (rem_id r0) d1 = Some r0" using r1 rid by simp
  note sc = settlement_credit_app [OF cr [folded same rid] wf(1) r1']
  have r2: "get_remittance (rem_id r) d2 = Some r0" using r1 sc(2) by simp
  have five: "app_inv s d5 \<and> ledger_only d2 d5 \<and> (\<forall>x k. held x k d5 = held x k d2) \<and>
      (\<exists>es. wallet_transactions d5 = wallet_transactions d2 @ es \<and> sum_list (map uct_entry es) = 0)"
  proof (cases "get_user (rem_sender_id r) d2")
    case None
    then show ?thesis using ext sc(1) by simp
  next
    case (Some sender)
    then obtain w' d3 e' where w3: "wallet_for (usr_id sender) now d2 = Inr (w', d3)"
      and rx: "record_external s (wal_id w') OUTGOING SEND_CURRENCY (rem_zar_send_amount r)
                         (Some (rem_id r)) (Some h) ENTRY_SUCCESS None now d3 = Inr (e', d5)"
      using ext by (auto simp: ebind_eq_Inr)
    note wf3 = wallet_for_app [OF w3 sc(1)]
    have r3: "get_remittance (rem_id r) d3 = Some r0" using r2 wf3(4) by simp
    note re = record_external_app [OF rx wf3(1) r3]
    have "held x k d5 = held x k d2" for x k
      using record_external_ok(3) [OF rx app_inv_ledger_inv(2) [OF wf3(1)]] wf3(3) by simp
    then show ?thesis using re wf3 ledger_only_trans [OF wf3(4)] by simp
  qed
  then obtain es where es: "wallet_transactions d5 = wallet_transactions d2 @ es" "sum_list (map uct_entry es) = 0"
    by blast
  have r5: "get_remittance (rem_id r) d5 = Some r0"
    using r2 ledger_only_get(2) [of d2 d5] five by metis
  have cr': "credited (rem_id r) e" using sc(4) rid by simp
  have "e \<in> set (wallet_transactions d5)" using sc(3) es(1) by simp
  then have inv5: "app_inv s (put_remittance (rem_id r) (\<lambda>x. x\<lparr>rem_status := SETTLED, rem_xrpl_tx_hash := Some h,
            rem_settled_at := Some now, rem_treasury_batch_id := Some (to_hex 32 (next_id d5)),
            rem_treasury_settled_at := Some now\<rparr>) d5)"
    using five conf cr' row_unique [OF _ r5]
    by (intro app_inv_put_remittance) (auto simp: status_linked_def)
  show "app_inv s d'" using app_inv_next_id [OF inv5] by (simp add: d')
  show "cash_outs d' = cash_outs d" using wf(4) sc(2) five by (auto simp: d' ledger_only_def)
  have wt: "wallet_transactions d' = wallet_transactions d @ e # es"
    using es(1) sc(3) wf(2) by (simp add: d')
  show "uct_claims d' = uct_claims d + ?amt"
    using uct_claims_append [OF wt] es(2) sc(7) same by simp
  have "get_remittance (rem_id r) d' = map_option (\<lambda>x. x\<lparr>rem_status := SETTLED, rem_xrpl_tx_hash := Some h,
            rem_settled_at := Some now, rem_treasury_batch_id := Some (to_hex 32 (next_id d5)),
            rem_treasury_settled_at := Some now\<rparr>) (get_remittance (rem_id r) d5)"
    by (simp add: d' get_remittance_def get_by_put_by)
  then show "status_of (rem_id r) d' = Some SETTLED" using r5 by (simp add: status_of_def)
  have same_held: "held x k d' = held x k d5" for x k
    by (simp add: d' held_def balance_row_def put_remittance_def)
  have hl: "held x k d' = held x k d + (if x = wal_id w \<and> k = SETTLEMENT_CURRENCY then ?amt else 0)" for x k
    using five sc(9) [of x k] wf(3) [of x k] same by (simp add: same_held)
  have "wallet_of uid d1 = Some w" by (rule wallet_for_ok(4) [OF w app_inv_ledger_inv(2) [OF inv]])
  then have wo: "wallet_of uid d' = Some w"
    using sc(2) five by (auto simp: d' ledger_only_def wallet_of_def get_by_append)
  show "\<exists>e es w. wallet_transactions d' = wallet_transactions d @ e # es \<and> credited (rem_id r) e \<and>
       wtx_amount e = ?amt \<and> wtx_xrpl_tx_hash e = Some h \<and>
       wallet_of uid d' = Some w \<and> wtx_wallet_id e = wal_id w \<and>
       (\<forall>x k. held x k d' = held x k d +
          (if x = wal_id w \<and> k = SETTLEMENT_CURRENCY then ?amt else 0))"
    using wt cr' sc(5) [unfolded same] sc(6,8) wo hl by blast
  have "keeps_rems d d5"
    using five wf(4) sc(2) by (blast intro: keeps_rems_ledger keeps_rems_trans)
  moreover have "keeps_rems d5 (put_remittance (rem_id r) (\<lambda>x. x\<lparr>rem_status := SETTLED, rem_xrpl_tx_hash := Some h,
            rem_settled_at := Some now, rem_treasury_batch_id := Some (to_hex 32 (next_id d5)),
            rem_treasury_settled_at := Some now\<rparr>) d5)"
    by (rule keeps_rems_put) simp_all
  moreover have "keeps_rems (put_remittance (rem_id r) (\<lambda>x. x\<lparr>rem_status := SETTLED, rem_xrpl_tx_hash := Some h,
            rem_settled_at := Some now, rem_treasury_batch_id := Some (to_hex 32 (next_id d5)),
            rem_treasury_settled_at := Some now\<rparr>) d5) d'"
    by (rule keeps_rems_same) (simp add: d')
  ultimately show "keeps_rems d d'" by (blast intro: keeps_rems_trans)
qed

lemma failure_writes_app:
  assumes run: "failure_writes s rid reason who now d = Inr d'" and inv: "app_inv s d"
    and conf: "confirmed rid d"
  shows "app_inv s d'" "cash_outs d' = cash_outs d" "uct_claims d' = uct_claims d"
    "status_of rid d' = Some FAILED" "keeps_rems d d'"
    "\<exists>es. wallet_transactions d' = wallet_transactions d @ es"
proof -
  let ?f = "\<lambda>x :: remittance. x\<lparr>rem_status := FAILED\<rparr>"
  let ?d1 = "put_remittance rid ?f d"
  obtain r where r: "get_remittance rid d = Some r" and cf: "rem_cash_in_confirmed_at r \<noteq> None"
    using conf by (auto simp: confirmed_def)
  have inv1: "app_inv s ?d1"
    using cf row_unique [OF inv r] by (intro app_inv_put_remittance [OF inv]) (auto simp: status_linked_def)
  have r1: "get_remittance rid ?d1 = Some (?f r)" using r by (intro rem_store.get_put_same) simp_all
  have keep: "keeps_rems d ?d1" by (rule keeps_rems_put) simp_all
  have "app_inv s d' \<and> ledger_only ?d1 d' \<and> uct_claims d' = uct_claims d \<and>
      (\<exists>es. wallet_transactions d' = wallet_transactions d @ es)"
  proof (cases who)
    case None
    then have eq: "d' = ?d1" using run r by (simp add: failure_writes_def Let_def)
    show ?thesis unfolding eq using inv1 by (simp add: uct_claims_def)
  next
    case (Some uid)
    then obtain w d2 e where w: "wallet_for uid now ?d1 = Inr (w, d2)"
      and rx: "record_external s (wal_id w) INCOMING SETTLEMENT_CURRENCY (rem_uctusd_amount r)
                 (Some rid) None ENTRY_FAILED (Some (take 500 reason)) now d2 = Inr (e, d')"
      using run r by (auto simp: failure_writes_def Let_def ebind_eq_Inr)
    note wf = wallet_for_app [OF w inv1]
    have r2: "get_remittance rid d2 = Some (?f r)" using r1 wf(4) by simp
    note re = record_external_app [OF rx wf(1) r2]
    have wt: "wallet_transactions d' = wallet_transactions d @ [e]" using re(3) wf(2) by simp
    show ?thesis using re(1,2,4) uct_claims_append [OF wt] wt ledger_only_trans [OF wf(4)] by auto
  qed
  note res = this
  show "app_inv s d'" "uct_claims d' = uct_claims d" "\<exists>es. wallet_transactions d' = wallet_transactions d @ es"
    using res by auto
  show "cash_outs d' = cash_outs d" using res by (auto simp: ledger_only_def)
  show "status_of rid d' = Some FAILED" using r1 res by (auto simp: status_of_def)
  show "keeps_rems d d'" using keep res by (blast intro: keeps_rems_ledger keeps_rems_trans)
qed

lemma fail_settlement_app:
  assumes run: "fail_settlement s rid reason who now d = (res, d')" and inv: "app_inv s d"
    and conf: "confirmed rid d"
  shows "app_inv s d'" "cash_outs d' = cash_outs d" "uct_claims d' = uct_claims d"
    "res = Inr OUT_FAILED \<Longrightarrow> status_of rid d' = Some FAILED" "keeps_rems d d'"
    "\<exists>es. wallet_transactions d' = wallet_transactions d @ es"
    "res = Inr OUT_FAILED \<or> (\<exists>e. res = Inl e \<and> e \<noteq> IntegrityError \<and> d' = d)"
proof -
  let ?d1 = "put_remittance rid (\<lambda>x. x\<lparr>rem_status := FAILED\<rparr>) d"
  obtain r where r: "get_remittance rid d = Some r" and cf: "rem_cash_in_confirmed_at r \<noteq> None"
    using conf by (auto simp: confirmed_def)
  consider (ok) "failure_writes s rid reason who now d = Inr d'" "res = Inr OUT_FAILED"
    | (again) "d' = ?d1" "res = Inr OUT_FAILED"
    | (raised) e where "d' = d" "res = Inl e" "e \<noteq> IntegrityError"
    using run by (auto simp: fail_settlement_def split: sum.splits if_splits)
  then have "app_inv s d' \<and> cash_outs d' = cash_outs d \<and> uct_claims d' = uct_claims d \<and>
    (res = Inr OUT_FAILED \<longrightarrow> status_of rid d' = Some FAILED) \<and> keeps_rems d d' \<and>
    (\<exists>es. wallet_transactions d' = wallet_transactions d @ es) \<and>
    (res = Inr OUT_FAILED \<or> (\<exists>e. res = Inl e \<and> e \<noteq> IntegrityError \<and> d' = d))"
  proof (cases)
    case ok
    then show ?thesis using failure_writes_app [OF ok(1) inv conf] by simp
  next
    case again
    have i: "app_inv s ?d1"
      using cf row_unique [OF inv r] by (intro app_inv_put_remittance [OF inv]) (auto simp: status_linked_def)
    have s: "status_of rid ?d1 = Some FAILED" using r by (simp add: status_of_def rem_store.get_put)
    have c: "keeps_rems d ?d1" by (rule keeps_rems_put) simp_all
    show ?thesis unfolding again using i s c by (simp add: uct_claims_def)
  next
    case raised
    then show ?thesis using inv by simp
  qed
  then show "app_inv s d'" "cash_outs d' = cash_outs d" "uct_claims d' = uct_claims d"
    "res = Inr OUT_FAILED \<Longrightarrow> status_of rid d' = Some FAILED" "keeps_rems d d'"
    "\<exists>es. wallet_transactions d' = wallet_transactions d @ es"
    "res = Inr OUT_FAILED \<or> (\<exists>e. res = Inl e \<and> e \<noteq> IntegrityError \<and> d' = d)"
    by simp_all
qed

section \<open>When a settlement is recorded\<close>

lemma success_outcome:
  assumes inv: "app_inv s d" and cor: "corridor_ok s" and r: "get_remittance (rem_id r) d = Some r"
    and zar: "rem_zar_send_amount r < 10 ^ 12"
    and fits: "\<And>w. held w SETTLEMENT_CURRENCY d + rem_uctusd_amount r < 10 ^ 12"
    and fresh: "\<And>x dir. x \<in> set (wallet_transactions d) \<Longrightarrow>
      entry_key x \<noteq> (Some (rem_id r), dir, ENTRY_SUCCESS)"
  shows "\<exists>d'. success_writes s r uid h now d = Inr d'"
proof -
  have ok: "remittance_ok r" using app_inv_remittance [OF inv r] by simp
  then have mv: "token_movement s SETTLEMENT_CURRENCY (rem_uctusd_amount r)"
    and mz: "token_movement s SEND_CURRENCY (rem_zar_send_amount r)"
    using cor zar
    by (auto simp: remittance_ok_def token_amount_ok_def token_movement_def corridor_ok_def
        intro: scaled_mono [of 2 _ 6])
  obtain w d1 where w: "wallet_for uid now d = Inr (w, d1)" using wallet_for_total by blast
  note wf = wallet_for_app [OF w inv]
  have "held (wal_id w) SETTLEMENT_CURRENCY d1 + rem_uctusd_amount r < 10 ^ 12" using fits wf(3) by simp
  then obtain e d2 where cr: "credit s (wal_id w) SETTLEMENT_CURRENCY (rem_uctusd_amount r)
      (Some (rem_id r)) (Some h) now d1 = Inr (e, d2)"
    using credit_outcome [OF app_inv_ledger_inv(1) [OF wf(1)] mv, of "wal_id w" "Some (rem_id r)"] fresh wf(2)
    by fastforce
  have r1: "get_remittance (rem_id r) d1 = Some r" using r wf(4) by simp
  note sc = settlement_credit_app [OF cr wf(1) r1]
  show ?thesis
  proof (cases "get_user (rem_sender_id r) d2")
    case None
    then show ?thesis using w cr by (simp add: success_writes_def)
  next
    case (Some sender)
    obtain w' d3 where w': "wallet_for (usr_id sender) now d2 = Inr (w', d3)" using wallet_for_total by blast
    have "wallet_transactions d3 = wallet_transactions d @ [e]"
      using wallet_for_app(2) [OF w' sc(1)] sc(3) wf(2) by simp
    moreover have "entry_key e = (Some (rem_id r), INCOMING, ENTRY_SUCCESS)"
      using sc(4) by (simp add: credited_def entry_key_def)
    ultimately have "\<forall>x \<in> set (wallet_transactions d3). entry_key x \<noteq> (Some (rem_id r), OUTGOING, ENTRY_SUCCESS)"
      using fresh by auto
    then obtain e' d4 where "record_external s (wal_id w') OUTGOING SEND_CURRENCY (rem_zar_send_amount r)
        (Some (rem_id r)) (Some h) ENTRY_SUCCESS None now d3 = Inr (e', d4)"
      using record_external_outcome [OF mz, of "Some (rem_id r)" d3 OUTGOING ENTRY_SUCCESS] by blast
    then show ?thesis using w cr Some w' by (simp add: success_writes_def)
  qed
qed

lemma failure_held:
  assumes run: "fail_settlement s rid reason who now d = (res, d')" and inv: "app_inv s d"
    and conf: "confirmed rid d"
  shows "held x k d' = held x k d"
proof -
  let ?d1 = "put_remittance rid (\<lambda>x. x\<lparr>rem_status := FAILED\<rparr>) d"
  obtain r where r: "get_remittance rid d = Some r" and cf: "rem_cash_in_confirmed_at r \<noteq> None"
    using conf by (auto simp: confirmed_def)
  have inv1: "app_inv s ?d1"
    using cf row_unique [OF inv r] by (intro app_inv_put_remittance [OF inv]) (auto simp: status_linked_def)
  have "held x k d' = held x k d" if w: "failure_writes s rid reason who now d = Inr d'"
  proof (cases who)
    case None
    then have "d' = ?d1" using w r by (simp add: failure_writes_def Let_def)
    then show ?thesis by simp
  next
    case (Some uid)
    then obtain w d2 e where w: "wallet_for uid now ?d1 = Inr (w, d2)"
      and rx: "record_external s (wal_id w) INCOMING SETTLEMENT_CURRENCY (rem_uctusd_amount r)
                 (Some rid) None ENTRY_FAILED (Some (take 500 reason)) now d2 = Inr (e, d')"
      using w r by (auto simp: failure_writes_def Let_def ebind_eq_Inr)
    note wf = wallet_for_app [OF w inv1]
    show ?thesis
      using record_external_ok(3) [OF rx app_inv_ledger_inv(2) [OF wf(1)]] wf(3) by simp
  qed
  then show ?thesis using run by (auto simp: fail_settlement_def split: sum.splits if_splits)
qed

lemma fail_settlement_status:
  assumes run: "fail_settlement s rid reason who now d = (Inl e, d')" shows "d' = d"
  using run by (auto simp: fail_settlement_def split: sum.splits if_splits)

lemma claim_loses:
  assumes "\<not> fst (claim rid reclaimed d)" "app_inv s d" shows "snd (claim rid reclaimed d) = d"
proof -
  have "rem_status r \<notin> set (claimable_states reclaimed)" if "get_remittance rid d = Some r" for r
    using assms(1) that claim_wins [OF app_inv_distinct(1) [OF assms(2)]] by blast
  then have "put_by rem_id rid (\<lambda>x. if rem_status x \<in> set (claimable_states reclaimed) then x\<lparr>rem_status := SETTLING\<rparr> else x)
      (remittances d) = remittances d"
    using app_inv_get_remittance [OF assms(2)] by (auto simp: put_by_def update_where_def intro!: map_idI)
  then show ?thesis unfolding claim_put by (simp add: put_remittance_def)
qed

lemma claim_held [simp]: "held x k (snd (claim rid reclaimed d)) = held x k d"
  by (simp add: claim_put)

lemma claim_row:
  assumes "fst (claim rid reclaimed d)" "app_inv s d"
  shows "\<exists>r. get_remittance rid d = Some r \<and> rem_status r \<in> set (claimable_states reclaimed) \<and>
     get_remittance rid (snd (claim rid reclaimed d)) = Some (r\<lparr>rem_status := SETTLING\<rparr>)"
proof -
  obtain r where r: "get_remittance rid d = Some r" "rem_status r \<in> set (claimable_states reclaimed)"
    using claim_wins [OF app_inv_distinct(1) [OF assms(2)]] assms(1) by blast
  then have "get_remittance rid (snd (claim rid reclaimed d)) = Some (r\<lparr>rem_status := SETTLING\<rparr>)"
    unfolding claim_put by (auto simp: rem_store.get_put)
  then show ?thesis using r by blast
qed

text \<open>How \<open>settle\<close> can end: the five ways out, with what each did.\<close>

lemma settle_cases:
  assumes "settle lib s svc m reclaimed now d x = ((res, d'), x')" "app_inv s d"
  obtains (skip) "res = Inr OUT_SKIPPED" "d' = d" "x' = x"
    "\<forall>rid. message_remittance_id m = Some rid \<longrightarrow> \<not> fst (claim rid reclaimed d)"
  | (fail) rid r d1 reason who where "message_remittance_id m = Some rid" "claim rid reclaimed d = (True, d1)"
      "get_remittance rid d = Some r" "get_remittance rid d1 = Some (r\<lparr>rem_status := SETTLING\<rparr>)"
      "fail_settlement s rid reason who now d1 = (res, d')"
      "x' = x \<or> (\<exists>sp pp e. pool_of SEND_POOL d1 = Some sp \<and> pool_of PAYOUT_POOL d1 = Some pp \<and>
         send_pooled_payment lib s svc sp (pw_xrpl_address pp) (token_str (rem_uctusd_amount r)) x = (Inl e, x'))"
  | (paid) rid r d1 recipient sp pp h where "message_remittance_id m = Some rid" "claim rid reclaimed d = (True, d1)"
      "get_remittance rid d = Some r" "get_remittance rid d1 = Some (r\<lparr>rem_status := SETTLING\<rparr>)"
      "resolve_recipient r d1 = Inr recipient" "pool_of SEND_POOL d1 = Some sp" "pool_of PAYOUT_POOL d1 = Some pp"
      "send_pooled_payment lib s svc sp (pw_xrpl_address pp) (token_str (rem_uctusd_amount r)) x = (Inr h, x')"
      "record_success s (r\<lparr>rem_status := SETTLING\<rparr>) (usr_id recipient) h now d1 = (res, d')"
proof (cases "message_remittance_id m")
  case None
  then show ?thesis using assms by (intro skip) (auto simp: settle_def)
next
  case (Some rid)
  obtain won d1 where cl: "claim rid reclaimed d = (won, d1)" by (cases "claim rid reclaimed d")
  show ?thesis
  proof (cases won)
    case False
    then show ?thesis using assms Some cl claim_loses [OF _ assms(2), of rid reclaimed]
      by (intro skip) (auto simp: settle_def)
  next
    case True
    then obtain r where r: "get_remittance rid d = Some r"
      "get_remittance rid d1 = Some (r\<lparr>rem_status := SETTLING\<rparr>)"
      using claim_row [of rid reclaimed, OF _ assms(2)] cl by auto
    have rid: "rem_id r = rid" using r(1) by (auto simp: get_remittance_def dest: get_by_Some)
    let ?r = "r\<lparr>rem_status := SETTLING\<rparr>"
    have run: "settle_claimed lib s svc ?r now d1 x = ((res, d'), x')"
      using assms(1) True Some cl r by (simp add: settle_def)
    have same: "resolve_recipient ?r d1 = resolve_recipient r d1" by (simp add: resolve_recipient_def)
    note base = Some cl [simplified True] r
    show ?thesis
    proof (cases "resolve_recipient r d1")
      case (Inl e)
      then show ?thesis using run rid same
        by (intro fail [OF base]) (auto simp: settle_claimed_def)
    next
      case (Inr recipient)
      note rec = this
      show ?thesis
      proof (cases "ebind (load_pool SEND_POOL d1) (\<lambda>sp. ebind (load_pool PAYOUT_POOL d1) (\<lambda>pp. Inr (sp, pp)))")
        case (Inl e)
        then show ?thesis using run rid same rec
          by (intro fail [OF base]) (auto simp: settle_claimed_def)
      next
        case (Inr pools)
        then obtain sp pp where p: "pools = (sp, pp)" "pool_of SEND_POOL d1 = Some sp" "pool_of PAYOUT_POOL d1 = Some pp"
          by (auto simp: ebind_eq_Inr load_pool_def some_or_eq_Inr)
        obtain pay x1 where pay: "send_pooled_payment lib s svc sp (pw_xrpl_address pp)
            (token_str (rem_uctusd_amount r)) x = (pay, x1)" by fastforce
        show ?thesis
        proof (cases pay)
          case (Inl e)
          then show ?thesis using run rid same rec Inr p pay
            by (intro fail [OF base]) (auto simp: settle_claimed_def)
        next
          case (Inr h)
          then show ?thesis using run same rec \<open>ebind (load_pool SEND_POOL d1) _ = Inr pools\<close> p pay
            by (intro paid [OF base rec p(2,3)]) (auto simp: settle_claimed_def)
        qed
      qed
    qed
  qed
qed

section \<open>A database for the worker to run on\<close>

definition demo_lib :: "nat xrpl_lib" where
  "demo_lib = \<lparr>lib_encrypt = (\<lambda>k t. t), lib_decrypt = (\<lambda>k t. Inr t), lib_address = (\<lambda>seed. Inr seed),
     lib_submit = (\<lambda>tx seed n. (Response (Some ''tesSUCCESS'') (Some ''H''), Suc n)),
     lib_faucet = (\<lambda>n. (Inr (''rNew'', ''sNew''), n)),
     lib_tx_status = (\<lambda>h n. Inr (True, ''tesSUCCESS'')), lib_account_lines = (\<lambda>a i n. Inr [])\<rparr>"

definition demo_svc :: xrpl_service where
  "demo_svc = \<lparr>xs_issuer = ''rIssuer'', xs_currency_code = ''UCT''\<rparr>"

definition demo_pool :: "uuid \<Rightarrow> pool_role \<Rightarrow> platform_wallet" where
  "demo_pool k role = \<lparr>pw_id = k, pw_role = role, pw_xrpl_address = ''r'', pw_xrpl_encrypted_seed = ''s'',
     pw_trustline_established = None, pw_created_at = 0\<rparr>"

definition demo_row :: "remittance_status \<Rightarrow> remittance" where
  "demo_row st = demo_remittance\<lparr>rem_status := st, rem_cash_in_confirmed_at := Some 100\<rparr>"

text \<open>The remittance in a given status, with both pools in place.\<close>

definition demo_at :: "remittance_status \<Rightarrow> db" where
  "demo_at st = demo_db\<lparr>remittances := [demo_row st],
     platform_wallets := [demo_pool 6 SEND_POOL, demo_pool 7 PAYOUT_POOL]\<rparr>"

lemma demo_row_fields [simp]:
  "rem_id (demo_row st) = 5" "rem_status (demo_row st) = st" "rem_sender_id (demo_row st) = 1"
  "rem_beneficiary_id (demo_row st) = 3" "rem_uctusd_amount (demo_row st) = 51351351/1000000"
  "rem_zar_send_amount (demo_row st) = 1000" "rem_idempotency_key (demo_row st) = ''k5''"
  "(demo_row st)\<lparr>rem_status := st'\<rparr> = demo_row st'"
  by (simp_all add: demo_row_def demo_remittance_def)

lemma demo_at_fields [simp]:
  "remittances (demo_at st) = [demo_row st]" "wallet_transactions (demo_at st) = []"
  "wallets (demo_at st) = []" "held w k (demo_at st) = 0" "cash_outs (demo_at st) = []"
  "get_remittance 5 (demo_at st) = Some (demo_row st)"
  "pool_of SEND_POOL (demo_at st) = Some (demo_pool 6 SEND_POOL)"
  "pool_of PAYOUT_POOL (demo_at st) = Some (demo_pool 7 PAYOUT_POOL)"
  by (simp_all add: demo_at_def demo_db_def empty_db_def held_def balance_row_def get_remittance_def
      get_by_Cons pool_of_def demo_pool_def)

lemma demo_at_app:
  assumes "st \<notin> {SETTLED, REFUNDED}" shows "app_inv s (demo_at st)"
proof -
  have "scaled 2 (1000 :: rat)" "token_amount_ok (51351351/1000000)" by code_simp+
  then have "remittance_ok (demo_row st)"
    by (simp add: remittance_ok_def) (simp add: demo_row_def)
  moreover have "ledger_inv s (demo_at st)"
    by (rule ledger_inv_same [OF _ _ _ _ app_inv_ledger_inv(1) [OF demo_db_app]])
      (simp_all add: demo_at_def)
  ultimately show ?thesis using assms
    by (simp add: app_inv_def fresh_ids_def status_linked_def) (simp add: demo_at_def demo_db_def empty_db_def)
qed

lemma demo_at_claim:
  "claim 5 reclaimed (demo_at st) =
     (st \<in> set (claimable_states reclaimed), demo_at (if st \<in> set (claimable_states reclaimed) then SETTLING else st))"
proof -
  have "fst (claim 5 reclaimed (demo_at st)) = (st \<in> set (claimable_states reclaimed))"
    by (subst claim_wins) (simp_all)
  moreover have "snd (claim 5 reclaimed (demo_at st)) =
      demo_at (if st \<in> set (claimable_states reclaimed) then SETTLING else st)"
    unfolding claim_put by (simp add: put_remittance_def put_by_def update_where_def) (simp add: demo_at_def)
  ultimately show ?thesis by (metis prod.collapse)
qed

lemma demo_at_recipient: "resolve_recipient (demo_row st) (demo_at st') = Inr (demo_user 2 ''Bob@x.org'')"
proof -
  have "assert_recipient_registered demo_remittance demo_quoted = Inr (demo_user 2 ''Bob@x.org'')"
    by (rule demo_recipient)
  then show ?thesis
    by (auto simp: resolve_recipient_def assert_recipient_registered_def demo_at_def demo_quoted_def
        get_beneficiary_row_def user_by_contact_def ebind_eq_Inr some_or_eq_Inr demo_remittance_def)
qed

lemma demo_at_success:
  "\<exists>d'. success_writes demo_settings (demo_row st) uid h now (demo_at st) = Inr d'" if "st \<notin> {SETTLED, REFUNDED}"
  by (rule success_outcome [OF demo_at_app [OF that] corridor_demo]) simp_all

lemma demo_pay: "send_pooled_payment demo_lib s demo_svc pool dest amount n = (Inr ''H'', Suc n)"
  by (simp add: send_pooled_payment_def with_seed_def seed_for_def decrypt_seed_def demo_lib_def
      send_payment_def sign_and_submit_def submit_def)

lemma demo_message: "message_remittance_id (settlement_message ''k5'' 5) = Some 5"
  by (simp add: message_remittance_id_def settlement_message_def message_get_def truthy_def) code_simp

lemma demo_settle:
  "\<exists>d'. settle demo_lib demo_settings demo_svc (settlement_message ''k5'' 5) False 200 (demo_at QUEUED) n
      = ((Inr OUT_SETTLED, d'), Suc n)"
proof -
  have c: "QUEUED \<in> set (claimable_states False)" by (simp add: claimable_states_def CLAIMABLE_def)
  obtain d' where "success_writes demo_settings (demo_row SETTLING) 2 ''H'' 200 (demo_at SETTLING) = Inr d'"
    using demo_at_success [of SETTLING 2 "''H''" 200] by auto
  then show ?thesis
    by (simp add: settle_def demo_message demo_at_claim c settle_claimed_def demo_at_recipient load_pool_def
        demo_pay record_success_def) (simp add: demo_user_def)
qed

section \<open>What a settlement does\<close>

text \<open>What a claim leaves alone, and what becomes of the row it won.\<close>

lemma claimed_frame:
  assumes "claim rid reclaimed d = (True, d1)"
  shows "resolve_recipient r d1 = resolve_recipient r d" "pool_of k d1 = pool_of k d" "held w j d1 = held w j d"
  using assms claim_put [of rid reclaimed d]
  by (simp_all add: resolve_recipient_def get_beneficiary_row_def user_by_contact_def
        pool_of_def put_remittance_def held_def balance_row_def)

lemma settled_claim:
  assumes "app_inv s d" "claim rid reclaimed d = (True, d1)" "get_remittance rid d = Some r"
    "get_remittance rid d1 = Some (r\<lparr>rem_status := SETTLING\<rparr>)"
    "success_writes s (r\<lparr>rem_status := SETTLING\<rparr>) (usr_id recipient) h now d1 = Inr d2"
  shows "app_inv s d2 \<and> rem_status r \<in> set (claimable_states reclaimed) \<and> status_of rid d2 = Some SETTLED \<and>
    (\<exists>w es e. wallet_of (usr_id recipient) d2 = Some w \<and> wallet_transactions d2 = wallet_transactions d @ e # es \<and>
       credited rid e \<and> wtx_wallet_id e = wal_id w \<and> wtx_amount e = rem_uctusd_amount r \<and> wtx_xrpl_tx_hash e = Some h \<and>
       (\<forall>v k. held v k d2 = held v k d +
          (if v = wal_id w \<and> k = SETTLEMENT_CURRENCY then rem_uctusd_amount r else 0)))"
proof -
  let ?r = "r\<lparr>rem_status := SETTLING\<rparr>"
  have d1: "d1 = snd (claim rid reclaimed d)" "fst (claim rid reclaimed d)" using assms(2) by simp_all
  note c = claim_app [OF assms(1), of rid reclaimed, folded d1(1)]
  have rid: "rem_id r = rid" using assms(3) by (auto simp: get_remittance_def dest: get_by_Some)
  have conf: "rem_cash_in_confirmed_at ?r \<noteq> None" using c(4) [OF d1(2)] assms(4) by (simp add: confirmed_def)
  have row: "get_remittance (rem_id ?r) d1 = Some ?r" using assms(4) rid by simp
  note sw = success_writes_app [OF assms(5) c(1) row refl conf]
  have "status_of rid d2 = Some SETTLED" using sw(4) rid by simp
  moreover have "rem_status r \<in> set (claimable_states reclaimed)" using claim_row [OF d1(2) assms(1)] assms(3) by auto
  ultimately show ?thesis using sw(1,5) rid c(2) claimed_frame(3) [OF assms(2)] by auto
qed

lemma failed_claim:
  assumes "app_inv s d" "claim rid reclaimed d = (True, d1)"
    "get_remittance rid d1 = Some (r\<lparr>rem_status := SETTLING\<rparr>)" "fail_settlement s rid reason who now d1 = (res, d')"
  shows "app_inv s d' \<and> (\<forall>w k. held w k d' = held w k d) \<and>
    (res = Inr OUT_FAILED \<and> status_of rid d' = Some FAILED \<or>
     (\<exists>e. res = Inl e) \<and> wallet_transactions d' = wallet_transactions d \<and> status_of rid d' = Some SETTLING)"
proof -
  have d1: "d1 = snd (claim rid reclaimed d)" "fst (claim rid reclaimed d)" using assms(2) by simp_all
  note c = claim_app [OF assms(1), of rid reclaimed, folded d1(1)]
  note f = fail_settlement_app [OF assms(4) c(1) c(4) [OF d1(2)]]
  have h: "held w k d' = held w k d" for w k
    using failure_held [OF assms(4) c(1) c(4) [OF d1(2)]] by (simp add: d1(1))
  have "status_of rid d1 = Some SETTLING" using assms(3) by (simp add: status_of_def)
  then show ?thesis using f(1,4,7) h c(2) by auto
qed

text \<open>
  C18. Every way a settlement message can end is accounted for. SKIPPED: the database and the
  network are untouched. FAILED: the row says so and no balance anywhere has moved. SETTLED: one
  payment, from the send pool to the payout pool for exactly the amount on the row, was validated
  with the hash the row and the recipient's one successful credit now carry, and that credit is
  the only balance movement. An exception leaves every balance and every entry as it was, and the
  row SETTLING for the reconciliation to find.
\<close>

theorem settle_outcomes:
  assumes "app_inv s d" "settle lib s svc m reclaimed now d x = ((res, d'), x')"
  shows "app_inv s d' \<and>
    (case res of
       Inr OUT_SKIPPED \<Rightarrow> d' = d \<and> x' = x
     | Inr OUT_FAILED \<Rightarrow>
         (\<forall>w k. held w k d' = held w k d) \<and>
         (\<exists>rid. message_remittance_id m = Some rid \<and> status_of rid d' = Some FAILED)
     | Inr OUT_SETTLED \<Rightarrow>
         (\<exists>rid r recipient sp pp h w es e.
            message_remittance_id m = Some rid \<and> get_remittance rid d = Some r \<and>
            rem_status r \<in> set (claimable_states reclaimed) \<and> status_of rid d' = Some SETTLED \<and>
            resolve_recipient r d = Inr recipient \<and>
            pool_of SEND_POOL d = Some sp \<and> pool_of PAYOUT_POOL d = Some pp \<and>
            send_pooled_payment lib s svc sp (pw_xrpl_address pp) (token_str (rem_uctusd_amount r)) x
              = (Inr h, x') \<and>
            wallet_of (usr_id recipient) d' = Some w \<and>
            wallet_transactions d' = wallet_transactions d @ e # es \<and> credited rid e \<and>
            wtx_wallet_id e = wal_id w \<and> wtx_amount e = rem_uctusd_amount r \<and>
            wtx_xrpl_tx_hash e = Some h \<and>
            (\<forall>v k. held v k d' = held v k d +
               (if v = wal_id w \<and> k = SETTLEMENT_CURRENCY then rem_uctusd_amount r else 0)))
     | Inl ex \<Rightarrow>
         (\<forall>w k. held w k d' = held w k d) \<and> wallet_transactions d' = wallet_transactions d \<and>
         (\<exists>rid. message_remittance_id m = Some rid \<and> status_of rid d' = Some SETTLING))"
  using assms(2,1)
proof (cases rule: settle_cases)
  case skip
  then show ?thesis using assms(1) by simp
next
  case (fail rid r d1 reason who)
  from failed_claim [OF assms(1) fail(2,4,5)] fail(1) show ?thesis by auto
next
  case (paid rid r d1 recipient sp pp h)
  note same = claimed_frame [OF paid(2)]
  show ?thesis
  proof (cases "success_writes s (r\<lparr>rem_status := SETTLING\<rparr>) (usr_id recipient) h now d1")
    case (Inl e)
    have "app_inv s d1 \<and> wallet_transactions d1 = wallet_transactions d"
      using claim_app(1,2) [OF assms(1), of rid reclaimed] paid(2) by simp
    then show ?thesis using Inl paid(1,4,9) same(3) by (auto simp: record_success_def status_of_def)
  next
    case (Inr d2)
    then have r: "res = Inr OUT_SETTLED" and d': "d' = d2" using paid(9) by (auto simp: record_success_def)
    show ?thesis
      using settled_claim [OF assms(1) paid(2,3,4) Inr] paid(1,3,5,6,7,8) unfolding r d' same by simp
  qed
qed

theorem settle_outcomes_witness:
  "\<exists>d'. settle demo_lib demo_settings demo_svc (settlement_message ''k5'' 5) False 200 (demo_at QUEUED) 0
      = ((Inr OUT_SETTLED, d'), 1) \<and> app_inv demo_settings d' \<and>
     status_of 5 d' = Some SETTLED \<and> (\<exists>w. held w SETTLEMENT_CURRENCY d' = 51351351/1000000)"
proof -
  obtain d' where run: "settle demo_lib demo_settings demo_svc (settlement_message ''k5'' 5) False 200 (demo_at QUEUED) 0
      = ((Inr OUT_SETTLED, d'), 1)" using demo_settle [of 0] by auto
  have a: "app_inv demo_settings (demo_at QUEUED)" by (rule demo_at_app) simp
  from settle_outcomes [OF a run] run show ?thesis using demo_message by auto
qed

section \<open>Deliveries after the first\<close>

text \<open>The state a delivery leaves the row in, unless it was skipped.\<close>

lemma settle_status:
  assumes "app_inv s d" "settle lib s svc m reclaimed now d x = ((res, d'), x')" "res \<noteq> Inr OUT_SKIPPED"
  shows "app_inv s d' \<and> (\<exists>rid. message_remittance_id m = Some rid \<and>
     status_of rid d' = Some (case res of Inr OUT_SETTLED \<Rightarrow> SETTLED | Inr OUT_FAILED \<Rightarrow> FAILED | _ \<Rightarrow> SETTLING))"
  using assms(2,1)
proof (cases rule: settle_cases)
  case skip
  then show ?thesis using assms(3) by simp
next
  case (fail rid r d1 reason who)
  have d1: "d1 = snd (claim rid reclaimed d)" "fst (claim rid reclaimed d)" using fail(2) by simp_all
  note c = claim_app [OF assms(1), of rid reclaimed, folded d1(1)]
  note f = fail_settlement_app [OF fail(5) c(1) c(4) [OF d1(2)]]
  have "status_of rid d1 = Some SETTLING" using fail(4) by (simp add: status_of_def)
  then show ?thesis using f(1,4,7) fail(1) by auto
next
  case (paid rid r d1 recipient sp pp h)
  have d1: "d1 = snd (claim rid reclaimed d)" "fst (claim rid reclaimed d)" using paid(2) by simp_all
  note c = claim_app [OF assms(1), of rid reclaimed, folded d1(1)]
  have rid: "rem_id r = rid" using paid(3) by (auto simp: get_remittance_def dest: get_by_Some)
  have conf: "rem_cash_in_confirmed_at (r\<lparr>rem_status := SETTLING\<rparr>) \<noteq> None"
    using c(4) [OF d1(2)] paid(4) by (simp add: confirmed_def)
  have row: "get_remittance (rem_id (r\<lparr>rem_status := SETTLING\<rparr>)) d1 = Some (r\<lparr>rem_status := SETTLING\<rparr>)"
    using paid(4) rid by simp
  have "status_of rid d1 = Some SETTLING" using paid(4) by (simp add: status_of_def)
  then show ?thesis
    using paid(1,9) c(1) success_writes_app(1,4) [OF _ c(1) row refl conf] rid
    by (auto simp: record_success_def split: sum.splits)
qed

lemma settle_skips:
  assumes "app_inv s d" "message_remittance_id m = Some rid" "status_of rid d = Some st"
    "st \<notin> set (claimable_states reclaimed)"
  shows "settle lib s svc m reclaimed now d x = ((Inr OUT_SKIPPED, d), x)"
proof -
  have n: "\<not> fst (claim rid reclaimed d)"
    using claim_wins [OF app_inv_distinct(1) [OF assms(1)], of rid reclaimed] assms(3,4)
    by (auto simp: status_of_def)
  then have "claim rid reclaimed d = (False, d)" using claim_loses [OF n assms(1)] by (metis prod.collapse)
  then show ?thesis using assms(2) by (simp add: settle_def)
qed

text \<open>
  C19. A message is settled once, unless its worker was interrupted. After a delivery that was not
  skipped, delivering the same message again in the ordinary way, at any time, is a no-op that never
  reaches the network. Once the outcome was recorded, SETTLED or FAILED, so is delivering it as an
  abandoned message taken over from a worker that died. The one case left is a delivery that ended in
  an exception: its row is SETTLING, which a takeover claims again.
\<close>

theorem settle_redelivery:
  assumes "app_inv s d" "settle lib s svc m reclaimed now d x = ((res, d'), x')" "res \<noteq> Inr OUT_SKIPPED"
  shows "settle lib s svc m False t d' y = ((Inr OUT_SKIPPED, d'), y) \<and>
    (\<forall>out. res = Inr out \<longrightarrow> settle lib s svc m True t d' y = ((Inr OUT_SKIPPED, d'), y)) \<and>
    (\<forall>e. res = Inl e \<longrightarrow> (\<exists>rid. message_remittance_id m = Some rid \<and> status_of rid d' = Some SETTLING \<and>
       fst (claim rid True d')))"
proof -
  define st where "st = (case res of Inr OUT_SETTLED \<Rightarrow> SETTLED | Inr OUT_FAILED \<Rightarrow> FAILED | _ \<Rightarrow> SETTLING)"
  obtain rid where st: "app_inv s d'" "message_remittance_id m = Some rid" "status_of rid d' = Some st"
    using settle_status [OF assms, folded st_def] by blast
  have "st \<notin> set (claimable_states False)"
    unfolding st_def
    by (cases res) (auto simp: claimable_states_def CLAIMABLE_def split: settlement_outcome.split)
  moreover have "st \<notin> set (claimable_states True)" if "res = Inr out" for out
    using assms(3) unfolding st_def that
    by (cases out) (simp_all add: claimable_states_def RECLAIMABLE_def CLAIMABLE_def)
  moreover have "st = SETTLING" if "res = Inl e" for e using that by (simp add: st_def)
  moreover have "fst (claim rid True d')" if "st = SETTLING"
    using claim_wins [OF app_inv_distinct(1) [OF st(1)], of rid True] st(3) that
    by (auto simp: status_of_def claimable_states_def RECLAIMABLE_def)
  ultimately show ?thesis
    by (intro conjI allI impI settle_skips [OF st] exI [of _ rid] st(2)) (simp_all add: st(3))
qed

theorem settle_redelivery_witness:
  "\<exists>d'. settle demo_lib demo_settings demo_svc (settlement_message ''k5'' 5) False 200 (demo_at QUEUED) 0
      = ((Inr OUT_SETTLED, d'), 1) \<and>
     settle demo_lib demo_settings demo_svc (settlement_message ''k5'' 5) True 300 d' 1
      = ((Inr OUT_SKIPPED, d'), 1)"
proof -
  obtain d' where run: "settle demo_lib demo_settings demo_svc (settlement_message ''k5'' 5) False 200 (demo_at QUEUED) 0
      = ((Inr OUT_SETTLED, d'), 1)" using demo_settle [of 0] by auto
  have a: "app_inv demo_settings (demo_at QUEUED)" by (rule demo_at_app) simp
  from settle_redelivery [OF a run, of 300 1] run show ?thesis by simp
qed

text \<open>A second credit of a remittance is refused by the unique constraint on the entries.\<close>

lemma second_credit_fails:
  assumes "app_inv s d" "get_remittance (rem_id r) d = Some r" "rem_cash_in_confirmed_at r \<noteq> None"
    "e0 \<in> set (wallet_transactions d)" "credited (rem_id r) e0"
  shows "\<exists>e. success_writes s r uid h now d = Inl e"
proof (cases "success_writes s r uid h now d")
  case (Inr d')
  note sw = success_writes_app [OF Inr assms(1,2) refl assms(3)]
  obtain e es where e: "wallet_transactions d' = wallet_transactions d @ e # es" "credited (rem_id r) e"
    using sw(5) by blast
  have ok: "entries_ok d'" using app_inv_ledger_inv(2) [OF sw(1)] by (simp add: ledger_shape_def)
  have "e = e0"
    by (rule entries_unique [OF ok]) (use e assms(4,5) in \<open>auto simp: credited_def entry_key_def\<close>)
  moreover have "distinct (wallet_transactions d')" using ok by (simp add: entries_ok_def fresh_ids_def distinct_map)
  ultimately show ?thesis using e(1) assms(4) by simp
qed blast

text \<open>
  Taking over an abandoned message pays again. A row still SETTLING is claimed by a reclaimed
  delivery, and the network is asked for the full payment whatever the first attempt did; if the
  remittance was already credited, the new payment cannot be recorded: nothing in the database
  changes, SettlementError leaves the message unacknowledged, and the next takeover finds the
  same state and pays once more.
\<close>

theorem reclaim_pays_again:
  assumes "app_inv s d" "message_remittance_id m = Some rid" "get_remittance rid d = Some r"
    "rem_status r = SETTLING" "resolve_recipient r d = Inr u"
    "pool_of SEND_POOL d = Some sp" "pool_of PAYOUT_POOL d = Some pp"
    "send_pooled_payment lib s svc sp (pw_xrpl_address pp) (token_str (rem_uctusd_amount r)) x = (Inr h, x')"
  shows "snd (settle lib s svc m True now d x) = x' \<and>
    ((\<exists>e \<in> set (wallet_transactions d). credited rid e) \<longrightarrow>
      fst (settle lib s svc m True now d x) =
        (Inl (SettlementError ''ledger write failed after on-chain success''), d))"
proof -
  have w: "fst (claim rid True d)"
    using claim_wins [OF app_inv_distinct(1) [OF assms(1)]] assms(3,4)
    by (auto simp: claimable_states_def RECLAIMABLE_def)
  have same: "(if rem_status z \<in> set (claimable_states True) then z\<lparr>rem_status := SETTLING\<rparr> else z) = z"
    if "z \<in> set (remittances d)" "rem_id z = rid" for z
    using row_unique [OF assms(1,3) that] assms(4) by simp
  have "snd (claim rid True d) = d"
    unfolding claim_put put_remittance_def put_by_def update_where_def
    using same by (simp add: map_idI)
  then have cl: "claim rid True d = (True, d)" using w by (metis prod.collapse)
  have rid: "rem_id r = rid" using assms(3) by (auto simp: get_remittance_def dest: get_by_Some)
  have conf: "rem_cash_in_confirmed_at r \<noteq> None"
    using app_inv_remittance [OF assms(1,3)] assms(4) by (auto simp: remittance_ok_def)
  have run: "settle lib s svc m True now d x = (record_success s r (usr_id u) h now d, x')"
    using assms(2,3,5-8) by (simp add: settle_def cl settle_claimed_def load_pool_def)
  moreover have "record_success s r (usr_id u) h now d =
      (Inl (SettlementError ''ledger write failed after on-chain success''), d)"
    if "e \<in> set (wallet_transactions d)" "credited rid e" for e
    using second_credit_fails [of s d r e "usr_id u" h now] assms(1,3) conf that rid
    by (auto simp: record_success_def)
  ultimately show ?thesis by auto
qed

theorem reclaim_pays_again_witness:
  "snd (settle demo_lib demo_settings demo_svc (settlement_message ''k5'' 5) True 200 (demo_at SETTLING) 1) = 2"
proof -
  have a: "app_inv demo_settings (demo_at SETTLING)" by (rule demo_at_app) simp
  show ?thesis
    using reclaim_pays_again [OF a demo_message, of "demo_row SETTLING" _ _ _ demo_lib demo_svc 1 "''H''" 2]
      demo_at_recipient demo_pay [of demo_settings _ _ _ 1] by (simp add: numeral_2_eq_2)
qed

section \<open>What a burn does\<close>

lemma claim_cash_out_loses:
  assumes "\<not> fst (claim_cash_out cid d)" "app_inv s d" shows "snd (claim_cash_out cid d) = d"
proof -
  have "co_status c \<noteq> CO_APPROVED" if "get_cash_out_row cid d = Some c" for c
    using assms(1) that claim_cash_out_wins [OF app_inv_distinct(2) [OF assms(2)]] by blast
  then have "put_by co_id cid (\<lambda>x. if co_status x = CO_APPROVED then x\<lparr>co_status := CO_PROCESSING\<rparr> else x)
      (cash_outs d) = cash_outs d"
    using app_inv_get_cash_out [OF assms(2)] by (auto simp: put_by_def update_where_def intro!: map_idI)
  then show ?thesis unfolding claim_cash_out_put by (simp add: put_cash_out_def)
qed

lemma claim_cash_out_row:
  assumes "fst (claim_cash_out cid d)" "app_inv s d"
  shows "\<exists>c. get_cash_out_row cid d = Some c \<and> co_status c = CO_APPROVED \<and>
     get_cash_out_row cid (snd (claim_cash_out cid d)) = Some (c\<lparr>co_status := CO_PROCESSING\<rparr>)"
proof -
  obtain c where c: "get_cash_out_row cid d = Some c" "co_status c = CO_APPROVED"
    using claim_cash_out_wins [OF app_inv_distinct(2) [OF assms(2)]] assms(1) by blast
  then have "get_cash_out_row cid (snd (claim_cash_out cid d)) = Some (c\<lparr>co_status := CO_PROCESSING\<rparr>)"
    unfolding claim_cash_out_put by (auto simp: co_store.get_put)
  then show ?thesis using c by blast
qed

definition burn_id :: "message \<Rightarrow> uuid option" where
  "burn_id m = uuid_parse (case message_get ''cash_out_id'' m of None \<Rightarrow> ''None'' | Some t \<Rightarrow> t)"

lemma burn_cases:
  assumes "burn_cash_out lib s svc m now d x = ((res, d'), x')" "app_inv s d"
  obtains (skip) "res = Inr OUT_SKIPPED" "d' = d" "x' = x"
  | (fail) cid c d1 reason where "burn_id m = Some cid" "claim_cash_out cid d = (True, d1)"
      "get_cash_out_row cid d = Some c" "get_cash_out_row cid d1 = Some (c\<lparr>co_status := CO_PROCESSING\<rparr>)"
      "fail_claimed_cash_out s cid reason now d1 = (res, d')"
      "x' = x \<or> (\<exists>pp e. pool_of PAYOUT_POOL d1 = Some pp \<and>
         burn lib s svc pp (token_str (co_net_uctusd c)) x = (Inl e, x'))"
  | (burned) cid c d1 pp h where "burn_id m = Some cid" "claim_cash_out cid d = (True, d1)"
      "get_cash_out_row cid d = Some c" "get_cash_out_row cid d1 = Some (c\<lparr>co_status := CO_PROCESSING\<rparr>)"
      "pool_of PAYOUT_POOL d1 = Some pp" "burn lib s svc pp (token_str (co_net_uctusd c)) x = (Inr h, x')"
      "record_burn s (c\<lparr>co_status := CO_PROCESSING\<rparr>) h now d1 = (res, d')"
proof (cases "burn_id m")
  case None
  then show ?thesis using assms by (intro skip) (auto simp: burn_cash_out_def burn_id_def)
next
  case (Some cid)
  obtain won d1 where cl: "claim_cash_out cid d = (won, d1)" by (cases "claim_cash_out cid d")
  show ?thesis
  proof (cases won)
    case False
    then show ?thesis using assms Some cl claim_cash_out_loses [OF _ assms(2), of cid]
      by (intro skip) (auto simp: burn_cash_out_def burn_id_def)
  next
    case True
    then obtain c where c: "get_cash_out_row cid d = Some c"
      "get_cash_out_row cid d1 = Some (c\<lparr>co_status := CO_PROCESSING\<rparr>)"
      using claim_cash_out_row [of cid, OF _ assms(2)] cl by auto
    have cid: "co_id c = cid" using c(1) by (auto simp: get_cash_out_row_def dest: get_by_Some)
    have run: "burn_claimed lib s svc (c\<lparr>co_status := CO_PROCESSING\<rparr>) now d1 x = ((res, d'), x')"
      using assms(1) True Some cl c by (simp add: burn_cash_out_def burn_id_def)
    note base = Some cl [simplified True] c
    show ?thesis
    proof (cases "pool_of PAYOUT_POOL d1")
      case None
      then show ?thesis using run cid
        by (intro fail [OF base]) (auto simp: burn_claimed_def load_pool_def)
    next
      case (Some pp)
      obtain reply x1 where reply: "burn lib s svc pp (token_str (co_net_uctusd c)) x = (reply, x1)" by fastforce
      show ?thesis
      proof (cases reply)
        case (Inl e)
        then show ?thesis using run cid Some reply
          by (intro fail [OF base]) (auto simp: burn_claimed_def load_pool_def)
      next
        case (Inr h)
        then show ?thesis using run Some reply
          by (intro burned [OF base Some]) (auto simp: burn_claimed_def load_pool_def)
      qed
    qed
  qed
qed

text \<open>What becomes of a cash-out whose claim was won.\<close>

lemma claimed_cash_out_frame:
  assumes "claim_cash_out cid d = (True, d1)"
  shows "pool_of k d1 = pool_of k d" "held w j d1 = held w j d"
  using assms claim_cash_out_put [of cid d]
  by (simp_all add: pool_of_def put_cash_out_def held_def balance_row_def)

lemma failed_burn:
  assumes "app_inv s d" "claim_cash_out cid d = (True, d1)" "get_cash_out_row cid d = Some c"
    "get_cash_out_row cid d1 = Some (c\<lparr>co_status := CO_PROCESSING\<rparr>)" "fail_claimed_cash_out s cid reason now d1 = (res, d')"
  shows "app_inv s d' \<and>
    (res = Inr OUT_FAILED \<and> cash_out_status_of cid d' = Some CO_FAILED \<and>
       (\<exists>w. wallet_of (co_user_id c) d' = Some w \<and> (\<forall>v k. held v k d' = held v k d +
               (if v = wal_id w \<and> k = SETTLEMENT_CURRENCY then co_uctusd_amount c else 0))) \<or>
     (\<exists>e. res = Inl e) \<and> (\<forall>w k. held w k d' = held w k d) \<and> wallet_transactions d' = wallet_transactions d \<and>
       cash_out_status_of cid d' = Some CO_PROCESSING)"
proof -
  let ?c = "c\<lparr>co_status := CO_PROCESSING\<rparr>"
  note a = claim_cash_out_app [OF assms(1), of cid, unfolded assms(2) snd_conv]
  note h1 = claimed_cash_out_frame(2) [OF assms(2)]
  have cid: "co_id c = cid" using assms(3) by (auto simp: get_cash_out_row_def dest: get_by_Some)
  show ?thesis
  proof (cases "fail_cash_out s ?c reason now [CO_PROCESSING] d1")
    case (Inl e)
    then have "res = Inl e" "d' = d1" using assms(4,5) by (auto simp: fail_claimed_cash_out_def)
    then show ?thesis using a h1 assms(4) by (auto simp: cash_out_status_of_def)
  next
    case (Inr d2)
    then have r: "res = Inr OUT_FAILED" "d' = d2" using assms(4,5) by (auto simp: fail_claimed_cash_out_def)
    have row: "get_cash_out_row (co_id ?c) d1 = Some ?c" using assms(4) cid by simp
    note f = fail_app [OF Inr a(1) row]
    have "cash_outs d2 = put_by co_id cid (\<lambda>x. x\<lparr>co_status := CO_FAILED,
               co_failure_reason := Some (take 500 reason), co_completed_at := Some now\<rparr>) (cash_outs d1)"
      using f(5) cid by auto
    then have "cash_out_status_of cid d2 = Some CO_FAILED"
      using assms(4) by (simp add: cash_out_status_of_def get_cash_out_row_def get_by_put_by)
    then show ?thesis using f(1,5) h1 r by auto
  qed
qed

lemma completed_burn:
  assumes "app_inv s d" "claim_cash_out cid d = (True, d1)" "get_cash_out_row cid d = Some c"
    "get_cash_out_row cid d1 = Some (c\<lparr>co_status := CO_PROCESSING\<rparr>)"
    "complete_cash_out s (c\<lparr>co_status := CO_PROCESSING\<rparr>) h now d1 = Inr d2"
  shows "app_inv s d2 \<and> co_status c = CO_APPROVED \<and> uct_claims d2 = uct_claims d \<and>
    (\<exists>w c'. get_cash_out_row cid d2 = Some c' \<and> co_status c' = CO_COMPLETED \<and> co_xrpl_tx_hash c' = Some h \<and>
       wallet_of (co_user_id c) d2 = Some w \<and> (\<forall>v k. held v k d2 = held v k d +
               (if v = wal_id w \<and> k = co_payout_currency c then co_payout_amount c else 0)))"
proof -
  let ?c = "c\<lparr>co_status := CO_PROCESSING\<rparr>"
  have won: "fst (claim_cash_out cid d)" using assms(2) by simp
  note a = claim_cash_out_app [OF assms(1), of cid, unfolded assms(2) snd_conv]
  have cid: "co_id c = cid" using assms(3) by (auto simp: get_cash_out_row_def dest: get_by_Some)
  have row: "get_cash_out_row (co_id ?c) d1 = Some ?c" using assms(4) cid by simp
  note f = complete_app [OF assms(5) a(1) row]
  obtain w and e :: wallet_transaction where w: "wallet_of (co_user_id c) d2 = Some w"
    "\<forall>x k. held x k d2 = held x k d1 +
        (if x = wal_id w \<and> k = co_payout_currency c then co_payout_amount c else 0)"
    "cash_outs d2 = put_by co_id cid (\<lambda>x. x\<lparr>co_credit_transaction_id := Some (wtx_id e),
          co_xrpl_tx_hash := Some h, co_status := CO_COMPLETED, co_completed_at := Some now\<rparr>) (cash_outs d1)"
    using f(4) cid by (auto cong: if_cong)
  have "get_cash_out_row cid d2 = Some (c\<lparr>co_credit_transaction_id := Some (wtx_id e),
          co_xrpl_tx_hash := Some h, co_status := CO_COMPLETED, co_completed_at := Some now\<rparr>)"
    using assms(4) by (simp add: get_cash_out_row_def w(3) get_by_put_by)
  moreover have "uct_claims d2 = uct_claims d" using f(3) a(2) by (simp add: uct_claims_def)
  moreover have "co_status c = CO_APPROVED" using claim_cash_out_row [OF won assms(1)] assms(3) by simp
  ultimately show ?thesis using f(1) w(1,2) claimed_cash_out_frame(2) [OF assms(2)] by simp
qed

text \<open>
  Every way a burn message can end is accounted for. SKIPPED: nothing is touched. FAILED: the
  gross went back to the user's UCTUSD balance and the row is FAILED. SETTLED: the payout pool
  sent exactly the net amount to the issuer, the user holds the quoted fiat, no UCTUSD moved and
  the row carries the hash. An exception leaves every balance and entry as it was and the row
  PROCESSING, where no later message can claim it.
\<close>

theorem burn_outcomes:
  assumes "app_inv s d" "burn_cash_out lib s svc m now d x = ((res, d'), x')"
  shows "app_inv s d' \<and>
    (case res of
       Inr OUT_SKIPPED \<Rightarrow> d' = d \<and> x' = x
     | Inr OUT_FAILED \<Rightarrow>
         (\<exists>cid c w. burn_id m = Some cid \<and> get_cash_out_row cid d = Some c \<and>
            cash_out_status_of cid d' = Some CO_FAILED \<and> wallet_of (co_user_id c) d' = Some w \<and>
            (\<forall>v k. held v k d' = held v k d +
               (if v = wal_id w \<and> k = SETTLEMENT_CURRENCY then co_uctusd_amount c else 0)))
     | Inr OUT_SETTLED \<Rightarrow>
         (\<exists>cid c pp h w c'. burn_id m = Some cid \<and> get_cash_out_row cid d = Some c \<and>
            co_status c = CO_APPROVED \<and> pool_of PAYOUT_POOL d = Some pp \<and>
            burn lib s svc pp (token_str (co_net_uctusd c)) x = (Inr h, x') \<and>
            get_cash_out_row cid d' = Some c' \<and> co_status c' = CO_COMPLETED \<and>
            co_xrpl_tx_hash c' = Some h \<and> wallet_of (co_user_id c) d' = Some w \<and>
            uct_claims d' = uct_claims d \<and>
            (\<forall>v k. held v k d' = held v k d +
               (if v = wal_id w \<and> k = co_payout_currency c then co_payout_amount c else 0)))
     | Inl ex \<Rightarrow>
         (\<forall>w k. held w k d' = held w k d) \<and> wallet_transactions d' = wallet_transactions d \<and>
         (\<exists>cid. burn_id m = Some cid \<and> cash_out_status_of cid d' = Some CO_PROCESSING))"
  using assms(2,1)
proof (cases rule: burn_cases)
  case skip
  then show ?thesis using assms(1) by simp
next
  case (fail cid c d1 reason)
  from failed_burn [OF assms(1) fail(2-5)] fail(1,3) show ?thesis by auto
next
  case (burned cid c d1 pp h)
  note same = claimed_cash_out_frame [OF burned(2)]
  show ?thesis
  proof (cases "complete_cash_out s (c\<lparr>co_status := CO_PROCESSING\<rparr>) h now d1")
    case (Inl e)
    have "app_inv s d1 \<and> wallet_transactions d1 = wallet_transactions d"
      using claim_cash_out_app(1,2) [OF assms(1), of cid] burned(2) by simp
    then show ?thesis using Inl burned(1,4,7) same(2) by (auto simp: record_burn_def cash_out_status_of_def)
  next
    case (Inr d2)
    then have r: "res = Inr OUT_SETTLED" "d' = d2" using burned(7) by (auto simp: record_burn_def)
    show ?thesis
      using completed_burn [OF assms(1) burned(2-4) Inr] burned(1,3,5,6) unfolding r same by simp
  qed
qed

definition demo_cash_out :: "cash_out_status \<Rightarrow> cash_out" where
  "demo_cash_out st = \<lparr>co_id = 8, co_user_id = 2, co_uctusd_amount = 20, co_cash_out_fee_uctusd = 1/5,
     co_net_uctusd = 99/5, co_payout_currency = ''USD'', co_payout_amount = 99/5, co_fx_rate_used = 37/2,
     co_status = st, co_failure_reason = None, co_debit_transaction_id = None,
     co_credit_transaction_id = None, co_idempotency_key = None, co_xrpl_tx_hash = None,
     co_reviewed_by_admin_id = None, co_requested_at = 0, co_approved_at = None, co_completed_at = None\<rparr>"

definition demo_burn_at :: "cash_out_status \<Rightarrow> db" where
  "demo_burn_at st = (demo_at QUEUED)\<lparr>cash_outs := [demo_cash_out st]\<rparr>"

lemma demo_cash_out_fields [simp]:
  "co_id (demo_cash_out st) = 8" "co_status (demo_cash_out st) = st" "co_user_id (demo_cash_out st) = 2"
  "co_uctusd_amount (demo_cash_out st) = 20" "co_net_uctusd (demo_cash_out st) = 99/5"
  "co_payout_currency (demo_cash_out st) = ''USD''" "co_payout_amount (demo_cash_out st) = 99/5"
  "(demo_cash_out st)\<lparr>co_status := st'\<rparr> = demo_cash_out st'"
  by (simp_all add: demo_cash_out_def)

lemma demo_burn_fields [simp]:
  "cash_outs (demo_burn_at st) = [demo_cash_out st]" "wallet_transactions (demo_burn_at st) = []"
  "held w k (demo_burn_at st) = 0" "get_cash_out_row 8 (demo_burn_at st) = Some (demo_cash_out st)"
  "pool_of PAYOUT_POOL (demo_burn_at st) = Some (demo_pool 7 PAYOUT_POOL)"
  "get_user 2 (demo_burn_at st) = Some (demo_user 2 ''Bob@x.org'')"
proof -
  show "held w k (demo_burn_at st) = 0"
    using demo_at_fields(4) [of w k QUEUED] by (simp add: demo_burn_at_def held_def balance_row_def)
  show "pool_of PAYOUT_POOL (demo_burn_at st) = Some (demo_pool 7 PAYOUT_POOL)"
    using demo_at_fields(8) [of QUEUED] by (simp add: demo_burn_at_def pool_of_def)
qed (simp_all add: demo_burn_at_def get_cash_out_row_def get_by_Cons,
  simp add: demo_at_def demo_db_def get_user_def demo_user_def get_by_Cons)

lemma demo_burn_app: "app_inv demo_settings (demo_burn_at st)"
proof -
  have "scaled 6 (99/5 :: rat)" "token_amount_ok 20" by code_simp+
  then have "cash_out_ok demo_settings (demo_cash_out st)"
    by (simp add: cash_out_ok_def payout_currencies_demo)
  moreover have a: "app_inv demo_settings (demo_at QUEUED)" by (rule demo_at_app) simp
  moreover have "ledger_inv demo_settings (demo_burn_at st)"
    by (rule ledger_inv_same [OF _ _ _ _ app_inv_ledger_inv(1) [OF a]]) (simp_all add: demo_burn_at_def)
  ultimately show ?thesis
    by (auto simp: app_inv_def fresh_ids_def) (auto simp: demo_burn_at_def demo_at_def demo_db_def empty_db_def)
qed

lemma demo_burn_claim: "claim_cash_out 8 (demo_burn_at CO_APPROVED) = (True, demo_burn_at CO_PROCESSING)"
proof -
  have "fst (claim_cash_out 8 (demo_burn_at CO_APPROVED))"
    by (subst claim_cash_out_wins) simp_all
  moreover have "snd (claim_cash_out 8 (demo_burn_at CO_APPROVED)) = demo_burn_at CO_PROCESSING"
    unfolding claim_cash_out_put by (simp add: put_cash_out_def put_by_def update_where_def) (simp add: demo_burn_at_def)
  ultimately show ?thesis by (metis prod.collapse)
qed

lemma demo_burn_message: "burn_id (cash_out_message 8) = Some 8"
  unfolding burn_id_def cash_out_message_def message_get_def by code_simp

lemma demo_burn_pay: "burn demo_lib s demo_svc pool amount n = (Inr ''H'', Suc n)"
  by (simp add: burn_def with_seed_def seed_for_def decrypt_seed_def demo_lib_def
      send_payment_def sign_and_submit_def submit_def)

lemma demo_burned:
  "\<exists>d'. burn_cash_out demo_lib demo_settings demo_svc (cash_out_message 8) 200 (demo_burn_at CO_APPROVED) n
     = ((Inr OUT_SETTLED, d'), Suc n)"
proof -
  let ?d = "demo_burn_at CO_PROCESSING"
  have m: "token_movement demo_settings ''USD'' (99/5)"
  proof -
    have "scaled 6 (99/5 :: rat)" by code_simp
    then show ?thesis by (simp add: token_movement_def supported_demo)
  qed
  have u: "get_user 2 ?d = Some (demo_user 2 ''Bob@x.org'')" by simp
  obtain d' where "complete_cash_out demo_settings (demo_cash_out CO_PROCESSING) ''H'' 200 ?d = Inr d'"
    using credit_user_outcome [OF demo_burn_app u m, of 200] by (auto simp: complete_cash_out_def)
  then show ?thesis
    by (simp add: burn_cash_out_def demo_burn_message [unfolded burn_id_def] demo_burn_claim burn_claimed_def
        load_pool_def demo_burn_pay record_burn_def)
qed

theorem burn_outcomes_witness:
  "\<exists>d' w. burn_cash_out demo_lib demo_settings demo_svc (cash_out_message 8) 200 (demo_burn_at CO_APPROVED) 0
     = ((Inr OUT_SETTLED, d'), 1) \<and> cash_out_status_of 8 d' = Some CO_COMPLETED \<and>
     held w ''USD'' d' = 99/5 \<and> held w SETTLEMENT_CURRENCY d' = 0"
proof -
  obtain d' where run: "burn_cash_out demo_lib demo_settings demo_svc (cash_out_message 8) 200 (demo_burn_at CO_APPROVED) 0
     = ((Inr OUT_SETTLED, d'), 1)" using demo_burned [of 0] by auto
  from burn_outcomes [OF demo_burn_app run] run show ?thesis
    using demo_burn_message by (auto simp: cash_out_status_of_def SETTLEMENT_CURRENCY_def)
qed

lemma burn_status:
  assumes "app_inv s d" "burn_cash_out lib s svc m now d x = ((res, d'), x')" "res \<noteq> Inr OUT_SKIPPED"
  shows "app_inv s d' \<and> (\<exists>cid. burn_id m = Some cid \<and>
     cash_out_status_of cid d' = Some (case res of Inr OUT_SETTLED \<Rightarrow> CO_COMPLETED
       | Inr OUT_FAILED \<Rightarrow> CO_FAILED | _ \<Rightarrow> CO_PROCESSING))"
  using assms(2,1)
proof (cases rule: burn_cases)
  case skip
  then show ?thesis using assms(3) by simp
next
  case (fail cid c d1 reason)
  have d1: "d1 = snd (claim_cash_out cid d)" using fail(2) by simp
  have a: "app_inv s d1" unfolding d1 by (rule claim_cash_out_app(1) [OF assms(1)])
  have cid: "co_id c = cid" using fail(3) by (auto simp: get_cash_out_row_def dest: get_by_Some)
  show ?thesis
  proof (cases "fail_cash_out s (c\<lparr>co_status := CO_PROCESSING\<rparr>) reason now [CO_PROCESSING] d1")
    case (Inl e)
    then show ?thesis using a fail(1,4,5) by (auto simp: fail_claimed_cash_out_def cash_out_status_of_def)
  next
    case (Inr d2)
    have row: "get_cash_out_row (co_id (c\<lparr>co_status := CO_PROCESSING\<rparr>)) d1 = Some (c\<lparr>co_status := CO_PROCESSING\<rparr>)"
      using fail(4) cid by simp
    note f = fail_app [OF Inr a row]
    have "cash_outs d2 = put_by co_id cid (\<lambda>x. x\<lparr>co_status := CO_FAILED,
               co_failure_reason := Some (take 500 reason), co_completed_at := Some now\<rparr>) (cash_outs d1)"
      using f(5) cid by auto
    then have "cash_out_status_of cid d2 = Some CO_FAILED"
      using fail(4) by (simp add: cash_out_status_of_def get_cash_out_row_def get_by_put_by)
    then show ?thesis using f(1) Inr fail(1,4,5) by (auto simp: fail_claimed_cash_out_def)
  qed
next
  case (burned cid c d1 pp h)
  have d1: "d1 = snd (claim_cash_out cid d)" using burned(2) by simp
  have a: "app_inv s d1" unfolding d1 by (rule claim_cash_out_app(1) [OF assms(1)])
  have cid: "co_id c = cid" using burned(3) by (auto simp: get_cash_out_row_def dest: get_by_Some)
  show ?thesis
  proof (cases "complete_cash_out s (c\<lparr>co_status := CO_PROCESSING\<rparr>) h now d1")
    case (Inl e)
    then show ?thesis using a burned(1,4,7) by (auto simp: record_burn_def cash_out_status_of_def)
  next
    case (Inr d2)
    have row: "get_cash_out_row (co_id (c\<lparr>co_status := CO_PROCESSING\<rparr>)) d1 = Some (c\<lparr>co_status := CO_PROCESSING\<rparr>)"
      using burned(4) cid by simp
    note f = complete_app [OF Inr a row]
    obtain e :: wallet_transaction where "cash_outs d2 = put_by co_id cid (\<lambda>x. x\<lparr>co_credit_transaction_id := Some (wtx_id e),
            co_xrpl_tx_hash := Some h, co_status := CO_COMPLETED, co_completed_at := Some now\<rparr>) (cash_outs d1)"
      using f(4) cid by auto
    then have "cash_out_status_of cid d2 = Some CO_COMPLETED"
      using burned(4) by (simp add: cash_out_status_of_def get_cash_out_row_def get_by_put_by)
    then show ?thesis using f(1) Inr burned(1,7) by (auto simp: record_burn_def)
  qed
qed

text \<open>
  A burn message is carried out at most once, whatever became of the first delivery: the
  claim has no second chance, so after any delivery that was not skipped every later one is
  skipped without touching the database or the network. (A worker that dies in between therefore
  leaves the cash-out PROCESSING for good.)
\<close>

theorem burn_redelivery:
  assumes "app_inv s d" "burn_cash_out lib s svc m now d x = ((res, d'), x')" "res \<noteq> Inr OUT_SKIPPED"
  shows "burn_cash_out lib s svc m t d' y = ((Inr OUT_SKIPPED, d'), y)"
proof -
  define st where "st = (case res of Inr OUT_SETTLED \<Rightarrow> CO_COMPLETED | Inr OUT_FAILED \<Rightarrow> CO_FAILED | _ \<Rightarrow> CO_PROCESSING)"
  obtain cid where st: "app_inv s d'" "burn_id m = Some cid" "cash_out_status_of cid d' = Some st"
    using burn_status [OF assms, folded st_def] by blast
  have ne: "st \<noteq> CO_APPROVED" unfolding st_def by (cases res) (auto split: settlement_outcome.split)
  have n: "\<not> fst (claim_cash_out cid d')"
    using claim_cash_out_wins [OF app_inv_distinct(2) [OF st(1)], of cid] st(3) ne
    by (auto simp: cash_out_status_of_def)
  then have "claim_cash_out cid d' = (False, d')" using claim_cash_out_loses [OF n st(1)] by (metis prod.collapse)
  then show ?thesis using st(2) by (simp add: burn_cash_out_def burn_id_def)
qed

theorem burn_redelivery_witness:
  "\<exists>d'. burn_cash_out demo_lib demo_settings demo_svc (cash_out_message 8) 200 (demo_burn_at CO_APPROVED) 0
     = ((Inr OUT_SETTLED, d'), 1) \<and>
     burn_cash_out demo_lib demo_settings demo_svc (cash_out_message 8) 300 d' 1 = ((Inr OUT_SKIPPED, d'), 1)"
proof -
  obtain d' where run: "burn_cash_out demo_lib demo_settings demo_svc (cash_out_message 8) 200 (demo_burn_at CO_APPROVED) 0
     = ((Inr OUT_SETTLED, d'), 1)" using demo_burned [of 0] by auto
  from burn_redelivery [OF demo_burn_app run, of 300 1] run show ?thesis by simp
qed

section \<open>Acknowledgement\<close>

text \<open>What the processing of a message leaves behind: a sound database, and after an exception a row mid-flight.\<close>

lemma processing_leaves_row:
  assumes "app_inv (wk_settings k) (wo_db w)"
    and run: "(if message_get ''kind'' m = Some ''cash_out''
      then burn_cash_out (wk_lib k) (wk_settings k) (wk_xrpl k) m (wo_now w) (wo_db w) (wo_chain w)
      else settle (wk_lib k) (wk_settings k) (wk_xrpl k) m reclaimed (wo_now w) (wo_db w) (wo_chain w)) = ((res, d'), x')"
  shows "app_inv (wk_settings k) d' \<and> (\<forall>e. res = Inl e \<longrightarrow>
     (if message_get ''kind'' m = Some ''cash_out''
      then \<exists>cid. burn_id m = Some cid \<and> cash_out_status_of cid d' = Some CO_PROCESSING
      else \<exists>rid. message_remittance_id m = Some rid \<and> status_of rid d' = Some SETTLING))"
proof (cases "message_get ''kind'' m = Some ''cash_out''")
  case True
  then have b: "burn_cash_out (wk_lib k) (wk_settings k) (wk_xrpl k) m (wo_now w) (wo_db w) (wo_chain w) = ((res, d'), x')"
    using run by simp
  show ?thesis
  proof (cases "res = Inr OUT_SKIPPED")
    case True
    then show ?thesis using assms(1) by (cases rule: burn_cases [OF b assms(1)])
        (auto simp: fail_claimed_cash_out_def record_burn_def split: sum.splits)
  next
    case False
    then show ?thesis using burn_status [OF assms(1) b False] True by auto
  qed
next
  case False
  then have b: "settle (wk_lib k) (wk_settings k) (wk_xrpl k) m reclaimed (wo_now w) (wo_db w) (wo_chain w) = ((res, d'), x')"
    using run by simp
  show ?thesis
  proof (cases "res = Inr OUT_SKIPPED")
    case True
    then show ?thesis using assms(1) by (cases rule: settle_cases [OF b assms(1)])
        (auto simp: fail_settlement_def record_success_def split: sum.splits if_splits)
  next
    case nsk: False
    then show ?thesis using settle_status [OF assms(1) b nsk] False by auto
  qed
qed

text \<open>
  A message stays unacknowledged only while its row is mid-flight. Returning acknowledged
  means Redis accepted the acknowledgement of this entry; returning unacknowledged means Redis was
  not called and the row is left SETTLING or PROCESSING; and an exception leaves Redis as the
  failed acknowledgement left it, or untouched.
\<close>

theorem handle_acknowledges:
  assumes "app_inv (wk_settings k) (wo_db w)" "handle k (entry_id, m) reclaimed w = (result, w')"
  shows "app_inv (wk_settings k) (wo_db w') \<and>
    (case result of
       Inr True \<Rightarrow> acknowledge (wk_xack k) (wk_queue k) entry_id (wo_redis w) = (Inr (), wo_redis w')
     | Inr False \<Rightarrow> wo_redis w' = wo_redis w \<and>
         (if message_get ''kind'' m = Some ''cash_out''
          then \<exists>cid. burn_id m = Some cid \<and> cash_out_status_of cid (wo_db w') = Some CO_PROCESSING
          else \<exists>rid. message_remittance_id m = Some rid \<and> status_of rid (wo_db w') = Some SETTLING)
     | Inl ex \<Rightarrow> wo_redis w' = wo_redis w \<or>
         (\<exists>e. acknowledge (wk_xack k) (wk_queue k) entry_id (wo_redis w) = (Inl e, wo_redis w') \<and>
              ex = redis_exc e))"
proof -
  let ?run = "if message_get ''kind'' m = Some ''cash_out''
    then burn_cash_out (wk_lib k) (wk_settings k) (wk_xrpl k) m (wo_now w) (wo_db w) (wo_chain w)
    else settle (wk_lib k) (wk_settings k) (wk_xrpl k) m reclaimed (wo_now w) (wo_db w) (wo_chain w)"
  obtain res d' x' where run: "?run = ((res, d'), x')" by (metis prod.collapse)
  note inv = processing_leaves_row [OF assms(1) run]
  show ?thesis
  proof (cases res)
    case (Inl e)
    then show ?thesis using assms(2) inv run by (cases e) (auto simp: handle_def)
  next
    case (Inr out)
    obtain a r' where a: "acknowledge (wk_xack k) (wk_queue k) entry_id (wo_redis w) = (a, r')" by fastforce
    show ?thesis using assms(2) inv run Inr a by (cases a) (auto simp: handle_def)
  qed
qed

definition demo_worker :: "(nat, string list) worker" where
  "demo_worker = \<lparr>wk_settings = demo_settings, wk_lib = demo_lib, wk_xrpl = demo_svc,
     wk_queue = \<lparr>qc_stream = ''s'', qc_group = ''g'', qc_block_ms = 5000\<rparr>, wk_consumer = ''c'',
     wk_xgroup_create = (\<lambda>a b r. (Inr (), r)), wk_busygroup = (\<lambda>t. True),
     wk_xreadgroup = (\<lambda>a b c n bl r. (Inr [], r)), wk_xautoclaim = (\<lambda>a b c n t r. (Inr (Some []), r)),
     wk_xack = (\<lambda>a b i r. (Inr (), i # r))\<rparr>"

definition demo_world :: "(nat, string list) world" where
  "demo_world = \<lparr>wo_db = demo_at QUEUED, wo_chain = 0, wo_redis = [], wo_now = 200\<rparr>"

theorem handle_acknowledges_witness:
  "\<exists>w'. handle demo_worker (''1-0'', settlement_message ''k5'' 5) False demo_world = (Inr True, w') \<and>
     wo_redis w' = [''1-0''] \<and> wo_chain w' = 1"
proof -
  obtain d' where s: "settle demo_lib demo_settings demo_svc (settlement_message ''k5'' 5) False 200 (demo_at QUEUED) 0
      = ((Inr OUT_SETTLED, d'), 1)" using demo_settle [of 0] by auto
  have k: "message_get ''kind'' (settlement_message ''k5'' 5) \<noteq> Some ''cash_out''"
    by (simp add: message_get_def settlement_message_def)
  obtain w' where run: "handle demo_worker (''1-0'', settlement_message ''k5'' 5) False demo_world = (Inr True, w')"
    "wo_chain w' = 1"
    using s k by (simp add: handle_def demo_worker_def demo_world_def acknowledge_def)
  have a: "app_inv (wk_settings demo_worker) (wo_db demo_world)"
    by (simp add: demo_worker_def demo_world_def demo_at_app)
  from handle_acknowledges [OF a run(1)] run show ?thesis
    by (auto simp: acknowledge_def demo_worker_def demo_world_def)
qed

section \<open>What crosses the wire\<close>

text \<open>
  What the API publishes is what the worker reads: a settlement message gives back the
  identifier of its remittance and is not taken for a cash-out, a cash-out message gives back the
  identifier of its cash-out and is dispatched as one.
\<close>

theorem message_roundtrip:
  assumes "u < 16 ^ 32" "key \<noteq> []"
  shows "message_remittance_id (settlement_message key u) = Some u \<and>
    message_get ''kind'' (settlement_message key u) \<noteq> Some ''cash_out'' \<and>
    burn_id (cash_out_message u) = Some u \<and>
    message_get ''kind'' (cash_out_message u) = Some ''cash_out''"
proof -
  have "uuid_str u \<noteq> []" by (simp add: uuid_str_def Let_def)
  then show ?thesis using assms uuid_roundtrip [OF assms(1)]
    by (simp add: message_remittance_id_def settlement_message_def message_get_def truthy_def burn_id_def
        cash_out_message_def)
qed

theorem message_roundtrip_witness:
  "message_remittance_id (settlement_message ''key'' 12345) = Some 12345"
proof -
  have "12345 < (16 :: nat) ^ 32" by simp
  from message_roundtrip [OF this, of "''key''"] show ?thesis by simp
qed

text \<open>
  A pooled payment that reports a hash is one transaction the network validated: signed with
  the decrypted seed of the sending pool, for the configured token, to the given address, and
  carrying as text exactly the amount of the row.
\<close>

theorem payment_carries_amount:
  assumes "send_pooled_payment lib s svc pool dest (token_str a) x = (Inr h, x')" "scaled 6 a" "0 \<le> a"
  shows "\<exists>seed addr amt. lib_decrypt lib (private_key_encryption_key s) (pw_xrpl_encrypted_seed pool) = Inr seed \<and>
    lib_address lib seed = Inr addr \<and>
    lib_submit lib (Payment addr dest amt) seed x = (Response (Some ''tesSUCCESS'') (Some h), x') \<and>
    parse_amount (ia_value amt) = Some a \<and> ia_issuer amt = xs_issuer svc \<and>
    ia_currency amt = xs_currency_code svc"
proof -
  have t: "parse_amount (token_str a) = Some a" by (rule token_roundtrip [OF assms(2,3)])
  show ?thesis using assms(1) t
    by (auto simp: send_pooled_payment_def with_seed_def seed_for_def decrypt_seed_def send_payment_def
        sign_and_submit_def submit_def amount_of_def some_or_eq_Inr Let_def
        split: sum.splits submit_reply.splits prod.splits if_splits)
qed

theorem payment_carries_amount_witness:
  "\<exists>amt. lib_submit demo_lib (Payment ''s'' ''dest'' amt) ''s'' 0 = (Response (Some ''tesSUCCESS'') (Some ''H''), 1) \<and>
     parse_amount (ia_value amt) = Some (51351351/1000000)"
proof -
  have "scaled 6 (51351351/1000000 :: rat)" by code_simp
  from payment_carries_amount [OF demo_pay this, of "demo_settings" "demo_pool 6 SEND_POOL" "''dest''" 0]
  show ?thesis by (auto simp: demo_lib_def demo_pool_def)
qed

end
