(* ===== verification/System.thy ===== *)
theory System
  imports Worker
begin

text \<open>
  The whole system as a transition system of its transactions. A step is one committed
  transaction of the API or the worker, one event on the XRP Ledger, or a crash; they interleave
  freely, and the queue may deliver any message, any number of times, in any order, as new or as
  reclaimed, so a claim needs no message behind it here.

  Two windows of the code are steps of their own because something outside the database happens
  inside them: between publishing a message and committing QUEUED (\<open>sy_marking\<close>), and between a
  worker's claim and its record (\<open>sy_jobs\<close>). Every other read-check-write of a handler is one
  step: the theorems here assume that two admins do not act on one row at the same instant, and
  \<open>concurrent_rejects_refund_twice\<close> shows what happens when they do.

  A submission to the XRP Ledger ends in one of three ways. It is answered (\<open>pay\<close>, \<open>burned\<close>) and
  the worker goes on to record it; it is rejected, or never made, and the worker records the failure;
  or its answer is lost, by a timeout or a dropped connection (\<open>pay_lost\<close>, \<open>burn_lost\<close>). A lost
  submission is in \<open>sy_sent\<close> and lands there and then, later, or never (\<open>pay_lands\<close>, \<open>burn_lands\<close>),
  while the worker, which cannot tell it from a rejection, can only record a failure or stop. One
  claim submits once.
\<close>

section \<open>States and steps\<close>

datatype job =
    JClaimed uuid
  | JUnanswered uuid
  | JPaid uuid uuid string decimal
  | JBurning uuid
  | JBurnUnanswered uuid
  | JBurned uuid string

datatype submission = SentPayment uuid decimal | SentBurn uuid decimal

text \<open>
  \<open>sy_paid\<close> are the payments on the XRP Ledger, \<open>sy_burned\<close> the burns whose answer reached the worker
  and \<open>sy_lost\<close> those whose answer did not.
\<close>

record sys =
  sy_db :: db
  sy_paid :: "(uuid \<times> decimal) list"
  sy_burned :: "(uuid \<times> decimal) list"
  sy_lost :: "(uuid \<times> decimal) list"
  sy_sent :: "submission list"
  sy_jobs :: "job list"
  sy_marking :: "uuid list"

definition init_sys :: sys where
  "init_sys = \<lparr>sy_db = empty_db, sy_paid = [], sy_burned = [], sy_lost = [], sy_sent = [], sy_jobs = [],
     sy_marking = []\<rparr>"

text \<open>Changes to the tables of accounts, recipients, pools and rates.\<close>

definition accounts_change :: "db \<Rightarrow> db \<Rightarrow> bool" where
  "accounts_change d d' \<longleftrightarrow>
     remittances d' = remittances d \<and> cash_outs d' = cash_outs d \<and> wallets d' = wallets d \<and>
     ledger_balances d' = ledger_balances d \<and> wallet_transactions d' = wallet_transactions d \<and>
     next_id d \<le> next_id d'"

text \<open>A remittance as \<open>create_quote\<close> inserts it.\<close>

definition quoted_row :: "db \<Rightarrow> remittance \<Rightarrow> bool" where
  "quoted_row d r \<longleftrightarrow> rem_id r = next_id d \<and> rem_status r = QUOTED \<and> remittance_ok r \<and>
     rem_cash_in_confirmed_at r = None \<and>
     (\<forall>x \<in> set (remittances d). rem_idempotency_key x \<noteq> rem_idempotency_key r)"

inductive sys_step :: "settings \<Rightarrow> sys \<Rightarrow> sys \<Rightarrow> bool" for s :: settings where
  accounts: "accounts_change (sy_db y) d \<Longrightarrow> sys_step s y (y\<lparr>sy_db := d\<rparr>)"
| wallet: "wallet_for uid now (sy_db y) = Inr (w, d) \<Longrightarrow> sys_step s y (y\<lparr>sy_db := d\<rparr>)"
| quote: "quoted_row (sy_db y) r \<Longrightarrow>
    sys_step s y (y\<lparr>sy_db := (sy_db y)\<lparr>remittances := remittances (sy_db y) @ [r],
                                     next_id := Suc (next_id (sy_db y))\<rparr>\<rparr>)"
| cash_in: "get_remittance (rem_id r) (sy_db y) = Some r \<Longrightarrow>
    simulate_cash_in r m now (sy_db y) = Inr (b, d) \<Longrightarrow> sys_step s y (y\<lparr>sy_db := d\<rparr>)"
| publish: "get_remittance rid (sy_db y) = Some r \<Longrightarrow> rem_status r \<in> {CASH_IN_CONFIRMED, QUEUED} \<Longrightarrow>
    sys_step s y (y\<lparr>sy_marking := rid # sy_marking y\<rparr>)"
| mark: "rid \<in> set (sy_marking y) \<Longrightarrow>
    sys_step s y (y\<lparr>sy_db := put_remittance rid (\<lambda>x. x\<lparr>rem_status := QUEUED\<rparr>) (sy_db y),
                    sy_marking := remove1 rid (sy_marking y)\<rparr>)"
| unmark: "sys_step s y (y\<lparr>sy_marking := remove1 rid (sy_marking y)\<rparr>)"
| claim: "claim rid reclaimed (sy_db y) = (True, d) \<Longrightarrow>
    sys_step s y (y\<lparr>sy_db := d, sy_jobs := JClaimed rid # sy_jobs y\<rparr>)"
| pay: "JClaimed rid \<in> set (sy_jobs y) \<Longrightarrow> get_remittance rid (sy_db y) = Some r \<Longrightarrow>
    sys_step s y (y\<lparr>sy_paid := (rid, rem_uctusd_amount r) # sy_paid y,
                    sy_jobs := JPaid rid uid h (rem_uctusd_amount r) # remove1 (JClaimed rid) (sy_jobs y)\<rparr>)"
| pay_lost: "JClaimed rid \<in> set (sy_jobs y) \<Longrightarrow> get_remittance rid (sy_db y) = Some r \<Longrightarrow>
    sys_step s y (y\<lparr>sy_sent := SentPayment rid (rem_uctusd_amount r) # sy_sent y,
                    sy_jobs := JUnanswered rid # remove1 (JClaimed rid) (sy_jobs y)\<rparr>)"
| pay_lands: "SentPayment rid a \<in> set (sy_sent y) \<Longrightarrow>
    sys_step s y (y\<lparr>sy_paid := (rid, a) # sy_paid y, sy_sent := remove1 (SentPayment rid a) (sy_sent y)\<rparr>)"
| recorded: "JPaid rid uid h a \<in> set (sy_jobs y) \<Longrightarrow> get_remittance rid (sy_db y) = Some r \<Longrightarrow>
    record_success s r uid h now (sy_db y) = (res, d) \<Longrightarrow>
    sys_step s y (y\<lparr>sy_db := d, sy_jobs := remove1 (JPaid rid uid h a) (sy_jobs y)\<rparr>)"
| failed: "j \<in> {JClaimed rid, JUnanswered rid} \<Longrightarrow> j \<in> set (sy_jobs y) \<Longrightarrow>
    fail_settlement s rid reason who now (sy_db y) = (res, d) \<Longrightarrow>
    sys_step s y (y\<lparr>sy_db := d, sy_jobs := remove1 j (sy_jobs y)\<rparr>)"
| requeue: "get_remittance (rem_id r) (sy_db y) = Some r \<Longrightarrow>
    requeue_failed_remittance r (sy_db y) = Inr d \<Longrightarrow> sys_step s y (y\<lparr>sy_db := d\<rparr>)"
| refund: "get_remittance (rem_id r) (sy_db y) = Some r \<Longrightarrow>
    refund_failed_remittance s r now (sy_db y) = Inr d \<Longrightarrow> sys_step s y (y\<lparr>sy_db := d\<rparr>)"
| request: "cash_out_request_ok s u rate \<Longrightarrow>
    request_cash_out s uid u cur rate key now (sy_db y) = Inr (c, d) \<Longrightarrow> sys_step s y (y\<lparr>sy_db := d\<rparr>)"
| review: "get_cash_out_row k (sy_db y) = Some c \<Longrightarrow>
    sys_step s y (y\<lparr>sy_db := put_cash_out k (\<lambda>x. x\<lparr>co_reviewed_by_admin_id := a\<rparr>) (sy_db y)\<rparr>)"
| approve: "get_cash_out_row (co_id c) (sy_db y) = Some c \<Longrightarrow>
    approve_cash_out c now (sy_db y) = Inr d \<Longrightarrow> sys_step s y (y\<lparr>sy_db := d\<rparr>)"
| reject: "get_cash_out_row (co_id c) (sy_db y) = Some c \<Longrightarrow>
    fail_cash_out s c reason now ADMIN_FAIL_STATES (sy_db y) = Inr d \<Longrightarrow> sys_step s y (y\<lparr>sy_db := d\<rparr>)"
| claim_burn: "claim_cash_out cid (sy_db y) = (True, d) \<Longrightarrow>
    sys_step s y (y\<lparr>sy_db := d, sy_jobs := JBurning cid # sy_jobs y\<rparr>)"
| burned: "JBurning cid \<in> set (sy_jobs y) \<Longrightarrow> get_cash_out_row cid (sy_db y) = Some c \<Longrightarrow>
    sys_step s y (y\<lparr>sy_burned := (cid, co_net_uctusd c) # sy_burned y,
                    sy_jobs := JBurned cid h # remove1 (JBurning cid) (sy_jobs y)\<rparr>)"
| burn_lost: "JBurning cid \<in> set (sy_jobs y) \<Longrightarrow> get_cash_out_row cid (sy_db y) = Some c \<Longrightarrow>
    sys_step s y (y\<lparr>sy_sent := SentBurn cid (co_net_uctusd c) # sy_sent y,
                    sy_jobs := JBurnUnanswered cid # remove1 (JBurning cid) (sy_jobs y)\<rparr>)"
| burn_lands: "SentBurn cid a \<in> set (sy_sent y) \<Longrightarrow>
    sys_step s y (y\<lparr>sy_lost := (cid, a) # sy_lost y, sy_sent := remove1 (SentBurn cid a) (sy_sent y)\<rparr>)"
| burn_failed: "j \<in> {JBurning cid, JBurnUnanswered cid} \<Longrightarrow> j \<in> set (sy_jobs y) \<Longrightarrow>
    fail_claimed_cash_out s cid reason now (sy_db y) = (res, d) \<Longrightarrow>
    sys_step s y (y\<lparr>sy_db := d, sy_jobs := remove1 j (sy_jobs y)\<rparr>)"
| complete: "JBurned cid h \<in> set (sy_jobs y) \<Longrightarrow> get_cash_out_row cid (sy_db y) = Some c \<Longrightarrow>
    record_burn s c h now (sy_db y) = (res, d) \<Longrightarrow>
    sys_step s y (y\<lparr>sy_db := d, sy_jobs := remove1 (JBurned cid h) (sy_jobs y)\<rparr>)"
| crash: "sys_step s y (y\<lparr>sy_jobs := remove1 j (sy_jobs y)\<rparr>)"

section \<open>The invariant\<close>

fun burn_job :: "job \<Rightarrow> uuid list" where
  "burn_job (JBurning cid) = [cid]"
| "burn_job (JBurnUnanswered cid) = [cid]"
| "burn_job (JBurned cid h) = [cid]"
| "burn_job j = []"

fun owed :: "job \<Rightarrow> decimal" where
  "owed (JPaid rid uid h a) = a"
| "owed j = 0"

text \<open>The burns that landed without an answer, or still may.\<close>

fun sent_burn :: "submission \<Rightarrow> (uuid \<times> decimal) list" where
  "sent_burn (SentBurn cid a) = [(cid, a)]"
| "sent_burn (SentPayment rid a) = []"

definition unanswered :: "sys \<Rightarrow> (uuid \<times> decimal) list" where
  "unanswered y = sy_lost y @ concat (map sent_burn (sy_sent y))"

fun job_ok :: "sys \<Rightarrow> job \<Rightarrow> bool" where
  "job_ok y (JClaimed rid) = confirmed rid (sy_db y)"
| "job_ok y (JUnanswered rid) = confirmed rid (sy_db y)"
| "job_ok y (JPaid rid uid h a) =
     (confirmed rid (sy_db y) \<and> 0 \<le> a \<and> (rid, a) \<in> set (sy_paid y) \<and>
      map_option rem_uctusd_amount (get_remittance rid (sy_db y)) = Some a)"
| "job_ok y (JBurning cid) =
     (cash_out_status_of cid (sy_db y) = Some CO_PROCESSING \<and> cid \<notin> fst ` set (sy_burned y) \<and>
      cid \<notin> fst ` set (unanswered y))"
| "job_ok y (JBurnUnanswered cid) =
     (cash_out_status_of cid (sy_db y) = Some CO_PROCESSING \<and> cid \<notin> fst ` set (sy_burned y))"
| "job_ok y (JBurned cid h) =
     (cash_out_status_of cid (sy_db y) = Some CO_PROCESSING \<and> cid \<in> fst ` set (sy_burned y))"

definition open_status :: "cash_out_status \<Rightarrow> bool" where
  "open_status st \<longleftrightarrow> st \<in> {CO_REQUESTED, CO_APPROVED, CO_PROCESSING}"

definition reserve :: "uuid set \<Rightarrow> cash_out \<Rightarrow> decimal" where
  "reserve bs c = (if open_status (co_status c) \<and> co_id c \<notin> bs then co_uctusd_amount c else 0)"

definition reserved :: "sys \<Rightarrow> decimal" where
  "reserved y = sum_list (map (reserve (fst ` set (sy_burned y))) (cash_outs (sy_db y)))"

definition in_flight :: "sys \<Rightarrow> decimal" where
  "in_flight y = sum_list (map owed (sy_jobs y))"

definition pool :: "sys \<Rightarrow> decimal" where
  "pool y = sum_list (map snd (sy_paid y)) - sum_list (map snd (sy_burned y)) - sum_list (map snd (sy_lost y))"

definition burns_ok :: "sys \<Rightarrow> bool" where
  "burns_ok y \<longleftrightarrow> distinct (map fst (sy_burned y)) \<and>
     (\<forall>(cid, a) \<in> set (sy_burned y). \<exists>c. get_cash_out_row cid (sy_db y) = Some c \<and>
        a = co_net_uctusd c \<and> co_status c \<in> {CO_PROCESSING, CO_COMPLETED})"

definition unanswered_ok :: "sys \<Rightarrow> bool" where
  "unanswered_ok y \<longleftrightarrow> distinct (map fst (unanswered y)) \<and>
     fst ` set (unanswered y) \<inter> fst ` set (sy_burned y) = {} \<and>
     (\<forall>(cid, a) \<in> set (unanswered y). \<exists>c. get_cash_out_row cid (sy_db y) = Some c \<and>
        a = co_net_uctusd c \<and> co_status c \<in> {CO_PROCESSING, CO_FAILED})"

definition completed_ok :: "sys \<Rightarrow> bool" where
  "completed_ok y \<longleftrightarrow>
     (\<forall>cid. cash_out_status_of cid (sy_db y) = Some CO_COMPLETED \<longrightarrow> cid \<in> fst ` set (sy_burned y))"

definition payments_ok :: "sys \<Rightarrow> bool" where
  "payments_ok y \<longleftrightarrow> (\<forall>rid a. SentPayment rid a \<in> set (sy_sent y) \<longrightarrow> 0 \<le> a)"

definition sys_inv :: "settings \<Rightarrow> sys \<Rightarrow> bool" where
  "sys_inv s y \<longleftrightarrow>
     app_inv s (sy_db y) \<and>
     (\<forall>rid \<in> set (sy_marking y). confirmed rid (sy_db y)) \<and>
     (\<forall>j \<in> set (sy_jobs y). job_ok y j) \<and>
     distinct (concat (map burn_job (sy_jobs y))) \<and>
     burns_ok y \<and>
     uct_claims (sy_db y) + reserved y + in_flight y \<le> pool y + sum_list (map snd (sy_lost y)) \<and>
     unanswered_ok y \<and> completed_ok y \<and> payments_ok y"

text \<open>What a change to one part of the state leaves of the burns without an answer.\<close>

lemma unanswered_frame [simp]:
  "unanswered (y\<lparr>sy_db := d\<rparr>) = unanswered y" "unanswered (y\<lparr>sy_jobs := js\<rparr>) = unanswered y"
  "unanswered (y\<lparr>sy_paid := ps\<rparr>) = unanswered y" "unanswered (y\<lparr>sy_marking := ms\<rparr>) = unanswered y"
  "unanswered (y\<lparr>sy_burned := bs\<rparr>) = unanswered y"
  "unanswered (y\<lparr>sy_db := d, sy_jobs := js\<rparr>) = unanswered y"
  by (simp_all add: unanswered_def)

section \<open>Preservation\<close>

lemma fail_claimed_cases:
  assumes "fail_claimed_cash_out s cid reason now d = (res, d')"
  obtains "d' = d"
  | c where "get_cash_out_row cid d = Some c" "fail_cash_out s c reason now [CO_PROCESSING] d = Inr d'"
  using assms by (auto simp: fail_claimed_cash_out_def ebind_def some_or_def split: sum.splits option.splits)

lemma record_burn_cases:
  assumes "record_burn s c h now d = (res, d')"
  obtains "d' = d" | "complete_cash_out s c h now d = Inr d'"
  using assms by (auto simp: record_burn_def split: sum.splits)

lemma record_success_cases:
  assumes "record_success s r uid h now d = (res, d')"
  obtains "d' = d" | "success_writes s r uid h now d = Inr d'"
  using assms by (auto simp: record_success_def split: sum.splits)

lemma simulate_keeps: "simulate_cash_in r m now d = Inr (b, d') \<Longrightarrow> keeps_rems d d'"
  by (auto simp: simulate_cash_in_def Let_def ebind_eq_Inr split: if_splits intro!: keeps_rems_put)

lemma requeue_keeps: "requeue_failed_remittance r d = Inr d' \<Longrightarrow> keeps_rems d d'"
  by (auto simp: requeue_failed_remittance_def ebind_eq_Inr split: if_splits intro!: keeps_rems_put)

lemma refund_keeps:
  assumes "refund_failed_remittance s r now d = Inr d'" "app_inv s d"
  shows "keeps_rems d d'"
proof -
  obtain sender :: user and w d1 e d2 where w: "wallet_for (usr_id sender) now d = Inr (w, d1)"
    and rx: "record_external s (wal_id w) INCOMING SEND_CURRENCY (rem_zar_send_amount r)
                 (Some (rem_id r)) None ENTRY_SUCCESS None now d1 = Inr (e, d2)"
    and d': "d' = put_remittance (rem_id r) (\<lambda>x. x\<lparr>rem_status := REFUNDED\<rparr>) d2"
    using assms(1) by (auto simp: refund_failed_remittance_def ebind_eq_Inr split: if_splits)
  note wf = wallet_for_app [OF w assms(2)]
  have "keeps_rems d d1" "keeps_rems d1 d2"
    using wf(4) record_external_ok(2) [OF rx app_inv_ledger_inv(2) [OF wf(1)]]
    by (auto intro: keeps_rems_ledger)
  moreover have "keeps_rems d2 d'" unfolding d' by (rule keeps_rems_put) simp_all
  ultimately show ?thesis by (blast intro: keeps_rems_trans)
qed

text \<open>A job stays good while its remittance is kept and no cash-out moves.\<close>

lemma job_ok_keeps:
  assumes "job_ok y j" "keeps_rems (sy_db y) (sy_db y')" "cash_outs (sy_db y') = cash_outs (sy_db y)"
    "sy_burned y' = sy_burned y" "unanswered y' = unanswered y" "set (sy_paid y) \<subseteq> set (sy_paid y')"
  shows "job_ok y' j"
  using assms(1)
proof (cases j)
  case (JPaid rid uid h a)
  have k: "map_option rem_uctusd_amount (get_remittance rid (sy_db y')) = Some a"
    if prem: "map_option rem_uctusd_amount (get_remittance rid (sy_db y)) = Some a"
  proof -
    obtain z where z: "get_remittance rid (sy_db y) = Some z" "a = rem_uctusd_amount z" using prem by auto
    then obtain z' where "get_remittance rid (sy_db y') = Some z'" "rem_uctusd_amount z' = rem_uctusd_amount z"
      using assms(2) unfolding keeps_rems_def by meson
    then show ?thesis using z by simp
  qed
  then show ?thesis using JPaid assms(1,6) confirmed_keeps [OF assms(2)] by auto
qed (use assms confirmed_keeps in \<open>auto simp: cash_out_status_of_def get_cash_out_row_def\<close>)

lemma sys_inv_rem_step:
  assumes inv: "sys_inv s y" and app: "app_inv s (sy_db y')" and keep: "keeps_rems (sy_db y) (sy_db y')"
    and co: "cash_outs (sy_db y') = cash_outs (sy_db y)" and bn: "sy_burned y' = sy_burned y"
    and un: "unanswered y' = unanswered y" and lost: "sy_lost y' = sy_lost y"
    and sub: "set (sy_paid y) \<subseteq> set (sy_paid y')"
    and snt: "\<And>rid a. SentPayment rid a \<in> set (sy_sent y') \<Longrightarrow> SentPayment rid a \<in> set (sy_sent y) \<or> 0 \<le> a"
    and jobs: "\<And>j. j \<in> set (sy_jobs y') \<Longrightarrow> j \<in> set (sy_jobs y) \<or> job_ok y' j"
    and bj: "concat (map burn_job (sy_jobs y')) = concat (map burn_job (sy_jobs y))"
    and mk: "\<And>rid. rid \<in> set (sy_marking y') \<Longrightarrow> rid \<in> set (sy_marking y) \<or> confirmed rid (sy_db y')"
    and bal: "uct_claims (sy_db y') + in_flight y' - sum_list (map snd (sy_paid y'))
       \<le> uct_claims (sy_db y) + in_flight y - sum_list (map snd (sy_paid y))"
  shows "sys_inv s y'"
proof -
  have "get_cash_out_row k (sy_db y') = get_cash_out_row k (sy_db y)" for k
    using co by (simp add: get_cash_out_row_def)
  then have "burns_ok y'" "unanswered_ok y'" "completed_ok y'"
    using inv bn un by (simp_all add: sys_inv_def burns_ok_def unanswered_ok_def completed_ok_def cash_out_status_of_def)
  moreover have "payments_ok y'" using inv snt unfolding sys_inv_def payments_ok_def by blast
  moreover have "reserved y' = reserved y" using co bn by (simp add: reserved_def)
  moreover have "\<forall>j \<in> set (sy_jobs y'). job_ok y' j"
    using inv jobs job_ok_keeps [OF _ keep co bn un sub] by (auto simp: sys_inv_def)
  moreover have "\<forall>rid \<in> set (sy_marking y'). confirmed rid (sy_db y')"
    using inv mk confirmed_keeps [OF keep] by (auto simp: sys_inv_def)
  ultimately show ?thesis using inv app bj bal bn lost
    by (simp add: sys_inv_def pool_def)
qed

lemma in_flight_remove:
  "j \<in> set (sy_jobs y) \<Longrightarrow> sum_list (map owed (remove1 j (sy_jobs y))) = in_flight y - owed j"
  by (simp add: in_flight_def sum_list_map_remove1)

lemma in_remove1: "x \<in> set (remove1 z xs) \<Longrightarrow> x \<in> set xs"
  using set_remove1_subset [of z xs] by auto

lemma distinct_concat_remove1:
  "distinct (concat (map f xs)) \<Longrightarrow> distinct (concat (map f (remove1 x xs)))"
  by (induction xs) (auto dest: in_remove1)

lemma concat_map_remove1:
  "f j = [] \<Longrightarrow> concat (map f (remove1 j js)) = concat (map f js)"
  by (induction js) auto

lemmas burn_jobs_remove = concat_map_remove1 [where f = burn_job]

lemma sys_inv_parts:
  assumes "sys_inv s y"
  shows "app_inv s (sy_db y)" "\<And>j. j \<in> set (sy_jobs y) \<Longrightarrow> job_ok y j"
    "\<And>rid. rid \<in> set (sy_marking y) \<Longrightarrow> confirmed rid (sy_db y)"
    "distinct (concat (map burn_job (sy_jobs y)))" "burns_ok y"
    "uct_claims (sy_db y) + reserved y + in_flight y \<le> pool y + sum_list (map snd (sy_lost y))"
    "unanswered_ok y" "completed_ok y" "payments_ok y"
  using assms by (auto simp: sys_inv_def)

lemma owed_nonneg: "sys_inv s y \<Longrightarrow> j \<in> set (sy_jobs y) \<Longrightarrow> 0 \<le> owed j"
  by (cases j) (auto dest: sys_inv_parts(2))

lemma accounts_app:
  assumes "accounts_change d d'" "app_inv s d"
  shows "app_inv s d'"
proof -
  have "ledger_inv s d'"
    using assms ledger_inv_same [of d' d s] by (auto simp: accounts_change_def app_inv_def)
  moreover have "entry_linked d' e = entry_linked d e" for e
    using assms(1) by (simp add: entry_linked_def get_remittance_def accounts_change_def)
  ultimately show ?thesis using assms
    by (auto simp: app_inv_def accounts_change_def intro: fresh_ids_mono)
qed

lemma quoted_app:
  assumes "quoted_row d r" "app_inv s d"
  shows "app_inv s (d\<lparr>remittances := remittances d @ [r], next_id := Suc (next_id d)\<rparr>)" (is "app_inv s ?d")
    and "keeps_rems d (d\<lparr>remittances := remittances d @ [r], next_id := Suc (next_id d)\<rparr>)"
proof -
  have linv: "ledger_inv s ?d"
    by (rule ledger_inv_same [OF _ _ _ _ app_inv_ledger_inv(1) [OF assms(2)]]) simp_all
  have get: "get_remittance k d = Some x \<Longrightarrow> get_remittance k ?d = Some x" for k x
    by (simp add: get_remittance_def get_by_append)
  then have "entry_linked ?d e" if "entry_linked d e" for e using that by (fastforce simp: entry_linked_def)
  then show "app_inv s ?d"
    using assms linv by (auto simp: app_inv_def quoted_row_def status_linked_def)
  show "keeps_rems d ?d" using get by (auto simp: keeps_rems_def)
qed

subsection \<open>The remittance side\<close>

lemma step_accounts:
  assumes "sys_inv s y" "accounts_change (sy_db y) d"
  shows "sys_inv s (y\<lparr>sy_db := d\<rparr>)"
  using assms accounts_app [OF assms(2) sys_inv_parts(1)]
  by (intro sys_inv_rem_step [OF assms(1)])
    (auto simp: accounts_change_def uct_claims_def in_flight_def intro: keeps_rems_same)

lemma step_db_only:
  assumes "sys_inv s y" "app_inv s d" "keeps_rems (sy_db y) d" "cash_outs d = cash_outs (sy_db y)"
    "uct_claims d = uct_claims (sy_db y)"
  shows "sys_inv s (y\<lparr>sy_db := d\<rparr>)"
  using assms by (intro sys_inv_rem_step [OF assms(1)]) (auto simp: in_flight_def)

lemma step_marking:
  assumes "sys_inv s y" "set ms \<subseteq> set (sy_marking y) \<union> {rid. confirmed rid (sy_db y)}"
  shows "sys_inv s (y\<lparr>sy_marking := ms\<rparr>)"
  using assms sys_inv_parts(1) by (intro sys_inv_rem_step [OF assms(1)]) (auto simp: in_flight_def)

lemma step_mark:
  assumes "sys_inv s y" "rid \<in> set (sy_marking y)"
  shows "sys_inv s (y\<lparr>sy_db := put_remittance rid (\<lambda>x. x\<lparr>rem_status := QUEUED\<rparr>) (sy_db y),
                    sy_marking := remove1 rid (sy_marking y)\<rparr>)"
proof -
  let ?d = "put_remittance rid (\<lambda>x. x\<lparr>rem_status := QUEUED\<rparr>) (sy_db y)"
  have "app_inv s ?d"
    using sys_inv_parts(3) [OF assms] sys_inv_parts(1) [OF assms(1)]
    by (intro mark_queued_app) (auto simp: confirmed_def)
  moreover have "keeps_rems (sy_db y) ?d" by (rule keeps_rems_put) simp_all
  ultimately show ?thesis
    by (intro sys_inv_rem_step [OF assms(1)])
      (auto simp: in_flight_def uct_claims_def dest: in_remove1)
qed

lemma step_claim:
  assumes "sys_inv s y" "claim rid reclaimed (sy_db y) = (True, d)"
  shows "sys_inv s (y\<lparr>sy_db := d, sy_jobs := JClaimed rid # sy_jobs y\<rparr>)"
proof -
  have d: "d = snd (claim rid reclaimed (sy_db y))" "fst (claim rid reclaimed (sy_db y))" using assms(2) by simp_all
  note c = claim_app [OF sys_inv_parts(1) [OF assms(1)], of rid reclaimed]
  show ?thesis
    using c(1-3,5) c(4) [OF d(2)] unfolding d(1)
    by (intro sys_inv_rem_step [OF assms(1)]) (auto simp: in_flight_def uct_claims_def)
qed

lemma claimed_amount:
  assumes "sys_inv s y" "get_remittance rid (sy_db y) = Some r" shows "0 < rem_uctusd_amount r"
  using app_inv_remittance [OF sys_inv_parts(1) [OF assms(1)] assms(2)]
  by (simp add: remittance_ok_def token_amount_ok_def)

lemma step_pay:
  assumes "sys_inv s y" "JClaimed rid \<in> set (sy_jobs y)" "get_remittance rid (sy_db y) = Some r"
  shows "sys_inv s (y\<lparr>sy_paid := (rid, rem_uctusd_amount r) # sy_paid y,
                    sy_jobs := JPaid rid uid h (rem_uctusd_amount r) # remove1 (JClaimed rid) (sy_jobs y)\<rparr>)"
proof -
  have c: "confirmed rid (sy_db y)" using sys_inv_parts(2) [OF assms(1,2)] by simp
  show ?thesis
    using claimed_amount [OF assms(1,3)] c assms(3) sys_inv_parts(1) [OF assms(1)] in_flight_remove [OF assms(2)]
    by (intro sys_inv_rem_step [OF assms(1)])
      (auto simp: in_flight_def burn_jobs_remove unanswered_def dest: in_remove1)
qed

lemma step_pay_lost:
  assumes "sys_inv s y" "JClaimed rid \<in> set (sy_jobs y)" "get_remittance rid (sy_db y) = Some r"
  shows "sys_inv s (y\<lparr>sy_sent := SentPayment rid (rem_uctusd_amount r) # sy_sent y,
                    sy_jobs := JUnanswered rid # remove1 (JClaimed rid) (sy_jobs y)\<rparr>)"
proof -
  have c: "confirmed rid (sy_db y)" using sys_inv_parts(2) [OF assms(1,2)] by simp
  show ?thesis
    using claimed_amount [OF assms(1,3)] c sys_inv_parts(1) [OF assms(1)] in_flight_remove [OF assms(2)]
    by (intro sys_inv_rem_step [OF assms(1)])
      (auto simp: in_flight_def burn_jobs_remove unanswered_def dest: in_remove1)
qed

lemma step_pay_lands:
  assumes "sys_inv s y" "SentPayment rid a \<in> set (sy_sent y)"
  shows "sys_inv s (y\<lparr>sy_paid := (rid, a) # sy_paid y, sy_sent := remove1 (SentPayment rid a) (sy_sent y)\<rparr>)"
proof -
  have "0 \<le> a" using sys_inv_parts(9) [OF assms(1)] assms(2) by (auto simp: payments_ok_def)
  then show ?thesis
    using sys_inv_parts(1) [OF assms(1)]
    by (intro sys_inv_rem_step [OF assms(1)])
      (auto simp: in_flight_def unanswered_def concat_map_remove1 dest: in_remove1)
qed

lemma recorded_app:
  assumes inv: "sys_inv s y" and ok: "confirmed rid (sy_db y)" "rem_uctusd_amount r = a" "0 \<le> a"
    and r: "get_remittance rid (sy_db y) = Some r"
    and run: "record_success s r uid h now (sy_db y) = (res, d)"
  shows "app_inv s d \<and> cash_outs d = cash_outs (sy_db y) \<and> keeps_rems (sy_db y) d \<and>
      uct_claims d \<le> uct_claims (sy_db y) + a"
  using run
proof (cases rule: record_success_cases)
  case 1
  then show ?thesis using sys_inv_parts(1) [OF inv] ok(3) by simp
next
  case 2
  note app = sys_inv_parts(1) [OF inv]
  have rid: "rem_id r = rid" using app_inv_remittance [OF app r] by simp
  have conf: "rem_cash_in_confirmed_at r \<noteq> None" using ok(1) r by (simp add: confirmed_def)
  have r': "get_remittance (rem_id r) (sy_db y) = Some r" using r rid by simp
  show ?thesis using success_writes_app [OF 2 app r' refl conf] ok(2) by simp
qed

lemma step_recorded:
  assumes inv: "sys_inv s y" and j: "JPaid rid uid h a \<in> set (sy_jobs y)"
    and r: "get_remittance rid (sy_db y) = Some r"
    and run: "record_success s r uid h now (sy_db y) = (res, d)"
  shows "sys_inv s (y\<lparr>sy_db := d, sy_jobs := remove1 (JPaid rid uid h a) (sy_jobs y)\<rparr>)"
proof -
  have "confirmed rid (sy_db y)" "rem_uctusd_amount r = a" "0 \<le> a"
    using sys_inv_parts(2) [OF inv j] r by auto
  from recorded_app [OF inv this r run] show ?thesis using in_flight_remove [OF j]
    by (intro sys_inv_rem_step [OF inv])
      (auto simp: in_flight_def burn_jobs_remove dest: in_remove1)
qed

lemma step_failed:
  assumes inv: "sys_inv s y" and k: "j \<in> {JClaimed rid, JUnanswered rid}" and j: "j \<in> set (sy_jobs y)"
    and run: "fail_settlement s rid reason who now (sy_db y) = (res, d)"
  shows "sys_inv s (y\<lparr>sy_db := d, sy_jobs := remove1 j (sy_jobs y)\<rparr>)"
proof -
  have "confirmed rid (sy_db y)" using sys_inv_parts(2) [OF inv j] k by auto
  note f = fail_settlement_app [OF run sys_inv_parts(1) [OF inv] this]
  have b: "burn_job j = []" "owed j = 0" using k by auto
  show ?thesis using f(1-3,5) in_flight_remove [OF j] b
    by (intro sys_inv_rem_step [OF inv])
      (auto simp: in_flight_def burn_jobs_remove dest: in_remove1)
qed

lemma step_crash:
  assumes inv: "sys_inv s y"
  shows "sys_inv s (y\<lparr>sy_jobs := remove1 j (sy_jobs y)\<rparr>)"
proof (cases "j \<in> set (sy_jobs y)")
  case True
  note p = sys_inv_parts [OF inv]
  have "sum_list (map owed (remove1 j (sy_jobs y))) \<le> in_flight y"
    using in_flight_remove [OF True] owed_nonneg [OF inv True] by simp
  moreover have "distinct (concat (map burn_job (remove1 j (sy_jobs y))))"
    using p(4) by (rule distinct_concat_remove1)
  moreover have "job_ok (y\<lparr>sy_jobs := js\<rparr>) i = job_ok y i" for js i
    by (cases i) simp_all
  ultimately show ?thesis using p
    by (auto simp: sys_inv_def in_flight_def reserved_def pool_def burns_ok_def unanswered_ok_def completed_ok_def
        payments_ok_def dest: in_remove1)
next
  case False
  then show ?thesis using inv by (simp add: remove1_idem)
qed

subsection \<open>The cash-out side\<close>

text \<open>A change to one cash-out: what it does to the lookups and to the reserves.\<close>

lemma reserve_put:
  assumes "app_inv s d" "get_cash_out_row cid d = Some c" "\<And>x. co_id (f x) = co_id x"
    "cash_outs d' = put_by co_id cid f (cash_outs d)"
  shows "get_cash_out_row k d' = (if k = cid then Some (f c) else get_cash_out_row k d)"
    "sum_list (map (reserve bs) (cash_outs d')) =
       sum_list (map (reserve bs) (cash_outs d)) - reserve bs c + reserve bs (f c)"
proof -
  have get: "get_by co_id cid (cash_outs d) = Some c" using assms(2) by (simp add: get_cash_out_row_def)
  show "get_cash_out_row k d' = (if k = cid then Some (f c) else get_cash_out_row k d)"
    using assms(3) get by (simp add: get_cash_out_row_def assms(4) get_by_put_by)
  show "sum_list (map (reserve bs) (cash_outs d')) =
       sum_list (map (reserve bs) (cash_outs d)) - reserve bs c + reserve bs (f c)"
    unfolding assms(4) by (rule sum_list_put_by [OF app_inv_distinct(2) [OF assms(1)] get])
qed

text \<open>
  A burn job is on a PROCESSING cash-out, so no job is touched by a change to one in another
  state; and there is one job per cash-out.
\<close>

lemma no_burn_job:
  assumes "sys_inv s y" "cash_out_status_of cid (sy_db y) \<noteq> Some CO_PROCESSING"
  shows "cid \<notin> set (concat (map burn_job (sy_jobs y)))"
proof
  assume "cid \<in> set (concat (map burn_job (sy_jobs y)))"
  then obtain j where j: "j \<in> set (sy_jobs y)" "cid \<in> set (burn_job j)" by auto
  with sys_inv_parts(2) [OF assms(1) j(1)] assms(2) show False by (cases j) auto
qed

lemma one_burn_job:
  assumes "distinct (concat (map burn_job js))" "j \<in> set js" "burn_job j = [cid]"
  shows "cid \<notin> set (concat (map burn_job (remove1 j js)))"
  using assms
proof (induction js)
  case (Cons x xs)
  show ?case
  proof (cases "x = j")
    case True
    then show ?thesis using Cons.prems by auto
  next
    case False
    then have j: "j \<in> set xs" using Cons.prems by simp
    then have "cid \<in> (\<Union>a\<in>set xs. set (burn_job a))" using Cons.prems(3) by force
    then have "cid \<notin> set (burn_job x)" using Cons.prems(1) by auto
    then show ?thesis using Cons.IH [OF _ j Cons.prems(3)] Cons.prems(1) False by simp
  qed
qed simp

lemma unburned_open:
  assumes "sys_inv s y" "get_cash_out_row cid (sy_db y) = Some c"
    "co_status c \<notin> {CO_PROCESSING, CO_COMPLETED}"
  shows "cid \<notin> fst ` set (sy_burned y)"
  using sys_inv_parts(5) [OF assms(1)] assms(2,3) by (fastforce simp: burns_ok_def)

lemma answered_open:
  assumes "sys_inv s y" "get_cash_out_row cid (sy_db y) = Some c"
    "co_status c \<notin> {CO_PROCESSING, CO_FAILED}"
  shows "cid \<notin> fst ` set (unanswered y)"
  using sys_inv_parts(7) [OF assms(1)] assms(2,3) by (fastforce simp: unanswered_ok_def)

text \<open>
  The step all cash-out transactions share: one cash-out \<open>c\<close> changes to \<open>f c\<close>, the remittances
  and the burns stay, and no job is left on it unless it stays PROCESSING.
\<close>

lemma sys_inv_cash_out_step:
  assumes inv: "sys_inv s y" and app: "app_inv s d" and c: "get_cash_out_row cid (sy_db y) = Some c"
    and f: "\<And>x. co_id (f x) = co_id x" "co_net_uctusd (f c) = co_net_uctusd c"
    and cos: "cash_outs d = put_by co_id cid f (cash_outs (sy_db y))"
    and rem: "remittances d = remittances (sy_db y)"
    and jobs: "\<And>j. j \<in> set js \<Longrightarrow> (j \<in> set (sy_jobs y) \<and> cid \<notin> set (burn_job j)) \<or> job_ok (y\<lparr>sy_db := d\<rparr>) j"
    and dj: "distinct (concat (map burn_job js))"
    and st: "cid \<in> fst ` set (sy_burned y) \<Longrightarrow> co_status (f c) \<in> {CO_PROCESSING, CO_COMPLETED}"
    and un: "cid \<in> fst ` set (unanswered y) \<Longrightarrow> co_status (f c) \<in> {CO_PROCESSING, CO_FAILED}"
    and fin: "co_status (f c) = CO_COMPLETED \<Longrightarrow> cid \<in> fst ` set (sy_burned y)"
    and bal: "uct_claims d + reserve (fst ` set (sy_burned y)) (f c) + sum_list (map owed js)
       \<le> uct_claims (sy_db y) + reserve (fst ` set (sy_burned y)) c + in_flight y"
  shows "sys_inv s (y\<lparr>sy_db := d, sy_jobs := js\<rparr>)"
proof -
  note p = sys_inv_parts [OF inv]
  note rp = reserve_put [OF p(1) c f(1) cos]
  have get_rem: "get_remittance k d = get_remittance k (sy_db y)" for k
    using rem by (simp add: get_remittance_def)
  have old: "job_ok (y\<lparr>sy_db := d\<rparr>) j" if "job_ok y j" "cid \<notin> set (burn_job j)" for j
    using that rp(1) get_rem by (cases j) (auto simp: cash_out_status_of_def confirmed_def)
  have jok: "job_ok (y\<lparr>sy_db := d, sy_jobs := js\<rparr>) j = job_ok (y\<lparr>sy_db := d\<rparr>) j" for j
    by (cases j) simp_all
  have jb: "\<forall>j \<in> set js. job_ok (y\<lparr>sy_db := d, sy_jobs := js\<rparr>) j"
    using jobs old p(2) unfolding jok by blast
  have rows: "\<forall>(k, a) \<in> set xs. \<exists>c. get_cash_out_row k d = Some c \<and> a = co_net_uctusd c \<and> co_status c \<in> S"
    if old_row: "\<forall>(k, a) \<in> set xs. \<exists>c. get_cash_out_row k (sy_db y) = Some c \<and> a = co_net_uctusd c \<and> co_status c \<in> S"
      and here: "cid \<in> fst ` set xs \<Longrightarrow> co_status (f c) \<in> S" for xs S
  proof (intro ballI, clarify)
    fix k a assume k: "(k, a) \<in> set xs"
    then have "k = cid \<Longrightarrow> cid \<in> fst ` set xs" by (force simp: image_iff)
    moreover obtain c' where "get_cash_out_row k (sy_db y) = Some c'" "a = co_net_uctusd c'" "co_status c' \<in> S"
      using old_row k by blast
    ultimately show "\<exists>c. get_cash_out_row k d = Some c \<and> a = co_net_uctusd c \<and> co_status c \<in> S"
      using here rp(1) [of k] f(2) c by (cases "k = cid") auto
  qed
  have "burns_ok (y\<lparr>sy_db := d, sy_jobs := js\<rparr>)"
    using p(5) rows [where xs = "sy_burned y", OF _ st] by (simp add: burns_ok_def)
  moreover have "unanswered_ok (y\<lparr>sy_db := d, sy_jobs := js\<rparr>)"
    using p(7) rows [where xs = "unanswered y", OF _ un] by (simp add: unanswered_ok_def)
  moreover have "completed_ok (y\<lparr>sy_db := d, sy_jobs := js\<rparr>)"
    using p(8) fin rp(1) c by (auto simp: completed_ok_def cash_out_status_of_def split: if_splits)
  moreover have "payments_ok (y\<lparr>sy_db := d, sy_jobs := js\<rparr>)" using p(9) by (simp add: payments_ok_def)
  moreover have "reserved (y\<lparr>sy_db := d, sy_jobs := js\<rparr>) =
      reserved y - reserve (fst ` set (sy_burned y)) c + reserve (fst ` set (sy_burned y)) (f c)"
    using rp(2) by (simp add: reserved_def)
  ultimately show ?thesis
    using p(3,6) bal app dj get_rem jb
    by (simp add: sys_inv_def pool_def in_flight_def confirmed_def)
qed

lemma sys_inv_skip_burn:
  assumes "sys_inv s y" "d = sy_db y"
  shows "sys_inv s (y\<lparr>sy_db := d, sy_jobs := remove1 j (sy_jobs y)\<rparr>)"
  using step_crash [OF assms(1), of j] assms(2) by simp

lemma step_request:
  assumes inv: "sys_inv s y" and req: "cash_out_request_ok s u rate"
    and run: "request_cash_out s uid u cur rate key now (sy_db y) = Inr (c, d)"
  shows "sys_inv s (y\<lparr>sy_db := d\<rparr>)"
proof (cases "replayed_cash_out uid key (sy_db y)")
  case (Some c')
  then have "d = sy_db y" using run request_replay [OF Some] by simp
  then show ?thesis using inv by simp
next
  case None
  note p = sys_inv_parts [OF inv]
  note f = request_new_app [OF run None p(1) req]
  have app: "app_inv s d" by (rule f)
  have new: "co_id c \<notin> fst ` set (sy_burned y)" "get_cash_out_row k (sy_db y) = Some x \<Longrightarrow> get_cash_out_row k d = Some x" for k x
  proof -
    show g: "get_cash_out_row k (sy_db y) = Some x \<Longrightarrow> get_cash_out_row k d = Some x" for k x
      using f(2) by (simp add: get_cash_out_row_def get_by_append)
    show "co_id c \<notin> fst ` set (sy_burned y)"
    proof
      assume "co_id c \<in> fst ` set (sy_burned y)"
      then obtain x where x: "get_cash_out_row (co_id c) (sy_db y) = Some x"
        using p(5) by (force simp: burns_ok_def)
      have "distinct (map co_id (cash_outs (sy_db y) @ [c]))"
        using app_inv_distinct(2) [OF app] f(2) by simp
      then show False using app_inv_cash_out [OF p(1) x] by (auto simp: image_iff)
    qed
  qed
  have get_rem: "get_remittance k d = get_remittance k (sy_db y)" for k
    using f(3) by (simp add: get_remittance_def)
  have "job_ok (y\<lparr>sy_db := d\<rparr>) j" if "job_ok y j" for j
    using that new(2) get_rem by (cases j) (auto simp: cash_out_status_of_def confirmed_def)
  moreover have "burns_ok (y\<lparr>sy_db := d\<rparr>)"
    using p(5) new(2) by (fastforce simp: burns_ok_def)
  moreover have "unanswered_ok (y\<lparr>sy_db := d\<rparr>)"
    using p(7) new(2) by (fastforce simp: unanswered_ok_def)
  moreover have "completed_ok (y\<lparr>sy_db := d\<rparr>)"
    using p(8) f(2,4) by (auto simp: completed_ok_def cash_out_status_of_def get_cash_out_row_def get_by_append
        get_by_Cons split: option.splits if_splits)
  moreover have "payments_ok (y\<lparr>sy_db := d\<rparr>)" using p(9) by (simp add: payments_ok_def)
  moreover have "reserved (y\<lparr>sy_db := d\<rparr>) = reserved y + u"
    using f(2,4,5) new(1) by (simp add: reserved_def reserve_def open_status_def)
  ultimately show ?thesis using p(2-6) app f(10) get_rem
    by (simp add: sys_inv_def pool_def in_flight_def confirmed_def)
qed

lemma step_approve:
  assumes inv: "sys_inv s y" and c: "get_cash_out_row (co_id c) (sy_db y) = Some c"
    and run: "approve_cash_out c now (sy_db y) = Inr d"
  shows "sys_inv s (y\<lparr>sy_db := d\<rparr>)"
proof -
  let ?f = "\<lambda>x :: cash_out. x\<lparr>co_status := CO_APPROVED, co_approved_at := Some now\<rparr>"
  note a = approve_app [OF run sys_inv_parts(1) [OF inv]]
  have nj: "co_id c \<notin> set (concat (map burn_job (sy_jobs y)))"
    by (rule no_burn_job [OF inv]) (simp add: cash_out_status_of_def c a(4))
  have nb: "co_id c \<notin> fst ` set (sy_burned y)" by (rule unburned_open [OF inv c]) (simp add: a(4))
  have nu: "co_id c \<notin> fst ` set (unanswered y)" by (rule answered_open [OF inv c]) (simp add: a(4))
  have "sys_inv s (y\<lparr>sy_db := d, sy_jobs := sy_jobs y\<rparr>)"
    using nj nb nu a(4) sys_inv_parts(4) [OF inv]
    by (intro sys_inv_cash_out_step [OF inv a(1) c, of ?f])
      (auto simp: a(5) reserve_def open_status_def uct_claims_def in_flight_def)
  then show ?thesis by simp
qed

lemma step_review:
  assumes inv: "sys_inv s y" and c: "get_cash_out_row k (sy_db y) = Some c"
  shows "sys_inv s (y\<lparr>sy_db := put_cash_out k (\<lambda>x. x\<lparr>co_reviewed_by_admin_id := a\<rparr>) (sy_db y)\<rparr>)"
proof -
  let ?f = "\<lambda>x :: cash_out. x\<lparr>co_reviewed_by_admin_id := a\<rparr>"
  let ?d = "put_cash_out k ?f (sy_db y)"
  note p = sys_inv_parts [OF inv]
  have st: "cash_out_status_of j ?d = cash_out_status_of j (sy_db y)" for j
    by (cases "get_cash_out_row j (sy_db y)") (auto simp: cash_out_status_of_def co_store.get_put)
  have rm: "get_remittance j ?d = get_remittance j (sy_db y)" for j by (simp add: get_remittance_def)
  have unans: "co_status c \<in> {CO_PROCESSING, CO_FAILED}" if "k \<in> fst ` set (unanswered y)"
    using p(7) that c by (fastforce simp: unanswered_ok_def)
  have fin: "k \<in> fst ` set (sy_burned y)" if "co_status c = CO_COMPLETED"
    using p(8) that c by (simp add: completed_ok_def cash_out_status_of_def)
  have jobs: "job_ok (y\<lparr>sy_db := ?d\<rparr>) j" if "j \<in> set (sy_jobs y)" for j
    using p(2) [OF that] by (cases j) (simp_all add: st rm confirmed_def)
  have app: "app_inv s ?d" by (rule app_inv_put_cash_out [OF p(1)]) (simp_all add: cash_out_ok_def)
  have burned: "co_status c \<in> {CO_PROCESSING, CO_COMPLETED}" if "k \<in> fst ` set (sy_burned y)"
    using p(5) that c by (fastforce simp: burns_ok_def)
  have "sys_inv s (y\<lparr>sy_db := ?d, sy_jobs := sy_jobs y\<rparr>)"
    using jobs p(4) burned unans fin
    by (intro sys_inv_cash_out_step [OF inv app c, of ?f])
      (auto simp: reserve_def uct_claims_def in_flight_def)
  then show ?thesis by simp
qed

lemma step_reject:
  assumes inv: "sys_inv s y" and c: "get_cash_out_row (co_id c) (sy_db y) = Some c"
    and run: "fail_cash_out s c reason now ADMIN_FAIL_STATES (sy_db y) = Inr d"
  shows "sys_inv s (y\<lparr>sy_db := d\<rparr>)"
proof -
  let ?f = "\<lambda>x :: cash_out. x\<lparr>co_status := CO_FAILED, co_failure_reason := Some (take 500 reason),
      co_completed_at := Some now\<rparr>"
  note a = fail_app [OF run sys_inv_parts(1) [OF inv] c]
  have st: "co_status c \<in> {CO_REQUESTED, CO_APPROVED}" using a(4) by (simp add: ADMIN_FAIL_STATES_def)
  have nj: "co_id c \<notin> set (concat (map burn_job (sy_jobs y)))"
    by (rule no_burn_job [OF inv]) (use st c in \<open>auto simp: cash_out_status_of_def\<close>)
  have nb: "co_id c \<notin> fst ` set (sy_burned y)" by (rule unburned_open [OF inv c]) (use st in auto)
  have nu: "co_id c \<notin> fst ` set (unanswered y)" by (rule answered_open [OF inv c]) (use st in auto)
  have "cash_outs d = put_by co_id (co_id c) ?f (cash_outs (sy_db y))" using a(5) by blast
  then have "sys_inv s (y\<lparr>sy_db := d, sy_jobs := sy_jobs y\<rparr>)"
    using nj nb nu st a(2,3) sys_inv_parts(4) [OF inv]
    by (intro sys_inv_cash_out_step [OF inv a(1) c, of ?f])
      (auto simp: reserve_def open_status_def in_flight_def)
  then show ?thesis by simp
qed

lemma step_claim_burn:
  assumes inv: "sys_inv s y" and run: "claim_cash_out cid (sy_db y) = (True, d)"
  shows "sys_inv s (y\<lparr>sy_db := d, sy_jobs := JBurning cid # sy_jobs y\<rparr>)"
proof -
  let ?f = "\<lambda>x. if co_status x = CO_APPROVED then x\<lparr>co_status := CO_PROCESSING\<rparr> else x"
  have d: "d = snd (claim_cash_out cid (sy_db y))" "fst (claim_cash_out cid (sy_db y))" using run by simp_all
  note p = sys_inv_parts [OF inv]
  obtain c where c: "get_cash_out_row cid (sy_db y) = Some c" "co_status c = CO_APPROVED"
    using claim_cash_out_wins [OF app_inv_distinct(2) [OF p(1)]] d(2) by blast
  note a = claim_cash_out_app [OF p(1), of cid]
  have cos: "cash_outs d = put_by co_id cid ?f (cash_outs (sy_db y))" by (simp add: d(1) claim_cash_out_put)
  have nj: "cid \<notin> set (concat (map burn_job (sy_jobs y)))"
    by (rule no_burn_job [OF inv]) (simp add: cash_out_status_of_def c)
  have nb: "cid \<notin> fst ` set (sy_burned y)" by (rule unburned_open [OF inv c(1)]) (simp add: c(2))
  have nu: "cid \<notin> fst ` set (unanswered y)" by (rule answered_open [OF inv c(1)]) (simp add: c(2))
  have get: "get_cash_out_row cid d = Some (?f c)"
    using reserve_put(1) [OF p(1) c(1) _ cos, of cid] by simp
  have id: "co_id (?f x) = co_id x" for x by simp
  have net: "co_net_uctusd (?f c) = co_net_uctusd c" by simp
  show ?thesis
  proof (rule sys_inv_cash_out_step [OF inv _ c(1) id net cos])
    show "app_inv s d" "remittances d = remittances (sy_db y)" using a(1,3) by (simp_all add: d(1))
    show "distinct (concat (map burn_job (JBurning cid # sy_jobs y)))" using nj p(4) by simp
    show "j \<in> set (JBurning cid # sy_jobs y) \<Longrightarrow>
        j \<in> set (sy_jobs y) \<and> cid \<notin> set (burn_job j) \<or> job_ok (y\<lparr>sy_db := d\<rparr>) j" for j
      using nj nb nu get c(2) by (auto simp: cash_out_status_of_def)
    show "cid \<in> fst ` set (sy_burned y) \<Longrightarrow> co_status (?f c) \<in> {CO_PROCESSING, CO_COMPLETED}" using nb by simp
    show "cid \<in> fst ` set (unanswered y) \<Longrightarrow> co_status (?f c) \<in> {CO_PROCESSING, CO_FAILED}" using nu by simp
    show "co_status (?f c) = CO_COMPLETED \<Longrightarrow> cid \<in> fst ` set (sy_burned y)" using c(2) by simp
    show "uct_claims d + reserve (fst ` set (sy_burned y)) (?f c) + sum_list (map owed (JBurning cid # sy_jobs y))
        \<le> uct_claims (sy_db y) + reserve (fst ` set (sy_burned y)) c + in_flight y"
      using a(2) c(2) by (simp add: d(1) uct_claims_def reserve_def open_status_def in_flight_def)
  qed
qed

lemma sum_list_map_minus_one:
  fixes f g :: "'a \<Rightarrow> rat"
  assumes "distinct xs" "\<And>x. x \<in> set xs \<Longrightarrow> g x = f x - (if x = c then a else 0)"
  shows "sum_list (map g xs) = sum_list (map f xs) - (if c \<in> set xs then a else 0)"
  using assms
proof (induction xs)
  case (Cons x xs)
  have "sum_list (map g xs) = sum_list (map f xs) - (if c \<in> set xs then a else 0)"
    by (rule Cons.IH) (use Cons.prems in auto)
  moreover have "g x = f x - (if x = c then a else 0)" using Cons.prems(2) by simp
  ultimately show ?case using Cons.prems(1) by auto
qed simp

lemma step_burned:
  assumes inv: "sys_inv s y" and j: "JBurning cid \<in> set (sy_jobs y)"
    and c: "get_cash_out_row cid (sy_db y) = Some c"
  shows "sys_inv s (y\<lparr>sy_burned := (cid, co_net_uctusd c) # sy_burned y,
                    sy_jobs := JBurned cid h # remove1 (JBurning cid) (sy_jobs y)\<rparr>)"
    (is "sys_inv s ?y")
proof -
  let ?bs = "fst ` set (sy_burned y)"
  note p = sys_inv_parts [OF inv]
  have st: "co_status c = CO_PROCESSING" "cid \<notin> ?bs" "cid \<notin> fst ` set (unanswered y)"
    using p(2) [OF j] c by (auto simp: cash_out_status_of_def)
  have un: "unanswered ?y = unanswered y" by (simp add: unanswered_def)
  have cid: "co_id c = cid" using app_inv_cash_out [OF p(1) c] by simp
  have cok: "cash_out_ok s c" using app_inv_cash_out [OF p(1) c] by simp
  have one: "cid \<notin> set (concat (map burn_job (remove1 (JBurning cid) (sy_jobs y))))"
    by (rule one_burn_job [OF p(4) j]) simp
  have old: "job_ok ?y i" if "job_ok y i" "cid \<notin> set (burn_job i)" for i
    using that un by (cases i) (auto simp: cash_out_status_of_def confirmed_def)
  have "\<forall>i \<in> set (sy_jobs ?y). job_ok ?y i"
  proof
    fix i assume "i \<in> set (sy_jobs ?y)"
    then consider "i = JBurned cid h" | "i \<in> set (remove1 (JBurning cid) (sy_jobs y))" by auto
    then show "job_ok ?y i"
    proof (cases)
      case 1
      then show ?thesis using c st by (simp add: cash_out_status_of_def)
    next
      case 2
      then have "cid \<notin> set (burn_job i)" using one by auto
      then show ?thesis using old p(2) [OF in_remove1 [OF 2]] by simp
    qed
  qed
  moreover have "distinct (concat (map burn_job (sy_jobs ?y)))"
    using one distinct_concat_remove1 [OF p(4)] by simp
  moreover have "burns_ok ?y" using p(5) st c by (auto simp: burns_ok_def)
  moreover have "unanswered_ok ?y" "completed_ok ?y" "payments_ok ?y"
    using p(7-9) st un by (auto simp: unanswered_ok_def completed_ok_def payments_ok_def)
  moreover have "reserved ?y = reserved y - co_uctusd_amount c"
  proof -
    have same: "reserve (insert cid ?bs) x = reserve ?bs x - (if x = c then co_uctusd_amount c else 0)"
      if "x \<in> set (cash_outs (sy_db y))" for x
    proof -
      have uniq: "x = c" if "co_id x = cid"
        using app_inv_get_cash_out [OF p(1) \<open>x \<in> set (cash_outs (sy_db y))\<close>] c that by simp
      show ?thesis
      proof (cases "x = c")
        case True
        then show ?thesis using st cid by (simp add: reserve_def open_status_def)
      next
        case False
        then have "co_id x \<noteq> cid" using uniq by blast
        then show ?thesis using False by (simp add: reserve_def)
      qed
    qed
    have mem: "c \<in> set (cash_outs (sy_db y))" "distinct (cash_outs (sy_db y))"
      using app_inv_cash_out [OF p(1) c] app_inv_distinct(2) [OF p(1)] by (auto simp: distinct_map)
    have "sum_list (map (reserve (insert cid ?bs)) (cash_outs (sy_db y))) =
        sum_list (map (reserve ?bs) (cash_outs (sy_db y))) -
          (if c \<in> set (cash_outs (sy_db y)) then co_uctusd_amount c else 0)"
      by (rule sum_list_map_minus_one [OF mem(2)]) (rule same)
    then show ?thesis using mem(1) by (simp add: reserved_def)
  qed
  moreover have "in_flight ?y = in_flight y"
    using in_flight_remove [OF j] by (simp add: in_flight_def)
  ultimately show ?thesis using p(1,3,6) cok
    by (simp add: sys_inv_def pool_def cash_out_ok_def)
qed

text \<open>A burn with no answer moves nothing yet; when it lands it leaves the pool, and nothing else moves.\<close>

lemma job_ok_frame:
  assumes "job_ok y j" "sy_db y' = sy_db y" "sy_burned y' = sy_burned y" "sy_paid y' = sy_paid y"
    "set (unanswered y') \<subseteq> insert (cid, a) (set (unanswered y))" "cid \<notin> set (burn_job j)"
  shows "job_ok y' j"
  using assms by (cases j) (auto simp: cash_out_status_of_def confirmed_def)

lemma step_burn_lost:
  assumes inv: "sys_inv s y" and j: "JBurning cid \<in> set (sy_jobs y)"
    and c: "get_cash_out_row cid (sy_db y) = Some c"
  shows "sys_inv s (y\<lparr>sy_sent := SentBurn cid (co_net_uctusd c) # sy_sent y,
                    sy_jobs := JBurnUnanswered cid # remove1 (JBurning cid) (sy_jobs y)\<rparr>)"
    (is "sys_inv s ?y")
proof -
  note p = sys_inv_parts [OF inv]
  have st: "co_status c = CO_PROCESSING" "cid \<notin> fst ` set (sy_burned y)" "cid \<notin> fst ` set (unanswered y)"
    using p(2) [OF j] c by (auto simp: cash_out_status_of_def)
  have one: "cid \<notin> set (concat (map burn_job (remove1 (JBurning cid) (sy_jobs y))))"
    by (rule one_burn_job [OF p(4) j]) simp
  have un: "set (unanswered ?y) = insert (cid, co_net_uctusd c) (set (unanswered y))"
    "distinct (map fst (unanswered ?y))"
    using st(3) p(7) by (auto simp: unanswered_def unanswered_ok_def)
  have "job_ok ?y i" if "i \<in> set (remove1 (JBurning cid) (sy_jobs y))" for i
  proof -
    have "cid \<notin> set (burn_job i)" using one that by auto
    then show ?thesis
      using job_ok_frame [OF p(2) [OF in_remove1 [OF that]], of ?y cid "co_net_uctusd c"] un(1) by simp
  qed
  moreover have "job_ok ?y (JBurnUnanswered cid)" using p(2) [OF j] by simp
  ultimately have "\<forall>i \<in> set (sy_jobs ?y). job_ok ?y i" by auto
  moreover have "distinct (concat (map burn_job (sy_jobs ?y)))"
    using one distinct_concat_remove1 [OF p(4)] by simp
  moreover have "burns_ok ?y" "completed_ok ?y" using p(5,8) by (simp_all add: burns_ok_def completed_ok_def)
  moreover have "unanswered_ok ?y"
    using p(7) st c un(2) unfolding unanswered_ok_def un(1) by auto
  moreover have "payments_ok ?y" using p(9) by (simp add: payments_ok_def)
  moreover have "in_flight ?y = in_flight y" using in_flight_remove [OF j] by (simp add: in_flight_def)
  ultimately show ?thesis using p(1,3,6) by (simp add: sys_inv_def pool_def reserved_def)
qed

lemma step_burn_lands:
  assumes inv: "sys_inv s y" and sent: "SentBurn cid a \<in> set (sy_sent y)"
  shows "sys_inv s (y\<lparr>sy_lost := (cid, a) # sy_lost y, sy_sent := remove1 (SentBurn cid a) (sy_sent y)\<rparr>)"
    (is "sys_inv s ?y")
proof -
  note p = sys_inv_parts [OF inv]
  obtain ys zs where split: "sy_sent y = ys @ SentBurn cid a # zs" "SentBurn cid a \<notin> set ys"
    using split_list_first [OF sent] by blast
  then have rest: "remove1 (SentBurn cid a) (sy_sent y) = ys @ zs" by (simp add: remove1_append)
  have set: "set (unanswered ?y) = set (unanswered y)"
    and dist: "distinct (map fst (unanswered ?y)) = distinct (map fst (unanswered y))"
    using rest by (auto simp: unanswered_def split(1))
  have "job_ok ?y j = job_ok y j" for j by (cases j) (simp_all add: set)
  moreover have "unanswered_ok ?y" using p(7) unfolding unanswered_ok_def set dist by simp
  moreover have "burns_ok ?y" "completed_ok ?y" using p(5,8) by (simp_all add: burns_ok_def completed_ok_def)
  moreover have "payments_ok ?y" using p(9) by (auto simp: payments_ok_def dest: in_remove1)
  ultimately show ?thesis using p(1-4,6) by (simp add: sys_inv_def pool_def reserved_def in_flight_def)
qed

lemma step_burn_failed:
  assumes inv: "sys_inv s y" and k: "j \<in> {JBurning cid, JBurnUnanswered cid}" and j: "j \<in> set (sy_jobs y)"
    and run: "fail_claimed_cash_out s cid reason now (sy_db y) = (res, d)"
  shows "sys_inv s (y\<lparr>sy_db := d, sy_jobs := remove1 j (sy_jobs y)\<rparr>)"
  using run
proof (cases rule: fail_claimed_cases)
  case 1
  then show ?thesis by (rule sys_inv_skip_burn [OF inv])
next
  case (2 c)
  let ?f = "\<lambda>x :: cash_out. x\<lparr>co_status := CO_FAILED, co_failure_reason := Some (take 500 reason),
      co_completed_at := Some now\<rparr>"
  note p = sys_inv_parts [OF inv]
  have cid: "co_id c = cid" using app_inv_cash_out [OF p(1) 2(1)] by simp
  have c': "get_cash_out_row (co_id c) (sy_db y) = Some c" using 2(1) cid by simp
  note a = fail_app [OF 2(2) p(1) c']
  have bj: "burn_job j = [cid]" "owed j = 0" using k by auto
  have st: "co_status c = CO_PROCESSING" "cid \<notin> fst ` set (sy_burned y)"
    using p(2) [OF j] k 2(1) by (cases j; simp add: cash_out_status_of_def)+
  have one: "cid \<notin> set (concat (map burn_job (remove1 j (sy_jobs y))))"
    by (rule one_burn_job [OF p(4) j bj(1)])
  have cos: "cash_outs d = put_by co_id cid ?f (cash_outs (sy_db y))" using a(5) cid by blast
  show ?thesis
  proof (rule sys_inv_cash_out_step [OF inv a(1) 2(1), of ?f])
    show "i \<in> set (remove1 j (sy_jobs y)) \<Longrightarrow>
        i \<in> set (sy_jobs y) \<and> cid \<notin> set (burn_job i) \<or> job_ok (y\<lparr>sy_db := d\<rparr>) i" for i
      using one by (auto dest: in_remove1)
    show "uct_claims d + reserve (fst ` set (sy_burned y)) (?f c) + sum_list (map owed (remove1 j (sy_jobs y)))
        \<le> uct_claims (sy_db y) + reserve (fst ` set (sy_burned y)) c + in_flight y"
      using a(3) st cid in_flight_remove [OF j] bj(2) by (simp add: reserve_def open_status_def)
  qed (use cos a(2) st distinct_concat_remove1 [OF p(4)] in simp_all)
qed

lemma step_complete:
  assumes inv: "sys_inv s y" and j: "JBurned cid h \<in> set (sy_jobs y)"
    and c: "get_cash_out_row cid (sy_db y) = Some c"
    and run: "record_burn s c h now (sy_db y) = (res, d)"
  shows "sys_inv s (y\<lparr>sy_db := d, sy_jobs := remove1 (JBurned cid h) (sy_jobs y)\<rparr>)"
  using run
proof (cases rule: record_burn_cases)
  case 1
  then show ?thesis by (rule sys_inv_skip_burn [OF inv])
next
  case 2
  note p = sys_inv_parts [OF inv]
  have cid: "co_id c = cid" using app_inv_cash_out [OF p(1) c] by simp
  have c': "get_cash_out_row (co_id c) (sy_db y) = Some c" using c cid by simp
  note a = complete_app [OF 2 p(1) c']
  have st: "co_status c = CO_PROCESSING" "cid \<in> fst ` set (sy_burned y)" "cid \<notin> fst ` set (unanswered y)"
    using p(2) [OF j] p(7) c by (auto simp: cash_out_status_of_def unanswered_ok_def)
  have one: "cid \<notin> set (concat (map burn_job (remove1 (JBurned cid h) (sy_jobs y))))"
    by (rule one_burn_job [OF p(4) j]) simp
  obtain e :: wallet_transaction where cos: "cash_outs d = put_by co_id cid (\<lambda>x. x\<lparr>co_credit_transaction_id := Some (wtx_id e),
            co_xrpl_tx_hash := Some h, co_status := CO_COMPLETED, co_completed_at := Some now\<rparr>)
          (cash_outs (sy_db y))"
    using a(4) unfolding cid by blast
  let ?f = "\<lambda>x :: cash_out. x\<lparr>co_credit_transaction_id := Some (wtx_id e),
            co_xrpl_tx_hash := Some h, co_status := CO_COMPLETED, co_completed_at := Some now\<rparr>"
  show ?thesis
  proof (rule sys_inv_cash_out_step [OF inv a(1) c, of ?f])
    show "i \<in> set (remove1 (JBurned cid h) (sy_jobs y)) \<Longrightarrow>
        i \<in> set (sy_jobs y) \<and> cid \<notin> set (burn_job i) \<or> job_ok (y\<lparr>sy_db := d\<rparr>) i" for i
      using one by (auto dest: in_remove1)
    show "uct_claims d + reserve (fst ` set (sy_burned y)) (?f c) + sum_list (map owed (remove1 (JBurned cid h) (sy_jobs y)))
        \<le> uct_claims (sy_db y) + reserve (fst ` set (sy_burned y)) c + in_flight y"
      using a(3) st cid in_flight_remove [OF j] by (simp add: reserve_def open_status_def)
  qed (use cos a(2) st distinct_concat_remove1 [OF p(4)] in simp_all)
qed

theorem sys_step_inv: "sys_step s y y' \<Longrightarrow> sys_inv s y \<Longrightarrow> sys_inv s y'"
proof (induction rule: sys_step.induct)
  case (wallet uid now y w d)
  note w = wallet_for_app [OF wallet(1) sys_inv_parts(1) [OF wallet(2)]]
  then show ?case using wallet(2)
    by (intro step_db_only) (auto simp: ledger_only_def intro: uct_claims_same keeps_rems_ledger)
next
  case (quote y r)
  then show ?case
    using quoted_app [OF quote(1) sys_inv_parts(1) [OF quote(2)]]
    by (intro step_db_only) (auto simp: uct_claims_def)
next
  case (cash_in r y m now b d)
  then show ?case
    using simulate_cash_in_app [OF cash_in(2) sys_inv_parts(1) [OF cash_in(3)] cash_in(1)] simulate_keeps [OF cash_in(2)]
    by (intro step_db_only) (auto intro: uct_claims_same)
next
  case (publish rid y r)
  then have "confirmed rid (sy_db y)"
    using app_inv_remittance [OF sys_inv_parts(1) [OF publish(3)] publish(1)]
    by (auto simp: remittance_ok_def confirmed_def)
  then show ?case using publish by (intro step_marking) auto
next
  case (unmark y rid)
  then show ?case by (intro step_marking) (auto dest: in_remove1)
next
  case (requeue r y d)
  then show ?case
    using requeue_app [OF requeue(2) sys_inv_parts(1) [OF requeue(3)] requeue(1)] requeue_keeps [OF requeue(2)]
    by (intro step_db_only) (auto intro: uct_claims_same)
next
  case (refund r y now d)
  then show ?case
    using refund_app [OF refund(2) sys_inv_parts(1) [OF refund(3)] refund(1)]
      refund_keeps [OF refund(2) sys_inv_parts(1) [OF refund(3)]]
    by (intro step_db_only) auto
qed (auto intro: step_accounts step_mark step_claim step_pay step_recorded step_failed step_request
    step_review step_approve step_reject step_claim_burn step_burned step_burn_lost step_burn_lands
    step_complete step_crash step_pay_lost step_pay_lands dest: step_failed step_burn_failed)

lemma sys_init_inv: "sys_inv s init_sys"
  by (simp add: sys_inv_def init_sys_def burns_ok_def reserved_def in_flight_def pool_def uct_claims_def
      unanswered_ok_def unanswered_def completed_ok_def payments_ok_def cash_out_status_of_def get_cash_out_row_def
      empty_db_def [symmetric]) (simp add: empty_db_def)

definition sys_reachable :: "settings \<Rightarrow> sys \<Rightarrow> bool" where
  "sys_reachable s y \<longleftrightarrow> (sys_step s)\<^sup>*\<^sup>* init_sys y"

interpretation sys_run: transition_invariant "sys_step s" "sys_inv s"
  by unfold_locales (rule sys_step_inv)

lemma sys_reachable_inv: "sys_reachable s y \<Longrightarrow> sys_inv s y"
  unfolding sys_reachable_def by (rule sys_run.run_inv [OF _ sys_init_inv])

section \<open>What the ledger owes, and what backs it\<close>

definition uct_balances :: "db \<Rightarrow> decimal" where
  "uct_balances d =
     sum_list (map (\<lambda>b. if bal_currency b = SETTLEMENT_CURRENCY then bal_amount b else 0) (ledger_balances d))"

lemma uct_claims_by_wallet:
  assumes "finite W" "wtx_wallet_id ` set es \<subseteq> W"
  shows "sum_list (map uct_entry es) = (\<Sum>w\<in>W. entry_sum w SETTLEMENT_CURRENCY es)"
  using assms(2)
proof (induction es)
  case (Cons e es)
  have "(\<Sum>w\<in>W. entry_sum w SETTLEMENT_CURRENCY (e # es)) =
      (\<Sum>w\<in>W. entry_sum w SETTLEMENT_CURRENCY [e]) + (\<Sum>w\<in>W. entry_sum w SETTLEMENT_CURRENCY es)"
    by (simp add: entry_sum_def sum.distrib)
  also have "(\<Sum>w\<in>W. entry_sum w SETTLEMENT_CURRENCY [e]) =
      (\<Sum>w\<in>W. if w = wtx_wallet_id e then uct_entry e else 0)"
    by (rule sum.cong) (auto simp: uct_entry_def)
  also have "\<dots> = uct_entry e" using Cons.prems assms(1) by simp
  finally show ?case using Cons by simp
qed (simp add: entry_sum_def)

lemma balances_by_wallet:
  assumes "finite W" "bal_wallet_id ` set rows \<subseteq> W" "distinct (map bal_key rows)"
  shows "sum_list (map (\<lambda>b. if bal_currency b = k then bal_amount b else 0) rows) =
    (\<Sum>w\<in>W. case get_by bal_key (w, k) rows of None \<Rightarrow> 0 | Some b \<Rightarrow> bal_amount b)"
  using assms(2,3)
proof (induction rows)
  case (Cons b rows)
  let ?g = "\<lambda>rows w. case get_by bal_key (w, k) rows of None \<Rightarrow> 0 | Some b \<Rightarrow> bal_amount b"
  have "?g (b # rows) w = (if w = bal_wallet_id b then (if bal_currency b = k then bal_amount b else 0) else 0) + ?g rows w"
    for w
  proof (cases "bal_key b = (w, k)")
    case True
    then have "get_by bal_key (w, k) rows = None" using Cons.prems(2) by (force simp: get_by_None image_iff)
    then show ?thesis using True by (simp add: get_by_Cons bal_key_def)
  next
    case False
    then show ?thesis by (auto simp: get_by_Cons bal_key_def)
  qed
  then have "(\<Sum>w\<in>W. ?g (b # rows) w) = (\<Sum>w\<in>W. if w = bal_wallet_id b then (if bal_currency b = k then bal_amount b else 0) else 0) + (\<Sum>w\<in>W. ?g rows w)"
    by (simp add: sum.distrib)
  then show ?case using Cons assms(1) by simp
qed simp

text \<open>The claims counted from the entries are the balances the users see.\<close>

lemma uct_claims_balances:
  assumes "ledger_inv s d"
  shows "uct_claims d = uct_balances d"
proof -
  let ?W = "wtx_wallet_id ` set (wallet_transactions d) \<union> bal_wallet_id ` set (ledger_balances d)"
  have fin: "finite ?W" by simp
  have dist: "distinct (map bal_key (ledger_balances d))"
    using assms by (simp add: ledger_inv_def ledger_shape_def balances_ok_def)
  have "uct_claims d = (\<Sum>w\<in>?W. entry_sum w SETTLEMENT_CURRENCY (wallet_transactions d))"
    unfolding uct_claims_def by (rule uct_claims_by_wallet [OF fin]) simp
  also have "\<dots> = (\<Sum>w\<in>?W. held w SETTLEMENT_CURRENCY d)"
    using assms by (simp add: ledger_inv_def reconciled_def)
  also have "\<dots> = uct_balances d"
    unfolding uct_balances_def held_def balance_row_def
    by (rule balances_by_wallet [OF fin _ dist, symmetric]) simp
  finally show ?thesis .
qed

lemma reserve_nonneg: "app_inv s d \<Longrightarrow> 0 \<le> sum_list (map (reserve bs) (cash_outs d))"
  by (rule sum_list_nonneg)
    (auto simp: app_inv_def reserve_def cash_out_ok_def token_amount_ok_def)

lemma in_flight_nonneg: "sys_inv s y \<Longrightarrow> 0 \<le> in_flight y"
  unfolding in_flight_def by (rule sum_list_nonneg) (auto dest: owed_nonneg)

section \<open>A run of the system\<close>

text \<open>One remittance from the quote to the credit, with a second publication still in the air.\<close>

definition demo_new :: remittance where
  "demo_new = demo_remittance\<lparr>rem_id := 10\<rparr>"

definition demo_sys_db :: "remittance \<Rightarrow> db" where
  "demo_sys_db r = demo_db\<lparr>remittances := [r], next_id := 11\<rparr>"

definition demo_confirmed :: remittance where
  "demo_confirmed = demo_new\<lparr>rem_cash_in_method := Some ''card'', rem_status := CASH_IN_CONFIRMED,
     rem_cash_in_confirmed_at := Some 100, rem_quote_expires_at := None\<rparr>"

definition demo_settling :: remittance where
  "demo_settling = demo_confirmed\<lparr>rem_status := SETTLING\<rparr>"

lemma demo_new_fields [simp]:
  "rem_id demo_new = 10" "rem_status demo_new = QUOTED" "rem_id demo_confirmed = 10"
  "rem_status demo_confirmed = CASH_IN_CONFIRMED" "rem_id demo_settling = 10" "rem_status demo_settling = SETTLING"
  "rem_uctusd_amount demo_settling = 51351351/1000000" "rem_zar_send_amount demo_settling = 1000"
  by (simp_all add: demo_new_def demo_remittance_def demo_confirmed_def demo_settling_def)

lemma get_demo_sys [simp]: "rem_id r = 10 \<Longrightarrow> get_remittance 10 (demo_sys_db r) = Some r"
  by (simp add: demo_sys_db_def get_remittance_def get_by_Cons)

lemma demo_run_cash_in:
  "simulate_cash_in demo_new ''card'' 100 (demo_sys_db demo_new) = Inr (True, demo_sys_db demo_confirmed)"
proof -
  have m: "py_lower (py_strip ''card'') = ''card''" "''card'' \<in> set CASH_IN_METHODS" by code_simp+
  have "assert_recipient_registered demo_remittance demo_quoted = Inr (demo_user 2 ''Bob@x.org'')"
    by (rule demo_recipient)
  then have "assert_recipient_registered demo_new (demo_sys_db demo_new) = Inr (demo_user 2 ''Bob@x.org'')"
    by (auto simp: assert_recipient_registered_def demo_sys_db_def demo_quoted_def demo_new_def
        get_beneficiary_row_def user_by_contact_def)
  moreover have "\<not> is_quote_expired demo_new 100"
    by (simp add: is_quote_expired_def demo_new_def demo_remittance_def)
  ultimately show ?thesis using m
    by (simp add: simulate_cash_in_def Let_def)
      (simp add: demo_sys_db_def put_remittance_def put_by_def update_where_def demo_confirmed_def)
qed

lemma demo_run_claim: "claim 10 False (demo_sys_db demo_confirmed) = (True, demo_sys_db demo_settling)"
  by (simp add: claim_def Let_def demo_sys_db_def CLAIMABLE_def update_where_def demo_settling_def)

lemma demo_new_ok: "remittance_ok demo_new"
proof -
  have "scaled 2 (1000 :: rat)" "token_amount_ok (51351351/1000000)" by code_simp+
  then show ?thesis by (simp add: remittance_ok_def demo_new_def demo_remittance_def)
qed

definition sys_at :: "db \<Rightarrow> (uuid \<times> decimal) list \<Rightarrow> job list \<Rightarrow> uuid list \<Rightarrow> sys" where
  "sys_at d paid js mk = \<lparr>sy_db = d, sy_paid = paid, sy_burned = [], sy_lost = [], sy_sent = [], sy_jobs = js,
     sy_marking = mk\<rparr>"

lemma sys_at_fields [simp]:
  "sy_db (sys_at d p j m) = d" "sy_paid (sys_at d p j m) = p" "sy_jobs (sys_at d p j m) = j"
  "sy_marking (sys_at d p j m) = m" "sy_burned (sys_at d p j m) = []" "sy_lost (sys_at d p j m) = []"
  "(sys_at d p j m)\<lparr>sy_db := d'\<rparr> = sys_at d' p j m" "(sys_at d p j m)\<lparr>sy_jobs := j'\<rparr> = sys_at d p j' m"
  "(sys_at d p j m)\<lparr>sy_paid := p'\<rparr> = sys_at d p' j m" "(sys_at d p j m)\<lparr>sy_marking := m'\<rparr> = sys_at d p j m'"
  by (simp_all add: sys_at_def)

lemma reach_step: "sys_reachable s y \<Longrightarrow> sys_step s y y' \<Longrightarrow> sys_reachable s y'"
  unfolding sys_reachable_def by (rule rtranclp.rtrancl_into_rtrancl)

lemma demo_reach_claimed:
  "sys_reachable s (sys_at (demo_sys_db demo_settling) [] [JClaimed 10] [10])"
proof -
  have 0: "sys_reachable s (sys_at empty_db [] [] [])"
    by (simp add: sys_reachable_def sys_at_def init_sys_def)
  have "accounts_change empty_db demo_db" by (simp add: accounts_change_def demo_db_def empty_db_def)
  from reach_step [OF 0 accounts [of "sys_at empty_db [] [] []" demo_db s]] this
  have 1: "sys_reachable s (sys_at demo_db [] [] [])" by simp
  have "quoted_row demo_db demo_new"
    using demo_new_ok by (simp add: quoted_row_def demo_db_def empty_db_def) (simp add: demo_new_def demo_remittance_def)
  from reach_step [OF 1 quote [of "sys_at demo_db [] [] []" demo_new s]] this
  have 2: "sys_reachable s (sys_at (demo_sys_db demo_new) [] [] [])"
    by (simp add: demo_sys_db_def demo_db_def empty_db_def)
  from reach_step [OF 2 cash_in [of demo_new "sys_at (demo_sys_db demo_new) [] [] []" "''card''" 100 True
      "demo_sys_db demo_confirmed"]] demo_run_cash_in
  have 3: "sys_reachable s (sys_at (demo_sys_db demo_confirmed) [] [] [])" by simp
  from reach_step [OF 3 publish [of 10 "sys_at (demo_sys_db demo_confirmed) [] [] []" demo_confirmed s]]
  have 4: "sys_reachable s (sys_at (demo_sys_db demo_confirmed) [] [] [10])" by simp
  from reach_step [OF 4 claim [of 10 False "sys_at (demo_sys_db demo_confirmed) [] [] [10]" "demo_sys_db demo_settling" s]]
    demo_run_claim
  show ?thesis by simp
qed

abbreviation demo_amount :: decimal where
  "demo_amount \<equiv> 51351351/1000000"

lemma demo_reach_paid:
  "sys_reachable s (sys_at (demo_sys_db demo_settling) [(10, demo_amount)] [JPaid 10 2 ''H'' demo_amount] [10])"
  using pay [of 10 "sys_at (demo_sys_db demo_settling) [] [JClaimed 10] [10]" demo_settling s 2 "''H''"]
  by (intro reach_step [OF demo_reach_claimed]) simp

lemma demo_reach_settled:
  "\<exists>d e. sys_reachable demo_settings (sys_at d [(10, demo_amount)] [] [10]) \<and> status_of 10 d = Some SETTLED \<and>
     e \<in> set (wallet_transactions d) \<and> credited 10 e \<and> wtx_amount e = demo_amount \<and> uct_claims d = demo_amount \<and>
     cash_outs d = [] \<and> (\<exists>w. wallet_of 2 d = Some w \<and> held (wal_id w) SETTLEMENT_CURRENCY d = demo_amount)"
proof -
  let ?d = "demo_sys_db demo_settling"
  note r2 = demo_reach_paid [of demo_settings]
  have inv: "app_inv demo_settings ?d" using sys_inv_parts(1) [OF sys_reachable_inv [OF r2]] by simp
  have z: "held w k ?d = 0" "wallet_transactions ?d = []" "uct_claims ?d = 0" for w k
    by (simp_all add: demo_sys_db_def demo_db_def empty_db_def held_def balance_row_def uct_claims_def)
  have row: "get_remittance (rem_id demo_settling) ?d = Some demo_settling" by simp
  obtain d where w: "success_writes demo_settings demo_settling 2 ''H'' 200 ?d = Inr d"
    using success_outcome [OF inv corridor_demo row, of 2 "''H''" 200] z by auto
  have conf: "rem_cash_in_confirmed_at demo_settling \<noteq> None" by (simp add: demo_settling_def demo_confirmed_def)
  note sw = success_writes_app [OF w inv row refl conf]
  have "record_success demo_settings demo_settling 2 ''H'' 200 ?d = (Inr OUT_SETTLED, d)"
    using w by (simp add: record_success_def)
  then have "sys_step demo_settings (sys_at ?d [(10, demo_amount)] [JPaid 10 2 ''H'' demo_amount] [10])
      (sys_at d [(10, demo_amount)] [] [10])"
    using recorded [of 10 2 "''H''" demo_amount "sys_at ?d [(10, demo_amount)] [JPaid 10 2 ''H'' demo_amount] [10]"
        demo_settling demo_settings 200 "Inr OUT_SETTLED" d] by simp
  note r3 = reach_step [OF r2 this]
  obtain e es w where "wallet_transactions d = e # es" "credited 10 e" "wtx_amount e = demo_amount"
    "wallet_of 2 d = Some w" "held (wal_id w) SETTLEMENT_CURRENCY d = demo_amount"
    using sw(5) z(1,2) by auto
  moreover have "cash_outs d = []"
    using sw(2) by (simp add: demo_sys_db_def demo_db_def empty_db_def)
  ultimately show ?thesis using r3 sw(3,4) z(3) by (intro exI [of _ d] exI [of _ e]) simp
qed

section \<open>Solvency\<close>

text \<open>The burns whose answer was lost and whose cash-out was given back.\<close>

definition refunded_burns :: "sys \<Rightarrow> decimal" where
  "refunded_burns y = sum_list (map snd
     (filter (\<lambda>(cid, a). cash_out_status_of cid (sy_db y) = Some CO_FAILED) (sy_lost y)))"

lemma sum_list_filter_split:
  fixes f :: "'a \<Rightarrow> rat"
  shows "sum_list (map f xs) = sum_list (map f (filter P xs)) + sum_list (map f (filter (\<lambda>x. \<not> P x) xs))"
  by (induction xs) auto

lemma sum_list_by_key:
  fixes g :: "'a \<Rightarrow> rat"
  assumes "distinct (map fst xs)" "\<forall>(k, a) \<in> set xs. \<exists>c \<in> set cs. key c = k \<and> a \<le> g c" "\<forall>c \<in> set cs. 0 \<le> g c"
  shows "sum_list (map snd xs) \<le> sum_list (map g cs)"
  using assms
proof (induction xs arbitrary: cs)
  case Nil
  then show ?case by (auto intro!: sum_list_nonneg)
next
  case (Cons x xs)
  obtain k a where x: "x = (k, a)" by (cases x)
  then obtain c where c: "c \<in> set cs" "key c = k" "a \<le> g c" using Cons.prems(2) by auto
  have "\<exists>c' \<in> set (remove1 c cs). key c' = k' \<and> a' \<le> g c'" if kx: "(k', a') \<in> set xs" for k' a'
  proof -
    obtain c' where c': "c' \<in> set cs" "key c' = k'" "a' \<le> g c'" using Cons.prems(2) kx by fastforce
    have "k' \<noteq> k" using Cons.prems(1) kx x by force
    then have "c' \<noteq> c" using c(2) c'(2) by auto
    then show ?thesis using c' by (intro bexI [of _ c']) auto
  qed
  moreover have "\<forall>c' \<in> set (remove1 c cs). 0 \<le> g c'" using Cons.prems(3) by (auto dest: in_remove1)
  ultimately have "sum_list (map snd xs) \<le> sum_list (map g (remove1 c cs))"
    using Cons.prems(1) by (intro Cons.IH) auto
  then show ?case using x c(3) sum_list_map_remove1 [OF c(1), of g] by simp
qed

text \<open>While a cash-out whose burn was lost is open, its reserve covers the burn.\<close>

lemma lost_covered:
  assumes inv: "sys_inv s y"
  shows "sum_list (map snd (sy_lost y)) \<le> reserved y + refunded_burns y"
proof -
  let ?failed = "\<lambda>(cid, a). cash_out_status_of cid (sy_db y) = Some CO_FAILED"
  let ?open = "filter (\<lambda>x. \<not> ?failed x) (sy_lost y)"
  note p = sys_inv_parts [OF inv]
  have "sum_list (map snd (sy_lost y)) = refunded_burns y + sum_list (map snd ?open)"
    unfolding refunded_burns_def by (rule sum_list_filter_split)
  moreover have "sum_list (map snd ?open) \<le> sum_list (map (reserve (fst ` set (sy_burned y))) (cash_outs (sy_db y)))"
  proof (rule sum_list_by_key [where key = co_id])
    have "distinct (map fst (sy_lost y))" using p(7) by (simp add: unanswered_ok_def unanswered_def)
    then show "distinct (map fst ?open)" by (rule distinct_map_filter)
    show "\<forall>c \<in> set (cash_outs (sy_db y)). 0 \<le> reserve (fst ` set (sy_burned y)) c"
      using p(1) by (auto simp: app_inv_def reserve_def cash_out_ok_def token_amount_ok_def)
    show "\<forall>(k, a) \<in> set ?open. \<exists>c \<in> set (cash_outs (sy_db y)). co_id c = k \<and> a \<le> reserve (fst ` set (sy_burned y)) c"
    proof (intro ballI, clarify)
      fix k a assume "(k, a) \<in> set ?open"
      then have ka: "(k, a) \<in> set (unanswered y)" "cash_out_status_of k (sy_db y) \<noteq> Some CO_FAILED"
        by (auto simp: unanswered_def)
      then obtain c where c: "get_cash_out_row k (sy_db y) = Some c" "a = co_net_uctusd c" "co_status c = CO_PROCESSING"
        using p(7) by (fastforce simp: unanswered_ok_def cash_out_status_of_def)
      have "k \<notin> fst ` set (sy_burned y)" using p(7) ka(1) by (force simp: unanswered_ok_def)
      then show "\<exists>c \<in> set (cash_outs (sy_db y)). co_id c = k \<and> a \<le> reserve (fst ` set (sy_burned y)) c"
        using app_inv_cash_out [OF p(1) c(1)] c
        by (intro bexI [of _ c]) (auto simp: reserve_def open_status_def cash_out_ok_def)
    qed
  qed
  ultimately show ?thesis by (simp add: reserved_def)
qed

text \<open>
  C9. The platform stays solvent but for the burns it gave back. In every state the system can reach,
  through any interleaving of requests, worker steps, network events and crashes, with each handler's
  read, check and write of a row taken as one step: what the users' UCTUSD balances add up to, plus what
  open cash-outs have set aside, plus the payments not recorded yet, is at most what the payout pool
  holds plus the burns whose answer was lost; and the balances and the payments in flight are at most
  what the pool holds plus those of these burns whose cash-out was refunded. Where no burn lost its
  answer, the pool covers everything.
\<close>

theorem ledger_solvent:
  assumes "sys_reachable s y"
  shows "uct_balances (sy_db y) + reserved y + in_flight y \<le> pool y + sum_list (map snd (sy_lost y)) \<and>
    uct_balances (sy_db y) + in_flight y \<le> pool y + refunded_burns y \<and>
    0 \<le> reserved y \<and> 0 \<le> in_flight y \<and>
    (sy_lost y = [] \<longrightarrow> uct_balances (sy_db y) + reserved y + in_flight y \<le> pool y)"
proof -
  note inv = sys_reachable_inv [OF assms]
  note p = sys_inv_parts [OF inv]
  have "uct_balances (sy_db y) + reserved y + in_flight y \<le> pool y + sum_list (map snd (sy_lost y))"
    using p(6) uct_claims_balances [OF app_inv_ledger_inv(1) [OF p(1)]] by simp
  moreover have "0 \<le> reserved y" unfolding reserved_def by (rule reserve_nonneg [OF p(1)])
  moreover have "sum_list (map snd (sy_lost y)) = 0" if "sy_lost y = []" using that by simp
  ultimately show ?thesis using in_flight_nonneg [OF inv] lost_covered [OF inv] by auto
qed

theorem ledger_solvent_witness:
  "\<exists>y. sys_reachable demo_settings y \<and> uct_balances (sy_db y) = demo_amount \<and> pool y = demo_amount \<and>
     uct_balances (sy_db y) + in_flight y \<le> pool y + refunded_burns y"
proof -
  obtain d where d: "sys_reachable demo_settings (sys_at d [(10, demo_amount)] [] [10])" "uct_claims d = demo_amount"
    using demo_reach_settled by auto
  have "uct_balances d = demo_amount"
    using uct_claims_balances app_inv_ledger_inv(1) [OF sys_inv_parts(1) [OF sys_reachable_inv [OF d(1)]]] d(2) by simp
  moreover have "pool (sys_at d [(10, demo_amount)] [] [10]) = demo_amount" by (simp add: pool_def)
  ultimately show ?thesis using d(1) ledger_solvent [OF d(1)] by (metis sys_at_fields(1))
qed

text \<open>
  C16. A remittance pays out at most once and for its own figures. In every reachable state it has
  at most one successful incoming entry, its credit in UCTUSD or its refund in rand, for exactly
  the amount on the row; a SETTLED row has the credit, a REFUNDED row the refund and no credit.
\<close>

theorem one_outcome_per_remittance:
  assumes "sys_reachable s y" "get_remittance rid (sy_db y) = Some r"
  shows "length (filter (\<lambda>e. credited rid e \<or> repaid rid e) (wallet_transactions (sy_db y))) \<le> 1 \<and>
    (\<forall>e \<in> set (wallet_transactions (sy_db y)).
       (credited rid e \<longrightarrow> wtx_amount e = rem_uctusd_amount r) \<and>
       (repaid rid e \<longrightarrow> wtx_amount e = rem_zar_send_amount r)) \<and>
    (rem_status r = SETTLED \<longrightarrow> (\<exists>e \<in> set (wallet_transactions (sy_db y)). credited rid e)) \<and>
    (rem_status r = REFUNDED \<longrightarrow> (\<exists>e \<in> set (wallet_transactions (sy_db y)). repaid rid e) \<and>
       \<not> (\<exists>e \<in> set (wallet_transactions (sy_db y)). credited rid e))"
proof -
  let ?es = "wallet_transactions (sy_db y)"
  note inv = sys_inv_parts(1) [OF sys_reachable_inv [OF assms(1)]]
  have ok: "entries_ok (sy_db y)" using app_inv_ledger_inv(2) [OF inv] by (simp add: ledger_shape_def)
  have uniq: "e = e'" if "e \<in> set ?es" "e' \<in> set ?es" "credited rid e \<or> repaid rid e" "credited rid e' \<or> repaid rid e'" for e e'
    by (rule entries_unique [OF ok that(2,1), of rid]) (use that(3,4) in \<open>auto simp: credited_def repaid_def entry_key_def\<close>)
  have "distinct ?es" using ok by (simp add: entries_ok_def fresh_ids_def distinct_map)
  then have "distinct (filter (\<lambda>e. credited rid e \<or> repaid rid e) ?es)" by simp
  moreover have "card (set (filter (\<lambda>e. credited rid e \<or> repaid rid e) ?es)) \<le> 1"
    by (rule card_le_Suc0_iff_eq [THEN iffD2, unfolded One_nat_def [symmetric]]) (use uniq in auto)
  ultimately have one: "length (filter (\<lambda>e. credited rid e \<or> repaid rid e) ?es) \<le> 1"
    using distinct_card by metis
  have am: "(credited rid e \<longrightarrow> wtx_amount e = rem_uctusd_amount r) \<and> (repaid rid e \<longrightarrow> wtx_amount e = rem_zar_send_amount r)"
    if "e \<in> set ?es" for e
    using inv that assms(2) by (fastforce simp: app_inv_def entry_linked_def credited_def repaid_def)
  have st: "status_linked ?es r" "rem_id r = rid" using app_inv_remittance [OF inv assms(2)] by auto
  have no: "\<not> (credited rid e)" if "e \<in> set ?es" "e' \<in> set ?es" "repaid rid e'" for e e'
    using uniq [OF that(1,2)] that(3) by (auto simp: credited_def repaid_def SETTLEMENT_CURRENCY_def SEND_CURRENCY_def)
  show ?thesis using one am st no by (auto simp: status_linked_def)
qed

theorem one_outcome_per_remittance_witness:
  "\<exists>y r. sys_reachable demo_settings y \<and> get_remittance 10 (sy_db y) = Some r \<and> rem_status r = SETTLED \<and>
     length (filter (\<lambda>e. credited 10 e \<or> repaid 10 e) (wallet_transactions (sy_db y))) \<le> 1 \<and>
     (\<exists>e \<in> set (wallet_transactions (sy_db y)). credited 10 e)"
proof -
  obtain d where d: "sys_reachable demo_settings (sys_at d [(10, demo_amount)] [] [10])" "status_of 10 d = Some SETTLED"
    using demo_reach_settled by auto
  then obtain r where r: "get_remittance 10 d = Some r" "rem_status r = SETTLED" by (auto simp: status_of_def)
  have g: "get_remittance 10 (sy_db (sys_at d [(10, demo_amount)] [] [10])) = Some r" using r(1) by simp
  from one_outcome_per_remittance [OF d(1) g] d(1) r g show ?thesis by blast
qed


text \<open>
  C17. Tokens are burned once, and only for what was released. In every reachable state each
  cash-out has at most one burn, of exactly its net amount. A COMPLETED cash-out has been burned. One
  whose burn was answered is PROCESSING or COMPLETED; one whose burn landed without the answer
  reaching the worker is PROCESSING or FAILED. So nothing requested or approved was ever burned, and
  what was given back as FAILED was burned only if the answer to its burn was lost.
\<close>

theorem burned_once:
  assumes "sys_reachable s y"
  shows "distinct (map fst (sy_burned y @ sy_lost y)) \<and>
    (\<forall>(cid, a) \<in> set (sy_burned y). \<exists>c. get_cash_out_row cid (sy_db y) = Some c \<and> a = co_net_uctusd c \<and>
       0 < a \<and> a \<le> co_uctusd_amount c \<and> co_status c \<in> {CO_PROCESSING, CO_COMPLETED}) \<and>
    (\<forall>(cid, a) \<in> set (sy_lost y). \<exists>c. get_cash_out_row cid (sy_db y) = Some c \<and> a = co_net_uctusd c \<and>
       0 < a \<and> a \<le> co_uctusd_amount c \<and> co_status c \<in> {CO_PROCESSING, CO_FAILED}) \<and>
    (\<forall>cid c. get_cash_out_row cid (sy_db y) = Some c \<and> co_status c = CO_COMPLETED \<longrightarrow>
       (cid, co_net_uctusd c) \<in> set (sy_burned y))"
proof -
  note p = sys_inv_parts [OF sys_reachable_inv [OF assms]]
  have net: "0 < co_net_uctusd c \<and> co_net_uctusd c \<le> co_uctusd_amount c" if "get_cash_out_row cid (sy_db y) = Some c" for cid c
    using app_inv_cash_out [OF p(1) that] by (simp add: cash_out_ok_def)
  have dist: "distinct (map fst (sy_burned y @ sy_lost y))"
    using p(5,7) by (auto simp: burns_ok_def unanswered_ok_def unanswered_def)
  have sized: "\<forall>(cid, a) \<in> set xs. \<exists>c. get_cash_out_row cid (sy_db y) = Some c \<and> a = co_net_uctusd c \<and>
       0 < a \<and> a \<le> co_uctusd_amount c \<and> co_status c \<in> S"
    if rows: "\<forall>(cid, a) \<in> set xs. \<exists>c. get_cash_out_row cid (sy_db y) = Some c \<and> a = co_net_uctusd c \<and> co_status c \<in> S"
    for xs S
  proof (intro ballI, clarify)
    fix cid a assume "(cid, a) \<in> set xs"
    then obtain c where "get_cash_out_row cid (sy_db y) = Some c" "a = co_net_uctusd c" "co_status c \<in> S"
      using rows by blast
    then show "\<exists>c. get_cash_out_row cid (sy_db y) = Some c \<and> a = co_net_uctusd c \<and>
       0 < a \<and> a \<le> co_uctusd_amount c \<and> co_status c \<in> S" using net by blast
  qed
  have seen: "\<forall>(cid, a) \<in> set (sy_burned y). \<exists>c. get_cash_out_row cid (sy_db y) = Some c \<and> a = co_net_uctusd c \<and>
       0 < a \<and> a \<le> co_uctusd_amount c \<and> co_status c \<in> {CO_PROCESSING, CO_COMPLETED}"
    by (rule sized) (use p(5) in \<open>simp add: burns_ok_def\<close>)
  have "\<forall>(cid, a) \<in> set (unanswered y). \<exists>c. get_cash_out_row cid (sy_db y) = Some c \<and> a = co_net_uctusd c \<and>
       0 < a \<and> a \<le> co_uctusd_amount c \<and> co_status c \<in> {CO_PROCESSING, CO_FAILED}"
    by (rule sized) (use p(7) in \<open>simp add: unanswered_ok_def\<close>)
  then have lost: "\<forall>(cid, a) \<in> set (sy_lost y). \<exists>c. get_cash_out_row cid (sy_db y) = Some c \<and> a = co_net_uctusd c \<and>
       0 < a \<and> a \<le> co_uctusd_amount c \<and> co_status c \<in> {CO_PROCESSING, CO_FAILED}"
    by (simp add: unanswered_def)
  have "(cid, co_net_uctusd c) \<in> set (sy_burned y)"
    if c: "get_cash_out_row cid (sy_db y) = Some c" "co_status c = CO_COMPLETED" for cid c
  proof -
    obtain a where a: "(cid, a) \<in> set (sy_burned y)"
      using p(8) c by (auto simp: completed_ok_def cash_out_status_of_def)
    then have "a = co_net_uctusd c" using p(5) c(1) by (fastforce simp: burns_ok_def)
    then show ?thesis using a by simp
  qed
  then show ?thesis using dist seen lost by simp
qed

lemma demo_reach_approved:
  "\<exists>d c. sys_reachable demo_settings (sys_at d [(10, demo_amount)] [] [10]) \<and>
     get_cash_out_row (co_id c) d = Some c \<and> co_status c = CO_APPROVED \<and> co_uctusd_amount c = 20 \<and>
     co_user_id c = 2 \<and> uct_claims d = demo_amount - 20"
proof -
  obtain d w where r0: "sys_reachable demo_settings (sys_at d [(10, demo_amount)] [] [10])"
    and co: "cash_outs d = []" and w: "wallet_of 2 d = Some w" "held (wal_id w) SETTLEMENT_CURRENCY d = demo_amount"
    and cl: "uct_claims d = demo_amount"
    using demo_reach_settled by blast
  let ?y = "\<lambda>d. sys_at d [(10, demo_amount)] [] [10]"
  have inv: "app_inv demo_settings d" using sys_inv_parts(1) [OF sys_reachable_inv [OF r0]] by simp
  have n: "replayed_cash_out 2 None d = None" by (simp add: replayed_cash_out_def)
  have c: "py_upper (py_strip ''USD'') \<in> set (payout_currencies demo_settings)"
    unfolding payout_currencies_demo by code_simp
  obtain c d1 where run: "request_cash_out demo_settings 2 20 ''USD'' (37/2) None 0 d = Inr (c, d1)"
    using request_outcome(2) [OF inv corridor_demo demo_request_ok(1) n c demo_priced(1) w(1), of 0] w(2) by auto
  note f = request_new_app [OF run n inv demo_request_ok(1)]
  have r1: "sys_reachable demo_settings (?y d1)"
    using reach_step [OF r0 request [OF demo_request_ok(1), of 2 "''USD''" None 0 "?y d" c d1]] run by simp
  have row: "get_cash_out_row (co_id c) d1 = Some c" by (rule app_inv_get_cash_out [OF f(1)]) (simp add: f(2))
  define d2 where "d2 = put_cash_out (co_id c) (\<lambda>x. x\<lparr>co_status := CO_APPROVED, co_approved_at := Some 1\<rparr>) d1"
  have r2: "sys_reachable demo_settings (?y d2)"
    using reach_step [OF r1 approve [of c "?y d1" 1 d2]] row f(4) by (simp add: approve_cash_out_def d2_def)
  define c2 where "c2 = c\<lparr>co_status := CO_APPROVED, co_approved_at := Some 1\<rparr>"
  have row2: "get_cash_out_row (co_id c2) d2 = Some c2"
    using co_store.get_put_same [of "\<lambda>x. x\<lparr>co_status := CO_APPROVED, co_approved_at := Some 1\<rparr>" "co_id c" d1 c] row
    by (simp add: d2_def c2_def)
  have "uct_claims d2 = uct_claims d1" by (simp add: d2_def uct_claims_def)
  then show ?thesis using r2 row2 f(5,6,10) cl
    by (intro exI [of _ d2] exI [of _ c2]) (simp add: c2_def)
qed

lemma demo_reach_burned:
  "\<exists>y c. sys_reachable demo_settings y \<and> sy_burned y = [(co_id c, co_net_uctusd c)] \<and>
     get_cash_out_row (co_id c) (sy_db y) = Some c \<and> co_status c = CO_PROCESSING \<and> sy_jobs y = [JBurned (co_id c) ''B'']"
proof -
  obtain d2 and c2 :: cash_out where r2: "sys_reachable demo_settings (sys_at d2 [(10, demo_amount)] [] [10])"
    and row2: "get_cash_out_row (co_id c2) d2 = Some c2" and st: "co_status c2 = CO_APPROVED"
    using demo_reach_approved by blast
  let ?y = "\<lambda>d js. sys_at d [(10, demo_amount)] js [10]"
  have inv2: "app_inv demo_settings d2" using sys_inv_parts(1) [OF sys_reachable_inv [OF r2]] by simp
  have win: "fst (claim_cash_out (co_id c2) d2)"
    using claim_cash_out_wins [OF app_inv_distinct(2) [OF inv2]] row2 st by simp
  define d3 where "d3 = snd (claim_cash_out (co_id c2) d2)"
  define c3 where "c3 = c2\<lparr>co_status := CO_PROCESSING\<rparr>"
  have row3: "get_cash_out_row (co_id c2) d3 = Some c3"
    using claim_cash_out_row [OF win inv2] row2 unfolding d3_def c3_def by auto
  have cl: "claim_cash_out (co_id c2) d2 = (True, d3)" using win by (simp add: d3_def prod_eq_iff)
  have r3: "sys_reachable demo_settings (?y d3 [JBurning (co_id c2)])"
    using reach_step [OF r2 claim_burn [of "co_id c2" "?y d2 []" d3]] cl by simp
  have "sys_reachable demo_settings ((?y d3 [JBurned (co_id c2) ''B''])\<lparr>sy_burned := [(co_id c2, co_net_uctusd c3)]\<rparr>)"
    using reach_step [OF r3 burned [of "co_id c2" "?y d3 [JBurning (co_id c2)]" c3 demo_settings "''B''"]] row3
    by (simp add: sys_at_def)
  moreover have "co_id c3 = co_id c2" "co_status c3 = CO_PROCESSING" by (simp_all add: c3_def)
  ultimately show ?thesis using row3
    by (intro exI [of _ "(?y d3 [JBurned (co_id c2) ''B''])\<lparr>sy_burned := [(co_id c2, co_net_uctusd c3)]\<rparr>"] exI [of _ c3])
      (simp add: sys_at_def)
qed

theorem burned_once_witness:
  "\<exists>y cid a. sys_reachable demo_settings y \<and> (cid, a) \<in> set (sy_burned y) \<and> 0 < a"
proof -
  obtain y and c :: cash_out where y: "sys_reachable demo_settings y" "sy_burned y = [(co_id c, co_net_uctusd c)]"
    using demo_reach_burned by blast
  from burned_once [OF y(1)] have "0 < co_net_uctusd c" by (auto simp: y(2))
  then show ?thesis using y by (intro exI [of _ y] exI [of _ "co_id c"] exI [of _ "co_net_uctusd c"]) simp
qed

section \<open>Where the stores disagree\<close>

text \<open>
  Publishing before committing can overwrite a finished remittance. The worker may claim,
  pay and credit a remittance between the publication of its message and the commit of QUEUED;
  the commit then turns the SETTLED row back to QUEUED although its credit stands, and the next
  delivery of a message claims it again.
\<close>

theorem queued_after_credit:
  "\<exists>y. sys_reachable demo_settings y \<and> status_of 10 (sy_db y) = Some QUEUED \<and>
     (\<exists>e \<in> set (wallet_transactions (sy_db y)). credited 10 e) \<and> fst (claim 10 False (sy_db y))"
proof -
  obtain d e where d: "sys_reachable demo_settings (sys_at d [(10, demo_amount)] [] [10])"
    "status_of 10 d = Some SETTLED" "e \<in> set (wallet_transactions d)" "credited 10 e"
    using demo_reach_settled by auto
  let ?d = "put_remittance 10 (\<lambda>x. x\<lparr>rem_status := QUEUED\<rparr>) d"
  have "sys_step demo_settings (sys_at d [(10, demo_amount)] [] [10]) (sys_at ?d [(10, demo_amount)] [] [])"
    using mark [of 10 "sys_at d [(10, demo_amount)] [] [10]" demo_settings] by simp
  note r = reach_step [OF d(1) this]
  have inv: "app_inv demo_settings ?d" using sys_inv_parts(1) [OF sys_reachable_inv [OF r]] by simp
  obtain row where row: "get_remittance 10 ?d = Some row" "rem_status row = QUEUED"
    using d(2) by (auto simp: status_of_def rem_store.get_put)
  have "fst (claim 10 False ?d)"
    using claim_wins [OF app_inv_distinct(1) [OF inv]] row by (auto simp: claimable_states_def CLAIMABLE_def)
  then show ?thesis using r d(3,4) row by (intro exI [of _ "sys_at ?d [(10, demo_amount)] [] []"]) (fastforce simp: status_of_def)
qed

lemma reclaim_keeps:
  assumes "app_inv s d" "get_remittance rid d = Some r" "rem_status r = SETTLING"
  shows "claim rid True d = (True, d)"
proof -
  have w: "fst (claim rid True d)"
    using claim_wins [OF app_inv_distinct(1) [OF assms(1)]] assms(2,3)
    by (auto simp: claimable_states_def RECLAIMABLE_def)
  have same: "(if rem_status z \<in> set (claimable_states True) then z\<lparr>rem_status := SETTLING\<rparr> else z) = z"
    if "z \<in> set (remittances d)" "rem_id z = rid" for z
    using row_unique [OF assms(1,2) that] assms(3) by simp
  have "snd (claim rid True d) = d"
    unfolding claim_put put_remittance_def put_by_def update_where_def
    using same by (simp add: map_idI)
  then show ?thesis using w by (metis prod.collapse)
qed

text \<open>
  C22. Taking over from a worker that stopped pays a second time. Whenever a worker has the network's
  answer to its payment for a row still SETTLING and stops before it records it: the message delivered
  again in the ordinary way is skipped, but taken over as abandoned it is claimed from SETTLING and
  settled by \<open>settle\<close> with a second payment of the full amount, a run of the system after which the
  pool has been sent the amount twice and the users hold it at most once.
\<close>

theorem paid_twice:
  assumes "sys_reachable s y" "JPaid rid uid h a \<in> set (sy_jobs y)"
    "get_remittance rid (sy_db y) = Some r" "rem_status r = SETTLING" "message_remittance_id m = Some rid"
    "resolve_recipient r (sy_db y) = Inr u"
    "pool_of SEND_POOL (sy_db y) = Some sp" "pool_of PAYOUT_POOL (sy_db y) = Some pp"
    "send_pooled_payment lib s svc sp (pw_xrpl_address pp) (token_str a) x = (Inr h', x')"
  shows "\<exists>z y'. sys_step s y z \<and> sy_db z = sy_db y \<and> sy_jobs z = remove1 (JPaid rid uid h a) (sy_jobs y) \<and>
    (rid, a) \<in> set (sy_paid z) \<and>
    settle lib s svc m False now (sy_db z) x = ((Inr OUT_SKIPPED, sy_db z), x) \<and>
    snd (settle lib s svc m True now (sy_db z) x) = x' \<and>
    (sys_step s)\<^sup>*\<^sup>* z y' \<and> sy_db y' = snd (fst (settle lib s svc m True now (sy_db z) x)) \<and>
    sy_paid y' = (rid, a) # sy_paid z \<and> pool y' = pool y + a \<and>
    uct_claims (sy_db y') \<le> uct_claims (sy_db y) + a"
proof -
  note inv = sys_reachable_inv [OF assms(1)]
  note app = sys_inv_parts(1) [OF inv]
  have ok: "confirmed rid (sy_db y)" "(rid, a) \<in> set (sy_paid y)" "rem_uctusd_amount r = a" "0 \<le> a"
    using sys_inv_parts(2) [OF inv assms(2)] assms(3) by auto
  have skip: "settle lib s svc m False now (sy_db y) x = ((Inr OUT_SKIPPED, sy_db y), x)"
    by (rule settle_skips [OF app assms(5)])
      (auto simp: status_of_def assms(3,4) claimable_states_def CLAIMABLE_def)
  note cl = reclaim_keeps [OF app assms(3,4)]
  obtain res d where rec: "record_success s r (usr_id u) h' now (sy_db y) = (res, d)"
    by (cases "record_success s r (usr_id u) h' now (sy_db y)")
  have run: "settle lib s svc m True now (sy_db y) x = ((res, d), x')"
    using assms(3,5-9) ok(3) rec by (simp add: settle_def cl settle_claimed_def load_pool_def)
  define z where "z = y\<lparr>sy_jobs := remove1 (JPaid rid uid h a) (sy_jobs y)\<rparr>"
  define z1 where "z1 = z\<lparr>sy_jobs := JClaimed rid # sy_jobs z\<rparr>"
  define z2 where "z2 = z1\<lparr>sy_paid := (rid, a) # sy_paid z1, sy_jobs := JPaid rid (usr_id u) h' a # remove1 (JClaimed rid) (sy_jobs z1)\<rparr>"
  define y' where "y' = z2\<lparr>sy_db := d, sy_jobs := remove1 (JPaid rid (usr_id u) h' a) (sy_jobs z2)\<rparr>"
  have "sys_step s y z" unfolding z_def by (rule crash)
  moreover have "sys_step s z z1" using claim [of rid True z "sy_db y" s] cl by (simp add: z1_def z_def)
  moreover have "sys_step s z1 z2" unfolding z2_def
    using pay [of rid z1 r s "usr_id u" h'] assms(3) ok(3) by (simp add: z1_def z_def)
  moreover have "sys_step s z2 y'" unfolding y'_def
    by (rule recorded [of rid "usr_id u" h' a z2 r s now res d]) (use assms(3) rec in \<open>simp_all add: z2_def z1_def z_def\<close>)
  moreover have "uct_claims d \<le> uct_claims (sy_db y) + a"
    using recorded_app [OF inv ok(1,3,4) assms(3) rec] by blast
  ultimately show ?thesis using skip run ok(2)
    by (intro exI [of _ z] exI [of _ y'])
      (auto simp: y'_def z2_def z1_def z_def pool_def intro: rtranclp.intros)
qed

text \<open>The run on which it happens: both pools are opened between the payment and the crash.\<close>

lemma demo_reach_paid_pools:
  defines "d \<equiv> (demo_sys_db demo_settling)\<lparr>platform_wallets := [demo_pool 6 SEND_POOL, demo_pool 7 PAYOUT_POOL]\<rparr>"
  shows "sys_reachable s (sys_at d [(10, demo_amount)] [JPaid 10 2 ''H'' demo_amount] [10])"
    "get_remittance 10 d = Some demo_settling" "pool_of SEND_POOL d = Some (demo_pool 6 SEND_POOL)"
    "pool_of PAYOUT_POOL d = Some (demo_pool 7 PAYOUT_POOL)"
    "resolve_recipient demo_settling d = Inr (demo_user 2 ''Bob@x.org'')"
proof -
  have "accounts_change (demo_sys_db demo_settling) d" by (simp add: accounts_change_def d_def)
  then show "sys_reachable s (sys_at d [(10, demo_amount)] [JPaid 10 2 ''H'' demo_amount] [10])"
    using reach_step [OF demo_reach_paid accounts [of "sys_at (demo_sys_db demo_settling) [(10, demo_amount)]
      [JPaid 10 2 ''H'' demo_amount] [10]" d s]] by simp
  show "get_remittance 10 d = Some demo_settling"
    using get_demo_sys [of demo_settling] by (simp add: d_def get_remittance_def)
  show "pool_of SEND_POOL d = Some (demo_pool 6 SEND_POOL)" "pool_of PAYOUT_POOL d = Some (demo_pool 7 PAYOUT_POOL)"
    by (simp_all add: d_def pool_of_def demo_pool_def get_by_Cons)
  show "resolve_recipient demo_settling d = Inr (demo_user 2 ''Bob@x.org'')"
    using demo_at_recipient [of SETTLING SETTLING]
    by (auto simp: resolve_recipient_def d_def demo_sys_db_def demo_at_def demo_settling_def demo_confirmed_def
        demo_new_def demo_row_def demo_remittance_def get_beneficiary_row_def user_by_contact_def ebind_eq_Inr some_or_eq_Inr)
qed

theorem paid_twice_witness:
  "\<exists>d y'. settle demo_lib demo_settings demo_svc (settlement_message ''k'' 10) False 300 d 1 = ((Inr OUT_SKIPPED, d), 1) \<and>
     snd (settle demo_lib demo_settings demo_svc (settlement_message ''k'' 10) True 300 d 1) = 2 \<and>
     sys_reachable demo_settings y' \<and> (10, demo_amount) \<in> set (sy_paid y') \<and> pool y' = 2 * demo_amount \<and>
     uct_claims (sy_db y') \<le> demo_amount"
proof -
  let ?d = "(demo_sys_db demo_settling)\<lparr>platform_wallets := [demo_pool 6 SEND_POOL, demo_pool 7 PAYOUT_POOL]\<rparr>"
  let ?y = "sys_at ?d [(10, demo_amount)] [JPaid 10 2 ''H'' demo_amount] [10]"
  note r = demo_reach_paid_pools
  have m: "message_remittance_id (settlement_message ''k'' 10) = Some 10"
    by (simp add: message_remittance_id_def settlement_message_def message_get_def truthy_def) code_simp
  have z: "uct_claims ?d = 0" by (simp add: uct_claims_def demo_sys_db_def demo_db_def empty_db_def)
  have pay: "send_pooled_payment demo_lib demo_settings demo_svc (demo_pool 6 SEND_POOL)
      (pw_xrpl_address (demo_pool 7 PAYOUT_POOL)) (token_str demo_amount) 1 = (Inr ''H'', 2)"
    using demo_pay [of demo_settings _ _ _ 1] by simp
  have job: "JPaid 10 2 ''H'' demo_amount \<in> set (sy_jobs ?y)" by simp
  have db: "sy_db ?y = ?d" by simp
  obtain z y' where zy: "sys_step demo_settings ?y z" "sy_db z = ?d" "sy_jobs z = remove1 (JPaid 10 2 ''H'' demo_amount) (sy_jobs ?y)"
    "(10, demo_amount) \<in> set (sy_paid z)"
    "settle demo_lib demo_settings demo_svc (settlement_message ''k'' 10) False 300 (sy_db z) 1 = ((Inr OUT_SKIPPED, sy_db z), 1)"
    "snd (settle demo_lib demo_settings demo_svc (settlement_message ''k'' 10) True 300 (sy_db z) 1) = 2"
    "(sys_step demo_settings)\<^sup>*\<^sup>* z y'" "sy_paid y' = (10, demo_amount) # sy_paid z"
    "pool y' = pool ?y + demo_amount" "uct_claims (sy_db y') \<le> uct_claims ?d + demo_amount"
    using paid_twice [OF r(1) job _ _ m, unfolded db, OF r(2) demo_new_fields(6) r(5,3,4) pay, of 300] by blast
  have "sys_reachable demo_settings y'"
    using r(1) zy(1,7) unfolding sys_reachable_def by (meson rtranclp.rtrancl_into_rtrancl rtranclp_trans)
  moreover have "(10, demo_amount) \<in> set (sy_paid y')" "pool y' = 2 * demo_amount"
    using zy(4,8,9) by (simp_all add: pool_def)
  ultimately show ?thesis using zy(2,5,6,8,10) z by (intro exI [of _ ?d] exI [of _ y']) simp
qed

text \<open>
  A burn whose answer is lost is refunded although it may land. If the worker's burn of an approved
  cash-out ends in an exception and it records the failure, then whatever became of the submission, the
  run is one of the system on which the burn lands: the pool has paid the net amount to the issuer, the
  user has the whole amount back, and the cash-out is FAILED.
\<close>

theorem lost_burn_refunded:
  assumes "sys_reachable s y" "claim_cash_out cid (sy_db y) = (True, d1)" "get_cash_out_row cid d1 = Some c"
    "pool_of PAYOUT_POOL d1 = Some pp" "burn lib s svc pp (token_str (co_net_uctusd c)) x = (Inl e, x')"
    "burn_claimed lib s svc c now d1 x = ((Inr OUT_FAILED, d), x1)"
  shows "\<exists>y'. (sys_step s)\<^sup>*\<^sup>* y y' \<and> sy_db y' = d \<and> x1 = x' \<and> sy_lost y' = (cid, co_net_uctusd c) # sy_lost y \<and>
    cash_out_status_of cid d = Some CO_FAILED \<and> pool y' = pool y - co_net_uctusd c \<and>
    uct_balances d = uct_balances (sy_db y) + co_uctusd_amount c"
proof -
  note app = sys_inv_parts(1) [OF sys_reachable_inv [OF assms(1)]]
  note f = claim_cash_out_app [OF app, of cid, unfolded assms(2) snd_conv]
  have id: "co_id c = cid" using app_inv_cash_out [OF f(1) assms(3)] by simp
  have run: "fail_claimed_cash_out s cid (failure_text e) now d1 = (Inr OUT_FAILED, d)" "x1 = x'"
    using assms(4-6) id by (simp_all add: burn_claimed_def load_pool_def)
  have row: "get_cash_out_row (co_id c) d1 = Some c" using assms(3) id by simp
  have "fail_cash_out s c (failure_text e) now [CO_PROCESSING] d1 = Inr d"
    using run(1) assms(3) by (auto simp: fail_claimed_cash_out_def ebind_def some_or_def split: sum.splits)
  note g = fail_app [OF this f(1) row]
  define y1 where "y1 = y\<lparr>sy_db := d1, sy_jobs := JBurning cid # sy_jobs y\<rparr>"
  define y2 where "y2 = y1\<lparr>sy_sent := SentBurn cid (co_net_uctusd c) # sy_sent y1,
      sy_jobs := JBurnUnanswered cid # remove1 (JBurning cid) (sy_jobs y1)\<rparr>"
  define y3 where "y3 = y2\<lparr>sy_lost := (cid, co_net_uctusd c) # sy_lost y2,
      sy_sent := remove1 (SentBurn cid (co_net_uctusd c)) (sy_sent y2)\<rparr>"
  define y4 where "y4 = y3\<lparr>sy_db := d, sy_jobs := remove1 (JBurnUnanswered cid) (sy_jobs y3)\<rparr>"
  have "sys_step s y y1" unfolding y1_def by (rule claim_burn [OF assms(2)])
  moreover have "sys_step s y1 y2" unfolding y2_def using burn_lost [of cid y1 c s] assms(3) by (simp add: y1_def)
  moreover have "sys_step s y2 y3" unfolding y3_def by (rule burn_lands) (simp add: y2_def)
  moreover have "sys_step s y3 y4" unfolding y4_def
    by (rule burn_failed [of "JBurnUnanswered cid" cid y3 s "failure_text e" now "Inr OUT_FAILED" d])
      (use run(1) in \<open>simp_all add: y3_def y2_def y1_def\<close>)
  ultimately have steps: "(sys_step s)\<^sup>*\<^sup>* y y4" by auto
  have "uct_claims d = uct_claims (sy_db y) + co_uctusd_amount c" using g(3) f(2) by (simp add: uct_claims_def)
  then have "uct_balances d = uct_balances (sy_db y) + co_uctusd_amount c"
    using uct_claims_balances [OF app_inv_ledger_inv(1)] g(1) app by metis
  moreover have "cash_out_status_of cid d = Some CO_FAILED"
    using g(5) row id by (auto simp: cash_out_status_of_def get_cash_out_row_def get_by_put_by)
  ultimately show ?thesis using steps run(2)
    by (intro exI [of _ y4]) (simp add: y4_def y3_def y2_def y1_def pool_def)
qed

text \<open>A network that takes every submission and never answers.\<close>

definition silent_lib :: "nat xrpl_lib" where
  "silent_lib = demo_lib\<lparr>lib_submit := (\<lambda>tx seed n. (SubmitRaises ''TimeoutError'', Suc n))\<rparr>"

lemma silent_burn: "\<exists>e. burn silent_lib s demo_svc w amount n = (Inl e, Suc n)"
  by (simp add: burn_def with_seed_def seed_for_def decrypt_seed_def silent_lib_def demo_lib_def
      send_payment_def sign_and_submit_def submit_def)

lemma held_le_claims:
  assumes "ledger_inv s d"
  shows "held w SETTLEMENT_CURRENCY d \<le> uct_claims d"
proof -
  have nonneg: "0 \<le> bal_amount b" if "b \<in> set (ledger_balances d)" for b
    using assms that by (auto simp: ledger_inv_def ledger_shape_def balances_ok_def balance_ok_def)
  have "held w SETTLEMENT_CURRENCY d \<le> uct_balances d"
  proof (cases "balance_row w SETTLEMENT_CURRENCY d")
    case None
    then show ?thesis using nonneg by (auto simp: held_def uct_balances_def intro!: sum_list_nonneg)
  next
    case (Some b)
    then have b: "b \<in> set (ledger_balances d)" "bal_currency b = SETTLEMENT_CURRENCY"
      by (auto simp: balance_row_def bal_key_def dest!: get_by_Some)
    have "(if bal_currency b = SETTLEMENT_CURRENCY then bal_amount b else 0) \<le> uct_balances d"
      unfolding uct_balances_def using b(1) nonneg by (intro member_le_sum_list) auto
    then show ?thesis using b(2) Some by (simp add: held_def)
  qed
  then show ?thesis using uct_claims_balances [OF assms] by simp
qed

theorem lost_burn_refunded_witness:
  "\<exists>y y' cid. sys_reachable demo_settings y \<and> (sys_step demo_settings)\<^sup>*\<^sup>* y y' \<and>
     cash_out_status_of cid (sy_db y') = Some CO_FAILED \<and> cid \<in> fst ` set (sy_lost y') \<and>
     uct_balances (sy_db y') = demo_amount \<and> pool y' < uct_balances (sy_db y')"
proof -
  obtain d0 c0 where r0: "sys_reachable demo_settings (sys_at d0 [(10, demo_amount)] [] [10])"
    and c0: "get_cash_out_row (co_id c0) d0 = Some c0" "co_status c0 = CO_APPROVED" "co_uctusd_amount c0 = 20" "co_user_id c0 = 2"
    and cl0: "uct_claims d0 = demo_amount - 20"
    using demo_reach_approved by blast
  define d where "d = d0\<lparr>users := users demo_db, platform_wallets := [demo_pool 7 PAYOUT_POOL]\<rparr>"
  let ?y = "sys_at d [(10, demo_amount)] [] [10]"
  have "accounts_change d0 d" by (simp add: accounts_change_def d_def)
  then have r: "sys_reachable demo_settings ?y"
    using reach_step [OF r0 accounts [of "sys_at d0 [(10, demo_amount)] [] [10]" d demo_settings]] by simp
  have app: "app_inv demo_settings d" using sys_inv_parts(1) [OF sys_reachable_inv [OF r]] by simp
  have row: "get_cash_out_row (co_id c0) d = Some c0" using c0(1) by (simp add: d_def get_cash_out_row_def)
  have cl: "uct_claims d = demo_amount - 20" using cl0 by (simp add: d_def uct_claims_def)
  have win: "fst (claim_cash_out (co_id c0) d)"
    using claim_cash_out_wins [OF app_inv_distinct(2) [OF app]] row c0(2) by simp
  define d1 where "d1 = snd (claim_cash_out (co_id c0) d)"
  define c where "c = c0\<lparr>co_status := CO_PROCESSING\<rparr>"
  have claim: "claim_cash_out (co_id c0) d = (True, d1)" using win by (simp add: d1_def prod_eq_iff)
  have row1: "get_cash_out_row (co_id c0) d1 = Some c"
    using claim_cash_out_row [OF win app] row unfolding d1_def c_def by auto
  note f = claim_cash_out_app [OF app, of "co_id c0", unfolded claim snd_conv]
  have pp: "pool_of PAYOUT_POOL d1 = Some (demo_pool 7 PAYOUT_POOL)"
    using claimed_cash_out_frame(1) [OF claim] by (simp add: d_def pool_of_def demo_pool_def get_by_Cons)
  have "users d1 = users demo_db" unfolding d1_def claim_cash_out_put by (simp add: d_def put_cash_out_def)
  then have u: "get_user (co_user_id c) d1 = Some (demo_user 2 ''Bob@x.org'')"
    using c0(4) by (simp add: c_def get_user_def demo_db_def get_by_Cons demo_user_def)
  have cl1: "uct_claims d1 = demo_amount - 20" using cl f(2) by (simp add: uct_claims_def)
  have "held w SETTLEMENT_CURRENCY d1 + co_uctusd_amount c < 10 ^ 12" for w
    using held_le_claims [OF app_inv_ledger_inv(1) [OF f(1)], of w] cl1 c0(3) by (simp add: c_def)
  moreover obtain e where e: "burn silent_lib demo_settings demo_svc (demo_pool 7 PAYOUT_POOL) (token_str (co_net_uctusd c)) 0 = (Inl e, 1)"
    using silent_burn [of demo_settings "demo_pool 7 PAYOUT_POOL" "token_str (co_net_uctusd c)" 0] by auto
  moreover have ok: "cash_out_ok demo_settings c" using app_inv_cash_out [OF f(1) row1] by simp
  ultimately obtain d2 where "fail_cash_out demo_settings c (failure_text e) 300 [CO_PROCESSING] d1 = Inr d2"
    using fail_outcome [OF f(1) corridor_demo u _ ok, where states = "[CO_PROCESSING]" and reason = "failure_text e"
        and now = 300] by (auto simp: c_def)
  then have burnt: "burn_claimed silent_lib demo_settings demo_svc c 300 d1 0 = ((Inr OUT_FAILED, d2), 1)"
    using pp e row1 by (simp add: burn_claimed_def load_pool_def fail_claimed_cash_out_def c_def)
  have "claim_cash_out (co_id c0) (sy_db ?y) = (True, d1)" using claim by simp
  from lost_burn_refunded [OF r this row1 pp e burnt]
  obtain y' where y': "(sys_step demo_settings)\<^sup>*\<^sup>* ?y y'" "sy_db y' = d2"
    "sy_lost y' = (co_id c0, co_net_uctusd c) # sy_lost ?y" "cash_out_status_of (co_id c0) d2 = Some CO_FAILED"
    "pool y' = pool ?y - co_net_uctusd c" "uct_balances d2 = uct_balances (sy_db ?y) + co_uctusd_amount c" by blast
  have "uct_balances d2 = demo_amount"
    using y'(6) uct_claims_balances [OF app_inv_ledger_inv(1) [OF app]] cl c0(3) by (simp add: c_def)
  moreover have "pool y' < demo_amount" using y'(5) ok by (simp add: pool_def cash_out_ok_def)
  ultimately show ?thesis using r y'(1-4)
    by (intro exI [of _ ?y] exI [of _ y'] exI [of _ "co_id c0"]) simp
qed

definition stranded :: "uuid \<Rightarrow> sys \<Rightarrow> bool" where
  "stranded cid y \<longleftrightarrow> cash_out_status_of cid (sy_db y) = Some CO_PROCESSING \<and>
     cid \<notin> set (concat (map burn_job (sy_jobs y)))"

lemma stranded_same:
  assumes "stranded cid y" "cash_outs (sy_db y') = cash_outs (sy_db y)"
    "set (concat (map burn_job (sy_jobs y'))) \<subseteq> set (concat (map burn_job (sy_jobs y)))"
  shows "stranded cid y'"
  using assms by (auto simp: stranded_def cash_out_status_of_def get_cash_out_row_def)

lemma stranded_put:
  assumes "stranded cid y" "cash_outs (sy_db y') = put_by co_id k f (cash_outs (sy_db y))" "k \<noteq> cid"
    "\<And>x. co_id (f x) = co_id x"
    "set (concat (map burn_job (sy_jobs y'))) \<subseteq> set (concat (map burn_job (sy_jobs y))) \<union> {k}"
  shows "stranded cid y'"
  using assms by (auto simp: stranded_def cash_out_status_of_def get_cash_out_row_def get_by_put_by)

lemma burn_jobs_remove_sub: "set (concat (map burn_job (remove1 j js))) \<subseteq> set (concat (map burn_job js))"
  by (auto dest: in_remove1)

text \<open>A transaction on the row it holds concerns another cash-out, when the row is not PROCESSING or has a job.\<close>

lemma stranded_other:
  assumes "stranded cid y" "get_cash_out_row k (sy_db y) = Some c" "co_status c \<noteq> CO_PROCESSING"
  shows "k \<noteq> cid"
  using assms by (auto simp: stranded_def cash_out_status_of_def)

lemma stranded_other_job:
  assumes "stranded cid y" "j \<in> set (sy_jobs y)" "burn_job j = [k]" shows "k \<noteq> cid"
  using assms by (force simp: stranded_def)

lemma stranded_step:
  assumes "sys_step s y y'" "sys_inv s y" "stranded cid y"
  shows "stranded cid y'"
  using assms
proof (induction rule: sys_step.induct)
  case (accounts y d)
  then show ?case by (intro stranded_same [OF accounts(3)]) (auto simp: accounts_change_def)
next
  case (wallet uid now y w d)
  then show ?case using wallet_for_app(4) [OF wallet(1) sys_inv_parts(1) [OF wallet(2)]]
    by (intro stranded_same [OF wallet(3)]) (auto simp: ledger_only_def)
next
  case (review k y c a)
  then show ?case by (auto simp: stranded_def cash_out_status_of_def co_store.get_put)
next
  case (cash_in r y m now b d)
  then show ?case
    using simulate_cash_in_app(3) [OF cash_in(2) sys_inv_parts(1) [OF cash_in(3)] cash_in(1)]
    by (intro stranded_same [OF cash_in(4)]) auto
next
  case (claim rid reclaimed y d)
  have "d = snd (Worker.claim rid reclaimed (sy_db y))" using claim(1) by simp
  then show ?case using claim_app(3) [OF sys_inv_parts(1) [OF claim(2)]]
    by (intro stranded_same [OF claim(3)]) auto
next
  case (recorded rid uid h a y r now res d)
  note app = sys_inv_parts(1) [OF recorded(4)]
  have r: "get_remittance (rem_id r) (sy_db y) = Some r" using app_inv_remittance [OF app recorded(2)] recorded(2) by simp
  have conf: "rem_cash_in_confirmed_at r \<noteq> None"
    using sys_inv_parts(2) [OF recorded(4,1)] recorded(2) by (simp add: confirmed_def)
  have "cash_outs d = cash_outs (sy_db y)"
    using recorded(3)
  proof (cases rule: record_success_cases)
    case 2
    then show ?thesis by (rule success_writes_app(2) [OF _ app r refl conf])
  qed simp
  then show ?case by (intro stranded_same [OF recorded(5)]) (use burn_jobs_remove_sub in auto)
next
  case (failed j rid y reason who now res d)
  have "confirmed rid (sy_db y)" using sys_inv_parts(2) [OF failed(4,2)] failed(1) by auto
  from fail_settlement_app(2) [OF failed(3) sys_inv_parts(1) [OF failed(4)] this]
  show ?case by (intro stranded_same [OF failed(5)]) (use burn_jobs_remove_sub in auto)
next
  case (requeue r y d)
  then show ?case using requeue_app(3) [OF requeue(2) sys_inv_parts(1) [OF requeue(3)] requeue(1)]
    by (intro stranded_same [OF requeue(4)]) auto
next
  case (refund r y now d)
  then show ?case using refund_app [OF refund(2) sys_inv_parts(1) [OF refund(3)] refund(1)]
    by (intro stranded_same [OF refund(4)]) auto
next
  case (request u rate uid cur key now y c d)
  show ?case
  proof (cases "replayed_cash_out uid key (sy_db y)")
    case (Some c')
    then have "d = sy_db y" using request(2) request_replay [OF Some] by simp
    then show ?thesis using request(4) by simp
  next
    case None
    from request_new_app(2) [OF request(2) None sys_inv_parts(1) [OF request(3)] request(1)] request(4)
    show ?thesis by (auto simp: stranded_def cash_out_status_of_def get_cash_out_row_def get_by_append)
  qed
next
  case (approve c y now d)
  note a = approve_app [OF approve(2) sys_inv_parts(1) [OF approve(3)]]
  have "co_id c \<noteq> cid" by (rule stranded_other [OF approve(4,1)]) (simp add: a(4))
  then show ?case by (intro stranded_put [OF approve(4), where k = "co_id c" and
      f = "\<lambda>x. x\<lparr>co_status := CO_APPROVED, co_approved_at := Some now\<rparr>"]) (auto simp: a(5))
next
  case (reject c y reason now d)
  note a = fail_app [OF reject(2) sys_inv_parts(1) [OF reject(3)] reject(1)]
  have "co_id c \<noteq> cid" by (rule stranded_other [OF reject(4,1)]) (use a(4) in \<open>auto simp: ADMIN_FAIL_STATES_def\<close>)
  then show ?case using a(5) by (intro stranded_put [OF reject(4), where k = "co_id c" and
      f = "\<lambda>x. x\<lparr>co_status := CO_FAILED, co_failure_reason := Some (take 500 reason), co_completed_at := Some now\<rparr>"]) auto
next
  case (claim_burn k y d)
  have d: "d = snd (claim_cash_out k (sy_db y))" "fst (claim_cash_out k (sy_db y))" using claim_burn(1) by simp_all
  obtain c where c: "get_cash_out_row k (sy_db y) = Some c" "co_status c = CO_APPROVED"
    using claim_cash_out_wins [OF app_inv_distinct(2) [OF sys_inv_parts(1) [OF claim_burn(2)]]] d(2) by blast
  have "k \<noteq> cid" by (rule stranded_other [OF claim_burn(3) c(1)]) (simp add: c(2))
  then show ?case by (intro stranded_put [OF claim_burn(3), where k = k and
      f = "\<lambda>x. if co_status x = CO_APPROVED then x\<lparr>co_status := CO_PROCESSING\<rparr> else x"])
      (auto simp: d(1) claim_cash_out_put)
next
  case (burned k y c h)
  have "k \<noteq> cid" by (rule stranded_other_job [OF burned(4,1)]) simp
  then show ?case using burned(4) burn_jobs_remove_sub [of "JBurning k" "sy_jobs y"]
    by (auto simp: stranded_def dest: in_remove1)
next
  case (burn_lost k y c)
  have "k \<noteq> cid" by (rule stranded_other_job [OF burn_lost(4,1)]) simp
  then show ?case using burn_lost(4) burn_jobs_remove_sub [of "JBurning k" "sy_jobs y"]
    by (auto simp: stranded_def dest: in_remove1)
next
  case (burn_failed j k y reason now res d)
  have k: "k \<noteq> cid" by (rule stranded_other_job [OF burn_failed(5,2)]) (use burn_failed(1) in auto)
  from burn_failed(3) show ?case
  proof (cases rule: fail_claimed_cases)
    case 1
    then show ?thesis by (intro stranded_same [OF burn_failed(5)]) (use burn_jobs_remove_sub in auto)
  next
    case (2 c)
    note app = sys_inv_parts(1) [OF burn_failed(4)]
    have c: "co_id c = k" using app_inv_cash_out [OF app 2(1)] by simp
    note a = fail_app [OF 2(2) app, unfolded c, OF 2(1)]
    show ?thesis using a(5) k by (intro stranded_put [OF burn_failed(5), where k = k and
      f = "\<lambda>x. x\<lparr>co_status := CO_FAILED, co_failure_reason := Some (take 500 reason), co_completed_at := Some now\<rparr>"])
      (use burn_jobs_remove_sub in auto)
  qed
next
  case (complete k h y c now res d)
  have k: "k \<noteq> cid" by (rule stranded_other_job [OF complete(5,1)]) simp
  from complete(3) show ?case
  proof (cases rule: record_burn_cases)
    case 1
    then show ?thesis by (intro stranded_same [OF complete(5)]) (use burn_jobs_remove_sub in auto)
  next
    case 2
    note app = sys_inv_parts(1) [OF complete(4)]
    have c: "co_id c = k" using app_inv_cash_out [OF app complete(2)] by simp
    obtain e :: wallet_transaction where "cash_outs d = put_by co_id k (\<lambda>x. x\<lparr>co_credit_transaction_id := Some (wtx_id e),
            co_xrpl_tx_hash := Some h, co_status := CO_COMPLETED, co_completed_at := Some now\<rparr>) (cash_outs (sy_db y))"
      using complete_app(4) [OF 2 app, unfolded c, OF complete(2)] by blast
    then show ?thesis using k by (intro stranded_put [OF complete(5), where k = k and
      f = "\<lambda>x. x\<lparr>co_credit_transaction_id := Some (wtx_id e),
            co_xrpl_tx_hash := Some h, co_status := CO_COMPLETED, co_completed_at := Some now\<rparr>"])
      (use burn_jobs_remove_sub in auto)
  qed
next
  case (crash y j)
  then show ?case by (intro stranded_same [OF crash(2)]) (use burn_jobs_remove_sub in auto)
next
  case (pay rid y r uid h)
  then show ?case by (intro stranded_same [OF pay(4)]) (use burn_jobs_remove_sub in auto)
next
  case (pay_lost rid y r)
  then show ?case by (intro stranded_same [OF pay_lost(4)]) (use burn_jobs_remove_sub in auto)
qed (auto elim!: stranded_same)

interpretation stranded_run: transition_invariant "sys_step s" "\<lambda>y. sys_inv s y \<and> stranded cid y"
  by unfold_locales (blast intro: stranded_step sys_step_inv)

text \<open>
  C21. A cash-out whose worker died is stranded. Once a PROCESSING cash-out has no worker at it,
  no transaction the system has, by user, admin or worker, ever takes it out of PROCESSING: it is
  neither paid out nor given back.
\<close>

theorem stranded_forever:
  assumes "sys_reachable s y" "stranded cid y" "(sys_step s)\<^sup>*\<^sup>* y y'"
  shows "stranded cid y'"
  using stranded_run.run_inv [OF assms(3)] sys_reachable_inv [OF assms(1)] assms(2) by blast

theorem stranded_forever_witness:
  "\<exists>y cid. sys_reachable demo_settings y \<and> stranded cid y \<and> cid \<in> fst ` set (sy_burned y)"
proof -
  obtain y and c :: cash_out where y: "sys_reachable demo_settings y" "sy_burned y = [(co_id c, co_net_uctusd c)]"
    "get_cash_out_row (co_id c) (sy_db y) = Some c" "co_status c = CO_PROCESSING" "sy_jobs y = [JBurned (co_id c) ''B'']"
    using demo_reach_burned by blast
  let ?y = "y\<lparr>sy_jobs := remove1 (JBurned (co_id c) ''B'') (sy_jobs y)\<rparr>"
  have r: "sys_reachable demo_settings ?y" by (rule reach_step [OF y(1) crash])
  have "stranded (co_id c) ?y" using y(3-5) by (simp add: stranded_def cash_out_status_of_def)
  from stranded_forever [OF r this rtranclp.rtrancl_refl] r y(2) show ?thesis by force
qed


text \<open>
  C23. Two admins rejecting one cash-out at the same moment refund it twice. Both requests read the
  row REQUESTED before either commits, and nothing in the second transaction looks at the row
  again: its credit of the gross goes through on the balance the first one left, so the user ends
  with twice what was reserved and the claims exceed what they were before the request.
\<close>

theorem concurrent_rejects_refund_twice:
  assumes "app_inv s d" "get_cash_out_row (co_id c) d = Some c"
    "fail_cash_out s c reason now ADMIN_FAIL_STATES d = Inr d1"
    "fail_cash_out s c reason' now' ADMIN_FAIL_STATES d1 = Inr d2"
  shows "uct_claims d2 = uct_claims d + 2 * co_uctusd_amount c \<and> 0 < co_uctusd_amount c \<and> app_inv s d2"
proof -
  note a = fail_app [OF assms(3,1,2)]
  have ok: "cash_out_ok s c" using app_inv_cash_out [OF assms(1,2)] by simp
  then have sc: "scaled 6 (co_uctusd_amount c)" by (simp add: cash_out_ok_def token_amount_ok_def)
  obtain usr :: user and w d3 e d4 where w: "wallet_for (usr_id usr) now' d1 = Inr (w, d3)"
    and cr: "credit s (wal_id w) SETTLEMENT_CURRENCY (co_uctusd_amount c) None None now' d3 = Inr (e, d4)"
    and d2: "d2 = put_cash_out (co_id c) (\<lambda>x. x\<lparr>co_status := CO_FAILED,
               co_failure_reason := Some (take 500 reason'), co_completed_at := Some now'\<rparr>) d4"
    using assms(4) by (auto simp: fail_cash_out_def ebind_eq_Inr some_or_eq_Inr split: if_splits)
  note cc = cash_out_credit_app [OF w cr a(1) sc]
  have n: "py_upper (py_strip SETTLEMENT_CURRENCY) = SETTLEMENT_CURRENCY" by code_simp
  have "app_inv s d2" unfolding d2 using cc(1) by (rule app_inv_put_cash_out) (simp_all add: cash_out_ok_def)
  moreover have "uct_claims d2 = uct_claims d + 2 * co_uctusd_amount c"
    using cc(9) a(3) n uct_claims_same [of d2 d4] by (simp add: d2)
  ultimately show ?thesis using ok by (simp add: cash_out_ok_def token_amount_ok_def)
qed

theorem concurrent_rejects_refund_twice_witness:
  "\<exists>d c d1 d2. app_inv demo_settings d \<and> co_status c = CO_REQUESTED \<and>
     fail_cash_out demo_settings c ''no'' 1 ADMIN_FAIL_STATES d = Inr d1 \<and>
     fail_cash_out demo_settings c ''no'' 1 ADMIN_FAIL_STATES d1 = Inr d2 \<and>
     uct_claims d2 = uct_claims d + 40"
proof -
  let ?d = "demo_burn_at CO_REQUESTED" and ?c = "demo_cash_out CO_REQUESTED"
  have ok: "cash_out_ok demo_settings ?c" using demo_burn_app [of CO_REQUESTED] by (simp add: app_inv_def)
  have st: "co_status ?c \<in> set ADMIN_FAIL_STATES" by (simp add: ADMIN_FAIL_STATES_def)
  have row: "get_cash_out_row (co_id ?c) ?d = Some ?c" by simp
  have u: "get_user (co_user_id ?c) ?d = Some (demo_user 2 ''Bob@x.org'')" by simp
  obtain d1 where d1: "fail_cash_out demo_settings ?c ''no'' 1 ADMIN_FAIL_STATES ?d = Inr d1"
    using fail_outcome [OF demo_burn_app corridor_demo u st ok, of "''no''" 1] by auto
  note a = fail_app [OF d1 demo_burn_app row]
  have h: "held w k d1 \<le> 20" for w k using a(5) by auto
  have us: "users d1 = users ?d"
    using d1 wallet_for_ok by (auto simp: fail_cash_out_def ebind_eq_Inr some_or_eq_Inr split: if_splits
        dest!: cash_out_credit_app(7) [OF _ _ demo_burn_app])
  have u1: "get_user (co_user_id ?c) d1 = Some (demo_user 2 ''Bob@x.org'')" using u us by (simp add: get_user_def)
  have fits: "held w SETTLEMENT_CURRENCY d1 + co_uctusd_amount ?c < 10 ^ 12" for w
    by (rule le_less_trans [of _ 40]) (use h in simp_all)
  obtain d2 where d2: "fail_cash_out demo_settings ?c ''no'' 1 ADMIN_FAIL_STATES d1 = Inr d2"
    using fail_outcome [OF a(1) corridor_demo u1 st ok fits, of "''no''" 1] by auto
  from concurrent_rejects_refund_twice [OF demo_burn_app row d1 d2] d1 d2 show ?thesis
    by (intro exI [of _ ?d] exI [of _ ?c] exI [of _ d1] exI [of _ d2]) (simp add: demo_burn_app)
qed

end
