(* ===== verification/Promise.thy ===== *)
theory Promise
  imports System
begin

text \<open>
  What the platform promises, and that the system keeps to it. The promise knows no queue, no
  worker, no status column and no retry: a transfer is offered, paid in, and then delivered or
  returned; a withdrawal is reserved and then paid out or released; and the users hold what was
  delivered and released less what was reserved. Every transaction of \<open>System\<close>, seen through the
  abstraction, is one step of the promise or none.
\<close>

section \<open>The specification\<close>

datatype stage = Offered | PaidIn | Delivered | Returned

datatype payout = Reserved | PaidOut | Released

record promise =
  pr_send :: "uuid \<Rightarrow> (stage \<times> decimal) option"
  pr_out :: "uuid \<Rightarrow> (payout \<times> decimal) option"
  pr_held :: decimal

definition nothing_promised :: promise where
  "nothing_promised = \<lparr>pr_send = Map.empty, pr_out = Map.empty, pr_held = 0\<rparr>"

inductive promise_step :: "promise \<Rightarrow> promise \<Rightarrow> bool" where
  offer: "pr_send p k = None \<Longrightarrow> 0 < a \<Longrightarrow> promise_step p (p\<lparr>pr_send := (pr_send p)(k \<mapsto> (Offered, a))\<rparr>)"
| pay_in: "pr_send p k = Some (Offered, a) \<Longrightarrow> promise_step p (p\<lparr>pr_send := (pr_send p)(k \<mapsto> (PaidIn, a))\<rparr>)"
| deliver: "pr_send p k = Some (PaidIn, a) \<Longrightarrow>
    promise_step p (p\<lparr>pr_send := (pr_send p)(k \<mapsto> (Delivered, a)), pr_held := pr_held p + a\<rparr>)"
| give_back: "pr_send p k = Some (PaidIn, a) \<Longrightarrow> promise_step p (p\<lparr>pr_send := (pr_send p)(k \<mapsto> (Returned, a))\<rparr>)"
| hold: "pr_out p k = None \<Longrightarrow> 0 < a \<Longrightarrow> a \<le> pr_held p \<Longrightarrow>
    promise_step p (p\<lparr>pr_out := (pr_out p)(k \<mapsto> (Reserved, a)), pr_held := pr_held p - a\<rparr>)"
| pay_out: "pr_out p k = Some (Reserved, a) \<Longrightarrow> promise_step p (p\<lparr>pr_out := (pr_out p)(k \<mapsto> (PaidOut, a))\<rparr>)"
| release: "pr_out p k = Some (Reserved, a) \<Longrightarrow>
    promise_step p (p\<lparr>pr_out := (pr_out p)(k \<mapsto> (Released, a)), pr_held := pr_held p + a\<rparr>)"

section \<open>The abstraction\<close>

text \<open>
  A transfer is delivered or returned when its ledger entry says so, whatever its status column
  says, and paid in from the moment its cash-in is confirmed.
\<close>

definition entry_for :: "(uuid \<Rightarrow> wallet_transaction \<Rightarrow> bool) \<Rightarrow> db \<Rightarrow> uuid \<Rightarrow> bool" where
  "entry_for P d k \<longleftrightarrow> (\<exists>e \<in> set (wallet_transactions d). P k e)"

definition paid_view :: "db \<Rightarrow> uuid \<Rightarrow> (bool \<times> decimal) option" where
  "paid_view d k = map_option (\<lambda>r. (rem_cash_in_confirmed_at r \<noteq> None, rem_uctusd_amount r)) (get_remittance k d)"

definition stage_of :: "bool \<Rightarrow> bool \<Rightarrow> bool \<Rightarrow> stage" where
  "stage_of delivered returned paid =
     (if delivered then Delivered else if returned then Returned else if paid then PaidIn else Offered)"

definition send_view :: "db \<Rightarrow> uuid \<Rightarrow> (stage \<times> decimal) option" where
  "send_view d k = map_option
     (\<lambda>(paid, a). (stage_of (entry_for credited d k) (entry_for repaid d k) paid, a)) (paid_view d k)"

fun phase :: "cash_out_status \<Rightarrow> payout" where
  "phase CO_COMPLETED = PaidOut"
| "phase CO_FAILED = Released"
| "phase _ = Reserved"

definition out_view :: "db \<Rightarrow> uuid \<Rightarrow> (payout \<times> decimal) option" where
  "out_view d k = map_option (\<lambda>c. (phase (co_status c), co_uctusd_amount c)) (get_cash_out_row k d)"

definition promised :: "db \<Rightarrow> promise" where
  "promised d = \<lparr>pr_send = send_view d, pr_out = out_view d, pr_held = uct_claims d\<rparr>"

section \<open>What each change does to the view\<close>

lemma promised_eqI:
  assumes "paid_view d' = paid_view d" "entry_for credited d' = entry_for credited d"
    "entry_for repaid d' = entry_for repaid d" "out_view d' = out_view d" "uct_claims d' = uct_claims d"
  shows "promised d' = promised d"
proof -
  have "send_view d' k = send_view d k" for k unfolding send_view_def assms ..
  then show ?thesis using assms by (auto simp: promised_def)
qed

lemma paid_view_same: "remittances d' = remittances d \<Longrightarrow> paid_view d' = paid_view d"
  by (simp add: paid_view_def get_remittance_def fun_eq_iff)

lemma out_view_same: "cash_outs d' = cash_outs d \<Longrightarrow> out_view d' = out_view d"
  by (simp add: out_view_def get_cash_out_row_def fun_eq_iff)

lemma entry_for_same:
  "wallet_transactions d' = wallet_transactions d \<Longrightarrow> entry_for P d' = entry_for P d"
  by (simp add: entry_for_def fun_eq_iff)

lemma entry_for_append:
  "wallet_transactions d' = wallet_transactions d @ es \<Longrightarrow>
     entry_for P d' k \<longleftrightarrow> entry_for P d k \<or> (\<exists>e \<in> set es. P k e)"
  by (auto simp: entry_for_def)

lemma no_entry_for:
  assumes "wallet_transactions d' = wallet_transactions d @ es" "\<And>e k. e \<in> set es \<Longrightarrow> \<not> P k e"
  shows "entry_for P d' = entry_for P d"
  using assms(2) by (auto simp: fun_eq_iff entry_for_append [OF assms(1)])

lemma paid_view_put:
  assumes "\<And>x. rem_id (f x) = rem_id x" "\<And>x. rem_uctusd_amount (f x) = rem_uctusd_amount x"
    "\<And>x. rem_cash_in_confirmed_at (f x) = rem_cash_in_confirmed_at x"
  shows "paid_view (put_remittance k f d) = paid_view d"
proof
  show "paid_view (put_remittance k f d) j = paid_view d j" for j
    using assms by (cases "get_remittance j d") (auto simp: paid_view_def rem_store.get_put)
qed

lemma out_view_put:
  assumes "cash_outs d' = put_by co_id k f (cash_outs d)" "\<And>x. co_id (f x) = co_id x"
    "\<And>x. co_uctusd_amount (f x) = co_uctusd_amount x" "get_cash_out_row k d = Some c"
  shows "out_view d' = (out_view d)(k \<mapsto> (phase (co_status (f c)), co_uctusd_amount c))"
proof
  fix j
  have "get_cash_out_row j d' = get_cash_out_row j (put_cash_out k f d)"
    using assms(1) by (simp add: get_cash_out_row_def put_cash_out_def)
  then show "out_view d' j = ((out_view d)(k \<mapsto> (phase (co_status (f c)), co_uctusd_amount c))) j"
    using assms(2-4) by (auto simp: out_view_def co_store.get_put)
qed

text \<open>A remittance has one outcome, so a new outcome finds none before it.\<close>

lemma outcome_is_first:
  assumes "app_inv s d'" "wallet_transactions d' = wallet_transactions d @ e # es" "credited k e \<or> repaid k e"
  shows "\<not> entry_for credited d k" "\<not> entry_for repaid d k" "\<And>x. x \<in> set es \<Longrightarrow> \<not> credited k x \<and> \<not> repaid k x"
proof -
  have ok: "entries_ok d'" using app_inv_ledger_inv(2) [OF assms(1)] by (simp add: ledger_shape_def)
  have key: "wtx_remittance_id x \<noteq> None \<and> entry_key x = entry_key e" if "credited k x \<or> repaid k x" for x
    using that assms(3) by (auto simp: credited_def repaid_def entry_key_def)
  have e: "wtx_remittance_id e \<noteq> None" using assms(3) by (auto simp: credited_def repaid_def)
  have "distinct (map entry_key (filter (\<lambda>x. wtx_remittance_id x \<noteq> None) (wallet_transactions d @ e # es)))"
    using ok assms(2) by (simp add: entries_ok_def)
  then have "entry_key x \<noteq> entry_key e" if "x \<in> set (wallet_transactions d) \<union> set es" "wtx_remittance_id x \<noteq> None" for x
    using that e by (auto simp: image_iff)
  then show "\<not> entry_for credited d k" "\<not> entry_for repaid d k" "\<And>x. x \<in> set es \<Longrightarrow> \<not> credited k x \<and> \<not> repaid k x"
    using key unfolding entry_for_def by blast+
qed

section \<open>What each transaction does to the view\<close>

lemma ledger_views: "ledger_only d d' \<Longrightarrow> paid_view d' = paid_view d \<and> out_view d' = out_view d"
  by (intro conjI paid_view_same out_view_same) (simp_all add: ledger_only_def)

lemma success_views:
  assumes run: "success_writes s r uid h now d = Inr d'" and inv: "app_inv s d"
    and r: "get_remittance (rem_id r) d = Some r"
  shows "paid_view d' = paid_view d"
    "\<exists>es. wallet_transactions d' = wallet_transactions d @ es \<and> (\<forall>x \<in> set es. wtx_remittance_id x = Some (rem_id r))"
proof -
  obtain w d1 e d2 d5 where w: "wallet_for uid now d = Inr (w, d1)"
    and cr: "credit s (wal_id w) SETTLEMENT_CURRENCY (rem_uctusd_amount r) (Some (rem_id r)) (Some h) now d1 = Inr (e, d2)"
    and ext: "(case get_user (rem_sender_id r) d2 of None \<Rightarrow> Inr d2
            | Some sender \<Rightarrow>
                ebind (wallet_for (usr_id sender) now d2) (\<lambda>(w', d3).
                ebind (record_external s (wal_id w') OUTGOING SEND_CURRENCY (rem_zar_send_amount r)
                         (Some (rem_id r)) (Some h) ENTRY_SUCCESS None now d3) (\<lambda>(e', d4). Inr d4))) = Inr d5"
    and d': "d' = (put_remittance (rem_id r) (\<lambda>x. x\<lparr>rem_status := SETTLED, rem_xrpl_tx_hash := Some h,
            rem_settled_at := Some now, rem_treasury_batch_id := Some (to_hex 32 (next_id d5)),
            rem_treasury_settled_at := Some now\<rparr>) d5)\<lparr>next_id := Suc (next_id d5)\<rparr>"
    using run by (auto simp: success_writes_def ebind_eq_Inr)
  note wf = wallet_for_app [OF w inv]
  have r1: "get_remittance (rem_id r) d1 = Some r" using r wf(4) by simp
  note sc = settlement_credit_app [OF cr wf(1) r1]
  have five: "ledger_only d2 d5 \<and> (\<exists>es. wallet_transactions d5 = wallet_transactions d2 @ es \<and>
      (\<forall>x \<in> set es. wtx_remittance_id x = Some (rem_id r)))"
  proof (cases "get_user (rem_sender_id r) d2")
    case None
    then show ?thesis using ext by simp
  next
    case (Some sender)
    then obtain w' d3 e' where w3: "wallet_for (usr_id sender) now d2 = Inr (w', d3)"
      and rx: "record_external s (wal_id w') OUTGOING SEND_CURRENCY (rem_zar_send_amount r)
                         (Some (rem_id r)) (Some h) ENTRY_SUCCESS None now d3 = Inr (e', d5)"
      using ext by (auto simp: ebind_eq_Inr)
    note wf3 = wallet_for_app [OF w3 sc(1)]
    note re = record_external_ok [OF rx app_inv_ledger_inv(2) [OF wf3(1)]]
    have "ledger_only d2 d5" by (rule ledger_only_trans [OF wf3(4) re(2)])
    moreover have "wallet_transactions d5 = wallet_transactions d2 @ [e']" using re(4) wf3(2) by simp
    ultimately show ?thesis using re(6) by simp
  qed
  then obtain es where es: "wallet_transactions d5 = wallet_transactions d2 @ es"
    "\<forall>x \<in> set es. wtx_remittance_id x = Some (rem_id r)" by blast
  have "wallet_transactions d' = wallet_transactions d @ e # es" using es(1) sc(3) wf(2) by (simp add: d')
  moreover have "wtx_remittance_id e = Some (rem_id r)" using sc(4) by (simp add: credited_def)
  ultimately show "\<exists>es. wallet_transactions d' = wallet_transactions d @ es \<and>
      (\<forall>x \<in> set es. wtx_remittance_id x = Some (rem_id r))"
    using es(2) by (intro exI [of _ "e # es"]) simp
  have five_view: "paid_view d5 = paid_view d"
    using ledger_views [OF wf(4)] ledger_views [OF sc(2)] five ledger_views [of d2 d5] by simp
  define f where "f = (\<lambda>x :: remittance. x\<lparr>rem_status := SETTLED, rem_xrpl_tx_hash := Some h,
            rem_settled_at := Some now, rem_treasury_batch_id := Some (to_hex 32 (next_id d5)),
            rem_treasury_settled_at := Some now\<rparr>)"
  have "remittances d' = remittances (put_remittance (rem_id r) f d5)" by (simp add: d' f_def)
  then have "paid_view d' = paid_view (put_remittance (rem_id r) f d5)" by (rule paid_view_same)
  also have "\<dots> = paid_view d5" by (rule paid_view_put) (simp_all add: f_def)
  finally show "paid_view d' = paid_view d" using five_view by simp
qed

lemma failure_views:
  assumes run: "fail_settlement s rid reason who now d = (res, d')" and inv: "app_inv s d" and conf: "confirmed rid d"
  shows "paid_view d' = paid_view d"
    "\<exists>es. wallet_transactions d' = wallet_transactions d @ es \<and> (\<forall>x \<in> set es. wtx_status x = ENTRY_FAILED)"
proof -
  let ?f = "\<lambda>x :: remittance. x\<lparr>rem_status := FAILED\<rparr>"
  let ?d1 = "put_remittance rid ?f d"
  have one: "paid_view ?d1 = paid_view d" by (rule paid_view_put) simp_all
  have inv1: "app_inv s ?d1"
    using conf row_unique [OF inv] unfolding confirmed_def
    by (intro app_inv_put_remittance [OF inv]) (auto simp: status_linked_def)
  have "paid_view d' = paid_view d \<and>
      (\<exists>es. wallet_transactions d' = wallet_transactions d @ es \<and> (\<forall>x \<in> set es. wtx_status x = ENTRY_FAILED))"
  proof (cases "failure_writes s rid reason who now d")
    case (Inl e)
    then have "d' = d \<or> d' = ?d1" using run by (auto simp: fail_settlement_def split: if_splits)
    then show ?thesis using one by auto
  next
    case (Inr d2)
    then have d2: "d' = d2" using run by (simp add: fail_settlement_def)
    obtain r where r: "get_remittance rid d = Some r" using conf by (auto simp: confirmed_def)
    show ?thesis
    proof (cases who)
      case None
      then have "d' = ?d1" using Inr d2 r by (simp add: failure_writes_def Let_def)
      then show ?thesis using one by simp
    next
      case (Some uid)
      then obtain w d3 e where w: "wallet_for uid now ?d1 = Inr (w, d3)"
        and rx: "record_external s (wal_id w) INCOMING SETTLEMENT_CURRENCY (rem_uctusd_amount r)
                 (Some rid) None ENTRY_FAILED (Some (take 500 reason)) now d3 = Inr (e, d')"
        using Inr d2 r by (auto simp: failure_writes_def Let_def ebind_eq_Inr)
      note wf = wallet_for_app [OF w inv1]
      note re = record_external_ok [OF rx app_inv_ledger_inv(2) [OF wf(1)]]
      show ?thesis using one ledger_views [OF wf(4)] ledger_views [OF re(2)] re(4,9) wf(2) by simp
    qed
  qed
  then show "paid_view d' = paid_view d"
    "\<exists>es. wallet_transactions d' = wallet_transactions d @ es \<and> (\<forall>x \<in> set es. wtx_status x = ENTRY_FAILED)" by blast+
qed

lemma refund_views:
  assumes run: "refund_failed_remittance s r now d = Inr d'" and inv: "app_inv s d"
  shows "paid_view d' = paid_view d"
proof -
  obtain sender :: user and w d1 e d2 where w: "wallet_for (usr_id sender) now d = Inr (w, d1)"
    and rx: "record_external s (wal_id w) INCOMING SEND_CURRENCY (rem_zar_send_amount r)
                 (Some (rem_id r)) None ENTRY_SUCCESS None now d1 = Inr (e, d2)"
    and d': "d' = put_remittance (rem_id r) (\<lambda>x. x\<lparr>rem_status := REFUNDED\<rparr>) d2"
    using run by (auto simp: refund_failed_remittance_def ebind_eq_Inr split: if_splits)
  note wf = wallet_for_app [OF w inv]
  have "paid_view d' = paid_view d2" unfolding d' by (rule paid_view_put) simp_all
  then show ?thesis
    using ledger_views [OF wf(4)] ledger_views [OF record_external_ok(2) [OF rx app_inv_ledger_inv(2) [OF wf(1)]]] by simp
qed

text \<open>A cash-out writes entries that belong to no remittance.\<close>

lemma plain_entry:
  assumes "move_balance s w dir cur a None h now d = Inr (e, d')" "app_inv s d" "scaled 6 a"
  shows "\<exists>e. wallet_transactions d' = wallet_transactions d @ [e] \<and> wtx_remittance_id e = None"
  using plain_move_app(3,7) [OF assms] by blast

lemma request_entry:
  assumes "request_cash_out s uid u cur rate key now d = Inr (c, d')" "app_inv s d" "cash_out_request_ok s u rate"
    "replayed_cash_out uid key d = None"
  shows "\<exists>e. wallet_transactions d' = wallet_transactions d @ [e] \<and> wtx_remittance_id e = None"
proof -
  obtain q w d1 e d2 where pr: "calculate_cash_out_payout s u cur rate = Inr q" and w: "wallet_for uid now d = Inr (w, d1)"
    and deb: "debit s (wal_id w) SETTLEMENT_CURRENCY (coq_uctusd_amount q) None None now d1 = Inr (e, d2)"
    and ins: "insert_cash_out (new_cash_out uid q (wtx_id e) key now) d2 = Inr (c, d')"
    using assms(1,4) by (auto simp: request_cash_out_def ebind_eq_Inr guard_or_eq_Inr)
  note wf = wallet_for_app [OF w assms(2)]
  have "scaled 6 (coq_uctusd_amount q)"
    using priced_cash_out(3) [OF pr assms(3)] assms(3) by (simp add: cash_out_request_ok_def token_amount_ok_def)
  note en = plain_entry [OF deb [unfolded debit_def] wf(1) this]
  have "wallet_transactions d' = wallet_transactions d2"
    using ins by (auto simp: insert_cash_out_def Let_def ebind_eq_Inr split: if_splits)
  then show ?thesis using en wf(2) by simp
qed

lemma fail_entry:
  assumes "fail_cash_out s c reason now states d = Inr d'" "app_inv s d" "get_cash_out_row (co_id c) d = Some c"
  shows "\<exists>e. wallet_transactions d' = wallet_transactions d @ [e] \<and> wtx_remittance_id e = None"
proof -
  obtain usr :: user and w d1 e d2 f where w: "wallet_for (usr_id usr) now d = Inr (w, d1)"
    and cr: "credit s (wal_id w) SETTLEMENT_CURRENCY (co_uctusd_amount c) None None now d1 = Inr (e, d2)"
    and d': "d' = put_cash_out (co_id c) f d2"
    using assms(1) by (auto simp: fail_cash_out_def ebind_eq_Inr split: if_splits)
  note wf = wallet_for_app [OF w assms(2)]
  have "scaled 6 (co_uctusd_amount c)"
    using app_inv_cash_out [OF assms(2,3)] by (simp add: cash_out_ok_def token_amount_ok_def)
  from plain_entry [OF cr [unfolded credit_def] wf(1) this] show ?thesis using wf(2) d' by simp
qed

lemma complete_entry:
  assumes "complete_cash_out s c h now d = Inr d'" "app_inv s d" "get_cash_out_row (co_id c) d = Some c"
  shows "\<exists>e. wallet_transactions d' = wallet_transactions d @ [e] \<and> wtx_remittance_id e = None"
proof -
  obtain usr :: user and w d1 e d2 f where w: "wallet_for (usr_id usr) now d = Inr (w, d1)"
    and cr: "credit s (wal_id w) (co_payout_currency c) (co_payout_amount c) None None now d1 = Inr (e, d2)"
    and d': "d' = put_cash_out (co_id c) f d2"
    using assms(1) by (auto simp: complete_cash_out_def ebind_eq_Inr)
  note wf = wallet_for_app [OF w assms(2)]
  have "scaled 6 (co_payout_amount c)" using app_inv_cash_out [OF assms(2,3)] by (simp add: cash_out_ok_def)
  from plain_entry [OF cr [unfolded credit_def] wf(1) this] show ?thesis using wf(2) d' by simp
qed

lemma plain_entry_views:
  assumes "\<exists>e. wallet_transactions d' = wallet_transactions d @ [e] \<and> wtx_remittance_id e = None"
  shows "entry_for credited d' = entry_for credited d" "entry_for repaid d' = entry_for repaid d"
  using assms by (auto intro!: no_entry_for simp: credited_def repaid_def)

section \<open>Every step keeps the promise\<close>

definition keeps_promise :: "db \<Rightarrow> db \<Rightarrow> bool" where
  "keeps_promise d d' \<longleftrightarrow> promised d' = promised d \<or> promise_step (promised d) (promised d')"

lemma keeps_promise_same [intro]:
  assumes "paid_view d' = paid_view d" "entry_for credited d' = entry_for credited d"
    "entry_for repaid d' = entry_for repaid d" "out_view d' = out_view d" "uct_claims d' = uct_claims d"
  shows "keeps_promise d d'"
  using promised_eqI [OF assms] by (simp add: keeps_promise_def)

lemma keeps_promise_refl [simp, intro]: "keeps_promise d d"
  by (simp add: keeps_promise_def)

text \<open>A change that only touches columns the promise does not know.\<close>

lemma put_keeps_promise:
  assumes "\<And>x. rem_id (f x) = rem_id x" "\<And>x. rem_uctusd_amount (f x) = rem_uctusd_amount x"
    "\<And>x. rem_cash_in_confirmed_at (f x) = rem_cash_in_confirmed_at x"
  shows "keeps_promise d (put_remittance k f d)"
  by (intro keeps_promise_same paid_view_put assms entry_for_same out_view_same) (simp_all add: uct_claims_def)

lemma quote_keeps_promise:
  assumes q: "quoted_row d r" and inv: "app_inv s d"
  shows "keeps_promise d (d\<lparr>remittances := remittances d @ [r], next_id := Suc (next_id d)\<rparr>)" (is "keeps_promise d ?d")
proof -
  have r: "rem_id r = next_id d" "rem_cash_in_confirmed_at r = None" "0 < rem_uctusd_amount r"
    using q by (auto simp: quoted_row_def remittance_ok_def token_amount_ok_def)
  have none: "get_remittance (next_id d) d = None"
    using inv by (force simp: app_inv_def fresh_ids_def get_remittance_def get_by_None)
  have entry: "\<not> entry_for credited ?d (next_id d)" "\<not> entry_for repaid ?d (next_id d)"
    using inv none by (auto simp: entry_for_def app_inv_def entry_linked_def credited_def repaid_def)
  have get: "get_remittance k ?d = (if k = next_id d then Some r else get_remittance k d)" for k
    using none r(1) by (auto simp: get_remittance_def get_by_append get_by_Cons split: option.splits)
  have "entry_for P ?d = entry_for P d" for P by (rule entry_for_same) simp
  note same = this [of credited] this [of repaid]
  have "send_view ?d k = ((send_view d)(next_id d \<mapsto> (Offered, rem_uctusd_amount r))) k" for k
    using entry by (simp add: send_view_def stage_of_def paid_view_def get r(2) same)
  then have "promised ?d = (promised d)\<lparr>pr_send := (pr_send (promised d))(next_id d \<mapsto> (Offered, rem_uctusd_amount r))\<rparr>"
    by (auto simp: promised_def out_view_same [of ?d d] uct_claims_def)
  moreover have "pr_send (promised d) (next_id d) = None" by (simp add: promised_def send_view_def paid_view_def none)
  ultimately show ?thesis using offer r(3) by (auto simp: keeps_promise_def)
qed

lemma cash_in_keeps_promise:
  assumes run: "simulate_cash_in r m now d = Inr (b, d')" and r: "get_remittance (rem_id r) d = Some r"
  shows "keeps_promise d d'"
proof (cases "d' = d")
  case False
  let ?a = "rem_uctusd_amount r" and ?k = "rem_id r"
  obtain f where d': "d' = put_remittance ?k f d" and f: "f = (\<lambda>x. x\<lparr>rem_cash_in_method := Some (py_lower (py_strip m)),
               rem_status := CASH_IN_CONFIRMED, rem_cash_in_confirmed_at := Some now, rem_quote_expires_at := None\<rparr>)"
    using run False by (auto simp: simulate_cash_in_def Let_def ebind_eq_Inr split: if_splits)
  have entry: "entry_for P d' = entry_for P d" for P by (rule entry_for_same) (simp add: d')
  have outs: "out_view d' = out_view d" "uct_claims d' = uct_claims d"
    by (rule out_view_same, simp add: d') (simp add: d' uct_claims_def)
  have get: "get_remittance j d' = (if j = ?k then Some (f r) else get_remittance j d)" for j
    unfolding d' using r by (simp add: rem_store.get_put f)
  have paid: "paid_view d' = (paid_view d)(?k \<mapsto> (True, ?a))" by (auto simp: paid_view_def get f fun_eq_iff)
  show ?thesis
  proof (cases "send_view d ?k = Some (Offered, ?a)")
    case True
    then have "\<not> entry_for credited d ?k" "\<not> entry_for repaid d ?k"
      by (auto simp: send_view_def stage_of_def paid_view_def r split: if_splits)
    then have "send_view d' k = ((send_view d)(?k \<mapsto> (PaidIn, ?a))) k" for k
      by (simp add: send_view_def stage_of_def entry paid)
    then have "promised d' = (promised d)\<lparr>pr_send := (pr_send (promised d))(?k \<mapsto> (PaidIn, ?a))\<rparr>"
      using outs by (auto simp: promised_def)
    then show ?thesis using pay_in [of "promised d" ?k ?a] True by (simp add: keeps_promise_def promised_def)
  next
    case False
    then have "send_view d' k = send_view d k" for k
      by (auto simp: send_view_def stage_of_def entry paid paid_view_def r split: if_splits)
    then show ?thesis using outs by (auto simp: keeps_promise_def promised_def)
  qed
qed simp

text \<open>An outcome: entries of one remittance, the first of which credits or repays it.\<close>

lemma outcome_keeps_promise:
  assumes inv: "app_inv s d'" and paid: "paid_view d' = paid_view d" "paid_view d k = Some (True, a)"
    and outs: "out_view d' = out_view d" and wt: "wallet_transactions d' = wallet_transactions d @ e # es"
    and of_k: "\<forall>x \<in> set (e # es). wtx_remittance_id x = Some k"
    and out: "credited k e \<and> uct_claims d' = uct_claims d + a \<or> repaid k e \<and> uct_claims d' = uct_claims d"
  shows "keeps_promise d d'"
proof -
  have "credited k e \<or> repaid k e" using out by blast
  note first = outcome_is_first [OF inv wt this]
  have cur: "SETTLEMENT_CURRENCY \<noteq> SEND_CURRENCY" by code_simp
  have other: "entry_for credited d' j = entry_for credited d j" "entry_for repaid d' j = entry_for repaid d j" if "j \<noteq> k" for j
    using that of_k unfolding entry_for_append [OF wt] by (auto simp: credited_def repaid_def)
  have now: "entry_for credited d' k \<longleftrightarrow> credited k e" "entry_for repaid d' k \<longleftrightarrow> repaid k e"
    using first unfolding entry_for_append [OF wt] by auto
  have before: "send_view d k = Some (PaidIn, a)" using first(1,2) paid(2) by (simp add: send_view_def stage_of_def)
  show ?thesis
  proof (cases "credited k e")
    case True
    then have "\<not> repaid k e" using cur by (auto simp: credited_def repaid_def)
    then have c: "uct_claims d' = uct_claims d + a" using out by blast
    have "send_view d' j = ((send_view d)(k \<mapsto> (Delivered, a))) j" for j
      using other [of j] now True paid by (cases "j = k") (simp_all add: send_view_def stage_of_def)
    then have "promised d' = (promised d)\<lparr>pr_send := (pr_send (promised d))(k \<mapsto> (Delivered, a)), pr_held := pr_held (promised d) + a\<rparr>"
      using outs c by (auto simp: promised_def)
    then show ?thesis using deliver [of "promised d" k a] before by (simp add: keeps_promise_def promised_def)
  next
    case False
    have "send_view d' j = ((send_view d)(k \<mapsto> (Returned, a))) j" for j
      using other [of j] now False out paid by (cases "j = k") (simp_all add: send_view_def stage_of_def)
    then have "promised d' = (promised d)\<lparr>pr_send := (pr_send (promised d))(k \<mapsto> (Returned, a))\<rparr>"
      using outs out False by (auto simp: promised_def)
    then show ?thesis using give_back [of "promised d" k a] before by (simp add: keeps_promise_def promised_def)
  qed
qed

subsection \<open>Withdrawals\<close>

lemma out_keeps_promise:
  assumes c: "get_cash_out_row k d = Some c" "phase (co_status c) = Reserved"
    and cos: "cash_outs d' = put_by co_id k f (cash_outs d)" "\<And>x. co_id (f x) = co_id x"
      "\<And>x. co_uctusd_amount (f x) = co_uctusd_amount x"
    and rem: "remittances d' = remittances d" "entry_for credited d' = entry_for credited d" "entry_for repaid d' = entry_for repaid d"
    and out: "phase (co_status (f c)) \<in> {Reserved, PaidOut} \<and> uct_claims d' = uct_claims d \<or>
      phase (co_status (f c)) = Released \<and> uct_claims d' = uct_claims d + co_uctusd_amount c"
  shows "keeps_promise d d'"
proof -
  let ?a = "co_uctusd_amount c"
  have outs: "out_view d' = (out_view d)(k \<mapsto> (phase (co_status (f c)), ?a))"
    by (rule out_view_put [OF cos(1-3) c(1)])
  have before: "out_view d k = Some (Reserved, ?a)" by (simp add: out_view_def c)
  have "send_view d' = send_view d" by (simp add: send_view_def fun_eq_iff paid_view_same [OF rem(1)] rem(2,3))
  then have view: "promised d' = (promised d)\<lparr>pr_out := (pr_out (promised d))(k \<mapsto> (phase (co_status (f c)), ?a)),
      pr_held := uct_claims d'\<rparr>"
    using outs by (simp add: promised_def)
  have p: "pr_out (promised d) k = Some (Reserved, ?a)" "pr_held (promised d) = uct_claims d"
    using before by (simp_all add: promised_def)
  consider "phase (co_status (f c)) = Reserved" "uct_claims d' = uct_claims d"
    | "phase (co_status (f c)) = PaidOut" "uct_claims d' = uct_claims d"
    | "phase (co_status (f c)) = Released" "uct_claims d' = uct_claims d + ?a" using out by blast
  then show ?thesis
  proof cases
    case 1
    have "promised d' = promised d" unfolding view 1 using before
      by (auto simp: promised_def fun_upd_idem)
    then show ?thesis by (simp add: keeps_promise_def)
  next
    case 2
    have "promised d' = (promised d)\<lparr>pr_out := (pr_out (promised d))(k \<mapsto> (PaidOut, ?a))\<rparr>"
      unfolding view 2 by (simp add: promised_def)
    then show ?thesis using pay_out [OF p(1)] by (simp add: keeps_promise_def)
  next
    case 3
    then show ?thesis using release [OF p(1)] p(2) view by (simp add: keeps_promise_def)
  qed
qed

lemma claims_nonneg: "app_inv s d \<Longrightarrow> 0 \<le> uct_claims d"
  using uct_claims_balances [OF app_inv_ledger_inv(1)] app_inv_ledger_inv(2)
  by (auto simp: uct_balances_def ledger_shape_def balances_ok_def balance_ok_def intro!: sum_list_nonneg)

lemma request_keeps_promise:
  assumes inv: "app_inv s d" and req: "cash_out_request_ok s u rate"
    and run: "request_cash_out s uid u cur rate key now d = Inr (c, d')"
  shows "keeps_promise d d'"
proof (cases "replayed_cash_out uid key d")
  case (Some x)
  then show ?thesis using run request_replay [OF Some] by simp
next
  case None
  note f = request_new_app [OF run None inv req]
  note en = plain_entry_views [OF request_entry [OF run inv req None]]
  have u: "0 < u" using req by (simp add: cash_out_request_ok_def token_amount_ok_def)
  have "u \<le> uct_claims d" using claims_nonneg [OF f(1)] f(10) by simp
  moreover have new: "get_cash_out_row (co_id c) d = None"
  proof (rule ccontr)
    assume "get_cash_out_row (co_id c) d \<noteq> None"
    then obtain x where "get_cash_out_row (co_id c) d = Some x" by blast
    then have "x \<in> set (cash_outs d)" "co_id x = co_id c" using app_inv_cash_out [OF inv] by blast+
    moreover have "distinct (map co_id (cash_outs d @ [c]))" using app_inv_distinct(2) [OF f(1)] f(2) by simp
    ultimately show False by (auto simp: image_iff)
  qed
  moreover have "out_view d' j = ((out_view d)(co_id c \<mapsto> (Reserved, u))) j" for j
    using new f(2,4,5) by (auto simp: out_view_def get_cash_out_row_def get_by_append get_by_Cons split: option.splits)
  moreover have "send_view d' = send_view d" by (simp add: send_view_def fun_eq_iff paid_view_same [OF f(3)] en)
  ultimately have "promised d' = (promised d)\<lparr>pr_out := (pr_out (promised d))(co_id c \<mapsto> (Reserved, u)),
      pr_held := pr_held (promised d) - u\<rparr>" "pr_out (promised d) (co_id c) = None" "u \<le> pr_held (promised d)"
    using f(10) by (auto simp: promised_def out_view_def)
  then show ?thesis using hold u by (simp add: keeps_promise_def)
qed

lemma fail_keeps_promise:
  assumes "fail_cash_out s c reason now states d = Inr d'" "app_inv s d" "get_cash_out_row (co_id c) d = Some c"
    "phase (co_status c) = Reserved"
  shows "keeps_promise d d'"
proof -
  note f = fail_app [OF assms(1-3)]
  have "cash_outs d' = put_by co_id (co_id c) (\<lambda>x. x\<lparr>co_status := CO_FAILED, co_failure_reason := Some (take 500 reason),
      co_completed_at := Some now\<rparr>) (cash_outs d)" using f(5) by blast
  then show ?thesis
    by (rule out_keeps_promise [OF assms(3,4)]) (simp_all add: f(2,3) plain_entry_views [OF fail_entry [OF assms(1-3)]])
qed

lemma complete_keeps_promise:
  assumes "complete_cash_out s c h now d = Inr d'" "app_inv s d" "get_cash_out_row (co_id c) d = Some c"
    "phase (co_status c) = Reserved"
  shows "keeps_promise d d'"
proof -
  note f = complete_app [OF assms(1-3)]
  obtain i where "cash_outs d' = put_by co_id (co_id c) (\<lambda>x. x\<lparr>co_credit_transaction_id := Some i,
            co_xrpl_tx_hash := Some h, co_status := CO_COMPLETED, co_completed_at := Some now\<rparr>) (cash_outs d)"
    using f(4) by blast
  then show ?thesis
    by (rule out_keeps_promise [OF assms(3,4)]) (simp_all add: f(2,3) plain_entry_views [OF complete_entry [OF assms(1-3)]])
qed

subsection \<open>The simulation\<close>

lemma step_keeps_promise:
  assumes "sys_step s y y'" "sys_inv s y"
  shows "keeps_promise (sy_db y) (sy_db y')"
  using assms
proof (induction rule: sys_step.induct)
  case (accounts y d)
  then show ?case
    by (intro keeps_promise_same paid_view_same out_view_same entry_for_same)
      (auto simp: accounts_change_def uct_claims_def)
next
  case (wallet uid now y w d)
  note w = wallet_for_app [OF wallet(1) sys_inv_parts(1) [OF wallet(2)]]
  then have "keeps_promise (sy_db y) d"
    by (intro keeps_promise_same paid_view_same out_view_same entry_for_same) (auto simp: ledger_only_def intro: uct_claims_same)
  then show ?case by simp
next
  case (review k y c a)
  let ?d = "put_cash_out k (\<lambda>x. x\<lparr>co_reviewed_by_admin_id := a\<rparr>) (sy_db y)"
  have "out_view ?d j = out_view (sy_db y) j" for j
    by (cases "get_cash_out_row j (sy_db y)") (auto simp: out_view_def co_store.get_put)
  then have "keeps_promise (sy_db y) ?d"
    by (intro keeps_promise_same paid_view_same entry_for_same) (auto simp: uct_claims_def)
  then show ?case by simp
next
  case (quote y r)
  then show ?case using quote_keeps_promise [OF _ sys_inv_parts(1)] by simp
next
  case (cash_in r y m now b d)
  then show ?case using cash_in_keeps_promise by simp
next
  case (mark rid y)
  then show ?case by (simp add: put_keeps_promise)
next
  case (claim rid reclaimed y d)
  then have "d = snd (claim rid reclaimed (sy_db y))" by simp
  then show ?case by (simp add: claim_put put_keeps_promise)
next
  case (recorded rid uid h a y r now res d)
  note inv = sys_inv_parts(1) [OF recorded(4)]
  have ok: "confirmed rid (sy_db y)" using sys_inv_parts(2) [OF recorded(4,1)] by simp
  have rid: "rem_id r = rid" using app_inv_remittance [OF inv recorded(2)] by simp
  have r: "get_remittance (rem_id r) (sy_db y) = Some r" using recorded(2) rid by simp
  have conf: "rem_cash_in_confirmed_at r \<noteq> None" using ok recorded(2) by (simp add: confirmed_def)
  from recorded(3) show ?case
  proof (cases rule: record_success_cases)
    case 2
    note sw = success_writes_app [OF 2 inv r refl conf]
    note sv = success_views [OF 2 inv r]
    obtain e es where e: "wallet_transactions d = wallet_transactions (sy_db y) @ e # es" "credited (rem_id r) e"
      using sw(5) by blast
    have "paid_view (sy_db y) (rem_id r) = Some (True, rem_uctusd_amount r)" using r conf by (simp add: paid_view_def)
    then have "keeps_promise (sy_db y) d"
      using e sv sw(2,3) by (intro outcome_keeps_promise [OF sw(1) sv(1), of "rem_id r" "rem_uctusd_amount r" e es])
        (auto intro: out_view_same)
    then show ?thesis by simp
  qed simp
next
  case (failed j rid y reason who now res d)
  have conf: "confirmed rid (sy_db y)" using sys_inv_parts(2) [OF failed(4,2)] failed(1) by auto
  note f = fail_settlement_app [OF failed(3) sys_inv_parts(1) [OF failed(4)] conf]
    and v = failure_views [OF failed(3) sys_inv_parts(1) [OF failed(4)] conf]
  obtain es where es: "wallet_transactions d = wallet_transactions (sy_db y) @ es" "\<forall>x \<in> set es. wtx_status x = ENTRY_FAILED"
    using v(2) by blast
  have "entry_for P d = entry_for P (sy_db y)" if "P = credited \<or> P = repaid" for P
    using that es(2) by (intro no_entry_for [OF es(1)]) (auto simp: credited_def repaid_def)
  then have "keeps_promise (sy_db y) d" using v(1) f(2,3) by (intro keeps_promise_same out_view_same) simp_all
  then show ?case by simp
next
  case (requeue r y d)
  then have "\<exists>f. d = put_remittance (rem_id r) (\<lambda>x. x\<lparr>rem_status := f\<rparr>) (sy_db y)"
    by (auto simp: requeue_failed_remittance_def ebind_eq_Inr split: if_splits)
  then show ?case by (auto simp: put_keeps_promise)
next
  case (refund r y now d)
  note inv = sys_inv_parts(1) [OF refund(3)]
  note f = refund_app [OF refund(2) inv refund(1)] and v = refund_views [OF refund(2) inv]
  obtain e where e: "wallet_transactions d = wallet_transactions (sy_db y) @ [e]" "repaid (rem_id r) e" using f(3) by blast
  have "rem_cash_in_confirmed_at r \<noteq> None" using app_inv_remittance [OF inv refund(1)] f(6) by (simp add: remittance_ok_def)
  then have "paid_view (sy_db y) (rem_id r) = Some (True, rem_uctusd_amount r)" using refund(1) by (simp add: paid_view_def)
  then have "keeps_promise (sy_db y) d"
    using e f(2,5) by (intro outcome_keeps_promise [OF f(1) v, of "rem_id r" "rem_uctusd_amount r" e "[]"])
      (auto simp: repaid_def intro: out_view_same)
  then show ?case by simp
next
  case (request u rate uid cur key now y c d)
  then show ?case using request_keeps_promise [OF sys_inv_parts(1)] by simp
next
  case (approve c y now d)
  note f = approve_app [OF approve(2) sys_inv_parts(1) [OF approve(3)]]
  have "phase (co_status c) = Reserved" by (simp add: f(4))
  moreover have "cash_outs d = put_by co_id (co_id c) (\<lambda>x. x\<lparr>co_status := CO_APPROVED, co_approved_at := Some now\<rparr>) (cash_outs (sy_db y))"
    by (simp add: f(5) put_cash_out_def)
  ultimately have "keeps_promise (sy_db y) d"
    by (rule out_keeps_promise [OF approve(1)]) (simp_all add: f(2,3) entry_for_same [OF f(2)] uct_claims_def)
  then show ?case by simp
next
  case (reject c y reason now d)
  note f = fail_app [OF reject(2) sys_inv_parts(1) [OF reject(3)] reject(1)]
  have "phase (co_status c) = Reserved" using f(4) by (auto simp: ADMIN_FAIL_STATES_def)
  then show ?case using fail_keeps_promise [OF reject(2) sys_inv_parts(1) [OF reject(3)] reject(1)] by simp
next
  case (claim_burn cid y d)
  let ?f = "\<lambda>x. if co_status x = CO_APPROVED then x\<lparr>co_status := CO_PROCESSING\<rparr> else x"
  note inv = sys_inv_parts(1) [OF claim_burn(2)]
  have d: "d = snd (claim_cash_out cid (sy_db y))" "fst (claim_cash_out cid (sy_db y))" using claim_burn(1) by simp_all
  obtain c where c: "get_cash_out_row cid (sy_db y) = Some c" "co_status c = CO_APPROVED"
    using claim_cash_out_wins [OF app_inv_distinct(2) [OF inv]] d(2) by blast
  have "cash_outs d = put_by co_id cid ?f (cash_outs (sy_db y))" by (simp add: d(1) claim_cash_out_put put_cash_out_def)
  note a = claim_cash_out_app [OF inv, of cid, folded d(1)]
  have "phase (co_status c) = Reserved" by (simp add: c(2))
  then have "keeps_promise (sy_db y) d" using \<open>cash_outs d = _\<close>
    by (rule out_keeps_promise [OF c(1)]) (simp_all add: a c(2) entry_for_same [OF a(2)] uct_claims_def)
  then show ?case by simp
next
  case (burn_failed j cid y reason now res d)
  note inv = sys_inv_parts(1) [OF burn_failed(4)]
  from burn_failed(3) show ?case
  proof (cases rule: fail_claimed_cases)
    case (2 c)
    have c: "get_cash_out_row (co_id c) (sy_db y) = Some c" using 2(1) app_inv_cash_out [OF inv 2(1)] by simp
    have "phase (co_status c) = Reserved" using fail_app(4) [OF 2(2) inv c] by simp
    then show ?thesis using fail_keeps_promise [OF 2(2) inv c] by simp
  qed simp
next
  case (complete cid h y c now res d)
  note inv = sys_inv_parts(1) [OF complete(4)]
  have st: "co_status c = CO_PROCESSING"
    using sys_inv_parts(2) [OF complete(4,1)] complete(2) by (auto simp: cash_out_status_of_def)
  have c: "get_cash_out_row (co_id c) (sy_db y) = Some c" using complete(2) app_inv_cash_out [OF inv complete(2)] by simp
  from complete(3) show ?case
  proof (cases rule: record_burn_cases)
    case 2
    then show ?thesis using complete_keeps_promise [OF 2 inv c] st by simp
  qed simp
qed simp_all

lemma promise_init: "promised (sy_db init_sys) = nothing_promised"
  by (simp add: promised_def nothing_promised_def init_sys_def send_view_def paid_view_def out_view_def uct_claims_def
      fun_eq_iff get_remittance_def get_cash_out_row_def empty_db_def get_by_def)

interpretation promise_run: refinement "sys_step s" "sys_inv s" promise_step "\<lambda>y. promised (sy_db y)"
  by unfold_locales (use step_keeps_promise in \<open>auto simp: keeps_promise_def\<close>)

text \<open>An outcome is final.\<close>

interpretation sent_final: transition_invariant promise_step
    "\<lambda>p. pr_send p k = Some (st, a) \<and> st \<in> {Delivered, Returned}"
  by unfold_locales (erule promise_step.cases; auto)

interpretation payout_final: transition_invariant promise_step
    "\<lambda>p. pr_out p k = Some (po, a) \<and> po \<in> {PaidOut, Released}"
  by unfold_locales (erule promise_step.cases; auto)

text \<open>
  C10. The system refines its promise. Whatever the interleaving of requests, redelivered messages,
  payments, crashes and administrators, every run of the system is, through the abstraction, a run
  of the promise: each transaction is one promised step or changes nothing a user can see, so a
  transfer is credited only after it was paid in, once, for the amount quoted, and never beside a
  refund; a withdrawal is taken from what users hold, and then paid out or given back, once. And an
  outcome is final: nothing that happens later undoes a delivery, a refund, a payout or a release.
\<close>

theorem system_refines_promise:
  assumes "sys_reachable s y" "(sys_step s)\<^sup>*\<^sup>* y y'"
  shows "promise_step\<^sup>*\<^sup>* nothing_promised (promised (sy_db y)) \<and>
    promise_step\<^sup>*\<^sup>* (promised (sy_db y)) (promised (sy_db y')) \<and>
    (\<forall>z. sys_step s y z \<longrightarrow> promised (sy_db z) = promised (sy_db y) \<or> promise_step (promised (sy_db y)) (promised (sy_db z))) \<and>
    (\<forall>k st a. pr_send (promised (sy_db y)) k = Some (st, a) \<and> st \<in> {Delivered, Returned} \<longrightarrow>
       pr_send (promised (sy_db y')) k = Some (st, a)) \<and>
    (\<forall>k po a. pr_out (promised (sy_db y)) k = Some (po, a) \<and> po \<in> {PaidOut, Released} \<longrightarrow>
       pr_out (promised (sy_db y')) k = Some (po, a))"
proof -
  note inv = sys_reachable_inv [OF assms(1)]
  have "promise_step\<^sup>*\<^sup>* nothing_promised (promised (sy_db y))"
    using promise_run.run_simulated [OF _ sys_init_inv] assms(1) by (simp add: sys_reachable_def promise_init)
  moreover have run: "promise_step\<^sup>*\<^sup>* (promised (sy_db y)) (promised (sy_db y'))"
    by (rule promise_run.run_simulated [OF assms(2) inv])
  moreover have "\<forall>z. sys_step s y z \<longrightarrow> promised (sy_db z) = promised (sy_db y) \<or> promise_step (promised (sy_db y)) (promised (sy_db z))"
    using promise_run.simulated [OF _ inv] by blast
  ultimately show ?thesis using sent_final.run_inv [OF run] payout_final.run_inv [OF run] by blast
qed

theorem system_refines_promise_witness:
  "\<exists>y. sys_reachable demo_settings y \<and> promise_step\<^sup>*\<^sup>* nothing_promised (promised (sy_db y)) \<and>
     pr_send (promised (sy_db y)) 10 = Some (Delivered, demo_amount) \<and> pr_held (promised (sy_db y)) = demo_amount"
proof -
  obtain d e where d: "sys_reachable demo_settings (sys_at d [(10, demo_amount)] [] [10])"
    "status_of 10 d = Some SETTLED" "e \<in> set (wallet_transactions d)" "credited 10 e" "wtx_amount e = demo_amount"
    "uct_claims d = demo_amount"
    using demo_reach_settled by blast
  note inv = sys_inv_parts(1) [OF sys_reachable_inv [OF d(1)]]
  obtain r where r: "get_remittance 10 d = Some r" using d(2) by (auto simp: status_of_def)
  have "entry_linked d e" using inv d(3) by (simp add: app_inv_def)
  then have "rem_uctusd_amount r = demo_amount" using d(4,5) r by (auto simp: entry_linked_def credited_def)
  moreover have "entry_for credited d 10" using d(3,4) by (auto simp: entry_for_def)
  ultimately have "pr_send (promised d) 10 = Some (Delivered, demo_amount)" "pr_held (promised d) = demo_amount"
    using r d(6) by (simp_all add: promised_def send_view_def paid_view_def stage_of_def)
  then show ?thesis using d(1) system_refines_promise [OF d(1) rtranclp.rtrancl_refl] by (metis sys_at_fields(1))
qed

end
