(* ===== verification/FxRate.thy ===== *)
theory FxRate
  imports CashIO Xrpl "HOL-Library.Word"
begin

text \<open>
  \<open>app/services/fx_rate_service.py\<close> and \<open>scripts/seed_fx_rates.py\<close>: the USD/ZAR rate from its
  three sources. SHA-256 and the HTTP GET of the provider's JSON (the request, the status check
  and the JSON parsing) are the arguments \<open>fx_sha256\<close> and \<open>fx_get\<close>. \<open>time.time()\<close> is a rational
  number of seconds. The module-level cache is a map from the URL; it is read once before the
  lock and once under it, and another thread may have refreshed it in between.
\<close>

section \<open>Numbers as text\<close>

definition is_digit :: "char \<Rightarrow> bool" where
  "is_digit c = (let n = (of_char c :: nat) in 48 \<le> n \<and> n \<le> 57)"

text \<open>
  \<open>Decimal(text)\<close> for ASCII text. The texts of a NaN or an infinity are accepted by Python, but
  the comparison or the quantization that follows on each of them raises InvalidOperation or
  refuses it; here they are refused at once, in the same \<open>try\<close>.
\<close>

definition split_sign :: "string \<Rightarrow> bool \<times> string" where
  "split_sign t = (case t of [] \<Rightarrow> (False, [])
     | c # r \<Rightarrow> if c = CHR ''-'' then (True, r) else if c = CHR ''+'' then (False, r) else (False, t))"

definition parse_exponent :: "string \<Rightarrow> exc + int" where
  "parse_exponent t =
     (case t of [] \<Rightarrow> Inr 0
      | c # r \<Rightarrow>
          let (neg, ds) = split_sign r
          in if (c = CHR ''e'' \<or> c = CHR ''E'') \<and> ds \<noteq> [] \<and> list_all is_digit ds
             then Inr ((if neg then -1 else 1) * int (the (from_dec 0 ds)))
             else Inl InvalidOperation)"

definition decimal_of_text :: "string \<Rightarrow> exc + decimal" where
  "decimal_of_text s =
     (let (neg, t) = split_sign (filter (\<lambda>c. c \<noteq> CHR ''_'') (py_strip s));
          whole = takeWhile is_digit t; rest = dropWhile is_digit t;
          (fr, tail) = (case rest of [] \<Rightarrow> ([], [])
             | c # r \<Rightarrow> if c = CHR ''.'' then (takeWhile is_digit r, dropWhile is_digit r) else ([], rest))
      in if whole = [] \<and> fr = [] then Inl InvalidOperation
         else ebind (parse_exponent tail) (\<lambda>e.
           Inr ((if neg then -1 else 1) * of_nat (the (from_dec 0 (whole @ fr))) *
                10 powi (e - int (length fr)))))"

section \<open>Quantising\<close>

definition quantise :: "decimal \<Rightarrow> exc + decimal" where
  "quantise rate =
     (if rate \<le> 0 then Inl FxRateUnavailableError else quantize round_half_up 6 rate)"

section \<open>The mock rate\<close>

definition int_str :: "int \<Rightarrow> string" where
  "int_str n = (if n < 0 then CHR ''-'' # nat_str (nat (- n)) else nat_str (nat n))"

definition from_bytes_big :: "8 word list \<Rightarrow> nat" where
  "from_bytes_big = foldl (\<lambda>acc b. acc * 256 + unat b) 0"

definition rate_bucket :: "settings \<Rightarrow> rat \<Rightarrow> int" where
  "rate_bucket s t = round_down t div max (fx_rate_cache_seconds s) 1"

definition mock_rate :: "(string \<Rightarrow> 8 word list) \<Rightarrow> settings \<Rightarrow> rat \<Rightarrow> exc + decimal" where
  "mock_rate sha256 s t =
     (let base = fx_mock_base_rate s;
          volatility = d_div (of_int (fx_mock_volatility_bps s)) 10000
      in if volatility = 0 then quantise base
         else
           let digest = sha256 (int_str (rate_bucket s t));
               fraction = d_div (of_nat (from_bytes_big (take 4 digest))) (2 ^ 32);
               offset = d_mul (d_sub (d_mul fraction 2) 1) volatility
           in quantise (d_mul base (d_add 1 offset)))"

section \<open>The provider's rate\<close>

text \<open>
  A parsed JSON value. A float carries the text Python prints for it; the keys of an object are
  distinct.
\<close>

datatype json = JNull | JBool bool | JInt int | JFloat string | JString string
  | JArray "json list" | JObject "(string \<times> json) list"

fun walk_path :: "json \<Rightarrow> string list \<Rightarrow> exc + json" where
  "walk_path cursor [] = Inr cursor"
| "walk_path cursor (key # path) =
     (case cursor of
        JObject kvs \<Rightarrow>
          (case map_of kvs key of
             None \<Rightarrow> Inl FxRateUnavailableError
           | Some v \<Rightarrow> walk_path v path)
      | _ \<Rightarrow> Inl FxRateUnavailableError)"

text \<open>\<open>str(cursor)\<close> of a value that passes the \<open>isinstance\<close> test (a bool is an int).\<close>

definition number_text :: "json \<Rightarrow> string option" where
  "number_text v =
     (case v of JBool b \<Rightarrow> Some (if b then ''True'' else ''False'') | JInt n \<Rightarrow> Some (int_str n)
      | JFloat t \<Rightarrow> Some t | JString t \<Rightarrow> Some t | _ \<Rightarrow> None)"

definition extract_rate :: "json \<Rightarrow> string \<Rightarrow> exc + decimal" where
  "extract_rate payload path =
     ebind (walk_path payload (py_split CHR ''.'' path)) (\<lambda>v.
     ebind (some_or FxRateUnavailableError (number_text v)) (\<lambda>t.
       case decimal_of_text t of
         Inl e \<Rightarrow> Inl FxRateUnavailableError
       | Inr x \<Rightarrow> Inr x))"

definition fetch_rate :: "(string \<Rightarrow> 'n \<Rightarrow> (exc + json) \<times> 'n) \<Rightarrow> settings \<Rightarrow> 'n \<Rightarrow> (exc + decimal) \<times> 'n" where
  "fetch_rate get s n =
     (case get (fx_api_url s) n of
        (Inl e, n') \<Rightarrow> (Inl e, n')
      | (Inr payload, n') \<Rightarrow> (extract_rate payload (fx_api_rate_path s), n'))"

text \<open>An entry of the cache: when it expires, the rate, when it was fetched.\<close>

type_synonym fx_cache = "string \<Rightarrow> (rat \<times> decimal \<times> rat) option"

definition fresh_rate :: "settings \<Rightarrow> fx_cache \<Rightarrow> rat \<Rightarrow> decimal option" where
  "fresh_rate s cache t =
     (case cache (fx_api_url s) of
        Some (expires_at, rate, fetched_at) \<Rightarrow> if t < expires_at then Some rate else None
      | None \<Rightarrow> None)"

definition fallback :: "settings \<Rightarrow> rat \<times> decimal \<times> rat \<Rightarrow> rat \<Rightarrow> exc + decimal" where
  "fallback s cached t =
     (let (expires_at, rate, fetched_at) = cached; age = t - fetched_at
      in if of_int (fx_rate_max_stale_seconds s) < age then Inl FxRateUnavailableError else Inr rate)"

text \<open>
  \<open>_api_rate\<close>: \<open>c0\<close> is the cache read before the lock at \<open>t0\<close>, \<open>c1\<close> the cache under the lock
  at \<open>t1\<close>, and \<open>t2\<close> the clock after the fetch. The result carries the cache the lock is released
  with.
\<close>

definition api_rate_raced ::
  "(string \<Rightarrow> 'n \<Rightarrow> (exc + json) \<times> 'n) \<Rightarrow> settings \<Rightarrow> fx_cache \<Rightarrow> fx_cache \<Rightarrow> rat \<Rightarrow> rat \<Rightarrow> rat \<Rightarrow> 'n \<Rightarrow>
   (exc + decimal) \<times> fx_cache \<times> 'n" where
  "api_rate_raced get s c0 c1 t0 t1 t2 n =
     (case fresh_rate s c0 t0 of
        Some rate \<Rightarrow> (Inr rate, c1, n)
      | None \<Rightarrow>
          (case fresh_rate s c1 t1 of
             Some rate \<Rightarrow> (Inr rate, c1, n)
           | None \<Rightarrow>
               (case fetch_rate get s n of
                  (fetched, n') \<Rightarrow>
                    (case ebind fetched quantise of
                       Inr rate \<Rightarrow>
                         (Inr rate,
                          c1(fx_api_url s \<mapsto> (t2 + of_int (fx_rate_cache_seconds s), rate, t2)), n')
                     | Inl e \<Rightarrow>
                         (case c1 (fx_api_url s) of
                            Some cached \<Rightarrow> (fallback s cached t2, c1, n')
                          | None \<Rightarrow> (Inl FxRateUnavailableError, c1, n'))))))"

definition reset_api_cache :: "fx_cache \<Rightarrow> fx_cache" where
  "reset_api_cache cache = Map.empty"

section \<open>The pinned rate\<close>

text \<open>
  \<open>ORDER BY effective_from DESC LIMIT 1\<close>; of several rows with the latest date the database
  may return any, here the first of the table.
\<close>

definition latest_rate :: "fx_rate list \<Rightarrow> fx_rate option" where
  "latest_rate rows =
     foldl (\<lambda>best r. case best of None \<Rightarrow> Some r
        | Some b \<Rightarrow> if fxr_effective_from b < fxr_effective_from r then Some r else best) None rows"

definition table_rate :: "db option \<Rightarrow> instant \<Rightarrow> exc + decimal" where
  "table_rate d now =
     (case d of None \<Rightarrow> Inl FxRateUnavailableError
      | Some d \<Rightarrow>
          ebind (some_or FxRateUnavailableError
                   (latest_rate (filter (\<lambda>r. fxr_currency_pair r = USD_ZAR \<and> fxr_effective_from r \<le> now)
                                   (fx_rates d))))
            (\<lambda>r. quantise (fxr_rate r)))"

text \<open>The row the script pins; \<open>Numeric(12, 6)\<close>. A refused argument ends the process.\<close>

definition seed_fx_rate :: "string \<Rightarrow> string \<Rightarrow> instant \<Rightarrow> db \<Rightarrow> exc + db" where
  "seed_fx_rate rate_arg source now d =
     (case decimal_of_text rate_arg of
        Inl e \<Rightarrow> Inl (OtherException ''SystemExit: --rate must be a number'')
      | Inr rate \<Rightarrow>
          if rate \<le> 0 then Inl (OtherException ''SystemExit: --rate must be positive'')
          else ebind (numeric_col 12 6 rate) (\<lambda>stored.
            Inr (d\<lparr>fx_rates := fx_rates d @ [\<lparr>fxr_id = next_id d, fxr_currency_pair = USD_ZAR,
                     fxr_rate = stored, fxr_effective_from = now, fxr_source = Some source,
                     fxr_created_at = now\<rparr>], next_id := Suc (next_id d)\<rparr>)))"

section \<open>The service\<close>

record 'n fx_lib =
  fx_sha256 :: "string \<Rightarrow> 8 word list"
  fx_get :: "string \<Rightarrow> 'n \<Rightarrow> (exc + json) \<times> 'n"

text \<open>Seconds since 1970, for an instant in microseconds since 0001-01-01.\<close>

definition unix_time :: "instant \<Rightarrow> rat" where
  "unix_time now = of_int (now - 62135596800 * 10 ^ 6) / 10 ^ 6"

definition get_usd_zar_rate ::
  "'n fx_lib \<Rightarrow> settings \<Rightarrow> instant \<Rightarrow> db option \<Rightarrow> fx_cache \<times> 'n \<Rightarrow> (exc + decimal) \<times> fx_cache \<times> 'n" where
  "get_usd_zar_rate lib s now d st =
     (let (cache, n) = st; t = unix_time now
      in if exchange_rate_source s = ''mock'' then (mock_rate (fx_sha256 lib) s t, cache, n)
         else if exchange_rate_source s = ''api'' then api_rate_raced (fx_get lib) s cache cache t t t n
         else if exchange_rate_source s = ''table'' then (table_rate d now, cache, n)
         else (Inl ValueError, cache, n))"


section \<open>What a rate is\<close>

lemma quantise_ok:
  assumes "quantise x = Inr y"
  shows "scaled 6 y" "0 \<le> y" "0 < x" "\<bar>y - x\<bar> * 10 ^ 6 < 1"
  using assms quantize_scaled half_up.quantize_nonneg half_up.quantize_close [of 6 x y]
  by (auto simp: quantise_def split: if_splits)

lemma quantise_error: "quantise x = Inl e \<Longrightarrow> e \<in> {FxRateUnavailableError, InvalidOperation}"
  using quantize_error by (auto simp: quantise_def split: if_splits)

lemma quantise_any:
  "case quantise x of Inr r \<Rightarrow> scaled 6 r \<and> 0 \<le> r
     | Inl e \<Rightarrow> e \<in> {FxRateUnavailableError, ValueError, InvalidOperation}"
proof (cases "quantise x")
  case (Inl e)
  then show ?thesis using quantise_error [OF Inl] by auto
next
  case (Inr r)
  then show ?thesis using quantise_ok [OF Inr] by simp
qed

text \<open>Every rate in the cache is one the service may hand out.\<close>

definition cache_ok :: "fx_cache \<Rightarrow> bool" where
  "cache_ok cache \<longleftrightarrow> (\<forall>u e r f. cache u = Some (e, r, f) \<longrightarrow> scaled 6 r \<and> 0 \<le> r)"

lemma cache_ok_get: "cache_ok c \<Longrightarrow> c u = Some (e, r, f) \<Longrightarrow> scaled 6 r \<and> 0 \<le> r"
  unfolding cache_ok_def by blast

lemma cache_ok_put: "cache_ok c \<Longrightarrow> scaled 6 r \<Longrightarrow> 0 \<le> r \<Longrightarrow> cache_ok (c(u \<mapsto> (e, r, f)))"
  by (simp add: cache_ok_def)

lemma fresh_rate_cached:
  "fresh_rate s c t = Some r \<Longrightarrow> \<exists>e f. c (fx_api_url s) = Some (e, r, f) \<and> t < e"
  by (auto simp: fresh_rate_def split: option.splits if_splits)

lemma api_rate_ok:
  assumes "api_rate_raced get s c0 c1 t0 t1 t2 n = (res, c', n')" "cache_ok c0" "cache_ok c1"
  shows "cache_ok c'" "res = Inr r \<Longrightarrow> scaled 6 r \<and> 0 \<le> r" "res = Inl e \<Longrightarrow> e = FxRateUnavailableError"
proof -
  consider (hit0) r where "fresh_rate s c0 t0 = Some r" "res = Inr r" "c' = c1"
    | (hit1) r where "fresh_rate s c1 t1 = Some r" "res = Inr r" "c' = c1"
    | (fetched) x r where "quantise x = Inr r" "res = Inr r"
        "c' = c1(fx_api_url s \<mapsto> (t2 + of_int (fx_rate_cache_seconds s), r, t2))"
    | (stale) cached where "c1 (fx_api_url s) = Some cached" "res = fallback s cached t2" "c' = c1"
    | (none) "res = Inl FxRateUnavailableError" "c' = c1"
  proof (cases "fresh_rate s c0 t0")
    case (Some r)
    show ?thesis by (rule hit0 [OF Some]) (use assms(1) Some in \<open>simp_all add: api_rate_raced_def\<close>)
  next
    case n0: None
    show ?thesis
    proof (cases "fresh_rate s c1 t1")
      case (Some r)
      show ?thesis by (rule hit1 [OF Some]) (use assms(1) n0 Some in \<open>simp_all add: api_rate_raced_def\<close>)
    next
      case n1: None
      obtain got n2 where got: "fetch_rate get s n = (got, n2)" by fastforce
      show ?thesis
      proof (cases "ebind got quantise")
        case (Inr r)
        then obtain x where x: "quantise x = Inr r" by (auto simp: ebind_eq_Inr)
        show ?thesis
          by (rule fetched [OF x]) (use assms(1) n0 n1 got Inr in \<open>simp_all add: api_rate_raced_def\<close>)
      next
        case err: (Inl e)
        show ?thesis
        proof (cases "c1 (fx_api_url s)")
          case (Some cached)
          show ?thesis
            by (rule stale [OF Some]) (use assms(1) n0 n1 got err Some in \<open>simp_all add: api_rate_raced_def\<close>)
        next
          case None
          show ?thesis
            by (rule none) (use assms(1) n0 n1 got err None in \<open>simp_all add: api_rate_raced_def\<close>)
        qed
      qed
    qed
  qed
  then have "cache_ok c' \<and> (\<forall>r. res = Inr r \<longrightarrow> scaled 6 r \<and> 0 \<le> r) \<and>
      (\<forall>e. res = Inl e \<longrightarrow> e = FxRateUnavailableError)"
  proof (cases)
    case hit0
    then show ?thesis using fresh_rate_cached [OF hit0(1)] cache_ok_get [OF assms(2)] assms(3) by auto
  next
    case hit1
    then show ?thesis using fresh_rate_cached [OF hit1(1)] cache_ok_get [OF assms(3)] assms(3) by auto
  next
    case fetched
    note q = quantise_ok [OF fetched(1)]
    show ?thesis unfolding fetched(2,3) using q(1,2) cache_ok_put [OF assms(3) q(1,2)] by simp
  next
    case stale
    obtain e r f where c: "cached = (e, r, f)" by (cases cached)
    then show ?thesis using stale cache_ok_get [OF assms(3), of "fx_api_url s" e r f] assms(3)
      by (auto simp: fallback_def split: if_splits)
  next
    case none
    then show ?thesis using assms(3) by simp
  qed
  then show "cache_ok c'" "res = Inr r \<Longrightarrow> scaled 6 r \<and> 0 \<le> r" "res = Inl e \<Longrightarrow> e = FxRateUnavailableError"
    by blast+
qed

lemma latest_rate_fold:
  "(\<forall>b. best = Some b \<longrightarrow> P b) \<Longrightarrow> (\<forall>r \<in> set rows. P r) \<Longrightarrow>
   foldl (\<lambda>best r. case best of None \<Rightarrow> Some r
        | Some b \<Rightarrow> if fxr_effective_from b < fxr_effective_from r then Some r else best) best rows = Some x \<Longrightarrow>
   P x \<and> (\<forall>r \<in> set rows. fxr_effective_from r \<le> fxr_effective_from x) \<and>
   (\<forall>b. best = Some b \<longrightarrow> fxr_effective_from b \<le> fxr_effective_from x)"
proof (induction rows arbitrary: best)
  case (Cons r rows)
  show ?case
  proof (cases best)
    case None
    then show ?thesis using Cons.IH [of "Some r"] Cons.prems by simp
  next
    case (Some b)
    then show ?thesis using Cons.IH [of "if fxr_effective_from b < fxr_effective_from r then Some r else best"] Cons.prems
      by (auto split: if_splits)
  qed
qed auto

lemma latest_rate_Some:
  assumes "latest_rate rows = Some x"
  shows "x \<in> set rows" "\<forall>r \<in> set rows. fxr_effective_from r \<le> fxr_effective_from x"
  using latest_rate_fold [of None "\<lambda>r. r \<in> set rows" rows x] assms by (auto simp: latest_rate_def)

lemma latest_rate_fold_Some:
  "foldl (\<lambda>best r. case best of None \<Rightarrow> Some r
        | Some b \<Rightarrow> if fxr_effective_from b < fxr_effective_from r then Some r else best) (Some b) rows \<noteq> None"
  by (induction rows arbitrary: b) auto

lemma latest_rate_None: "latest_rate rows = None \<longleftrightarrow> rows = []"
proof (cases rows)
  case (Cons a list)
  then show ?thesis
    by (simp only: latest_rate_def foldl_Cons option.case latest_rate_fold_Some list.distinct simp_thms)
qed (simp add: latest_rate_def)

text \<open>
  C24. Whatever the source, a rate that is handed out has the six decimal places of its column and
  is not negative, a cached rate included, and the failures are exactly the unavailable rate the
  callers turn into 503, an unknown source (ValueError), and a rate too large for the context
  (InvalidOperation).
\<close>

theorem fx_rate_well_formed:
  assumes "get_usd_zar_rate lib s now d (cache, n) = (res, cache', n')" "cache_ok cache"
  shows "cache_ok cache' \<and>
    (case res of Inr r \<Rightarrow> scaled 6 r \<and> 0 \<le> r
     | Inl e \<Rightarrow> e \<in> {FxRateUnavailableError, ValueError, InvalidOperation})"
proof -
  have mock: "case mock_rate f s t of Inr r \<Rightarrow> scaled 6 r \<and> 0 \<le> r
     | Inl e \<Rightarrow> e \<in> {FxRateUnavailableError, ValueError, InvalidOperation}" for f t
    unfolding mock_rate_def Let_def using quantise_any by simp
  have tab: "case table_rate d now of Inr r \<Rightarrow> scaled 6 r \<and> 0 \<le> r
     | Inl e \<Rightarrow> e \<in> {FxRateUnavailableError, ValueError, InvalidOperation}"
    using quantise_any
    by (auto simp: table_rate_def ebind_def some_or_def split: option.splits)
  have api: "cache_ok cache' \<and> (case res of Inr r \<Rightarrow> scaled 6 r \<and> 0 \<le> r
     | Inl e \<Rightarrow> e \<in> {FxRateUnavailableError, ValueError, InvalidOperation})"
    if "api_rate_raced (fx_get lib) s cache cache (unix_time now) (unix_time now) (unix_time now) n = (res, cache', n')"
    using api_rate_ok [OF that assms(2,2)] by (auto split: sum.splits)
  show ?thesis
  proof (cases "exchange_rate_source s = ''mock'' \<or> exchange_rate_source s = ''table''")
    case True
    then show ?thesis using assms mock [of "fx_sha256 lib" "unix_time now"] tab
      by (auto simp: get_usd_zar_rate_def Let_def)
  next
    case False
    then show ?thesis using assms api
      by (auto simp: get_usd_zar_rate_def Let_def split: if_splits)
  qed
qed

definition demo_fx :: "nat fx_lib" where
  "demo_fx = \<lparr>fx_sha256 = (\<lambda>t. [128, 0, 0, 0]),
     fx_get = (\<lambda>u n. (Inr (JObject [(''rates'', JObject [(''ZAR'', JFloat ''18.5'')])]), Suc n))\<rparr>"

lemma demo_fx_extract:
  "extract_rate (JObject [(''rates'', JObject [(''ZAR'', JFloat ''18.5'')])]) ''rates.ZAR'' = Inr (37/2)"
  by code_simp

lemma demo_fx_quantise: "quantise (37/2) = Inr (37/2)"
  by code_simp

definition api_settings :: settings where
  "api_settings = demo_settings\<lparr>exchange_rate_source := ''api''\<rparr>"

lemma demo_fx_run:
  "get_usd_zar_rate demo_fx api_settings now d (Map.empty, 0) =
     (Inr (37/2), [fx_api_url api_settings \<mapsto> (unix_time now + 300, 37/2, unix_time now)], 1)"
  using demo_fx_extract demo_fx_quantise
  by (simp add: get_usd_zar_rate_def api_settings_def Let_def api_rate_raced_def fresh_rate_def fetch_rate_def demo_fx_def
      demo_settings_def default_settings_def)

theorem fx_rate_well_formed_witness:
  "\<exists>c. get_usd_zar_rate demo_fx api_settings 0 None (Map.empty, 0) = (Inr (37/2), c, 1) \<and> cache_ok c"
proof -
  have "cache_ok Map.empty" by (simp add: cache_ok_def)
  from fx_rate_well_formed [OF demo_fx_run this] demo_fx_run show ?thesis by blast
qed


section \<open>The mock stays in its band\<close>

definition eps :: rat where
  "eps = 1 / 10 ^ 27"

lemma eps_small: "0 < eps" "eps \<le> 1 / 100000000000000"
  by (simp_all add: eps_def)

lemma ctx_near: "\<bar>x\<bar> \<le> b \<Longrightarrow> \<bar>ctx x - x\<bar> \<le> b * eps"
  using ctx_error [of x] by (simp add: eps_def)

lemma from_bytes_bound: "length bs = n \<Longrightarrow> foldl (\<lambda>acc b. acc * 256 + unat (b :: 8 word)) a bs < (a + 1) * 256 ^ n"
proof (induction bs arbitrary: a n)
  case (Cons b bs)
  have "unat b < 256" using unsigned_less [of b, where 'a = nat] by simp
  then have le: "a * 256 + unat b + 1 \<le> (a + 1) * 256" by simp
  have "foldl (\<lambda>acc b. acc * 256 + unat b) (a * 256 + unat b) bs < (a * 256 + unat b + 1) * 256 ^ length bs"
    by (rule Cons.IH) simp
  also have "\<dots> \<le> (a + 1) * 256 * 256 ^ length bs" using le by (intro mult_right_mono) auto
  finally show ?case using Cons.prems by (auto simp: algebra_simps)
qed simp

lemma from_bytes_four: "from_bytes_big (take 4 bs) < 2 ^ 32"
proof -
  have "from_bytes_big (take 4 bs) < (0 + 1) * 256 ^ length (take 4 bs)"
    unfolding from_bytes_big_def by (rule from_bytes_bound) simp
  also have "\<dots> \<le> (0 + 1) * 256 ^ 4" by (intro mult_left_mono power_increasing) simp_all
  finally show ?thesis by simp
qed

text \<open>The walk: a fraction in [0, 1) becomes an offset of at most the volatility, up to the context.\<close>

lemma mock_offset:
  fixes v :: rat
  assumes "n < 2 ^ 32" "0 \<le> v"
  shows "\<bar>d_mul (d_sub (d_mul (d_div (of_nat n) (2 ^ 32)) 2) 1) v\<bar> \<le> v + 9 * (v * eps)"
proof -
  note e = eps_small
  define x :: rat where "x = of_nat n / 2 ^ 32"
  have "(of_nat n :: rat) < of_nat (2 ^ 32)" using assms(1) by (simp only: of_nat_less_iff)
  then have x: "0 \<le> x" "x < 1" by (simp_all add: x_def)
  define f where "f = ctx x"
  have "\<bar>f - x\<bar> \<le> 1 * eps" unfolding f_def by (rule ctx_near) (use x in simp)
  then have f: "f \<le> x + eps" "x - eps \<le> f" unfolding abs_le_iff by linarith+
  define g where "g = ctx (f * 2)"
  have "\<bar>f * 2\<bar> \<le> 3" using f x e unfolding abs_le_iff by linarith
  then have "\<bar>g - f * 2\<bar> \<le> 3 * eps" unfolding g_def by (rule ctx_near)
  then have g: "g \<le> f * 2 + 3 * eps" "f * 2 - 3 * eps \<le> g" unfolding abs_le_iff by linarith+
  define u where "u = ctx (g - 1)"
  have "\<bar>g - 1\<bar> \<le> 2" using f g x e unfolding abs_le_iff by linarith
  then have "\<bar>u - (g - 1)\<bar> \<le> 2 * eps" unfolding u_def by (rule ctx_near)
  then have u: "\<bar>u\<bar> \<le> 1 + 7 * eps" using f g x e unfolding abs_le_iff by linarith
  have uv: "\<bar>u * v\<bar> \<le> (1 + 7 * eps) * v"
    unfolding abs_mult using u assms(2) by (simp add: mult_right_mono)
  have "(1 + 7 * eps) * v \<le> 2 * v" using e assms(2) by (intro mult_right_mono) linarith+
  then have "\<bar>u * v\<bar> \<le> 2 * v" using uv by linarith
  then have "\<bar>ctx (u * v) - u * v\<bar> \<le> 2 * v * eps" by (rule ctx_near)
  then have "\<bar>ctx (u * v)\<bar> \<le> (1 + 7 * eps) * v + 2 * v * eps" using uv by linarith
  also have "\<dots> = v + 9 * (v * eps)" by (simp add: algebra_simps)
  finally show ?thesis
    unfolding d_mul_def d_sub_def d_div_def x_def [symmetric] f_def [symmetric] g_def [symmetric] u_def [symmetric] .
qed

definition mock_band :: "settings \<Rightarrow> rat" where
  "mock_band s = fx_mock_base_rate s * of_int (fx_mock_volatility_bps s) / 10000"

definition mock_settings_ok :: "settings \<Rightarrow> bool" where
  "mock_settings_ok s \<longleftrightarrow> scaled 6 (fx_mock_base_rate s) \<and> 1 / 100 \<le> fx_mock_base_rate s \<and>
     fx_mock_base_rate s \<le> 10 ^ 5 \<and> 0 \<le> fx_mock_volatility_bps s \<and> fx_mock_volatility_bps s \<le> 9999"

lemma volatility_exact: "0 \<le> b \<Longrightarrow> b \<le> 9999 \<Longrightarrow> d_div (of_int b) 10000 = of_int b / 10000"
proof -
  assume b: "0 \<le> b" "b \<le> 9999"
  have "scaled 4 (of_int b / 10 ^ 4 :: rat)" using scaled_div_pow10 [OF scaled_of_int [of 0 b], of 4] by simp
  then have "ctx (of_int b / 10 ^ 4) = of_int b / 10 ^ 4"
    by (rule ctx_scaled) (use b in \<open>simp_all add: abs_of_nonneg\<close>)
  then show ?thesis by (simp add: d_div_def)
qed

text \<open>Rounding a rate near its base to six decimals keeps it near.\<close>

lemma quantise_band:
  fixes base w q :: rat
  assumes "1 / 100 \<le> base" "base \<le> 100000" "0 \<le> w" "w \<le> base * (9999 / 10000)"
    and q: "\<bar>q - base\<bar> \<le> w + 1 / 10000000"
  shows "\<exists>rate. quantise q = Inr rate \<and> scaled 6 rate \<and> \<bar>rate - base\<bar> \<le> w + 1 / 10 ^ 6 \<and> rate < 10 ^ 6"
proof -
  have q': "q \<le> base + w + 1 / 10000000" "base - w - 1 / 10000000 \<le> q"
    using q unfolding abs_le_iff by linarith+
  have pos: "0 < q" and up: "q \<le> 200001" using q' assms(1-4) by linarith+
  let ?n = "of_int (round_half_up (q * 10 ^ 6)) :: rat"
  have near: "\<bar>?n - q * 10 ^ 6\<bar> \<le> 1 / 2" by (rule half_up.rnd_nearest)
  have million: "q * 10 ^ 6 = q * 1000000" by simp
  have n: "?n \<le> q * 1000000 + 1 / 2" "q * 1000000 - 1 / 2 \<le> ?n"
    using near unfolding million abs_le_iff by linarith+
  have nn: "0 \<le> round_half_up (q * 10 ^ 6)" using pos by (intro half_up.rnd_nonneg) simp
  have "?n < of_int 10000000000000000" using n up by simp
  then have "round_half_up (q * 10 ^ 6) < 10000000000000000" by (simp only: of_int_less_iff)
  then have small: "\<bar>round_half_up (q * 10 ^ 6)\<bar> < 10 ^ 28" using nn by simp
  let ?r = "?n / 10 ^ 6"
  have run: "quantise q = Inr ?r"
    using pos small by (simp add: quantise_def quantize_def dec_prec_def)
  have r: "?r = ?n / 1000000" by simp
  have "?r \<le> q + 1 / 2000000" "q - 1 / 2000000 \<le> ?r" using n unfolding r by linarith+
  then have "\<bar>?r - base\<bar> \<le> w + 1 / 1000000" "?r < 1000000"
    using q' assms(1-4) unfolding abs_le_iff by linarith+
  then show ?thesis using run quantise_ok(1) [OF run] by (intro exI [of _ ?r]) simp
qed

text \<open>Scaling by the perturbed factor, with the two roundings to the context.\<close>

lemma factor_band:
  fixes base v x :: rat
  assumes base: "1 / 100 \<le> base" "base \<le> 100000" and v: "0 \<le> v" "v \<le> 9999 / 10000" and x: "\<bar>x\<bar> \<le> v + 9 * (v * eps)"
  shows "\<bar>ctx (base * ctx (1 + x)) - base\<bar> \<le> base * v + 1 / 10000000"
proof -
  note e = eps_small
  have "v * eps \<le> eps" using mult_right_mono [of v 1 eps] v(2) e(1) by simp
  then have x': "\<bar>x\<bar> \<le> v + 9 * eps" using x by linarith
  define p where "p = ctx (1 + x)"
  have "\<bar>1 + x\<bar> \<le> 3" using x' v(2) e by linarith
  then have "\<bar>p - (1 + x)\<bar> \<le> 3 * eps" unfolding p_def by (rule ctx_near)
  then have p: "\<bar>p - 1\<bar> \<le> v + 12 * eps" using x' by linarith
  have b0: "0 \<le> base" using base(1) by linarith
  have "\<bar>base * p\<bar> \<le> 100000 * 3"
    unfolding abs_mult using p base(2) v(2) b0 e by (intro mult_mono) linarith+
  then have q: "\<bar>ctx (base * p) - base * p\<bar> \<le> 100000 * 3 * eps" by (rule ctx_near)
  have "\<bar>base * p - base\<bar> = base * \<bar>p - 1\<bar>"
    using b0 abs_mult [of base "p - 1"] by (simp add: right_diff_distrib)
  also have "\<dots> \<le> base * (v + 12 * eps)" using p b0 by (intro mult_left_mono)
  also have "\<dots> \<le> base * v + 1200000 * eps"
    using mult_right_mono [of base 100000 "12 * eps"] base(2) e(1) by (simp add: distrib_left)
  finally show ?thesis using q e unfolding p_def by linarith
qed

lemma mock_rate_served:
  assumes "mock_settings_ok s"
  shows "\<exists>rate. mock_rate sha256 s t = Inr rate \<and> scaled 6 rate \<and>
    \<bar>rate - fx_mock_base_rate s\<bar> \<le> mock_band s + 1 / 10 ^ 6 \<and> rate < 10 ^ 6"
proof -
  let ?base = "fx_mock_base_rate s"
  define v :: rat where "v = of_int (fx_mock_volatility_bps s) / 10000"
  have ok: "1 / 100 \<le> ?base" "?base \<le> 100000" "0 \<le> v" "v \<le> 9999 / 10000"
    "d_div (of_int (fx_mock_volatility_bps s)) 10000 = v"
    using assms volatility_exact by (auto simp: mock_settings_ok_def v_def)
  have band: "mock_band s = ?base * v" by (simp add: mock_band_def v_def)
  have bv: "0 \<le> ?base * v" "?base * v \<le> ?base * (9999 / 10000)"
    using ok by (simp_all only: mult_left_mono) (simp_all add: mult_nonneg_nonneg)
  note quant = quantise_band [OF ok(1,2) bv, folded band]
  show "\<exists>rate. mock_rate sha256 s t = Inr rate \<and> scaled 6 rate \<and>
      \<bar>rate - ?base\<bar> \<le> mock_band s + 1 / 10 ^ 6 \<and> rate < 10 ^ 6"
  proof (cases "v = 0")
    case True
    then have "mock_rate sha256 s t = quantise ?base" using ok(5) by (simp add: mock_rate_def)
    then show ?thesis using quant [of ?base] bv band by simp
  next
    case False
    let ?o = "d_mul (d_sub (d_mul (d_div (of_nat (from_bytes_big (take 4 (sha256 (int_str (rate_bucket s t)))))) (2 ^ 32)) 2) 1) v"
    have "\<bar>?o\<bar> \<le> v + 9 * (v * eps)" by (rule mock_offset [OF from_bytes_four ok(3)])
    note near = factor_band [OF ok(1-4) this, folded band]
    have "mock_rate sha256 s t = quantise (ctx (?base * ctx (1 + ?o)))"
      using False by (simp add: mock_rate_def ok(5) Let_def d_mul_def [of ?base] d_add_def)
    then show ?thesis using quant [OF near] by simp
  qed
qed

text \<open>
  The mock rate never leaves its band. Whatever the digest of the bucket is, the rate is
  produced, and it is the base moved by at most the configured volatility, up to one unit of the
  sixth decimal place; and two moments in one bucket get the same rate.
\<close>

theorem mock_rate_in_band:
  assumes "mock_settings_ok s"
  shows "(\<exists>rate. mock_rate sha256 s t = Inr rate \<and> scaled 6 rate \<and>
      \<bar>rate - fx_mock_base_rate s\<bar> \<le> mock_band s + 1 / 10 ^ 6 \<and> rate < 10 ^ 6) \<and>
    (rate_bucket s t' = rate_bucket s t \<longrightarrow> mock_rate sha256 s t' = mock_rate sha256 s t)"
proof
  show "rate_bucket s t' = rate_bucket s t \<longrightarrow> mock_rate sha256 s t' = mock_rate sha256 s t"
    by (intro impI) (simp add: mock_rate_def Let_def)
qed (rule mock_rate_served [OF assms])

theorem mock_rate_in_band_witness:
  "\<exists>rate. mock_rate (\<lambda>t. [128, 0, 0, 0]) demo_settings 1000 = Inr rate \<and> \<bar>rate - 37/2\<bar> \<le> 2776/10000"
proof -
  have f: "fx_mock_base_rate demo_settings = 37/2" "fx_mock_volatility_bps demo_settings = 150"
    by (simp_all add: demo_settings_def default_settings_def)
  have "scaled 6 (37/2 :: rat)" by code_simp
  then have "mock_settings_ok demo_settings" by (simp add: mock_settings_ok_def f)
  from mock_rate_in_band [OF this, of "\<lambda>t. [128, 0, 0, 0]" 1000]
  obtain rate where "mock_rate (\<lambda>t. [128, 0, 0, 0]) demo_settings 1000 = Inr rate"
    "\<bar>rate - 37/2\<bar> \<le> 37/2 * 150 / 10000 + 1 / 10 ^ 6"
    unfolding mock_band_def f of_int_numeral by blast
  then show ?thesis by (intro exI [of _ rate]) simp
qed


section \<open>How old a served rate can be\<close>

definition cache_timed :: "settings \<Rightarrow> fx_cache \<Rightarrow> bool" where
  "cache_timed s cache \<longleftrightarrow>
     (\<forall>u e r f. cache u = Some (e, r, f) \<longrightarrow> e = f + of_int (fx_rate_cache_seconds s))"

text \<open>
  C25. A rate from the provider is never older than the configured bounds. What is served was
  fetched at most \<open>fx_rate_cache_seconds\<close>, or after a failed refresh \<open>fx_rate_max_stale_seconds\<close>,
  ago, and is the rate the cache then holds; and while a cached rate has not expired it is served
  without a request to the provider.
\<close>

theorem api_rate_never_stale:
  assumes "exchange_rate_source s = ''api''" "cache_timed s cache" "0 \<le> fx_rate_cache_seconds s"
    "get_usd_zar_rate lib s now d (cache, n) = (Inr rate, cache', n')"
  shows "cache_timed s cache' \<and>
    (\<exists>e f. cache' (fx_api_url s) = Some (e, rate, f) \<and>
       unix_time now - f \<le> of_int (max (fx_rate_cache_seconds s) (fx_rate_max_stale_seconds s))) \<and>
    (\<forall>e r f. cache (fx_api_url s) = Some (e, r, f) \<longrightarrow> unix_time now < e \<longrightarrow>
       rate = r \<and> n' = n \<and> cache' = cache)"
proof -
  let ?t = "unix_time now" and ?u = "fx_api_url s"
  have run: "api_rate_raced (fx_get lib) s cache cache ?t ?t ?t n = (Inr rate, cache', n')"
    using assms(1,4) by (simp add: get_usd_zar_rate_def Let_def)
  have timed: "e = f + of_int (fx_rate_cache_seconds s)" if "cache u = Some (e, r, f)" for u e r f
    using assms(2) that unfolding cache_timed_def by blast
  show ?thesis
  proof (cases "fresh_rate s cache ?t")
    case (Some r)
    then have eq: "rate = r" "cache' = cache" "n' = n" using run by (auto simp: api_rate_raced_def)
    obtain e f where c: "cache ?u = Some (e, r, f)" "?t < e" using fresh_rate_cached [OF Some] by blast
    then have "?t - f \<le> of_int (max (fx_rate_cache_seconds s) (fx_rate_max_stale_seconds s))"
      using timed [OF c(1)] by (simp add: of_int_max)
    then show ?thesis using eq c assms(2) by simp
  next
    case None
    then have exp: "\<not> ?t < e" if "cache ?u = Some (e, r, f)" for e r f
      using that by (auto simp: fresh_rate_def split: if_splits)
    obtain got n2 where got: "fetch_rate (fx_get lib) s n = (got, n2)" by fastforce
    show ?thesis
    proof (cases "ebind got quantise")
      case (Inr r)
      then have eq: "rate = r" "cache' = cache(?u \<mapsto> (?t + of_int (fx_rate_cache_seconds s), r, ?t))"
        using run None got by (auto simp: api_rate_raced_def)
      have "cache_timed s cache'" using assms(2) by (simp add: cache_timed_def eq(2))
      moreover have "?t - ?t \<le> of_int (max (fx_rate_cache_seconds s) (fx_rate_max_stale_seconds s))"
        using assms(3) by (simp add: of_int_max le_max_iff_disj)
      ultimately show ?thesis using eq exp by simp
    next
      case (Inl err)
      then obtain e r f where c: "cache ?u = Some (e, r, f)" "fallback s (e, r, f) ?t = Inr rate" "cache' = cache"
        using run None got by (auto simp: api_rate_raced_def split: option.splits)
      then have "rate = r" "?t - f \<le> of_int (fx_rate_max_stale_seconds s)"
        by (auto simp: fallback_def Let_def split: if_splits)
      then show ?thesis using c exp assms(2) by (auto simp: of_int_max le_max_iff_disj)
    qed
  qed
qed

theorem api_rate_never_stale_witness:
  "\<exists>c n. get_usd_zar_rate demo_fx api_settings 0 None (Map.empty, 0) = (Inr (37/2), c, n) \<and>
     (\<exists>e f. c (fx_api_url api_settings) = Some (e, 37/2, f) \<and> unix_time 0 - f \<le> 3600)"
proof -
  have s: "exchange_rate_source api_settings = ''api''" "cache_timed api_settings Map.empty"
    "0 \<le> fx_rate_cache_seconds api_settings"
    "max (fx_rate_cache_seconds api_settings) (fx_rate_max_stale_seconds api_settings) = 3600"
    by (simp_all add: api_settings_def cache_timed_def demo_settings_def default_settings_def)
  from api_rate_never_stale [OF s(1-3) demo_fx_run [of 0 None]] demo_fx_run [of 0 None]
  show ?thesis unfolding s(4) by auto
qed

text \<open>
  The pinned rate is the one in force. The \<open>table\<close> source serves the row of the pair whose
  date is the latest among those already effective, so a scheduled row changes nothing before
  its time; and pinning a rate with the script takes effect at once: it is the rate served from
  then on, as stored, until a later row is effective.
\<close>

theorem table_rate_in_force:
  "(table_rate (Some d) now = Inr rate \<longrightarrow>
      (\<exists>r \<in> set (fx_rates d). fxr_currency_pair r = USD_ZAR \<and> fxr_effective_from r \<le> now \<and>
         quantise (fxr_rate r) = Inr rate \<and>
         (\<forall>q \<in> set (fx_rates d). fxr_currency_pair q = USD_ZAR \<and> fxr_effective_from q \<le> now \<longrightarrow>
            fxr_effective_from q \<le> fxr_effective_from r))) \<and>
   (seed_fx_rate arg source t d = Inr d' \<longrightarrow> (\<forall>r \<in> set (fx_rates d). fxr_effective_from r < t) \<longrightarrow>
      t \<le> now \<longrightarrow>
      (\<exists>x stored. decimal_of_text arg = Inr x \<and> 0 < x \<and> numeric_col 12 6 x = Inr stored \<and>
         table_rate (Some d') now = quantise stored))"
proof (intro conjI impI)
  let ?eff = "\<lambda>d. filter (\<lambda>r. fxr_currency_pair r = USD_ZAR \<and> fxr_effective_from r \<le> now) (fx_rates d)"
  assume run: "table_rate (Some d) now = Inr rate"
  obtain r where r: "latest_rate (?eff d) = Some r" "quantise (fxr_rate r) = Inr rate"
    using run by (auto simp: table_rate_def ebind_eq_Inr some_or_eq_Inr)
  note l = latest_rate_Some [OF r(1)]
  show "\<exists>r \<in> set (fx_rates d). fxr_currency_pair r = USD_ZAR \<and> fxr_effective_from r \<le> now \<and>
         quantise (fxr_rate r) = Inr rate \<and>
         (\<forall>q \<in> set (fx_rates d). fxr_currency_pair q = USD_ZAR \<and> fxr_effective_from q \<le> now \<longrightarrow>
            fxr_effective_from q \<le> fxr_effective_from r)"
    using l r(2) by (intro bexI [of _ r]) simp_all
next
  let ?eff = "\<lambda>d. filter (\<lambda>r. fxr_currency_pair r = USD_ZAR \<and> fxr_effective_from r \<le> now) (fx_rates d)"
  assume run: "seed_fx_rate arg source t d = Inr d'" and old: "\<forall>r \<in> set (fx_rates d). fxr_effective_from r < t"
    and t: "t \<le> now"
  obtain x stored and row :: fx_rate where x: "decimal_of_text arg = Inr x" "0 < x" "numeric_col 12 6 x = Inr stored"
    and d': "fx_rates d' = fx_rates d @ [row]" and row: "fxr_currency_pair row = USD_ZAR"
      "fxr_effective_from row = t" "fxr_rate row = stored"
    using run by (auto simp: seed_fx_rate_def ebind_eq_Inr split: sum.splits if_splits)
  have eff: "?eff d' = ?eff d @ [row]" using t by (simp add: d' row)
  obtain r where r: "latest_rate (?eff d') = Some r" using latest_rate_None [of "?eff d'"] eff by auto
  have "r \<in> set (?eff d @ [row])" "fxr_effective_from row \<le> fxr_effective_from r"
    using latest_rate_Some [OF r] unfolding eff by simp_all
  then have "r = row" using old row(2) by fastforce
  then show "\<exists>x stored. decimal_of_text arg = Inr x \<and> 0 < x \<and> numeric_col 12 6 x = Inr stored \<and>
       table_rate (Some d') now = quantise stored"
    using x r row(3) by (intro exI [of _ x] exI [of _ stored]) (simp add: table_rate_def)
qed

theorem table_rate_in_force_witness:
  "\<exists>d'. seed_fx_rate ''18.5'' ''me'' 100 demo_db = Inr d' \<and> table_rate (Some d') 100 = Inr (37/2)"
proof -
  have x: "decimal_of_text ''18.5'' = Inr (37/2)" "numeric_col 12 6 (37/2) = Inr (37/2)" "quantise (37/2) = Inr (37/2)"
    by code_simp+
  obtain d' where run: "seed_fx_rate ''18.5'' ''me'' 100 demo_db = Inr d'"
    using x by (simp add: seed_fx_rate_def)
  have none: "\<forall>r \<in> set (fx_rates demo_db). fxr_effective_from r < (100 :: int)"
    by (simp add: demo_db_def empty_db_def)
  obtain y stored where y: "decimal_of_text ''18.5'' = Inr y" "numeric_col 12 6 y = Inr stored"
    "table_rate (Some d') 100 = quantise stored"
    using table_rate_in_force [of demo_db 100 0 "''18.5''" "''me''" 100 d'] run none by (elim conjE) auto
  have "y = 37/2" using x(1) y(1) by (metis sum.inject(2))
  then have "stored = 37/2" using x(2) y(2) by (metis sum.inject(2))
  with y(3) x(3) have "table_rate (Some d') 100 = Inr (37/2)" by (simp only:)
  then show ?thesis using run by (intro exI [of _ d'] conjI)
qed

end
