(* ===== verification/SendLimits.thy ===== *)
theory SendLimits
  imports CashIO
begin

text \<open>
  \<open>app/services/limits_service.py\<close>: the windows of the send limits in South African time, the
  rows that count, and the check. Instants are microseconds since 0001-01-01 UTC; the civil date
  of a day is computed the way Python's \<open>datetime\<close> does. The code's clock is far from the first
  and last representable instants, where \<open>astimezone\<close> would overflow.
\<close>

section \<open>Civil dates\<close>

definition leap_year :: "int \<Rightarrow> bool" where
  "leap_year y \<longleftrightarrow> y mod 4 = 0 \<and> (y mod 100 \<noteq> 0 \<or> y mod 400 = 0)"

definition month_lengths :: "int \<Rightarrow> int list" where
  "month_lengths y = [31, if leap_year y then 29 else 28, 31, 30, 31, 30, 31, 31, 30, 31, 30, 31]"

definition days_before_year :: "int \<Rightarrow> int" where
  "days_before_year y = (y - 1) * 365 + (y - 1) div 4 - (y - 1) div 100 + (y - 1) div 400"

text \<open>The month, from 1, and the day in it, from 1, of the \<open>n\<close>-th day, from 0, of a year.\<close>

fun month_day :: "int list \<Rightarrow> int \<Rightarrow> int \<times> int" where
  "month_day [] n = (0, n + 1)"
| "month_day (len # lens) n =
     (if n < len then (1, n + 1) else (case month_day lens (n - len) of (m, d) \<Rightarrow> (m + 1, d)))"

text \<open>\<open>date.fromordinal\<close>: the 400, 100, 4 and 1 year cycles; day 1 is 0001-01-01.\<close>

definition ord2ymd :: "int \<Rightarrow> int \<times> int \<times> int" where
  "ord2ymd ordinal =
     (let n = ordinal - 1; n400 = n div 146097; n = n mod 146097;
          n100 = n div 36524; n = n mod 36524; n4 = n div 1461; n = n mod 1461;
          n1 = n div 365; n = n mod 365;
          year = n400 * 400 + 1 + n100 * 100 + n4 * 4 + n1
      in if n1 = 4 \<or> n100 = 4 then (year - 1, 12, 31)
         else case month_day (month_lengths year) n of (month, day) \<Rightarrow> (year, month, day))"

section \<open>The windows\<close>

definition DAY :: int where
  "DAY = 86400 * 10 ^ 6"

text \<open>The offset of \<open>SAST\<close>, two hours.\<close>

definition SAST :: int where
  "SAST = 7200 * 10 ^ 6"

definition local_day :: "instant \<Rightarrow> int" where
  "local_day now = (now + SAST) div DAY"

definition local_date :: "instant \<Rightarrow> int \<times> int \<times> int" where
  "local_date now = ord2ymd (local_day now + 1)"

definition window_starts :: "instant \<Rightarrow> instant \<times> instant" where
  "window_starts now =
     (let day_start = local_day now * DAY;
          month_start = (case local_date now of (y, m, d) \<Rightarrow> day_start - (d - 1) * DAY)
      in (day_start - SAST, month_start - SAST))"

section \<open>Totals and limits\<close>

record limit_usage =
  lu_daily_total :: decimal
  lu_monthly_total :: decimal
  lu_daily_limit :: decimal
  lu_monthly_limit :: decimal

definition daily_remaining :: "limit_usage \<Rightarrow> decimal" where
  "daily_remaining u = max (d_sub (lu_daily_limit u) (lu_daily_total u)) 0"

definition monthly_remaining :: "limit_usage \<Rightarrow> decimal" where
  "monthly_remaining u = max (d_sub (lu_monthly_limit u) (lu_monthly_total u)) 0"

definition limits_for :: "settings \<Rightarrow> kyc_status \<Rightarrow> decimal \<times> decimal" where
  "limits_for s st =
     (let verified = (st = KYC_APPROVED)
      in (if verified then verified_daily_limit s else unverified_daily_limit s,
          if verified then verified_monthly_limit s else unverified_monthly_limit s))"

text \<open>A row that holds headroom at an instant.\<close>

definition holds_headroom :: "instant \<Rightarrow> remittance \<Rightarrow> bool" where
  "holds_headroom now r \<longleftrightarrow>
     rem_status r \<in> set LIMIT_CONSUMING_STATUSES \<and>
     (rem_status r \<noteq> QUOTED \<or> (case rem_quote_expires_at r of None \<Rightarrow> True | Some t \<Rightarrow> now < t)) \<and>
     (rem_status r \<noteq> FAILED \<or> rem_cash_in_confirmed_at r \<noteq> None)"

text \<open>\<open>SUM\<close> over an exact \<open>Numeric\<close> column.\<close>

definition total_since :: "uuid \<Rightarrow> instant \<Rightarrow> instant \<Rightarrow> db \<Rightarrow> decimal" where
  "total_since sender now since d =
     (\<Sum>r \<leftarrow> filter (\<lambda>r. rem_sender_id r = sender \<and> since \<le> rem_created_at r \<and> holds_headroom now r)
              (remittances d). rem_zar_send_amount r)"

definition sender_totals :: "uuid \<Rightarrow> instant \<Rightarrow> db \<Rightarrow> decimal \<times> decimal" where
  "sender_totals sender now d =
     (let (day_start, month_start) = window_starts now
      in (total_since sender now day_start d, total_since sender now month_start d))"

definition usage_for :: "settings \<Rightarrow> user \<Rightarrow> instant \<Rightarrow> db \<Rightarrow> limit_usage" where
  "usage_for s u now d =
     (let (daily_total, monthly_total) = sender_totals (usr_id u) now d;
          (daily_limit, monthly_limit) = limits_for s (usr_kyc_status u)
      in \<lparr>lu_daily_total = daily_total, lu_monthly_total = monthly_total,
          lu_daily_limit = daily_limit, lu_monthly_limit = monthly_limit\<rparr>)"

definition assert_within_limits :: "settings \<Rightarrow> user \<Rightarrow> decimal \<Rightarrow> instant \<Rightarrow> db \<Rightarrow> exc + limit_usage" where
  "assert_within_limits s u amount now d =
     (let usage = usage_for s u now d
      in if lu_daily_limit usage < d_add (lu_daily_total usage) amount
         then Inl (LimitExceededError Daily amount (daily_remaining usage) (lu_daily_limit usage))
         else if lu_monthly_limit usage < d_add (lu_monthly_total usage) amount
         then Inl (LimitExceededError Monthly amount (monthly_remaining usage) (lu_monthly_limit usage))
         else Inr usage)"

section \<open>The calendar is right\<close>

definition ymd2ord :: "int \<Rightarrow> int \<Rightarrow> int \<Rightarrow> int" where
  "ymd2ord y m d = days_before_year y + sum_list (take (nat (m - 1)) (month_lengths y)) + d"

definition valid_date :: "int \<Rightarrow> int \<Rightarrow> int \<Rightarrow> bool" where
  "valid_date y m d \<longleftrightarrow> 1 \<le> m \<and> m \<le> 12 \<and> 1 \<le> d \<and> d \<le> month_lengths y ! nat (m - 1)"

lemma month_lengths_facts:
  "length (month_lengths y) = 12" "\<forall>x \<in> set (month_lengths y). 0 < x"
  "sum_list (month_lengths y) = (if leap_year y then 366 else 365)"
  by (simp_all add: month_lengths_def)

text \<open>The month search inverts the sum of the month lengths, for any list of lengths.\<close>

lemma month_day_sound:
  assumes "0 \<le> n" "n < sum_list lens"
  shows "\<exists>k d. month_day lens n = (int k + 1, d) \<and> k < length lens \<and> 1 \<le> d \<and> d \<le> lens ! k \<and>
         sum_list (take k lens) + d = n + 1"
  using assms
proof (induction lens n rule: month_day.induct)
  case (2 len lens n)
  show ?case
  proof (cases "n < len")
    case True
    then show ?thesis using "2.prems" by (intro exI [of _ 0] exI [of _ "n + 1"]) simp
  next
    case False
    then obtain k d where "month_day lens (n - len) = (int k + 1, d)" "k < length lens" "1 \<le> d" "d \<le> lens ! k"
      "sum_list (take k lens) + d = n - len + 1"
      using "2.IH" "2.prems" by auto
    then show ?thesis using False by (intro exI [of _ "Suc k"] exI [of _ d]) simp
  qed
qed simp

lemma month_day_complete:
  assumes "k < length lens" "1 \<le> d" "d \<le> lens ! k" "\<forall>x \<in> set lens. 0 < x"
  shows "month_day lens (sum_list (take k lens) + (d - 1)) = (int k + 1, d)"
  using assms
proof (induction lens arbitrary: k)
  case (Cons len lens)
  show ?case
  proof (cases k)
    case (Suc j)
    have "month_day lens (sum_list (take j lens) + (d - 1)) = (int j + 1, d)"
      using Cons.IH [of j] Cons.prems Suc by simp
    moreover have "0 \<le> sum_list (take j lens)"
      using Cons.prems(4) by (intro sum_list_nonneg) (auto dest!: in_set_takeD)
    ultimately show ?thesis using Cons.prems(2) Suc by simp
  qed (use Cons.prems in auto)
qed simp

lemma year_cycles:
  assumes "0 \<le> n"
  shows "\<exists>a b c e r. ord2ymd (n + 1) =
      (if e = 4 \<or> b = 4 then (a * 400 + b * 100 + c * 4 + e, 12, 31)
       else case month_day (month_lengths (a * 400 + 1 + b * 100 + c * 4 + e)) r of
              (m, d) \<Rightarrow> (a * 400 + 1 + b * 100 + c * 4 + e, m, d)) \<and>
    n = 146097 * a + 36524 * b + 1461 * c + 365 * e + r \<and> 0 \<le> a \<and> 0 \<le> b \<and> 0 \<le> c \<and> 0 \<le> e \<and> 0 \<le> r \<and>
    r < 365 \<and> b \<le> 4 \<and> c \<le> 24 \<and> e \<le> 4 \<and> (b = 4 \<longrightarrow> c = 0 \<and> e = 0 \<and> r = 0) \<and>
    (e = 4 \<longrightarrow> r = 0) \<and> (e = 4 \<longrightarrow> c \<noteq> 24 \<or> b = 3)"
proof -
  define a where "a = n div 146097"
  define n1 where "n1 = n mod 146097"
  define b where "b = n1 div 36524"
  define n2 where "n2 = n1 mod 36524"
  define c where "c = n2 div 1461"
  define n3 where "n3 = n2 mod 1461"
  define e where "e = n3 div 365"
  define r where "r = n3 mod 365"
  have n: "n = 146097 * a + n1" "n1 = 36524 * b + n2" "n2 = 1461 * c + n3" "n3 = 365 * e + r"
    by (simp_all add: a_def n1_def b_def n2_def c_def n3_def e_def r_def)
  have ranges: "0 \<le> n1" "n1 < 146097" "0 \<le> n2" "n2 < 36524" "0 \<le> n3" "n3 < 1461" "0 \<le> r" "r < 365"
    by (simp_all add: n1_def n2_def n3_def r_def)
  have signs: "0 \<le> a" "0 \<le> b" "0 \<le> c" "0 \<le> e"
    using assms ranges by (simp_all add: a_def b_def c_def e_def pos_imp_zdiv_nonneg_iff)
  have "ord2ymd (n + 1) =
      (if e = 4 \<or> b = 4 then (a * 400 + b * 100 + c * 4 + e, 12, 31)
       else case month_day (month_lengths (a * 400 + 1 + b * 100 + c * 4 + e)) r of
              (m, d) \<Rightarrow> (a * 400 + 1 + b * 100 + c * 4 + e, m, d))"
    by (simp add: ord2ymd_def Let_def a_def b_def c_def e_def r_def n1_def n2_def n3_def)
  then show ?thesis
    using n ranges signs by (intro exI [of _ a] exI [of _ b] exI [of _ c] exI [of _ e] exI [of _ r]) linarith
qed

lemma days_before_cycle:
  assumes "0 \<le> a" "0 \<le> b" "0 \<le> c" "0 \<le> e" "b \<le> 3" "c \<le> 24" "e \<le> 3"
  shows "days_before_year (a * 400 + 1 + b * 100 + c * 4 + e) = 146097 * a + 36524 * b + 1461 * c + 365 * e"
    "leap_year (a * 400 + 1 + b * 100 + c * 4 + e) \<longleftrightarrow> e = 3 \<and> (c \<noteq> 24 \<or> b = 3)"
proof -
  let ?x = "a * 400 + b * 100 + c * 4 + e" and ?y = "a * 400 + 1 + b * 100 + c * 4 + e"
  have "?x div 4 = 100 * a + 25 * b + c" by (rule int_div_pos_eq [where r = e]) (use assms in \<open>(simp; fail) | linarith\<close>)+
  moreover have "?x div 100 = 4 * a + b" by (rule int_div_pos_eq [where r = "c * 4 + e"]) (use assms in \<open>(simp; fail) | linarith\<close>)+
  moreover have "?x div 400 = a" by (rule int_div_pos_eq [where r = "b * 100 + c * 4 + e"]) (use assms in \<open>(simp; fail) | linarith\<close>)+
  moreover have "?y - 1 = ?x" by simp
  ultimately have "days_before_year ?y = ?x * 365 + (100 * a + 25 * b + c) - (4 * a + b) + a"
    unfolding days_before_year_def by (simp only:)
  then show "days_before_year ?y = 146097 * a + 36524 * b + 1461 * c + 365 * e" by simp
  show "leap_year ?y \<longleftrightarrow> e = 3 \<and> (c \<noteq> 24 \<or> b = 3)"
  proof (cases "e = 3")
    case e: True
    have four: "?y mod 4 = 0"
      by (rule int_mod_pos_eq [where q = "100 * a + 25 * b + c + 1"]) (use e in \<open>(simp; fail) | linarith\<close>)+
    show ?thesis
    proof (cases "c = 24")
      case c: True
      have "?y mod 100 = 0" by (rule int_mod_pos_eq [where q = "4 * a + b + 1"]) (use c e in \<open>(simp; fail) | linarith\<close>)+
      moreover have "?y mod 400 = 0 \<longleftrightarrow> b = 3"
      proof (cases "b = 3")
        case True
        have "?y mod 400 = 0"
          by (rule int_mod_pos_eq [where q = "a + 1"]) (use c e True in \<open>(simp; fail) | linarith\<close>)+
        then show ?thesis using True by simp
      next
        case False
        have "?y mod 400 = 100 * (b + 1)"
          by (rule int_mod_pos_eq [where q = a]) (use c e False assms in \<open>(simp; fail) | linarith\<close>)+
        moreover have "100 * (b + 1) \<noteq> 0" using assms(2) by simp
        ultimately show ?thesis using False by metis
      qed
      ultimately show ?thesis unfolding leap_year_def using four e c by metis
    next
      case c: False
      have "?y mod 100 = c * 4 + 4" by (rule int_mod_pos_eq [where q = "4 * a + b"]) (use c e assms in \<open>(simp; fail) | linarith\<close>)+
      then show ?thesis using four e c assms by (simp add: leap_year_def)
    qed
  next
    case e: False
    have "?y mod 4 = e + 1"
      by (rule int_mod_pos_eq [where q = "100 * a + 25 * b + c"]) (use e assms in \<open>(simp; fail) | linarith\<close>)+
    then show ?thesis using e assms by (simp add: leap_year_def)
  qed
qed

lemma div_pred: "0 < k \<Longrightarrow> (y :: int) div k = (y - 1) div k + (if k dvd y then 1 else 0)"
proof -
  assume k: "0 < k"
  have y: "y = k * (y div k) + y mod k" by simp
  show ?thesis
  proof (cases "k dvd y")
    case True
    then have "(y - 1) div k = y div k - 1"
      using y k by (intro int_div_pos_eq [where r = "k - 1"]) (simp_all add: algebra_simps)
    then show ?thesis using True by simp
  next
    case False
    moreover have "0 \<le> y mod k" "y mod k < k" using k by simp_all
    moreover have "y mod k \<noteq> 0" using False by (simp add: dvd_eq_mod_eq_0)
    ultimately have "(y - 1) div k = y div k"
      using y by (intro int_div_pos_eq [where r = "y mod k - 1"]) linarith+
    then show ?thesis using False by simp
  qed
qed

lemma leap_days:
  fixes y :: int
  assumes "q4 = p4 + (if a then 1 else 0)" "q100 = p100 + (if b then 1 else 0)" "q400 = p400 + (if c then 1 else 0)"
    "c \<Longrightarrow> b" "b \<Longrightarrow> a"
  shows "y * 365 + q4 - q100 + q400 =
    (y - 1) * 365 + p4 - p100 + p400 + (if a \<and> (\<not> b \<or> c) then 366 else 365)"
  using assms by (cases a; cases b; cases c) simp_all

lemma year_length: "days_before_year (y + 1) = days_before_year y + sum_list (month_lengths y)"
proof -
  have "100 dvd y" if "400 dvd y" using that by (rule dvd_trans [rotated]) simp
  moreover have "4 dvd y" if "100 dvd y" using that by (rule dvd_trans [rotated]) simp
  moreover have leap: "leap_year y \<longleftrightarrow> 4 dvd y \<and> (\<not> 100 dvd y \<or> 400 dvd y)"
    by (simp add: leap_year_def dvd_eq_mod_eq_0)
  ultimately show ?thesis
    unfolding days_before_year_def month_lengths_facts(3) leap add_diff_cancel_right'
    by (intro leap_days div_pred) simp_all
qed

lemma december: "ymd2ord y 12 31 = days_before_year (y + 1)" "valid_date y 12 31"
  by (simp_all add: ymd2ord_def year_length month_lengths_def valid_date_def)

lemma ord2ymd_sound:
  assumes "0 \<le> n"
  shows "case ord2ymd (n + 1) of (y, m, d) \<Rightarrow> valid_date y m d \<and> ymd2ord y m d = n + 1"
proof -
  obtain a b c e r where o: "ord2ymd (n + 1) =
      (if e = 4 \<or> b = 4 then (a * 400 + b * 100 + c * 4 + e, 12, 31)
       else case month_day (month_lengths (a * 400 + 1 + b * 100 + c * 4 + e)) r of
              (m, d) \<Rightarrow> (a * 400 + 1 + b * 100 + c * 4 + e, m, d))"
    and n: "n = 146097 * a + 36524 * b + 1461 * c + 365 * e + r"
    and k: "0 \<le> a" "0 \<le> b" "0 \<le> c" "0 \<le> e" "0 \<le> r" "r < 365" "b \<le> 4" "c \<le> 24" "e \<le> 4"
      "b = 4 \<longrightarrow> c = 0 \<and> e = 0 \<and> r = 0" "e = 4 \<longrightarrow> r = 0" "e = 4 \<longrightarrow> c \<noteq> 24 \<or> b = 3"
    using year_cycles [OF assms] by (elim exE conjE) (rule that; assumption)
  consider (b4) "b = 4" | (e4) "e = 4" "b \<le> 3" | (plain) "b \<le> 3" "e \<le> 3" using k by linarith
  then show ?thesis
  proof cases
    case b4
    have "days_before_year (a * 400 + 400 + 1) = n + 1"
      using n k b4 days_before_cycle [of "a + 1" 0 0 0] by (simp add: algebra_simps)
    then show ?thesis using o b4 k december [of "a * 400 + 400"] by simp
  next
    case e4
    let ?y = "a * 400 + 1 + b * 100 + c * 4 + 3"
    have "leap_year ?y" "days_before_year ?y = 146097 * a + 36524 * b + 1461 * c + 365 * 3"
      using days_before_cycle [of a b c 3] k e4 by auto
    then have "days_before_year (?y + 1) = n + 1"
      using n k e4 by (simp only: year_length month_lengths_facts) simp
    moreover have "ord2ymd (n + 1) = (?y, 12, 31)" using o e4 by simp
    ultimately show ?thesis using december [of ?y] by (simp only: prod.case)
  next
    case plain
    let ?y = "a * 400 + 1 + b * 100 + c * 4 + e"
    have "r < sum_list (month_lengths ?y)" using k by (simp add: month_lengths_facts)
    then obtain j d where j: "month_day (month_lengths ?y) r = (int j + 1, d)" "j < 12" "1 \<le> d"
      "d \<le> month_lengths ?y ! j" "sum_list (take j (month_lengths ?y)) + d = r + 1"
      using month_day_sound [of r "month_lengths ?y"] k by (auto simp: month_lengths_facts)
    have "days_before_year ?y = n - r" using days_before_cycle [of a b c e] k plain n by simp
    then show ?thesis using o plain j by (simp add: valid_date_def ymd2ord_def)
  qed
qed

lemma ymd2ord_bounds:
  assumes "valid_date y m d"
  shows "days_before_year y < ymd2ord y m d" "ymd2ord y m d \<le> days_before_year (y + 1)"
proof -
  let ?l = "month_lengths y" and ?k = "nat (m - 1)"
  have k: "?k < length ?l" "1 \<le> d" "d \<le> ?l ! ?k"
    using assms by (auto simp: valid_date_def month_lengths_facts)
  have "0 \<le> sum_list (take ?k ?l)" "0 \<le> sum_list (drop (Suc ?k) ?l)"
    using month_lengths_facts(2) [of y]
    by (intro sum_list_nonneg; fastforce dest: in_set_takeD in_set_dropD)+
  moreover have "sum_list ?l = sum_list (take ?k ?l) + ?l ! ?k + sum_list (drop (Suc ?k) ?l)"
    using k(1) by (metis add.assoc append_take_drop_id Cons_nth_drop_Suc sum_list.Cons sum_list_append)
  ultimately show "days_before_year y < ymd2ord y m d" "ymd2ord y m d \<le> days_before_year (y + 1)"
    using k by (simp_all add: ymd2ord_def year_length)
qed

lemma days_before_year_mono: "y \<le> z \<Longrightarrow> days_before_year y \<le> days_before_year z"
proof (induction z rule: int_ge_induct)
  case (step z)
  then show ?case using year_length [of z] by (simp add: month_lengths_facts)
qed simp

lemma ymd2ord_inj:
  assumes "valid_date y m d" "valid_date y' m' d'" "ymd2ord y m d = ymd2ord y' m' d'"
  shows "y = y' \<and> m = m' \<and> d = d'"
proof -
  have "\<not> y < y'" using ymd2ord_bounds(2) [OF assms(1)] ymd2ord_bounds(1) [OF assms(2)]
      days_before_year_mono [of "y + 1" y'] assms(3) by auto
  moreover have "\<not> y' < y" using ymd2ord_bounds(2) [OF assms(2)] ymd2ord_bounds(1) [OF assms(1)]
      days_before_year_mono [of "y' + 1" y] assms(3) by auto
  ultimately have y: "y' = y" by simp
  have md: "month_day (month_lengths y) (sum_list (take (nat (m - 1)) (month_lengths y)) + (d - 1)) = (m, d)"
    if "valid_date y m d" for m d
    using month_day_complete [of "nat (m - 1)" "month_lengths y" d] that
    by (auto simp: valid_date_def month_lengths_facts)
  have "sum_list (take (nat (m - 1)) (month_lengths y)) + (d - 1) =
        sum_list (take (nat (m' - 1)) (month_lengths y)) + (d' - 1)"
    using assms(3) by (simp add: y ymd2ord_def)
  then have "(m, d) = (m', d')" using md [OF assms(1)] md [OF assms(2) [unfolded y]] by metis
  then show ?thesis using y by simp
qed

lemma ord2ymd_unique:
  assumes "0 \<le> n" "valid_date y m d" "ymd2ord y m d = n + 1"
  shows "ord2ymd (n + 1) = (y, m, d)"
proof -
  obtain y' m' d' where o: "ord2ymd (n + 1) = (y', m', d')" by (metis prod_cases3)
  then have "valid_date y' m' d'" "ymd2ord y' m' d' = n + 1" using ord2ymd_sound [OF assms(1)] by simp_all
  from ymd2ord_inj [OF this(1) assms(2)] this(2) assms(3) show ?thesis using o by simp
qed

lemma first_of_month:
  assumes "0 \<le> n" "ord2ymd (n + 1) = (y, m, d)"
  shows "ord2ymd (n - (d - 1) + 1) = (y, m, 1)" "1 \<le> d" "d \<le> 31" "d \<le> n + 1"
proof -
  have v: "valid_date y m d" "ymd2ord y m d = n + 1" using ord2ymd_sound [OF assms(1)] assms(2) by simp_all
  have v1: "valid_date y m 1" "ymd2ord y m 1 = n - (d - 1) + 1" using v by (auto simp: valid_date_def ymd2ord_def)
  show d: "1 \<le> d" using v by (simp add: valid_date_def)
  have "month_lengths y ! nat (m - 1) \<in> set (month_lengths y)"
    using v(1) by (intro nth_mem) (auto simp: valid_date_def month_lengths_facts)
  then show "d \<le> 31" using v(1) by (auto simp: valid_date_def month_lengths_def split: if_splits)
  have y: "1 \<le> y"
  proof (rule ccontr)
    assume "\<not> 1 \<le> y"
    then have "days_before_year (y + 1) \<le> days_before_year 1" by (intro days_before_year_mono) simp
    then show False using ymd2ord_bounds(2) [OF v(1)] v(2) assms(1) by (simp add: days_before_year_def)
  qed
  then have "0 \<le> days_before_year y" using days_before_year_mono [of 1 y] by (simp add: days_before_year_def)
  then show "d \<le> n + 1" using ymd2ord_bounds(1) [OF v1(1)] v1(2) by linarith
  then show "ord2ymd (n - (d - 1) + 1) = (y, m, 1)" using v1 by (intro ord2ymd_unique) simp_all
qed

section \<open>The windows are the calendar day and month\<close>

lemma DAY_pos: "0 < DAY"
  by (simp add: DAY_def)

lemma SAST_pos: "0 \<le> SAST"
  by (simp add: SAST_def)

lemma local_day_nonneg: "0 \<le> now \<Longrightarrow> 0 \<le> local_day now"
  using DAY_pos SAST_pos by (simp add: local_day_def pos_imp_zdiv_nonneg_iff)

lemma local_day_mono: "t \<le> now \<Longrightarrow> local_day t \<le> local_day now"
  using DAY_pos by (simp add: local_day_def zdiv_mono1)

lemma le_div_int: "0 < k \<Longrightarrow> n \<le> x div k \<longleftrightarrow> n * k \<le> (x :: int)"
proof
  assume k: "0 < k" and "n * k \<le> x"
  then have "n * k div k \<le> x div k" by (intro zdiv_mono1)
  then show "n \<le> x div k" using k by simp
next
  assume k: "0 < k" and "n \<le> x div k"
  then have "n * k \<le> x div k * k" by simp
  also have "\<dots> \<le> x" using k pos_mod_sign [of k x] div_mult_mod_eq [of x k] by linarith
  finally show "n * k \<le> x" .
qed

lemma day_reached: "n * DAY - SAST \<le> t \<longleftrightarrow> n \<le> local_day t"
  using le_div_int [OF DAY_pos, of n "t + SAST"] by (simp add: local_day_def algebra_simps)

lemma local_day_at: "local_day (n * DAY - SAST) = n"
  using DAY_pos by (simp add: local_day_def)

lemma ord2ymd_inj: "0 \<le> a \<Longrightarrow> 0 \<le> b \<Longrightarrow> ord2ymd (a + 1) = ord2ymd (b + 1) \<Longrightarrow> a = b"
  using ord2ymd_sound [of a] ord2ymd_sound [of b] by (auto split: prod.splits)

text \<open>The days of one month are consecutive.\<close>

lemma same_month:
  assumes "0 \<le> b" "0 \<le> a" "a \<le> b" "ord2ymd (b + 1) = (y, m, d)"
  shows "b - (d - 1) \<le> a \<longleftrightarrow> (\<exists>d'. ord2ymd (a + 1) = (y, m, d'))"
proof
  have b: "valid_date y m d" "ymd2ord y m d = b + 1" using ord2ymd_sound [OF assms(1)] assms(4) by simp_all
  {
    assume "b - (d - 1) \<le> a"
    then have "valid_date y m (d - (b - a))" "ymd2ord y m (d - (b - a)) = a + 1"
      using b assms(3) by (auto simp: valid_date_def ymd2ord_def)
    then show "\<exists>d'. ord2ymd (a + 1) = (y, m, d')" using ord2ymd_unique [OF assms(2)] by blast
  next
    assume "\<exists>d'. ord2ymd (a + 1) = (y, m, d')"
    then obtain d' where "ord2ymd (a + 1) = (y, m, d')" ..
    then have "valid_date y m d'" "ymd2ord y m d' = a + 1" using ord2ymd_sound [OF assms(2)] by simp_all
    then show "b - (d - 1) \<le> a" using b by (auto simp: valid_date_def ymd2ord_def)
  }
qed

lemma window_starts_eq:
  assumes "local_date now = (y, m, d)"
  shows "window_starts now = (local_day now * DAY - SAST, (local_day now - (d - 1)) * DAY - SAST)"
  using assms by (simp add: window_starts_def Let_def left_diff_distrib)

text \<open>
  C26. The windows of the limits are the calendar day and the calendar month in South Africa. The
  day window starts at a local midnight and the month window at the midnight of the first of the
  month; and an instant of the past is in the day window exactly when its local date is today's,
  and in the month window exactly when its local year and month are the current ones.
\<close>

theorem windows_are_calendar:
  assumes "0 \<le> now" "window_starts now = (day_start, month_start)" "local_date now = (y, m, d)"
  shows "(day_start + SAST) mod DAY = 0 \<and> local_date day_start = (y, m, d) \<and>
    (month_start + SAST) mod DAY = 0 \<and> local_date month_start = (y, m, 1) \<and> month_start \<le> day_start \<and>
    (\<forall>t. 0 \<le> t \<longrightarrow> t \<le> now \<longrightarrow>
       (day_start \<le> t \<longleftrightarrow> local_date t = (y, m, d)) \<and>
       (month_start \<le> t \<longleftrightarrow> (\<exists>d'. local_date t = (y, m, d'))))"
proof -
  let ?l = "local_day now"
  have l: "0 \<le> ?l" "ord2ymd (?l + 1) = (y, m, d)"
    using local_day_nonneg [OF assms(1)] assms(3) by (simp_all add: local_date_def)
  note first = first_of_month [OF l]
  have w: "day_start = ?l * DAY - SAST" "month_start = (?l - (d - 1)) * DAY - SAST"
    using window_starts_eq [OF assms(3)] assms(2) by simp_all
  have starts: "local_date day_start = (y, m, d)" "local_date month_start = (y, m, 1)"
    using l(2) first(1) by (simp_all only: w local_date_def local_day_at)
  have "(day_start \<le> t \<longleftrightarrow> local_date t = (y, m, d)) \<and> (month_start \<le> t \<longleftrightarrow> (\<exists>d'. local_date t = (y, m, d')))"
    if "0 \<le> t" "t \<le> now" for t
  proof
    have t: "0 \<le> local_day t" "local_day t \<le> ?l" using local_day_nonneg local_day_mono that by simp_all
    have "?l \<le> local_day t \<longleftrightarrow> local_date t = (y, m, d)"
      using t l ord2ymd_inj [of "local_day t" ?l] by (auto simp: local_date_def)
    then show "day_start \<le> t \<longleftrightarrow> local_date t = (y, m, d)" by (simp only: w day_reached)
    show "month_start \<le> t \<longleftrightarrow> (\<exists>d'. local_date t = (y, m, d'))"
      using same_month [OF l(1) t l(2)] by (simp only: w day_reached local_date_def)
  qed
  moreover have "month_start \<le> day_start" using first(2) DAY_pos by (simp add: w left_diff_distrib)
  ultimately show ?thesis using starts by (simp add: w)
qed

text \<open>One microsecond before and at midnight in South Africa, the evening of 29 February 2024 in UTC.\<close>

definition leap_midnight :: instant where
  "leap_midnight = 738945 * DAY - SAST"

theorem windows_are_calendar_witness:
  "window_starts leap_midnight = (leap_midnight, leap_midnight) \<and>
   window_starts (leap_midnight - 1) = (leap_midnight - DAY, leap_midnight - 29 * DAY) \<and>
   local_date (leap_midnight - DAY) = (2024, 2, 29) \<and> local_date (leap_midnight - 29 * DAY) = (2024, 2, 1)"
proof -
  have o: "local_day (leap_midnight - 1) = 738944" "local_day leap_midnight = 738945"
    by (simp_all add: leap_midnight_def local_day_def DAY_def SAST_def)
  have d: "local_date (leap_midnight - 1) = (2024, 2, 29)" "local_date leap_midnight = (2024, 3, 1)"
    unfolding local_date_def o by (simp_all add: ord2ymd_def Let_def month_lengths_def leap_year_def)
  have w: "window_starts leap_midnight = (leap_midnight, leap_midnight)"
    "window_starts (leap_midnight - 1) = (leap_midnight - DAY, leap_midnight - 29 * DAY)"
    unfolding window_starts_eq [OF d(2)] window_starts_eq [OF d(1)] o
    by (simp_all add: leap_midnight_def)
  have "0 \<le> leap_midnight - 1" by (simp add: leap_midnight_def DAY_def SAST_def)
  from windows_are_calendar [OF this w(2) d(1)] show ?thesis using w by simp
qed

section \<open>The check is exact\<close>

definition rows_ok :: "db \<Rightarrow> bool" where
  "rows_ok d \<longleftrightarrow> (\<forall>r \<in> set (remittances d). scaled 2 (rem_zar_send_amount r) \<and> 0 \<le> rem_zar_send_amount r)"

definition limit_settings_ok :: "settings \<Rightarrow> bool" where
  "limit_settings_ok s \<longleftrightarrow>
     (\<forall>l \<in> {unverified_daily_limit s, unverified_monthly_limit s, verified_daily_limit s, verified_monthly_limit s}.
        scaled 2 l \<and> 0 \<le> l \<and> l \<le> 10 ^ 20)"

lemma total_facts:
  assumes "rows_ok d"
  shows "scaled 2 (total_since u now since d)" "0 \<le> total_since u now since d"
proof -
  show "scaled 2 (total_since u now since d)" unfolding total_since_def
    using assms by (intro scaled_sum_list) (auto simp: rows_ok_def)
  show "0 \<le> total_since u now since d" unfolding total_since_def
    using assms by (intro sum_list_nonneg) (auto simp: rows_ok_def)
qed

lemma sum_list_filter_mono:
  assumes "\<And>x. x \<in> set xs \<Longrightarrow> p x \<Longrightarrow> q x" "\<And>x. x \<in> set xs \<Longrightarrow> 0 \<le> (f x :: rat)"
  shows "sum_list (map f (filter p xs)) \<le> sum_list (map f (filter q xs))"
  using assms by (induction xs) (auto simp: add_increasing)

lemma total_antimono:
  "rows_ok d \<Longrightarrow> since \<le> since' \<Longrightarrow> total_since u now since' d \<le> total_since u now since d"
  unfolding total_since_def
  by (intro sum_list_filter_mono) (auto simp: rows_ok_def)

lemma limits_for_ok:
  assumes "limit_settings_ok s" "limits_for s st = (daily, monthly)"
  shows "scaled 2 daily" "0 \<le> daily" "daily \<le> 10 ^ 20" "scaled 2 monthly" "0 \<le> monthly" "monthly \<le> 10 ^ 20"
  using assms by (auto simp: limit_settings_ok_def limits_for_def Let_def split: if_splits)

text \<open>A sum that rounds is far above any limit, so the rounded comparison is the exact one.\<close>

lemma d_add_exceeds:
  assumes "scaled 2 t" "scaled 2 a" "0 \<le> t" "0 \<le> a" "l \<le> 10 ^ 20"
  shows "l < d_add t a \<longleftrightarrow> l < t + a"
proof (cases "t + a < 10 ^ 26")
  case True
  then have "ctx (t + a) = t + a" using assms by (intro ctx_scaled [of 2]) auto
  then show ?thesis by (simp add: d_add_def)
next
  case False
  then have "\<bar>ctx (t + a) - (t + a)\<bar> \<le> (t + a) / 10 ^ 27 / 2" using ctx_error [of "t + a"] by simp
  moreover have "(t + a) / 10 ^ 27 / 2 \<le> (t + a) / 2" using False by (simp add: divide_le_eq)
  ultimately have "\<bar>ctx (t + a) - (t + a)\<bar> \<le> (t + a) / 2" by (rule order_trans)
  then have "(t + a) - ctx (t + a) \<le> (t + a) / 2" by (simp only: abs_le_iff minus_diff_eq)
  then have "(t + a) / 2 \<le> ctx (t + a)" by simp
  moreover have "l < (t + a) / 2" using False assms(5) by simp
  moreover have "(t + a) / 2 \<le> t + a" using assms(3,4) by simp
  ultimately have "l < ctx (t + a)" "l < t + a" by (blast intro: less_le_trans)+
  then show ?thesis by (simp add: d_add_def)
qed

lemma remaining_exact:
  assumes "scaled 2 t" "scaled 2 l" "0 \<le> t" "0 \<le> l" "l \<le> 10 ^ 20"
  shows "max (d_sub l t) 0 = max (l - t) 0"
proof (cases "t \<le> l")
  case True
  then have "ctx (l - t) = l - t" using assms by (intro ctx_scaled [of 2]) auto
  then show ?thesis by (simp add: d_sub_def)
next
  case False
  then have "\<bar>ctx (l - t) - (l - t)\<bar> \<le> (t - l) / 10 ^ 27 / 2" using ctx_error [of "l - t"] by simp
  moreover have "(t - l) / 10 ^ 27 / 2 \<le> t - l" using False by (simp add: divide_le_eq)
  ultimately have "\<bar>ctx (l - t) - (l - t)\<bar> \<le> t - l" by (rule order_trans)
  then have "ctx (l - t) \<le> 0" by (simp add: abs_le_iff)
  then show ?thesis using False by (simp add: d_sub_def)
qed

lemma limit_check_eq:
  assumes "rows_ok d" "limit_settings_ok s" "scaled 2 amount" "0 \<le> amount"
    "window_starts now = (day_start, month_start)" "limits_for s (usr_kyc_status u) = (daily, monthly)"
  shows "let day_total = total_since (usr_id u) now day_start d;
             month_total = total_since (usr_id u) now month_start d
         in assert_within_limits s u amount now d =
              (if daily < day_total + amount
               then Inl (LimitExceededError Daily amount (max (daily - day_total) 0) daily)
               else if monthly < month_total + amount
               then Inl (LimitExceededError Monthly amount (max (monthly - month_total) 0) monthly)
               else Inr \<lparr>lu_daily_total = day_total, lu_monthly_total = month_total,
                         lu_daily_limit = daily, lu_monthly_limit = monthly\<rparr>)"
proof -
  note t = total_facts [OF assms(1)] and l = limits_for_ok [OF assms(2,6)]
  show ?thesis
    using t l assms(3-6)
    by (simp add: Let_def assert_within_limits_def usage_for_def sender_totals_def daily_remaining_def
        monthly_remaining_def d_add_exceeds remaining_exact)
qed

text \<open>
  A send is let through exactly when it fits. The check passes if and only if the day's total
  plus the amount is at most the daily limit and the month's total plus the amount at most the
  monthly one, with no rounding of the sums; a refusal names the limit that is hit, the daily one
  first, and the room that is left, never below zero.
\<close>

theorem limit_check_exact:
  assumes "rows_ok d" "limit_settings_ok s" "scaled 2 amount" "0 \<le> amount"
    "window_starts now = (day_start, month_start)" "limits_for s (usr_kyc_status u) = (daily, monthly)"
  shows "let day_total = total_since (usr_id u) now day_start d;
             month_total = total_since (usr_id u) now month_start d
         in assert_within_limits s u amount now d =
              (if daily < day_total + amount
               then Inl (LimitExceededError Daily amount (max (daily - day_total) 0) daily)
               else if monthly < month_total + amount
               then Inl (LimitExceededError Monthly amount (max (monthly - month_total) 0) monthly)
               else Inr \<lparr>lu_daily_total = day_total, lu_monthly_total = month_total,
                         lu_daily_limit = daily, lu_monthly_limit = monthly\<rparr>)"
  using assms by (rule limit_check_eq)

theorem limit_check_exact_witness:
  "assert_within_limits demo_settings (demo_user 1 ''ann'') 3000 0 demo_db =
     Inr \<lparr>lu_daily_total = 0, lu_monthly_total = 0, lu_daily_limit = 3000, lu_monthly_limit = 25000\<rparr> \<and>
   assert_within_limits demo_settings (demo_user 1 ''ann'') (300001/100) 0 demo_db =
     Inl (LimitExceededError Daily (300001/100) 3000 3000)"
proof -
  obtain ds ms where w: "window_starts 0 = (ds, ms)" by fastforce
  have f: "limits_for demo_settings (usr_kyc_status (demo_user 1 ''ann'')) = (3000, 25000)"
    "limit_settings_ok demo_settings" "rows_ok demo_db" "remittances demo_db = []"
    by (auto simp: limits_for_def demo_settings_def default_settings_def demo_user_def limit_settings_ok_def
        rows_ok_def demo_db_def empty_db_def)
  have a: "scaled 2 (3000 :: rat)" "scaled 2 (300001/100 :: rat)" by code_simp+
  show ?thesis
    using limit_check_exact [OF f(3,2) a(1) _ w f(1)] limit_check_exact [OF f(3,2) a(2) _ w f(1)]
    by (simp add: total_since_def f(4))
qed

end
