(* ===== verification/Access.thy ===== *)
theory Access
  imports SendLimits Queue "HOL-Library.Countable"
begin

text \<open>
  Who is calling: \<open>app/security\<close>, \<open>app/dependencies.py\<close>, \<open>app/routers/auth.py\<close> with its schemas
  in \<open>app/schemas/user.py\<close>, and \<open>scripts/create_admin.py\<close>. python-jose (tokens), passlib
  (password hashes), \<open>secrets\<close> and the e-mail validator are the fields of \<open>auth_lib\<close>.

  A request handler returns an exception or its response, and the database it leaves committed. A
  refusal the client sees is \<open>HTTPException\<close> with its status code; any other exception is the
  server's error 500. The texts of the refusals are dropped.
\<close>

section \<open>Handlers\<close>

text \<open>\<open>try: ... except E as exc: raise HTTPException(code)\<close>, with the code for each class caught.\<close>

definition http_of :: "(exc \<Rightarrow> nat option) \<Rightarrow> exc + 'a \<Rightarrow> exc + 'a" where
  "http_of caught m =
     (case m of
        Inl e \<Rightarrow> (case caught e of Some code \<Rightarrow> Inl (HTTPException code) | None \<Rightarrow> Inl e)
      | Inr x \<Rightarrow> Inr x)"

text \<open>A handler that commits once, at its end: an exception leaves the database as it was.\<close>

definition commit_or_keep :: "db \<Rightarrow> exc + 'a \<times> db \<Rightarrow> (exc + 'a) \<times> db" where
  "commit_or_keep d m = (case m of Inl e \<Rightarrow> (Inl e, d) | Inr (x, d') \<Rightarrow> (Inr x, d'))"

section \<open>Tokens and passwords\<close>

record token_payload =
  tp_sub :: "string option"
  tp_iat :: int
  tp_exp :: int

record 'n auth_lib =
  jwt_encode :: "token_payload \<Rightarrow> string \<Rightarrow> string \<Rightarrow> string"
  jwt_decode :: "string \<Rightarrow> string \<Rightarrow> string list \<Rightarrow> instant \<Rightarrow> token_payload option"
  pw_hash :: "string \<Rightarrow> 'n \<Rightarrow> (exc + string) \<times> 'n"
  pw_verify :: "string \<Rightarrow> string \<Rightarrow> exc + bool"
  token_urlsafe :: "'n \<Rightarrow> string \<times> 'n"
  valid_email :: "string \<Rightarrow> string option"

text \<open>\<open>int(moment.timestamp())\<close> of an instant after 1970.\<close>

definition timestamp :: "instant \<Rightarrow> int" where
  "timestamp now = (now - 62135596800 * 10 ^ 6) div 10 ^ 6"

definition create_access_token :: "'n auth_lib \<Rightarrow> settings \<Rightarrow> string \<Rightarrow> instant \<Rightarrow> string" where
  "create_access_token lib s subject now =
     (let expires_at = now + access_token_expire_minutes s * 60 * 10 ^ 6
      in jwt_encode lib \<lparr>tp_sub = Some subject, tp_iat = timestamp now, tp_exp = timestamp expires_at\<rparr>
           (secret_key s) (jwt_algorithm s))"

definition decode_access_token :: "'n auth_lib \<Rightarrow> settings \<Rightarrow> string \<Rightarrow> instant \<Rightarrow> exc + string" where
  "decode_access_token lib s tok now =
     ebind (some_or InvalidTokenError (jwt_decode lib tok (secret_key s) [jwt_algorithm s] now))
       (\<lambda>payload. some_or InvalidTokenError (tp_sub payload))"

section \<open>The dependencies\<close>

definition get_current_user :: "'n auth_lib \<Rightarrow> settings \<Rightarrow> string \<Rightarrow> instant \<Rightarrow> db \<Rightarrow> exc + user" where
  "get_current_user lib s tok now d =
     ebind (http_of (\<lambda>e. if e = InvalidTokenError \<or> e = ValueError then Some 401 else None)
              (ebind (decode_access_token lib s tok now) (\<lambda>subject.
                 some_or ValueError (uuid_parse subject))))
       (\<lambda>user_id. some_or (HTTPException 401) (get_user user_id d))"

definition require_kyc_approved :: "user \<Rightarrow> exc + user" where
  "require_kyc_approved u =
     (if usr_kyc_status u \<noteq> KYC_APPROVED then Inl (HTTPException 403) else Inr u)"

definition require_admin :: "user \<Rightarrow> exc + user" where
  "require_admin u = (if \<not> usr_is_admin u then Inl (HTTPException 403) else Inr u)"

section \<open>The users table\<close>

definition put_user :: "uuid \<Rightarrow> (user \<Rightarrow> user) \<Rightarrow> db \<Rightarrow> db" where
  "put_user k f d = d\<lparr>users := put_by usr_id k f (users d)\<rparr>"

definition user_by_email :: "string \<Rightarrow> db \<Rightarrow> user option" where
  "user_by_email email d = find (\<lambda>u. usr_email u = email) (users d)"

text \<open>An INSERT with the column defaults; \<open>email\<close> is unique.\<close>

definition insert_user :: "string \<Rightarrow> string \<Rightarrow> string \<Rightarrow> bool \<Rightarrow> instant \<Rightarrow> db \<Rightarrow> exc + user \<times> db" where
  "insert_user email hashed full_name is_admin now d =
     (if \<exists>u \<in> set (users d). usr_email u = email then Inl IntegrityError
      else
        let u = \<lparr>usr_id = next_id d, usr_email = email, usr_hashed_password = hashed,
                 usr_full_name = full_name, usr_kyc_status = KYC_NOT_STARTED,
                 usr_is_admin = is_admin, usr_created_at = now\<rparr>
        in Inr (u, d\<lparr>users := users d @ [u], next_id := Suc (next_id d)\<rparr>))"

section \<open>Registration and login\<close>

text \<open>
  \<open>len(value.encode("utf-8"))\<close>: a character here is one of the first 256 code points, of one
  byte below 128 and two above.
\<close>

definition MAX_PASSWORD_BYTES :: nat where
  "MAX_PASSWORD_BYTES = 72"

definition utf8_length :: "string \<Rightarrow> nat" where
  "utf8_length t = (\<Sum>c \<leftarrow> t. if (of_char c :: nat) < 128 then 1 else 2)"

definition length_within :: "nat \<Rightarrow> nat \<Rightarrow> string \<Rightarrow> bool" where
  "length_within lo hi t \<longleftrightarrow> lo \<le> length t \<and> length t \<le> hi"

text \<open>\<open>UserRegister\<close>; a value the schema refuses is answered 422 before the handler runs.\<close>

definition parse_user_register ::
  "'n auth_lib \<Rightarrow> string \<Rightarrow> string \<Rightarrow> string \<Rightarrow> exc + string \<times> string \<times> string" where
  "parse_user_register lib email password full_name =
     ebind (some_or (HTTPException 422) (valid_email lib email)) (\<lambda>email.
     ebind (guard_or (HTTPException 422)
              (length_within 8 MAX_PASSWORD_BYTES password \<and> length_within 1 200 full_name \<and>
               utf8_length password \<le> MAX_PASSWORD_BYTES)) (\<lambda>_.
     Inr (email, password, full_name)))"

definition conflict_of :: "exc \<Rightarrow> nat option" where
  "conflict_of e = (if e = IntegrityError then Some 409 else None)"

definition register ::
  "'n auth_lib \<Rightarrow> string \<times> string \<times> string \<Rightarrow> instant \<Rightarrow> db \<Rightarrow> 'n \<Rightarrow> ((exc + user) \<times> db) \<times> 'n" where
  "register lib payload now d n =
     (let (email, password, full_name) = payload
      in case pw_hash lib password n of
           (Inl e, n') \<Rightarrow> ((Inl e, d), n')
         | (Inr hashed, n') \<Rightarrow>
             (commit_or_keep d (http_of conflict_of (insert_user email hashed full_name False now d)), n'))"

text \<open>The module's \<open>_dummy_hash\<close> is part of the state.\<close>

definition dummy_password_hash ::
  "'n auth_lib \<Rightarrow> string option \<times> 'n \<Rightarrow> (exc + string) \<times> string option \<times> 'n" where
  "dummy_password_hash lib st =
     (case st of
        (Some h, n) \<Rightarrow> (Inr h, Some h, n)
      | (None, n) \<Rightarrow>
          (let (secret, n1) = token_urlsafe lib n
           in case pw_hash lib secret n1 of
                (Inl e, n2) \<Rightarrow> (Inl e, None, n2)
              | (Inr h, n2) \<Rightarrow> (Inr h, Some h, n2)))"

definition authenticate ::
  "'n auth_lib \<Rightarrow> string \<Rightarrow> string \<Rightarrow> db \<Rightarrow> string option \<times> 'n \<Rightarrow> (exc + user) \<times> string option \<times> 'n" where
  "authenticate lib email password d st =
     (case user_by_email email d of
        None \<Rightarrow>
          (case dummy_password_hash lib st of
             (Inl e, st') \<Rightarrow> (Inl e, st')
           | (Inr h, st') \<Rightarrow>
               (ebind (pw_verify lib password h) (\<lambda>_. Inl (HTTPException 401)), st'))
      | Some u \<Rightarrow>
          (ebind (pw_verify lib password (usr_hashed_password u)) (\<lambda>ok.
             if ok then Inr u else Inl (HTTPException 401)), st))"

definition issue_token :: "'n auth_lib \<Rightarrow> settings \<Rightarrow> instant \<Rightarrow> user \<Rightarrow> string \<times> int" where
  "issue_token lib s now u =
     (create_access_token lib s (uuid_str (usr_id u)) now, access_token_expire_minutes s * 60)"

definition login ::
  "'n auth_lib \<Rightarrow> settings \<Rightarrow> string \<Rightarrow> string \<Rightarrow> instant \<Rightarrow> db \<Rightarrow> string option \<times> 'n \<Rightarrow>
   (exc + string \<times> int) \<times> string option \<times> 'n" where
  "login lib s email password now d st =
     (case authenticate lib email password d st of
        (Inl e, st') \<Rightarrow> (Inl e, st')
      | (Inr u, st') \<Rightarrow> (Inr (issue_token lib s now u), st'))"

text \<open>The form login takes its name field as it is, where \<open>UserLogin\<close> has the e-mail normalised.\<close>

definition login_form ::
  "'n auth_lib \<Rightarrow> settings \<Rightarrow> string \<Rightarrow> string \<Rightarrow> instant \<Rightarrow> db \<Rightarrow> string option \<times> 'n \<Rightarrow>
   (exc + string \<times> int) \<times> string option \<times> 'n" where
  "login_form = login"

section \<open>The profile\<close>

record me_response =
  me_user :: user
  me_daily_limit :: decimal
  me_monthly_limit :: decimal

definition me_response_of :: "settings \<Rightarrow> user \<Rightarrow> me_response" where
  "me_response_of s u =
     (let (daily, monthly) = limits_for s (usr_kyc_status u)
      in \<lparr>me_user = u, me_daily_limit = daily, me_monthly_limit = monthly\<rparr>)"

text \<open>\<open>ProfileUpdate\<close> has validated the two fields. The unique index is checked by the flush.\<close>

definition update_profile ::
  "settings \<Rightarrow> user \<Rightarrow> string option \<Rightarrow> string option \<Rightarrow> db \<Rightarrow> (exc + me_response) \<times> db" where
  "update_profile s u full_name email d =
     (let upd = (\<lambda>x. x\<lparr>usr_full_name := case_option (usr_full_name x) id full_name,
                      usr_email := case_option (usr_email x) id email\<rparr>)
      in commit_or_keep d (http_of conflict_of
           (if \<exists>v \<in> set (users d). usr_id v \<noteq> usr_id u \<and> email = Some (usr_email v)
            then Inl IntegrityError
            else Inr (me_response_of s (upd u), put_user (usr_id u) upd d))))"

section \<open>Administrators\<close>

definition create_or_promote_admin ::
  "'n auth_lib \<Rightarrow> string \<Rightarrow> string \<Rightarrow> string \<Rightarrow> instant \<Rightarrow> db \<Rightarrow> 'n \<Rightarrow> ((exc + user) \<times> db) \<times> 'n" where
  "create_or_promote_admin lib email password full_name now d n =
     (case user_by_email email d of
        None \<Rightarrow>
          (case pw_hash lib password n of
             (Inl e, n') \<Rightarrow> ((Inl e, d), n')
           | (Inr hashed, n') \<Rightarrow> (commit_or_keep d (insert_user email hashed full_name True now d), n'))
      | Some u \<Rightarrow>
          ((Inr (u\<lparr>usr_is_admin := True\<rparr>),
            put_user (usr_id u) (\<lambda>x. x\<lparr>usr_is_admin := True\<rparr>) d), n))"

section \<open>A session\<close>

text \<open>
  What the documentation of python-jose and passlib promises: a token decodes under its own key
  to the payload it was made from until \<open>exp\<close>, and to an error after it; the password that was
  hashed verifies.
\<close>

definition jwt_ok :: "'n auth_lib \<Rightarrow> bool" where
  "jwt_ok lib \<longleftrightarrow> (\<forall>p key alg now.
     jwt_decode lib (jwt_encode lib p key alg) key [alg] now = (if timestamp now \<le> tp_exp p then Some p else None))"

definition pw_ok :: "'n auth_lib \<Rightarrow> bool" where
  "pw_ok lib \<longleftrightarrow> (\<forall>p n h n'. pw_hash lib p n = (Inr h, n') \<longrightarrow> pw_verify lib p h = Inr True)"

lemma insert_user_Inr:
  assumes "insert_user email h name adm now d = Inr (u, d')"
  shows "user_by_email email d' = Some u" "usr_hashed_password u = h" "usr_id u = next_id d" "users d' = users d @ [u]"
proof -
  have f: "find (\<lambda>u. usr_email u = email) (users d) = None" and u: "usr_email u = email"
    and d': "users d' = users d @ [u]"
    using assms by (auto simp: insert_user_def Let_def find_None_iff split: if_splits)
  show "user_by_email email d' = Some u"
    unfolding user_by_email_def d' find_append_None [OF f] by (simp add: u)
qed (use assms in \<open>auto simp: insert_user_def Let_def split: if_splits\<close>)

lemma token_names_user:
  assumes "jwt_ok lib" "usr_id u < 16 ^ 32"
  shows "get_current_user lib s (fst (issue_token lib s t u)) now d =
    (if timestamp now \<le> timestamp (t + access_token_expire_minutes s * 60 * 10 ^ 6)
     then some_or (HTTPException 401) (get_user (usr_id u) d) else Inl (HTTPException 401))"
  using assms uuid_roundtrip [OF assms(2)]
  by (simp add: get_current_user_def decode_access_token_def create_access_token_def issue_token_def Let_def
      jwt_ok_def http_of_def)

text \<open>
  C27. A registered user can log in, and the token names exactly that user until it expires. After
  a registration, logging in with the same e-mail and password succeeds; from then on a request
  that carries the token acts as the row with the new user's identifier, whatever else happened
  to the database, and once \<open>access_token_expire_minutes\<close> have passed, or when the row is gone, it
  is refused with 401. Registering the e-mail again is refused with 409 and changes nothing.
\<close>

theorem session_roundtrip:
  assumes "jwt_ok lib" "pw_ok lib" "register lib (email, password, name) t0 d n = ((Inr u, d1), n1)"
    "usr_id u < 16 ^ 32"
  shows "(\<exists>tok. login lib s email password t1 d1 st = (Inr (tok, access_token_expire_minutes s * 60), st) \<and>
      (\<forall>now d2. get_current_user lib s tok now d2 =
         (if timestamp now \<le> timestamp (t1 + access_token_expire_minutes s * 60 * 10 ^ 6)
          then some_or (HTTPException 401) (get_user (usr_id u) d2) else Inl (HTTPException 401)))) \<and>
    (\<forall>password' name' h n'. pw_hash lib password' n1 = (Inr h, n') \<longrightarrow>
       register lib (email, password', name') t1 d1 n1 = ((Inl (HTTPException 409), d1), n'))"
proof -
  obtain h where h: "pw_hash lib password n = (Inr h, n1)" and ins: "insert_user email h name False t0 d = Inr (u, d1)"
    using assms(3) by (auto simp: register_def commit_or_keep_def http_of_def split: prod.splits sum.splits option.splits)
  note u = insert_user_Inr [OF ins]
  have "pw_verify lib password (usr_hashed_password u) = Inr True" using h assms(2) unfolding pw_ok_def u(2) by blast
  then have "login lib s email password t1 d1 st = (Inr (issue_token lib s t1 u), st)"
    using u(1) by (simp add: login_def authenticate_def)
  moreover have "snd (issue_token lib s t1 u) = access_token_expire_minutes s * 60" by (simp add: issue_token_def)
  ultimately have "login lib s email password t1 d1 st =
      (Inr (fst (issue_token lib s t1 u), access_token_expire_minutes s * 60), st)" by (metis prod.collapse)
  moreover have "\<exists>v \<in> set (users d1). usr_email v = email"
    using ins by (auto simp: insert_user_def Let_def split: if_splits)
  then have "register lib (email, password', name') t1 d1 n1 = ((Inl (HTTPException 409), d1), n')"
    if "pw_hash lib password' n1 = (Inr h, n')" for password' name' h n'
    using that by (simp add: register_def insert_user_def http_of_def conflict_of_def commit_or_keep_def)
  ultimately show ?thesis using token_names_user [OF assms(1,4)] by blast
qed

text \<open>
  A library to run the requests on: a token is its key and payload in clear, with numbers in
  unary, and a hash the prefixed password.
\<close>

definition unary :: "nat \<Rightarrow> string" where
  "unary n = replicate n (CHR ''x'') @ ''.''"

definition read_unary :: "string \<Rightarrow> nat \<times> string" where
  "read_unary t = (length (takeWhile (\<lambda>c. c = CHR ''x'') t), tl (dropWhile (\<lambda>c. c = CHR ''x'') t))"

lemma read_unary [simp]: "read_unary (unary n @ r) = (n, r)"
  by (induction n) (auto simp: read_unary_def unary_def)

definition plain_encode :: "token_payload \<Rightarrow> string \<Rightarrow> string \<Rightarrow> string" where
  "plain_encode p key alg =
     unary (int_encode (tp_iat p)) @ unary (int_encode (tp_exp p)) @ unary (length key) @ key @
     (case tp_sub p of None \<Rightarrow> [] | Some t \<Rightarrow> CHR ''+'' # t)"

definition plain_decode :: "string \<Rightarrow> string \<Rightarrow> string list \<Rightarrow> instant \<Rightarrow> token_payload option" where
  "plain_decode t key algs now =
     (let (iat, t) = read_unary t; (ex, t) = read_unary t; (n, t) = read_unary t;
          p = \<lparr>tp_sub = (case drop n t of [] \<Rightarrow> None | c # r \<Rightarrow> Some r), tp_iat = int_decode iat, tp_exp = int_decode ex\<rparr>
      in if take n t = key \<and> timestamp now \<le> tp_exp p then Some p else None)"

definition plain_lib :: "nat auth_lib" where
  "plain_lib = \<lparr>jwt_encode = plain_encode, jwt_decode = plain_decode,
     pw_hash = (\<lambda>p n. (Inr (''#'' @ p), Suc n)), pw_verify = (\<lambda>p h. Inr (h = ''#'' @ p)),
     token_urlsafe = (\<lambda>n. (''r'', Suc n)), valid_email = Some\<rparr>"

lemma plain_lib_ok: "jwt_ok plain_lib" "pw_ok plain_lib"
proof -
  have "plain_decode (plain_encode p key alg) key [alg] now = (if timestamp now \<le> tp_exp p then Some p else None)"
    for p key alg now
    by (cases "tp_sub p") (simp_all add: plain_decode_def plain_encode_def Let_def)
  then show "jwt_ok plain_lib" by (simp add: jwt_ok_def plain_lib_def)
  show "pw_ok plain_lib" by (simp add: pw_ok_def plain_lib_def)
qed

definition ann :: user where
  "ann = \<lparr>usr_id = 0, usr_email = ''ann@x.org'', usr_hashed_password = ''#secret12'', usr_full_name = ''Ann'',
     usr_kyc_status = KYC_NOT_STARTED, usr_is_admin = False, usr_created_at = 5\<rparr>"

lemma register_ann:
  "register plain_lib (''ann@x.org'', ''secret12'', ''Ann'') 5 empty_db 0 =
     ((Inr ann, empty_db\<lparr>users := [ann], next_id := 1\<rparr>), 1)"
  by (simp add: register_def plain_lib_def insert_user_def empty_db_def ann_def http_of_def commit_or_keep_def Let_def)

theorem session_roundtrip_witness:
  "\<exists>tok. login plain_lib demo_settings ''ann@x.org'' ''secret12'' 10 (empty_db\<lparr>users := [ann], next_id := 1\<rparr>) (None, 1) =
      (Inr (tok, 3600), None, 1) \<and>
    get_current_user plain_lib demo_settings tok 20 (empty_db\<lparr>users := [ann]\<rparr>) = Inr ann \<and>
    get_current_user plain_lib demo_settings tok 20 empty_db = Inl (HTTPException 401) \<and>
    get_current_user plain_lib demo_settings tok 3600000000000 (empty_db\<lparr>users := [ann]\<rparr>) = Inl (HTTPException 401)"
proof -
  have m: "access_token_expire_minutes demo_settings = 60" by (simp add: demo_settings_def default_settings_def)
  have id: "usr_id ann < 16 ^ 32" by (simp add: ann_def)
  have t: "timestamp 20 \<le> timestamp (10 + 60 * 60 * 10 ^ 6)" "\<not> timestamp 3600000000000 \<le> timestamp (10 + 60 * 60 * 10 ^ 6)"
    by (simp_all add: timestamp_def)
  have g: "get_user (usr_id ann) (empty_db\<lparr>users := [ann]\<rparr>) = Some ann" "get_user (usr_id ann) empty_db = None"
    by (simp_all add: get_user_def get_by_Cons empty_db_def)
  from session_roundtrip [OF plain_lib_ok register_ann id, of demo_settings 10 "(None, 1)"]
  obtain tok where tok: "login plain_lib demo_settings ''ann@x.org'' ''secret12'' 10 (empty_db\<lparr>users := [ann], next_id := 1\<rparr>) (None, 1) =
      (Inr (tok, access_token_expire_minutes demo_settings * 60), None, 1)"
    "\<forall>now d2. get_current_user plain_lib demo_settings tok now d2 =
         (if timestamp now \<le> timestamp (10 + access_token_expire_minutes demo_settings * 60 * 10 ^ 6)
          then some_or (HTTPException 401) (get_user (usr_id ann) d2) else Inl (HTTPException 401))"
    by blast
  show ?thesis using tok t g unfolding m by (intro exI [of _ tok]) simp
qed

end
