(* ===== verification/Kyc.thy ===== *)
theory Kyc
  imports Access
begin

text \<open>
  KYC applications: \<open>app/routers/kyc.py\<close>, the review half of \<open>app/routers/admin.py\<close>, and the
  schema in \<open>app/schemas/kyc.py\<close>. Dates are triples of year, month and day, compared in that
  order; today is the date of the server's clock.
\<close>

section \<open>The application form\<close>

record kyc_form =
  kf_full_name :: string
  kf_date_of_birth :: "int \<times> int \<times> int"
  kf_nationality :: string
  kf_identification_number :: string
  kf_residential_address :: string
  kf_mobile_number :: string
  kf_email :: string
  kf_source_of_funds :: string

definition date_less :: "int \<times> int \<times> int \<Rightarrow> int \<times> int \<times> int \<Rightarrow> bool" where
  "date_less a b =
     (case (a, b) of ((y, m, d), (y', m', d')) \<Rightarrow> y < y' \<or> y = y' \<and> (m < m' \<or> m = m' \<and> d < d'))"

definition MIN_APPLICANT_AGE_YEARS :: int where
  "MIN_APPLICANT_AGE_YEARS = 18"

definition age_on :: "int \<times> int \<times> int \<Rightarrow> int \<times> int \<times> int \<Rightarrow> int" where
  "age_on today birth =
     (case (today, birth) of ((y, m, d), (y', m', d')) \<Rightarrow>
        y - y' - (if m < m' \<or> m = m' \<and> d < d' then 1 else 0))"

definition adult_and_past :: "int \<times> int \<times> int \<Rightarrow> int \<times> int \<times> int \<Rightarrow> bool" where
  "adult_and_past today birth \<longleftrightarrow> date_less birth today \<and> MIN_APPLICANT_AGE_YEARS \<le> age_on today birth"

text \<open>The pattern \<open>^\+?[0-9 ()-]{7,20}$\<close>.\<close>

definition mobile_pattern :: "string \<Rightarrow> bool" where
  "mobile_pattern t =
     (let body = (case t of [] \<Rightarrow> [] | c # r \<Rightarrow> if c = CHR ''+'' then r else t)
      in length_within 7 20 body \<and>
         list_all (\<lambda>c. let n = (of_char c :: nat) in 48 \<le> n \<and> n \<le> 57 \<or> c \<in> set '' ()-'') body)"

definition parse_kyc_form :: "'n auth_lib \<Rightarrow> int \<times> int \<times> int \<Rightarrow> kyc_form \<Rightarrow> exc + kyc_form" where
  "parse_kyc_form lib today f =
     ebind (some_or (HTTPException 422) (valid_email lib (kf_email f))) (\<lambda>email.
     ebind (guard_or (HTTPException 422)
              (length_within 1 200 (kf_full_name f) \<and> adult_and_past today (kf_date_of_birth f) \<and>
               length_within 1 100 (kf_nationality f) \<and> length_within 1 100 (kf_identification_number f) \<and>
               length_within 1 500 (kf_residential_address f) \<and> mobile_pattern (kf_mobile_number f) \<and>
               length_within 1 500 (kf_source_of_funds f))) (\<lambda>_.
     Inr (f\<lparr>kf_email := email\<rparr>)))"

section \<open>Submitting and reading\<close>

definition get_kyc :: "uuid \<Rightarrow> db \<Rightarrow> kyc_application option" where
  "get_kyc k d = get_by kyc_id k (kyc_applications d)"

definition put_kyc :: "uuid \<Rightarrow> (kyc_application \<Rightarrow> kyc_application) \<Rightarrow> db \<Rightarrow> db" where
  "put_kyc k f d = d\<lparr>kyc_applications := put_by kyc_id k f (kyc_applications d)\<rparr>"

definition new_application :: "uuid \<Rightarrow> uuid \<Rightarrow> kyc_form \<Rightarrow> instant \<Rightarrow> kyc_application" where
  "new_application k uid f now =
     \<lparr>kyc_id = k, kyc_user_id = uid, kyc_full_name = kf_full_name f, kyc_date_of_birth = kf_date_of_birth f,
      kyc_nationality = kf_nationality f, kyc_identification_number = kf_identification_number f,
      kyc_residential_address = kf_residential_address f, kyc_mobile_number = kf_mobile_number f,
      kyc_email = kf_email f, kyc_source_of_funds = kf_source_of_funds f, kyc_app_status = APP_PENDING,
      kyc_reviewed_by_admin_id = None, kyc_reviewed_at = None, kyc_rejection_reason = None,
      kyc_submitted_at = now\<rparr>"

definition submit_kyc :: "user \<Rightarrow> kyc_form \<Rightarrow> instant \<Rightarrow> db \<Rightarrow> exc + kyc_application \<times> db" where
  "submit_kyc u f now d =
     (if \<exists>a \<in> set (kyc_applications d). kyc_user_id a = usr_id u \<and>
           (kyc_app_status a = APP_PENDING \<or> kyc_app_status a = APP_APPROVED)
      then Inl (HTTPException 409)
      else if py_lower (py_strip (kf_email f)) \<noteq> py_lower (py_strip (usr_email u))
      then Inl (HTTPException 422)
      else
        let a = new_application (next_id d) (usr_id u) f now
        in Inr (a, put_user (usr_id u) (\<lambda>x. x\<lparr>usr_kyc_status := KYC_PENDING\<rparr>)
                     (d\<lparr>kyc_applications := kyc_applications d @ [a], next_id := Suc (next_id d)\<rparr>)))"

text \<open>\<open>ORDER BY submitted_at DESC LIMIT 1\<close>; of equal dates the database may return any, here the first.\<close>

definition latest_application :: "kyc_application list \<Rightarrow> kyc_application option" where
  "latest_application rows =
     foldl (\<lambda>best a. case best of None \<Rightarrow> Some a
        | Some b \<Rightarrow> if kyc_submitted_at b < kyc_submitted_at a then Some a else best) None rows"

definition get_kyc_status :: "user \<Rightarrow> db \<Rightarrow> kyc_status \<times> kyc_application option" where
  "get_kyc_status u d =
     (usr_kyc_status u, latest_application (filter (\<lambda>a. kyc_user_id a = usr_id u) (kyc_applications d)))"

section \<open>The review\<close>

definition get_application :: "uuid \<Rightarrow> db \<Rightarrow> exc + kyc_application" where
  "get_application k d = some_or (HTTPException 404) (get_kyc k d)"

definition applicant :: "kyc_application \<Rightarrow> db \<Rightarrow> exc + user" where
  "applicant a d = some_or (HTTPException 404) (get_user (kyc_user_id a) d)"

definition require_pending :: "kyc_application \<Rightarrow> exc + unit" where
  "require_pending a = guard_or (HTTPException 409) (kyc_app_status a = APP_PENDING)"

definition list_kyc_applications :: "application_status option \<Rightarrow> db \<Rightarrow> kyc_application list" where
  "list_kyc_applications status_filter d =
     sort_key kyc_submitted_at
       (filter (\<lambda>a. case status_filter of None \<Rightarrow> True | Some st \<Rightarrow> kyc_app_status a = st) (kyc_applications d))"

definition approve_kyc :: "user \<Rightarrow> uuid \<Rightarrow> instant \<Rightarrow> db \<Rightarrow> exc + kyc_application \<times> db" where
  "approve_kyc admin k now d =
     ebind (get_application k d) (\<lambda>a.
     ebind (require_pending a) (\<lambda>_.
     let f = (\<lambda>x. x\<lparr>kyc_app_status := APP_APPROVED, kyc_reviewed_by_admin_id := Some (usr_id admin),
                    kyc_reviewed_at := Some now\<rparr>)
     in ebind (applicant a d) (\<lambda>u.
        Inr (f a, put_user (usr_id u) (\<lambda>x. x\<lparr>usr_kyc_status := KYC_APPROVED\<rparr>) (put_kyc k f d)))))"

definition reject_kyc :: "user \<Rightarrow> uuid \<Rightarrow> string option \<Rightarrow> instant \<Rightarrow> db \<Rightarrow> exc + kyc_application \<times> db" where
  "reject_kyc admin k reason now d =
     ebind (get_application k d) (\<lambda>a.
     ebind (require_pending a) (\<lambda>_.
     let f = (\<lambda>x. x\<lparr>kyc_app_status := APP_REJECTED, kyc_reviewed_by_admin_id := Some (usr_id admin),
                    kyc_reviewed_at := Some now, kyc_rejection_reason := reason\<rparr>)
     in ebind (applicant a d) (\<lambda>u.
        Inr (f a, put_user (usr_id u) (\<lambda>x. x\<lparr>usr_kyc_status := KYC_REJECTED\<rparr>) (put_kyc k f d)))))"

end
