(* ===== verification/Accounts.thy ===== *)
theory Accounts
  imports Kyc
begin

text \<open>
  \<open>app/routers/beneficiaries.py\<close> with its schema, and the account tables as a transition system:
  every request that writes users, KYC applications or beneficiaries is a step, and so is a
  transaction of the money side, which leaves the three tables alone.
\<close>

section \<open>Beneficiaries\<close>

definition ALLOWED_PAYOUT_CURRENCIES :: "string list" where
  "ALLOWED_PAYOUT_CURRENCIES = [''UCTUSD'', ''USD'', ''ZAR'']"

record beneficiary_form =
  bf_full_name :: string
  bf_contact :: string
  bf_country :: string
  bf_preferred_payout_currency :: string
  bf_relationship_to_sender :: string

definition parse_beneficiary_form :: "'n auth_lib \<Rightarrow> beneficiary_form \<Rightarrow> exc + beneficiary_form" where
  "parse_beneficiary_form lib f =
     ebind (some_or (HTTPException 422) (valid_email lib (bf_contact f))) (\<lambda>contact.
     let currency = py_upper (py_strip (bf_preferred_payout_currency f))
     in ebind (guard_or (HTTPException 422)
                 (length_within 0 200 contact \<and> currency \<in> set ALLOWED_PAYOUT_CURRENCIES \<and>
                  length_within 1 200 (bf_full_name f) \<and> length_within 1 100 (bf_country f) \<and>
                  length_within 1 100 (bf_relationship_to_sender f))) (\<lambda>_.
        Inr (f\<lparr>bf_contact := py_lower (py_strip contact), bf_preferred_payout_currency := currency\<rparr>)))"

definition owned_beneficiary :: "uuid \<Rightarrow> uuid \<Rightarrow> db \<Rightarrow> exc + beneficiary" where
  "owned_beneficiary k sender d =
     some_or (HTTPException 404)
       (find (\<lambda>b. ben_id b = k \<and> ben_sender_id b = sender) (beneficiaries d))"

text \<open>The INSERT; \<open>uq_beneficiary_sender_contact\<close> is unique.\<close>

definition insert_beneficiary :: "beneficiary \<Rightarrow> db \<Rightarrow> exc + beneficiary \<times> db" where
  "insert_beneficiary b d =
     (if \<exists>x \<in> set (beneficiaries d). ben_sender_id x = ben_sender_id b \<and> ben_contact x = ben_contact b
      then Inl IntegrityError
      else Inr (b, d\<lparr>beneficiaries := beneficiaries d @ [b], next_id := Suc (next_id d)\<rparr>))"

definition create_beneficiary :: "user \<Rightarrow> beneficiary_form \<Rightarrow> instant \<Rightarrow> db \<Rightarrow> exc + beneficiary \<times> db" where
  "create_beneficiary u f now d =
     http_of conflict_of (insert_beneficiary
       \<lparr>ben_id = next_id d, ben_sender_id = usr_id u, ben_full_name = bf_full_name f, ben_contact = bf_contact f,
        ben_country = bf_country f, ben_preferred_payout_currency = bf_preferred_payout_currency f,
        ben_relationship_to_sender = bf_relationship_to_sender f, ben_created_at = now\<rparr> d)"

definition list_beneficiaries :: "user \<Rightarrow> db \<Rightarrow> beneficiary list" where
  "list_beneficiaries u d = filter (\<lambda>b. ben_sender_id b = usr_id u) (beneficiaries d)"

definition get_beneficiary :: "user \<Rightarrow> uuid \<Rightarrow> db \<Rightarrow> exc + beneficiary" where
  "get_beneficiary u k d = owned_beneficiary k (usr_id u) d"

definition delete_beneficiary :: "user \<Rightarrow> uuid \<Rightarrow> db \<Rightarrow> exc + db" where
  "delete_beneficiary u k d =
     ebind (owned_beneficiary k (usr_id u) d) (\<lambda>b.
     if \<exists>r \<in> set (remittances d). rem_beneficiary_id r = ben_id b then Inl (HTTPException 409)
     else Inr (d\<lparr>beneficiaries := filter (\<lambda>x. ben_id x \<noteq> ben_id b) (beneficiaries d)\<rparr>))"

section \<open>The account tables as a transition system\<close>

text \<open>
  A remittance belongs to its beneficiary and to the beneficiary's sender. A transaction of the
  money side writes no account row, and the remittances it leaves point where existing ones did,
  or to a beneficiary of their sender.
\<close>

definition owns :: "db \<Rightarrow> remittance \<Rightarrow> bool" where
  "owns d r \<longleftrightarrow> (\<exists>b \<in> set (beneficiaries d). ben_id b = rem_beneficiary_id r \<and> ben_sender_id b = rem_sender_id r)"

definition money_change :: "db \<Rightarrow> db \<Rightarrow> bool" where
  "money_change d d' \<longleftrightarrow>
     users d' = users d \<and> kyc_applications d' = kyc_applications d \<and> beneficiaries d' = beneficiaries d \<and>
     next_id d \<le> next_id d' \<and>
     (\<forall>r' \<in> set (remittances d'). owns d r' \<or>
        (\<exists>r \<in> set (remittances d). rem_beneficiary_id r = rem_beneficiary_id r' \<and>
                                   rem_sender_id r = rem_sender_id r'))"

text \<open>What the API can do to the account tables. The caller is the row the token named.\<close>

inductive api_step :: "settings \<Rightarrow> 'n auth_lib \<Rightarrow> db \<Rightarrow> db \<Rightarrow> bool" for s :: settings and lib :: "'n auth_lib" where
  registered: "register lib payload now d n = ((Inr u, d'), n') \<Longrightarrow> api_step s lib d d'"
| profile: "get_user (usr_id u) d = Some u \<Longrightarrow> update_profile s u name email d = (Inr me, d') \<Longrightarrow> api_step s lib d d'"
| submitted: "get_user (usr_id u) d = Some u \<Longrightarrow> submit_kyc u f now d = Inr (a, d') \<Longrightarrow> api_step s lib d d'"
| approved: "approve_kyc admin k now d = Inr (a, d') \<Longrightarrow> api_step s lib d d'"
| rejected: "reject_kyc admin k reason now d = Inr (a, d') \<Longrightarrow> api_step s lib d d'"
| beneficiary_added: "get_user (usr_id u) d = Some u \<Longrightarrow> create_beneficiary u bf now d = Inr (b, d') \<Longrightarrow> api_step s lib d d'"
| beneficiary_removed: "delete_beneficiary u k d = Inr d' \<Longrightarrow> api_step s lib d d'"
| money: "money_change d d' \<Longrightarrow> api_step s lib d d'"

text \<open>The script an operator runs is the only other writer of these tables.\<close>

inductive account_step :: "settings \<Rightarrow> 'n auth_lib \<Rightarrow> db \<Rightarrow> db \<Rightarrow> bool" for s :: settings and lib :: "'n auth_lib" where
  api: "api_step s lib d d' \<Longrightarrow> account_step s lib d d'"
| script: "create_or_promote_admin lib email password name now d n = ((Inr u, d'), n') \<Longrightarrow> account_step s lib d d'"

section \<open>The invariant\<close>

definition live :: "kyc_application \<Rightarrow> bool" where
  "live a \<longleftrightarrow> kyc_app_status a = APP_PENDING \<or> kyc_app_status a = APP_APPROVED"

text \<open>The status the applications of a user stand for.\<close>

definition status_from :: "uuid \<Rightarrow> kyc_application set \<Rightarrow> kyc_status" where
  "status_from k apps =
     (if \<exists>a \<in> apps. kyc_user_id a = k \<and> kyc_app_status a = APP_APPROVED then KYC_APPROVED
      else if \<exists>a \<in> apps. kyc_user_id a = k \<and> kyc_app_status a = APP_PENDING then KYC_PENDING
      else if \<exists>a \<in> apps. kyc_user_id a = k then KYC_REJECTED else KYC_NOT_STARTED)"

definition users_ok :: "db \<Rightarrow> bool" where
  "users_ok d \<longleftrightarrow> fresh_ids usr_id (next_id d) (users d) \<and> distinct (map usr_email (users d))"

definition kyc_ok :: "db \<Rightarrow> bool" where
  "kyc_ok d \<longleftrightarrow>
     fresh_ids kyc_id (next_id d) (kyc_applications d) \<and>
     (\<forall>a \<in> set (kyc_applications d). kyc_user_id a \<in> usr_id ` set (users d)) \<and>
     (\<forall>a \<in> set (kyc_applications d). \<forall>b \<in> set (kyc_applications d).
        live a \<and> live b \<and> kyc_user_id a = kyc_user_id b \<longrightarrow> a = b)"

definition synced :: "db \<Rightarrow> bool" where
  "synced d \<longleftrightarrow> (\<forall>u \<in> set (users d). usr_kyc_status u = status_from (usr_id u) (set (kyc_applications d)))"

definition beneficiaries_ok :: "db \<Rightarrow> bool" where
  "beneficiaries_ok d \<longleftrightarrow>
     fresh_ids ben_id (next_id d) (beneficiaries d) \<and>
     distinct (map (\<lambda>b. (ben_sender_id b, ben_contact b)) (beneficiaries d)) \<and>
     (\<forall>r \<in> set (remittances d). owns d r)"

definition account_inv :: "db \<Rightarrow> bool" where
  "account_inv d \<longleftrightarrow> users_ok d \<and> kyc_ok d \<and> synced d \<and> beneficiaries_ok d"

lemma account_inv_empty: "account_inv empty_db"
  by (simp add: account_inv_def users_ok_def kyc_ok_def synced_def beneficiaries_ok_def empty_db_def)

text \<open>A write through an identifier replaces one row.\<close>

lemma set_put_by_id:
  assumes "fresh_ids key n rows" "get_by key k rows = Some r"
  shows "set (put_by key k f rows) = insert (f r) (set rows - {r})"
proof -
  have r: "r \<in> set rows" "key r = k" using get_by_Some [OF assms(2)] by blast+
  have u: "x = r" if "x \<in> set rows" "key x = k" for x
  proof -
    have "get_by key k rows = Some x" using fresh_ids_get_by [OF assms(1) that(1)] unfolding that(2) .
    then show "x = r" using assms(2) by simp
  qed
  have "(if key x = k then f x else x) = (if x = r then f r else x)" if "x \<in> set rows" for x
    using u [OF that] r(2) by metis
  then have "set (put_by key k f rows) = (\<lambda>x. if x = r then f r else x) ` set rows"
    unfolding set_put_by by (rule image_cong [OF refl])
  also have "\<dots> = insert (f r) (set rows - {r})" using r(1) by (auto split: if_splits)
  finally show ?thesis .
qed

lemma put_user_tables [simp]:
  "kyc_applications (put_user k f d) = kyc_applications d" "beneficiaries (put_user k f d) = beneficiaries d"
  "remittances (put_user k f d) = remittances d" "next_id (put_user k f d) = next_id d"
  "users (put_user k f d) = put_by usr_id k f (users d)"
  by (simp_all add: put_user_def)

lemma put_kyc_tables [simp]:
  "users (put_kyc k f d) = users d" "beneficiaries (put_kyc k f d) = beneficiaries d"
  "remittances (put_kyc k f d) = remittances d" "next_id (put_kyc k f d) = next_id d"
  "kyc_applications (put_kyc k f d) = put_by kyc_id k f (kyc_applications d)"
  by (simp_all add: put_kyc_def)

lemma beneficiaries_ok_same:
  "beneficiaries_ok d \<Longrightarrow> beneficiaries d' = beneficiaries d \<Longrightarrow> remittances d' = remittances d \<Longrightarrow>
   next_id d \<le> next_id d' \<Longrightarrow> beneficiaries_ok d'"
  by (auto simp: beneficiaries_ok_def owns_def intro: fresh_ids_mono)

lemma kyc_ok_same:
  "kyc_ok d \<Longrightarrow> kyc_applications d' = kyc_applications d \<Longrightarrow> usr_id ` set (users d) \<subseteq> usr_id ` set (users d') \<Longrightarrow>
   next_id d \<le> next_id d' \<Longrightarrow> kyc_ok d'"
  unfolding kyc_ok_def using fresh_ids_mono [of kyc_id "next_id d" "kyc_applications d" "next_id d'"]
  by (simp only:) blast

lemma insert_user_inv:
  assumes "insert_user email h name adm now d = Inr (u, d')" "account_inv d"
  shows "account_inv d'" "users d' = users d @ [u]" "usr_is_admin u = adm" "usr_hashed_password u = h"
    "usr_email u = email" "usr_kyc_status u = KYC_NOT_STARTED" "usr_id u = next_id d"
proof -
  have d': "d' = d\<lparr>users := users d @ [u], next_id := Suc (next_id d)\<rparr>"
    and u: "usr_id u = next_id d" "usr_email u = email" "usr_kyc_status u = KYC_NOT_STARTED"
      "usr_is_admin u = adm" "usr_hashed_password u = h"
    and new: "email \<notin> set (map usr_email (users d))"
    using assms(1) by (auto simp: insert_user_def Let_def split: if_splits)
  note inv = assms(2) [unfolded account_inv_def]
  have "next_id d \<notin> usr_id ` set (users d)" using inv by (auto simp: users_ok_def fresh_ids_def)
  moreover have "kyc_user_id ` set (kyc_applications d) \<subseteq> usr_id ` set (users d)"
    using inv by (simp add: kyc_ok_def image_subset_iff)
  ultimately have "next_id d \<notin> kyc_user_id ` set (kyc_applications d)" by blast
  then have "status_from (next_id d) (set (kyc_applications d)) = KYC_NOT_STARTED"
    by (force simp: status_from_def)
  then have "synced d'" using inv by (auto simp: synced_def d' u)
  moreover have "users_ok d'" using inv new by (simp add: users_ok_def d' u)
  moreover have "kyc_ok d'" using inv by (intro kyc_ok_same [of d d']) (simp_all add: d' subset_insertI)
  moreover have "beneficiaries_ok d'" using inv by (intro beneficiaries_ok_same [of d d']) (simp_all add: d')
  ultimately show "account_inv d'" by (simp add: account_inv_def)
  show "users d' = users d @ [u]" by (simp add: d')
qed (use assms(1) in \<open>auto simp: insert_user_def Let_def split: if_splits\<close>)

text \<open>Writing a user's row: the identifier and the status stay, the e-mail stays unique.\<close>

text \<open>Writing a user's row: the identifier and the status stay, the e-mail stays unique.\<close>

lemma put_user_ids: "(\<And>x. usr_id (f x) = usr_id x) \<Longrightarrow> usr_id ` set (users (put_user k f d)) = usr_id ` set (users d)"
proof -
  assume "\<And>x. usr_id (f x) = usr_id x"
  then have "map usr_id (put_by usr_id k f (users d)) = map usr_id (users d)" by (rule map_key_put_by)
  then have "set (map usr_id (put_by usr_id k f (users d))) = set (map usr_id (users d))" by (rule arg_cong)
  then show ?thesis by (simp only: set_map put_user_tables)
qed

lemma kyc_ok_put_user: "kyc_ok d \<Longrightarrow> (\<And>x. usr_id (f x) = usr_id x) \<Longrightarrow> kyc_ok (put_user k f d)"
  by (rule kyc_ok_same [of d]) (simp_all add: put_user_ids del: put_user_tables(5))

lemma put_user_inv:
  assumes "account_inv d" "\<And>x. usr_id (f x) = usr_id x" "\<And>x. usr_kyc_status (f x) = usr_kyc_status x"
    "distinct (map usr_email (put_by usr_id k f (users d)))"
  shows "account_inv (put_user k f d)"
proof -
  have inv: "users_ok d" "kyc_ok d" "synced d" "beneficiaries_ok d"
    using assms(1) by (simp_all only: account_inv_def)
  have "users_ok (put_user k f d)" using inv(1) assms(4)
    by (simp only: users_ok_def put_user_tables fresh_ids_put_by [of usr_id f, OF assms(2)] simp_thms)
  moreover have "kyc_ok (put_user k f d)" using inv(2) assms(2) by (rule kyc_ok_put_user)
  moreover have "synced (put_user k f d)"
    unfolding synced_def
  proof
    fix u assume "u \<in> set (users (put_user k f d))"
    then obtain v where v: "v \<in> set (users d)" "u = f v \<or> u = v" by (auto simp: set_put_by split: if_splits)
    then have "usr_id u = usr_id v" "usr_kyc_status u = usr_kyc_status v" using assms(2,3) by metis+
    then show "usr_kyc_status u = status_from (usr_id u) (set (kyc_applications (put_user k f d)))"
      using inv(3) v(1) by (simp only: synced_def put_user_tables)
  qed
  moreover have "beneficiaries_ok (put_user k f d)"
    by (rule beneficiaries_ok_same [OF inv(4)]) simp_all
  ultimately show ?thesis by (simp add: account_inv_def)
qed

text \<open>An application is added or reviewed together with the status of its user.\<close>

lemma synced_put:
  assumes "synced d" "users_ok d" "\<And>x. usr_id (f x) = usr_id x"
    "\<And>x. usr_kyc_status (f x) = status_from k apps"
    "\<And>j. j \<noteq> k \<Longrightarrow> status_from j apps = status_from j (set (kyc_applications d))"
    "users d' = put_by usr_id k f (users d)" "set (kyc_applications d') = apps"
  shows "synced d'"
  unfolding synced_def
proof
  fix u assume "u \<in> set (users d')"
  then obtain v where v: "v \<in> set (users d)" "u = (if usr_id v = k then f v else v)"
    by (auto simp: assms(6) set_put_by)
  then show "usr_kyc_status u = status_from (usr_id u) (set (kyc_applications d'))"
    using assms(1,3,4,5,7) by (cases "usr_id v = k") (auto simp: synced_def)
qed

lemma status_from_cong:
  assumes "\<And>a. kyc_user_id a = k \<Longrightarrow> a \<in> A \<longleftrightarrow> a \<in> B"
  shows "status_from k A = status_from k B"
proof -
  have "(\<exists>a \<in> A. kyc_user_id a = k \<and> P a) \<longleftrightarrow> (\<exists>a \<in> B. kyc_user_id a = k \<and> P a)" for P
    using assms by blast
  from this [of "\<lambda>a. kyc_app_status a = APP_APPROVED"] this [of "\<lambda>a. kyc_app_status a = APP_PENDING"]
    this [of "\<lambda>a. True"]
  show ?thesis by (simp add: status_from_def)
qed

lemma submit_inv:
  assumes "submit_kyc u f now d = Inr (a, d')" "get_user (usr_id u) d = Some u" "account_inv d"
  shows "account_inv d'" "users d' = put_by usr_id (usr_id u) (\<lambda>x. x\<lparr>usr_kyc_status := KYC_PENDING\<rparr>) (users d)"
proof -
  let ?f = "\<lambda>x. x\<lparr>usr_kyc_status := KYC_PENDING\<rparr>" and ?d = "d\<lparr>kyc_applications := kyc_applications d @ [a], next_id := Suc (next_id d)\<rparr>"
  have inv: "users_ok d" "kyc_ok d" "synced d" "beneficiaries_ok d"
    using assms(3) by (simp_all only: account_inv_def)
  have d': "d' = put_user (usr_id u) ?f ?d" and a: "a = new_application (next_id d) (usr_id u) f now"
    and none: "\<forall>x \<in> set (kyc_applications d). kyc_user_id x = usr_id u \<longrightarrow> \<not> live x"
    using assms(1) by (auto simp: submit_kyc_def Let_def live_def split: if_splits)
  have af: "kyc_user_id a = usr_id u" "kyc_app_status a = APP_PENDING" "kyc_id a = next_id d"
    by (simp_all add: a new_application_def)
  have "get_by usr_id (usr_id u) (users d) = Some u" using assms(2) by (simp add: get_user_def)
  then have u: "usr_id u \<in> usr_id ` set (users d)" using get_by_Some by blast
  have "fresh_ids kyc_id (Suc (next_id d)) (kyc_applications d @ [a])"
    using inv(2) af(3) unfolding kyc_ok_def by blast
  then have "kyc_ok ?d" using inv(2) u none af unfolding kyc_ok_def by (auto simp: live_def)
  then have "kyc_ok d'" unfolding d' by (rule kyc_ok_put_user) simp
  moreover have "users_ok d'"
    using inv(1) fresh_ids_put_by [of usr_id ?f "next_id d" usr_id "usr_id u" "users d"]
      map_key_put_by [of usr_email ?f usr_id "usr_id u" "users d"]
    by (simp add: users_ok_def d')
  moreover have "synced d'"
  proof (rule synced_put [OF inv(3,1), where f = ?f and k = "usr_id u"])
    show "status_from j (insert a (set (kyc_applications d))) = status_from j (set (kyc_applications d))" if "j \<noteq> usr_id u" for j
      using that af(1) by (intro status_from_cong) auto
    show "usr_kyc_status (?f x) = status_from (usr_id u) (insert a (set (kyc_applications d)))" for x
      using none af by (auto simp: status_from_def live_def)
  qed (simp_all add: d')
  moreover have "beneficiaries_ok d'" by (rule beneficiaries_ok_same [OF inv(4)]) (simp_all add: d')
  ultimately show "account_inv d'" by (simp add: account_inv_def)
  show "users d' = put_by usr_id (usr_id u) ?f (users d)" by (simp add: d')
qed

text \<open>Both decisions of a review: a pending application becomes \<open>st\<close> and its user \<open>ks\<close>.\<close>

lemma review_inv:
  assumes "account_inv d" "get_kyc k d = Some a" "kyc_app_status a = APP_PENDING" "get_user (kyc_user_id a) d = Some u"
    "\<And>x. kyc_id (f x) = kyc_id x" "\<And>x. kyc_user_id (f x) = kyc_user_id x" "kyc_app_status (f a) = st"
    "(st, ks) \<in> {(APP_APPROVED, KYC_APPROVED), (APP_REJECTED, KYC_REJECTED)}"
    "d' = put_user (usr_id u) (\<lambda>x. x\<lparr>usr_kyc_status := ks\<rparr>) (put_kyc k f d)"
  shows "account_inv d'"
proof -
  let ?f = "\<lambda>x. x\<lparr>usr_kyc_status := ks\<rparr>" and ?apps = "set (kyc_applications d)"
  have inv: "users_ok d" "kyc_ok d" "synced d" "beneficiaries_ok d"
    using assms(1) by (simp_all only: account_inv_def)
  have got: "get_by kyc_id k (kyc_applications d) = Some a" "get_by usr_id (kyc_user_id a) (users d) = Some u"
    using assms(2,4) by (simp_all add: get_kyc_def get_user_def)
  have a: "a \<in> ?apps" using get_by_Some [OF got(1)] by blast
  have u: "usr_id u = kyc_user_id a" using get_by_Some [OF got(2)] by blast
  have fresh: "fresh_ids kyc_id (next_id d) (kyc_applications d)" using inv(2) by (simp add: kyc_ok_def)
  have apps: "set (put_by kyc_id k f (kyc_applications d)) = insert (f a) (?apps - {a})"
    by (rule set_put_by_id [OF fresh got(1)])
  have only: "\<not> live x" if "x \<in> ?apps" "x \<noteq> a" "kyc_user_id x = kyc_user_id a" for x
    using inv(2) a assms(3) that unfolding kyc_ok_def live_def by blast
  have "fresh_ids kyc_id (next_id d) (put_by kyc_id k f (kyc_applications d))"
    using fresh by (simp add: fresh_ids_put_by [of kyc_id f, OF assms(5)])
  moreover have "\<forall>x \<in> insert (f a) (?apps - {a}). kyc_user_id x \<in> usr_id ` set (users d)"
    using inv(2) a assms(6) unfolding kyc_ok_def by auto
  moreover have "\<forall>x \<in> insert (f a) (?apps - {a}). \<forall>y \<in> insert (f a) (?apps - {a}).
      live x \<and> live y \<and> kyc_user_id x = kyc_user_id y \<longrightarrow> x = y"
    using inv(2) only assms(6) unfolding kyc_ok_def by (metis Diff_iff insert_iff)
  ultimately have "kyc_ok (put_kyc k f d)" unfolding kyc_ok_def put_kyc_tables apps by blast
  then have "kyc_ok d'" unfolding assms(9) by (rule kyc_ok_put_user) simp
  moreover have "users_ok d'"
    using inv(1) fresh_ids_put_by [of usr_id ?f "next_id d" usr_id "usr_id u" "users d"]
      map_key_put_by [of usr_email ?f usr_id "usr_id u" "users d"]
    by (simp add: users_ok_def assms(9))
  moreover have "synced d'"
  proof (rule synced_put [OF inv(3,1), where f = ?f and k = "usr_id u"])
    show "status_from j (insert (f a) (?apps - {a})) = status_from j ?apps" if "j \<noteq> usr_id u" for j
      using that u assms(6) by (intro status_from_cong) auto
    show "usr_kyc_status (?f x) = status_from (usr_id u) (insert (f a) (?apps - {a}))" for x
      using only assms(6-8) u by (auto simp: status_from_def live_def)
    show "set (kyc_applications d') = insert (f a) (?apps - {a})" by (simp add: assms(9) apps)
  qed (simp_all add: assms(9))
  moreover have "beneficiaries_ok d'" by (rule beneficiaries_ok_same [OF inv(4)]) (simp_all add: assms(9))
  ultimately show "account_inv d'" by (simp add: account_inv_def)
qed

section \<open>Every step keeps it\<close>

lemma distinct_map_put_by:
  assumes "fresh_ids key n rows" "distinct (map g rows)"
    "\<And>v r. v \<in> set rows \<Longrightarrow> r \<in> set rows \<Longrightarrow> key v \<noteq> k \<Longrightarrow> key r = k \<Longrightarrow> g v \<noteq> g (f r)"
  shows "distinct (map g (put_by key k f rows))"
proof -
  have ids: "distinct rows" "inj_on key (set rows)" using assms(1) by (simp_all add: fresh_ids_def distinct_map)
  have "inj_on g (set rows)" using assms(2) by (simp add: distinct_map)
  then have "inj_on (\<lambda>r. g (if key r = k then f r else r)) (set rows)"
    using assms(3) ids(2) unfolding inj_on_def by metis
  then show ?thesis using ids(1) by (simp add: put_by_def update_where_def comp_def distinct_map)
qed

lemma register_ok:
  assumes "register lib payload now d n = ((Inr u, d'), n')"
  shows "\<exists>email h name. insert_user email h name False now d = Inr (u, d')"
  using assms by (auto simp: register_def commit_or_keep_def http_of_def split: prod.splits sum.splits option.splits)

lemma update_profile_ok:
  assumes "update_profile s u name email d = (Inr me, d')"
  shows "\<exists>f. d' = put_user (usr_id u) f d \<and> (\<forall>x. usr_id (f x) = usr_id x \<and> usr_kyc_status (f x) = usr_kyc_status x \<and>
      usr_is_admin (f x) = usr_is_admin x \<and> usr_hashed_password (f x) = usr_hashed_password x \<and>
      (usr_email (f x) = usr_email x \<or> (\<forall>v \<in> set (users d). usr_id v \<noteq> usr_id u \<longrightarrow> usr_email v \<noteq> usr_email (f x))))"
  using assms
  by (auto simp: update_profile_def Let_def commit_or_keep_def http_of_def conflict_of_def
      split: if_splits sum.splits option.splits intro!: exI [of _ "\<lambda>x. x\<lparr>usr_full_name := case_option (usr_full_name x) id name,
        usr_email := case_option (usr_email x) id email\<rparr>"])

lemma profile_inv:
  assumes "update_profile s u name email d = (Inr me, d')" "account_inv d"
  shows "account_inv d'"
proof -
  obtain f where d': "d' = put_user (usr_id u) f d"
    and f: "\<And>x. usr_id (f x) = usr_id x" "\<And>x. usr_kyc_status (f x) = usr_kyc_status x"
      "\<And>x. usr_email (f x) = usr_email x \<or> (\<forall>v \<in> set (users d). usr_id v \<noteq> usr_id u \<longrightarrow> usr_email v \<noteq> usr_email (f x))"
    using update_profile_ok [OF assms(1)] by blast
  have inv: "fresh_ids usr_id (next_id d) (users d)" "distinct (map usr_email (users d))"
    using assms(2) by (simp_all add: account_inv_def users_ok_def)
  have "distinct (map usr_email (put_by usr_id (usr_id u) f (users d)))"
  proof (rule distinct_map_put_by [OF inv])
    fix v r assume h: "v \<in> set (users d)" "r \<in> set (users d)" "usr_id v \<noteq> usr_id u" "usr_id r = usr_id u"
    then have "usr_email v \<noteq> usr_email r" using inv(2) by (auto simp: distinct_map inj_on_def)
    then show "usr_email v \<noteq> usr_email (f r)" using f(3) [of r] h by auto
  qed
  then show ?thesis unfolding d' using assms(2) f(1,2) by (intro put_user_inv)
qed

lemma approve_ok:
  assumes "approve_kyc admin k now d = Inr (r, d')"
  shows "\<exists>a u f. get_kyc k d = Some a \<and> kyc_app_status a = APP_PENDING \<and> get_user (kyc_user_id a) d = Some u \<and>
    (\<forall>x. kyc_id (f x) = kyc_id x \<and> kyc_user_id (f x) = kyc_user_id x) \<and> kyc_app_status (f a) = APP_APPROVED \<and>
    d' = put_user (usr_id u) (\<lambda>x. x\<lparr>usr_kyc_status := KYC_APPROVED\<rparr>) (put_kyc k f d)"
  using assms
  by (auto simp: approve_kyc_def get_application_def require_pending_def applicant_def Let_def raise_simps
      intro!: exI [of _ "\<lambda>x. x\<lparr>kyc_app_status := APP_APPROVED, kyc_reviewed_by_admin_id := Some (usr_id admin),
                    kyc_reviewed_at := Some now\<rparr>"])

lemma reject_ok:
  assumes "reject_kyc admin k reason now d = Inr (r, d')"
  shows "\<exists>a u f. get_kyc k d = Some a \<and> kyc_app_status a = APP_PENDING \<and> get_user (kyc_user_id a) d = Some u \<and>
    (\<forall>x. kyc_id (f x) = kyc_id x \<and> kyc_user_id (f x) = kyc_user_id x) \<and> kyc_app_status (f a) = APP_REJECTED \<and>
    d' = put_user (usr_id u) (\<lambda>x. x\<lparr>usr_kyc_status := KYC_REJECTED\<rparr>) (put_kyc k f d)"
  using assms
  by (auto simp: reject_kyc_def get_application_def require_pending_def applicant_def Let_def raise_simps
      intro!: exI [of _ "\<lambda>x. x\<lparr>kyc_app_status := APP_REJECTED, kyc_reviewed_by_admin_id := Some (usr_id admin),
                    kyc_reviewed_at := Some now, kyc_rejection_reason := reason\<rparr>"])

lemma account_inv_tables:
  assumes "account_inv d" "users d' = users d" "kyc_applications d' = kyc_applications d"
    "next_id d \<le> next_id d'" "beneficiaries_ok d'"
  shows "account_inv d'"
  using assms fresh_ids_mono [of usr_id "next_id d" "users d" "next_id d'"] kyc_ok_same [of d d']
  by (auto simp: account_inv_def users_ok_def synced_def)

lemma beneficiary_added_inv:
  assumes "create_beneficiary u bf now d = Inr (b, d')" "account_inv d"
  shows "account_inv d'" "users d' = users d"
proof -
  have d': "d' = d\<lparr>beneficiaries := beneficiaries d @ [b], next_id := Suc (next_id d)\<rparr>" "ben_id b = next_id d"
    and new: "\<forall>x \<in> set (beneficiaries d). \<not> (ben_sender_id x = ben_sender_id b \<and> ben_contact x = ben_contact b)"
    using assms(1) by (auto simp: create_beneficiary_def insert_beneficiary_def http_of_def conflict_of_def
        split: if_splits sum.splits option.splits)
  have "beneficiaries_ok d'"
    using assms(2) new d'(2) by (fastforce simp: account_inv_def beneficiaries_ok_def owns_def d'(1))
  then show "account_inv d'" using assms(2) by (rule_tac account_inv_tables [of d]) (simp_all add: d'(1))
  show "users d' = users d" by (simp add: d')
qed

lemma beneficiary_removed_inv:
  assumes "delete_beneficiary u k d = Inr d'" "account_inv d"
  shows "account_inv d'" "users d' = users d"
proof -
  obtain b where r: "owned_beneficiary k (usr_id u) d = Inr b"
    "(if \<exists>r \<in> set (remittances d). rem_beneficiary_id r = ben_id b then Inl (HTTPException 409)
      else Inr (d\<lparr>beneficiaries := filter (\<lambda>x. ben_id x \<noteq> ben_id b) (beneficiaries d)\<rparr>)) = Inr d'"
    using assms(1) unfolding delete_beneficiary_def ebind_eq_Inr by blast
  have d': "d' = d\<lparr>beneficiaries := filter (\<lambda>x. ben_id x \<noteq> ben_id b) (beneficiaries d)\<rparr>"
    and unused: "\<forall>r \<in> set (remittances d). rem_beneficiary_id r \<noteq> ben_id b"
    using r(2) by (simp_all split: if_splits)
  have "beneficiaries_ok d'"
    using assms(2) unused
    by (fastforce simp: account_inv_def beneficiaries_ok_def owns_def d' fresh_ids_def distinct_map_filter)
  then show "account_inv d'" using assms(2) by (rule_tac account_inv_tables [of d]) (simp_all add: d')
  show "users d' = users d" by (simp add: d')
qed

lemma money_inv: "money_change d d' \<Longrightarrow> account_inv d \<Longrightarrow> account_inv d'"
  by (rule account_inv_tables [of d])
    (fastforce simp: money_change_def account_inv_def beneficiaries_ok_def owns_def intro: fresh_ids_mono)+

lemma api_step_inv: "api_step s lib d d' \<Longrightarrow> account_inv d \<Longrightarrow> account_inv d'"
proof (induction rule: api_step.induct)
  case (registered payload now d n u d' n')
  then show ?case using register_ok insert_user_inv(1) by metis
next
  case (profile u d name email me d')
  then show ?case using profile_inv by blast
next
  case (submitted u d f now a d')
  then show ?case using submit_inv(1) by blast
next
  case (approved admin k now d r d')
  obtain a u f where r: "get_kyc k d = Some a" "kyc_app_status a = APP_PENDING" "get_user (kyc_user_id a) d = Some u"
    "\<And>x. kyc_id (f x) = kyc_id x" "\<And>x. kyc_user_id (f x) = kyc_user_id x" "kyc_app_status (f a) = APP_APPROVED"
    "d' = put_user (usr_id u) (\<lambda>x. x\<lparr>usr_kyc_status := KYC_APPROVED\<rparr>) (put_kyc k f d)"
    using approve_ok [OF approved(1)] by blast
  show ?case by (rule review_inv [OF approved(2) r(1-6) _ r(7)]) simp
next
  case (rejected admin k reason now d r d')
  obtain a u f where r: "get_kyc k d = Some a" "kyc_app_status a = APP_PENDING" "get_user (kyc_user_id a) d = Some u"
    "\<And>x. kyc_id (f x) = kyc_id x" "\<And>x. kyc_user_id (f x) = kyc_user_id x" "kyc_app_status (f a) = APP_REJECTED"
    "d' = put_user (usr_id u) (\<lambda>x. x\<lparr>usr_kyc_status := KYC_REJECTED\<rparr>) (put_kyc k f d)"
    using reject_ok [OF rejected(1)] by blast
  show ?case by (rule review_inv [OF rejected(2) r(1-6) _ r(7)]) simp
next
  case (beneficiary_added u d bf now b d')
  then show ?case using beneficiary_added_inv(1) by blast
next
  case (beneficiary_removed u k d d')
  then show ?case using beneficiary_removed_inv(1) by blast
next
  case (money d d')
  then show ?case using money_inv by blast
qed

text \<open>A user after a request was there before it, with the same rights and password, or is new and plain.\<close>

definition rights_kept :: "db \<Rightarrow> user \<Rightarrow> bool" where
  "rights_kept d u \<longleftrightarrow>
     (\<exists>v \<in> set (users d). usr_id v = usr_id u \<and> usr_is_admin v = usr_is_admin u \<and>
        usr_hashed_password v = usr_hashed_password u) \<or>
     (\<forall>v \<in> set (users d). usr_id v \<noteq> usr_id u) \<and> \<not> usr_is_admin u"

lemma rights_put:
  assumes "\<And>x. usr_id (f x) = usr_id x \<and> usr_is_admin (f x) = usr_is_admin x \<and>
      usr_hashed_password (f x) = usr_hashed_password x" "u \<in> set (put_by usr_id k f (users d))"
  shows "rights_kept d u"
  using assms by (fastforce simp: rights_kept_def set_put_by)

lemma rights_put_status:
  "u \<in> set (put_by usr_id k (\<lambda>x. x\<lparr>usr_kyc_status := st\<rparr>) (users d)) \<Longrightarrow> rights_kept d u"
  by (rule rights_put) simp_all

lemma api_step_rights:
  assumes "api_step s lib d d'" "account_inv d" "u \<in> set (users d')"
  shows "rights_kept d u"
  using assms
proof (induction rule: api_step.induct)
  case (registered payload now d n v d' n')
  obtain email h name where ins: "insert_user email h name False now d = Inr (v, d')"
    using register_ok [OF registered(1)] by blast
  have "\<forall>x \<in> set (users d). usr_id x < next_id d"
    using registered(2) by (auto simp: account_inv_def users_ok_def fresh_ids_def)
  then show ?case using insert_user_inv [OF ins registered(2)] registered(3) by (fastforce simp: rights_kept_def)
next
  case (profile v d name email me d')
  obtain f where d': "d' = put_user (usr_id v) f d" and f: "\<And>x. usr_id (f x) = usr_id x \<and>
      usr_is_admin (f x) = usr_is_admin x \<and> usr_hashed_password (f x) = usr_hashed_password x"
    using update_profile_ok [OF profile(2)] by blast
  have "u \<in> set (put_by usr_id (usr_id v) f (users d))" using profile(4) by (simp add: d')
  with f show ?case by (rule rights_put)
next
  case (submitted v d f now a d')
  then show ?case using submit_inv(2) [OF submitted(2,1,3)] rights_put_status by metis
next
  case (approved admin k now d r d')
  obtain v :: user and f where "d' = put_user (usr_id v) (\<lambda>x. x\<lparr>usr_kyc_status := KYC_APPROVED\<rparr>) (put_kyc k f d)"
    using approve_ok [OF approved(1)] by blast
  then show ?case using approved(3) by (auto intro: rights_put_status)
next
  case (rejected admin k reason now d r d')
  obtain v :: user and f where "d' = put_user (usr_id v) (\<lambda>x. x\<lparr>usr_kyc_status := KYC_REJECTED\<rparr>) (put_kyc k f d)"
    using reject_ok [OF rejected(1)] by blast
  then show ?case using rejected(3) by (auto intro: rights_put_status)
next
  case (beneficiary_added v d bf now b d')
  then show ?case using beneficiary_added_inv(2) by (fastforce simp: rights_kept_def)
next
  case (beneficiary_removed v k d d')
  then show ?case using beneficiary_removed_inv(2) by (fastforce simp: rights_kept_def)
next
  case (money d d')
  then show ?case by (auto simp: money_change_def rights_kept_def)
qed

lemma script_inv:
  assumes "create_or_promote_admin lib email password name now d n = ((Inr u, d'), n')" "account_inv d"
  shows "account_inv d'"
proof (cases "user_by_email email d")
  case None
  then obtain h where "insert_user email h name True now d = Inr (u, d')"
    using assms(1) by (auto simp: create_or_promote_admin_def commit_or_keep_def split: prod.splits sum.splits)
  then show ?thesis using insert_user_inv(1) assms(2) by blast
next
  case (Some v)
  then have d': "d' = put_user (usr_id v) (\<lambda>x. x\<lparr>usr_is_admin := True\<rparr>) d"
    using assms(1) by (auto simp: create_or_promote_admin_def)
  have "distinct (map usr_email (users d))" using assms(2) by (simp add: account_inv_def users_ok_def)
  then have "distinct (map usr_email (put_by usr_id (usr_id v) (\<lambda>x. x\<lparr>usr_is_admin := True\<rparr>) (users d)))"
    by simp
  then show ?thesis unfolding d' using assms(2) by (intro put_user_inv) simp_all
qed

lemma account_step_inv: "account_step s lib d d' \<Longrightarrow> account_inv d \<Longrightarrow> account_inv d'"
  by (induction rule: account_step.induct) (blast intro: api_step_inv script_inv)+

interpretation account_run: transition_invariant "account_step s lib" account_inv
  by unfold_locales (rule account_step_inv)

section \<open>Properties\<close>

text \<open>
  C28. KYC statuses and applications never drift apart. After any sequence of registrations,
  profile changes, submissions, reviews, beneficiary changes, money transactions and runs of the
  admin script, each user has at most one application that is pending or approved, the status of
  the user is approved exactly when such an approved one exists, pending exactly when a pending
  one exists and rejected when all are rejected; e-mails are unique, and every remittance still
  has its beneficiary, owned by its sender.
\<close>

theorem kyc_never_drifts:
  assumes "(account_step s lib)\<^sup>*\<^sup>* empty_db d"
  shows "distinct (map usr_email (users d)) \<and>
    (\<forall>u \<in> set (users d). usr_kyc_status u = status_from (usr_id u) (set (kyc_applications d))) \<and>
    (\<forall>a \<in> set (kyc_applications d). \<forall>b \<in> set (kyc_applications d).
       kyc_user_id a = kyc_user_id b \<longrightarrow> kyc_app_status a \<noteq> APP_REJECTED \<longrightarrow> kyc_app_status b \<noteq> APP_REJECTED \<longrightarrow> a = b) \<and>
    (\<forall>r \<in> set (remittances d). \<exists>b \<in> set (beneficiaries d).
       ben_id b = rem_beneficiary_id r \<and> ben_sender_id b = rem_sender_id r)"
proof -
  have inv: "users_ok d" "kyc_ok d" "synced d" "beneficiaries_ok d"
    using account_run.run_inv [OF assms account_inv_empty] by (simp_all only: account_inv_def)
  have "live a \<longleftrightarrow> kyc_app_status a \<noteq> APP_REJECTED" for a
    using application_status.exhaust by (cases "kyc_app_status a") (simp_all add: live_def)
  then have "\<forall>a \<in> set (kyc_applications d). \<forall>b \<in> set (kyc_applications d).
       kyc_user_id a = kyc_user_id b \<longrightarrow> kyc_app_status a \<noteq> APP_REJECTED \<longrightarrow> kyc_app_status b \<noteq> APP_REJECTED \<longrightarrow> a = b"
    using inv(2) unfolding kyc_ok_def by blast
  then show ?thesis
    using inv(1,3,4) unfolding users_ok_def synced_def beneficiaries_ok_def owns_def
    by (elim conjE) (intro conjI; assumption)
qed

definition ann_form :: kyc_form where
  "ann_form = \<lparr>kf_full_name = ''Ann'', kf_date_of_birth = (1990, 1, 1), kf_nationality = ''ZA'',
     kf_identification_number = ''1'', kf_residential_address = ''x'', kf_mobile_number = ''0123456'',
     kf_email = ''Ann@x.org'', kf_source_of_funds = ''work''\<rparr>"

definition ann_db :: "kyc_status \<Rightarrow> kyc_application list \<Rightarrow> nat \<Rightarrow> db" where
  "ann_db st apps n = empty_db\<lparr>users := [ann\<lparr>usr_kyc_status := st\<rparr>], kyc_applications := apps, next_id := n\<rparr>"

definition ann_application :: kyc_application where
  "ann_application = new_application 1 0 ann_form 6"

lemma ann_run:
  "register plain_lib (''ann@x.org'', ''secret12'', ''Ann'') 5 empty_db 0 = ((Inr ann, ann_db KYC_NOT_STARTED [] 1), 1)"
  "submit_kyc ann ann_form 6 (ann_db KYC_NOT_STARTED [] 1) = Inr (ann_application, ann_db KYC_PENDING [ann_application] 2)"
  "\<exists>a. approve_kyc ann 1 7 (ann_db KYC_PENDING [ann_application] 2) = Inr (a, ann_db KYC_APPROVED [a] 2) \<and>
     kyc_app_status a = APP_APPROVED"
proof -
  show "register plain_lib (''ann@x.org'', ''secret12'', ''Ann'') 5 empty_db 0 = ((Inr ann, ann_db KYC_NOT_STARTED [] 1), 1)"
    by (simp add: register_def plain_lib_def insert_user_def empty_db_def ann_db_def ann_def http_of_def commit_or_keep_def Let_def)
  have "py_lower (py_strip ''Ann@x.org'') = py_lower (py_strip ''ann@x.org'')" by code_simp
  then show "submit_kyc ann ann_form 6 (ann_db KYC_NOT_STARTED [] 1) = Inr (ann_application, ann_db KYC_PENDING [ann_application] 2)"
    by (simp add: submit_kyc_def ann_db_def ann_def ann_form_def ann_application_def empty_db_def put_user_def put_by_def update_where_def Let_def)
  show "\<exists>a. approve_kyc ann 1 7 (ann_db KYC_PENDING [ann_application] 2) = Inr (a, ann_db KYC_APPROVED [a] 2) \<and>
     kyc_app_status a = APP_APPROVED"
    by (simp add: approve_kyc_def get_application_def get_kyc_def require_pending_def applicant_def get_user_def Let_def
        ann_db_def ann_def ann_application_def new_application_def empty_db_def put_kyc_def put_user_def put_by_def
        update_where_def get_by_Cons)
qed

lemma ann_reachable: "\<exists>a. (account_step demo_settings plain_lib)\<^sup>*\<^sup>* empty_db (ann_db KYC_APPROVED [a] 2)"
proof -
  let ?step = "account_step demo_settings plain_lib"
  have s1: "?step empty_db (ann_db KYC_NOT_STARTED [] 1)"
    by (rule account_step.api, rule api_step.registered, rule ann_run(1))
  have "get_user (usr_id ann) (ann_db KYC_NOT_STARTED [] 1) = Some ann"
    by (simp add: get_user_def ann_db_def ann_def get_by_Cons)
  then have s2: "?step (ann_db KYC_NOT_STARTED [] 1) (ann_db KYC_PENDING [ann_application] 2)"
    by (rule account_step.api [OF api_step.submitted]) (rule ann_run(2))
  obtain a where "approve_kyc ann 1 7 (ann_db KYC_PENDING [ann_application] 2) = Inr (a, ann_db KYC_APPROVED [a] 2)"
    using ann_run(3) by blast
  then have "?step (ann_db KYC_PENDING [ann_application] 2) (ann_db KYC_APPROVED [a] 2)"
    by (rule account_step.api [OF api_step.approved])
  with s1 s2 show ?thesis by (meson converse_rtranclp_into_rtranclp rtranclp.rtrancl_refl)
qed

theorem kyc_never_drifts_witness:
  "\<exists>a. (account_step demo_settings plain_lib)\<^sup>*\<^sup>* empty_db (ann_db KYC_APPROVED [a] 2) \<and>
     status_from 0 {a} = KYC_APPROVED"
proof -
  obtain a where r: "(account_step demo_settings plain_lib)\<^sup>*\<^sup>* empty_db (ann_db KYC_APPROVED [a] 2)"
    using ann_reachable by blast
  from kyc_never_drifts [OF r] have "status_from 0 {a} = KYC_APPROVED"
    by (simp add: ann_db_def ann_def)
  with r show ?thesis by blast
qed

text \<open>
  No request makes an administrator or replaces a password. Whatever endpoint runs, every
  user of the database after it was there before with the same rights and the same password
  hash, or is new and has no admin rights; and a user without admin rights is refused by the
  guard of every admin endpoint, with 403.
\<close>

theorem requests_never_grant_admin:
  assumes "api_step s lib d d'" "account_inv d" "u \<in> set (users d')"
  shows "((\<exists>v \<in> set (users d). usr_id v = usr_id u \<and> usr_is_admin v = usr_is_admin u \<and>
            usr_hashed_password v = usr_hashed_password u) \<or>
          (\<forall>v \<in> set (users d). usr_id v \<noteq> usr_id u) \<and> \<not> usr_is_admin u) \<and>
    (\<not> usr_is_admin u \<longrightarrow> require_admin u = Inl (HTTPException 403))"
  using api_step_rights [OF assms] by (simp add: rights_kept_def require_admin_def)

theorem requests_never_grant_admin_witness:
  "require_admin ann = Inl (HTTPException 403) \<and> ann \<in> set (users (ann_db KYC_NOT_STARTED [] 1))"
proof -
  have "api_step demo_settings plain_lib empty_db (ann_db KYC_NOT_STARTED [] 1)"
    by (rule api_step.registered, rule ann_run(1))
  moreover have "ann \<in> set (users (ann_db KYC_NOT_STARTED [] 1))" by (simp add: ann_db_def ann_def)
  ultimately show ?thesis
    using requests_never_grant_admin [OF _ account_inv_empty, of demo_settings plain_lib "ann_db KYC_NOT_STARTED [] 1" ann]
    by (auto simp: ann_def)
qed

end
