(* ===== verification/RemittanceApi.thy ===== *)
theory RemittanceApi
  imports Accounts FxRate System
begin

text \<open>
  \<open>app/routers/remittances.py\<close> with the request shapes of \<open>app/schemas/remittance.py\<close>: quoting,
  confirming the cash-in, and the sender's own history. The caller is the user the dependencies
  let through. The random key of a new row is an argument, and so are the clock readings.
\<close>

section \<open>Quoting\<close>

definition MAX_SEND_AMOUNT_ZAR :: decimal where
  "MAX_SEND_AMOUNT_ZAR = 1000000"

text \<open>\<open>QuoteRequest\<close>: the amount of a request that reaches the handler.\<close>

definition parse_send_amount :: "decimal \<Rightarrow> exc + decimal" where
  "parse_send_amount zar =
     (if 0 < zar \<and> zar \<le> MAX_SEND_AMOUNT_ZAR \<and> zar < 10 ^ 10 \<and> scaled 2 zar then Inr zar
      else Inl (HTTPException 422))"

definition owned_remittance :: "uuid \<Rightarrow> uuid \<Rightarrow> db \<Rightarrow> exc + remittance" where
  "owned_remittance k sender d =
     some_or (HTTPException 404) (find (\<lambda>r. rem_id r = k \<and> rem_sender_id r = sender) (remittances d))"

definition current_rate :: "'n fx_lib \<Rightarrow> settings \<Rightarrow> instant \<Rightarrow> db \<Rightarrow> fx_cache \<times> 'n \<Rightarrow> (exc + decimal) \<times> fx_cache \<times> 'n" where
  "current_rate lib s now d st =
     (case get_usd_zar_rate lib s now (Some d) st of
        (res, st') \<Rightarrow> (http_of (\<lambda>e. if e = FxRateUnavailableError then Some 503 else None) res, st'))"

text \<open>The INSERT: \<open>idempotency_key\<close> is unique, and the figures are \<open>Numeric\<close> columns.\<close>

definition insert_remittance :: "remittance \<Rightarrow> db \<Rightarrow> exc + remittance \<times> db" where
  "insert_remittance r d =
     (if \<exists>x \<in> set (remittances d). rem_idempotency_key x = rem_idempotency_key r then Inl IntegrityError
      else
        ebind (numeric_col 12 2 (rem_zar_send_amount r)) (\<lambda>zar.
        ebind (numeric_col 12 6 (rem_fx_rate_used r)) (\<lambda>rate.
        ebind (numeric_col 12 2 (rem_transaction_fee_zar r)) (\<lambda>fee.
        ebind (numeric_col 12 2 (rem_fx_margin_zar r)) (\<lambda>margin.
        ebind (numeric_col 12 2 (rem_net_converted_zar r)) (\<lambda>net.
        ebind (numeric_col 18 6 (rem_uctusd_amount r)) (\<lambda>uctusd.
        let r' = r\<lparr>rem_id := next_id d, rem_zar_send_amount := zar, rem_fx_rate_used := rate,
                   rem_transaction_fee_zar := fee, rem_fx_margin_zar := margin,
                   rem_net_converted_zar := net, rem_uctusd_amount := uctusd\<rparr>
        in Inr (r', d\<lparr>remittances := remittances d @ [r'], next_id := Suc (next_id d)\<rparr>))))))))"

definition new_remittance ::
  "settings \<Rightarrow> string \<Rightarrow> user \<Rightarrow> beneficiary \<Rightarrow> quote \<Rightarrow> instant \<Rightarrow> instant \<Rightarrow> remittance" where
  "new_remittance s key u b q now written =
     \<lparr>rem_id = 0, rem_idempotency_key = key, rem_sender_id = usr_id u, rem_beneficiary_id = ben_id b,
      rem_zar_send_amount = q_zar_send_amount q, rem_fx_rate_used = q_fx_rate q,
      rem_transaction_fee_zar = q_transaction_fee_zar q, rem_fx_margin_zar = q_fx_margin_zar q,
      rem_net_converted_zar = q_net_converted_zar q, rem_uctusd_amount = q_uctusd_amount q,
      rem_status = QUOTED, rem_xrpl_tx_hash = None, rem_cash_in_method = None, rem_created_at = written,
      rem_quote_expires_at = Some (now + quote_ttl_minutes s * 60 * 10 ^ 6),
      rem_cash_in_confirmed_at = None, rem_settled_at = None, rem_treasury_batch_id = None,
      rem_treasury_settled_at = None\<rparr>"

record quote_response =
  qr_remittance_id :: uuid
  qr_status :: remittance_status
  qr_beneficiary_id :: uuid
  qr_quote :: quote
  qr_quote_expires_at :: "instant option"
  qr_daily_limit_zar :: decimal
  qr_monthly_limit_zar :: decimal
  qr_daily_remaining_zar :: decimal
  qr_monthly_remaining_zar :: decimal

definition limit_refused :: "exc \<Rightarrow> nat option" where
  "limit_refused e = (case e of LimitExceededError p a r l \<Rightarrow> Some 403 | _ \<Rightarrow> None)"

text \<open>
  The handler: \<open>d0\<close> is the database its first checks read, \<open>d1\<close> the one its INSERT finds. Between
  the two other requests may commit; from the flush on the transaction holds the write lock, so
  the second check and the commit see \<open>d1\<close> and the new row. \<open>now\<close> is the clock at the start,
  \<open>written\<close> at the INSERT.
\<close>

definition create_quote_raced ::
  "'n fx_lib \<Rightarrow> settings \<Rightarrow> user \<Rightarrow> uuid \<Rightarrow> decimal \<Rightarrow> string \<Rightarrow> instant \<Rightarrow> instant \<Rightarrow> db \<Rightarrow> db \<Rightarrow> fx_cache \<times> 'n \<Rightarrow>
   ((exc + quote_response) \<times> db) \<times> fx_cache \<times> 'n" where
  "create_quote_raced lib s u beneficiary_id zar key now written d0 d1 st =
     (case find (\<lambda>b. ben_id b = beneficiary_id \<and> ben_sender_id b = usr_id u) (beneficiaries d0) of
        None \<Rightarrow> ((Inl (HTTPException 404), d1), st)
      | Some b \<Rightarrow>
          (case current_rate lib s now d0 st of
             (Inl e, st') \<Rightarrow> ((Inl e, d1), st')
           | (Inr rate, st') \<Rightarrow>
               (commit_or_keep d1
                 (ebind (http_of limit_refused (assert_within_limits s u zar now d0)) (\<lambda>_.
                  let preferred = py_upper (ben_preferred_payout_currency b);
                      payout_currency = (if preferred \<in> set PRICEABLE_PAYOUT_CURRENCIES then preferred else ''USD'')
                  in
                  ebind (http_of (\<lambda>e. if e = AmountTooSmallError then Some 422 else None)
                           (calculate_quote s zar rate payout_currency)) (\<lambda>q.
                  ebind (insert_remittance (new_remittance s key u b q now written) d1) (\<lambda>(r, d2).
                  ebind (http_of limit_refused (assert_within_limits s u 0 now d2)) (\<lambda>usage.
                  Inr (\<lparr>qr_remittance_id = rem_id r, qr_status = rem_status r, qr_beneficiary_id = ben_id b,
                        qr_quote = q, qr_quote_expires_at = rem_quote_expires_at r,
                        qr_daily_limit_zar = lu_daily_limit usage, qr_monthly_limit_zar = lu_monthly_limit usage,
                        qr_daily_remaining_zar = max (daily_remaining usage) 0,
                        qr_monthly_remaining_zar = max (monthly_remaining usage) 0\<rparr>, d2)))))),
                st')))"

definition create_quote ::
  "'n fx_lib \<Rightarrow> settings \<Rightarrow> user \<Rightarrow> uuid \<Rightarrow> decimal \<Rightarrow> string \<Rightarrow> instant \<Rightarrow> db \<Rightarrow> fx_cache \<times> 'n \<Rightarrow>
   ((exc + quote_response) \<times> db) \<times> fx_cache \<times> 'n" where
  "create_quote lib s u beneficiary_id zar key now d = create_quote_raced lib s u beneficiary_id zar key now now d d"

section \<open>Confirming the cash-in\<close>

text \<open>\<open>CashInConfirmRequest\<close>.\<close>

definition parse_cash_in_method :: "string \<Rightarrow> exc + string" where
  "parse_cash_in_method t =
     (let normalised = py_lower (py_strip t)
      in if normalised \<notin> set CASH_IN_METHODS then Inl (HTTPException 422) else Inr normalised)"

definition cash_in_refused :: "exc \<Rightarrow> nat option" where
  "cash_in_refused e =
     (if e = QuoteExpiredError \<or> e = CashInStateError \<or> e = RecipientNotRegisteredError then Some 409
      else if e = InvalidCashInMethodError then Some 422 else None)"

text \<open>
  The second half, shared with the administrator's retry: publish and mark QUEUED, in a
  transaction of its own. The response carries the row as committed and whether it was queued.
\<close>

definition publish_and_answer ::
  "(string \<Rightarrow> uuid \<Rightarrow> 'r \<Rightarrow> (redis_error + string) \<times> 'r) \<Rightarrow> uuid \<Rightarrow> db \<Rightarrow> 'r \<Rightarrow>
   ((exc + remittance \<times> bool) \<times> db) \<times> 'r" where
  "publish_and_answer pub k d q =
     (case get_remittance k d of
        None \<Rightarrow> ((Inl (OtherException ''ObjectDeletedError''), d), q)
      | Some r \<Rightarrow>
          (case queue_for_settlement pub r d q of
             (Inr (entry_id, d'), q') \<Rightarrow>
               ((Inr (r\<lparr>rem_status := QUEUED\<rparr>, True), d'), q')
           | (Inl e, q') \<Rightarrow>
               ((if e = SettlementPublishError then Inr (r, False) else Inl e, d), q')))"

definition confirm_cash_in ::
  "(string \<Rightarrow> uuid \<Rightarrow> 'r \<Rightarrow> (redis_error + string) \<times> 'r) \<Rightarrow> user \<Rightarrow> uuid \<Rightarrow> string \<Rightarrow> instant \<Rightarrow> db \<Rightarrow> 'r \<Rightarrow>
   ((exc + remittance \<times> bool) \<times> db) \<times> 'r" where
  "confirm_cash_in pub u k meth now d q =
     (case ebind (owned_remittance k (usr_id u) d) (\<lambda>r.
             http_of cash_in_refused (simulate_cash_in r meth now d)) of
        Inl e \<Rightarrow> ((Inl e, d), q)
      | Inr (changed, d1) \<Rightarrow> publish_and_answer pub k d1 q)"

section \<open>The sender's history\<close>

definition list_remittances :: "user \<Rightarrow> db \<Rightarrow> remittance list" where
  "list_remittances u d =
     sort_key (\<lambda>r. - rem_created_at r) (filter (\<lambda>r. rem_sender_id r = usr_id u) (remittances d))"

definition get_remittance_status :: "user \<Rightarrow> uuid \<Rightarrow> db \<Rightarrow> exc + remittance" where
  "get_remittance_status u k d = owned_remittance k (usr_id u) d"

section \<open>What a quote commits\<close>

lemma http_of_Inr [raise_simps]: "http_of h m = Inr x \<longleftrightarrow> m = Inr x"
  by (auto simp: http_of_def split: sum.splits option.splits)

lemma http_of_Inl [raise_simps]:
  "http_of h m = Inl e \<longleftrightarrow> (\<exists>e'. m = Inl e' \<and> e = (case h e' of Some c \<Rightarrow> HTTPException c | None \<Rightarrow> e'))"
  by (auto simp: http_of_def split: sum.splits option.splits)

lemma commit_or_keep_Inr [raise_simps]: "commit_or_keep d m = (Inr x, d') \<longleftrightarrow> m = Inr (x, d')"
  by (auto simp: commit_or_keep_def split: sum.splits)

lemma commit_or_keep_Inl [raise_simps]: "commit_or_keep d m = (Inl e, d') \<longleftrightarrow> m = Inl e \<and> d' = d"
  by (auto simp: commit_or_keep_def split: sum.splits)

lemma insert_remittance_Inr:
  assumes "insert_remittance r d = Inr (r', d')"
  shows "d' = d\<lparr>remittances := remittances d @ [r'], next_id := Suc (next_id d)\<rparr>" "rem_id r' = next_id d"
    "\<forall>x \<in> set (remittances d). rem_idempotency_key x \<noteq> rem_idempotency_key r'"
    "rem_idempotency_key r' = rem_idempotency_key r" "rem_sender_id r' = rem_sender_id r"
    "rem_beneficiary_id r' = rem_beneficiary_id r" "rem_status r' = rem_status r"
    "rem_created_at r' = rem_created_at r" "rem_quote_expires_at r' = rem_quote_expires_at r"
    "rem_cash_in_confirmed_at r' = rem_cash_in_confirmed_at r"
    "numeric_col 12 2 (rem_zar_send_amount r) = Inr (rem_zar_send_amount r')"
    "numeric_col 12 6 (rem_fx_rate_used r) = Inr (rem_fx_rate_used r')"
    "numeric_col 12 2 (rem_transaction_fee_zar r) = Inr (rem_transaction_fee_zar r')"
    "numeric_col 12 2 (rem_fx_margin_zar r) = Inr (rem_fx_margin_zar r')"
    "numeric_col 12 2 (rem_net_converted_zar r) = Inr (rem_net_converted_zar r')"
    "numeric_col 18 6 (rem_uctusd_amount r) = Inr (rem_uctusd_amount r')"
  using assms
  by (auto simp: insert_remittance_def Let_def ebind_eq_Inr split: if_splits)

text \<open>The steps behind a successful quote.\<close>

lemma create_quote_Inr:
  assumes "create_quote_raced lib s u bid zar key now written d0 d1 st = ((Inr resp, d'), st')"
  shows "\<exists>b rate cur q r usage.
    b \<in> set (beneficiaries d0) \<and> ben_id b = bid \<and> ben_sender_id b = usr_id u \<and>
    fst (current_rate lib s now d0 st) = Inr rate \<and> cur \<in> set PRICEABLE_PAYOUT_CURRENCIES \<and>
    (\<exists>before. assert_within_limits s u zar now d0 = Inr before) \<and>
    calculate_quote s zar rate cur = Inr q \<and>
    insert_remittance (new_remittance s key u b q now written) d1 = Inr (r, d') \<and>
    assert_within_limits s u 0 now d' = Inr usage \<and>
    resp = \<lparr>qr_remittance_id = rem_id r, qr_status = rem_status r, qr_beneficiary_id = ben_id b,
            qr_quote = q, qr_quote_expires_at = rem_quote_expires_at r,
            qr_daily_limit_zar = lu_daily_limit usage, qr_monthly_limit_zar = lu_monthly_limit usage,
            qr_daily_remaining_zar = max (daily_remaining usage) 0,
            qr_monthly_remaining_zar = max (monthly_remaining usage) 0\<rparr>"
proof -
  obtain b where b: "find (\<lambda>b. ben_id b = bid \<and> ben_sender_id b = usr_id u) (beneficiaries d0) = Some b"
    using assms by (auto simp: create_quote_raced_def split: option.splits)
  then have own: "b \<in> set (beneficiaries d0)" "ben_id b = bid" "ben_sender_id b = usr_id u"
    by (auto simp: find_Some_iff)
  obtain rate st1 where rate: "current_rate lib s now d0 st = (Inr rate, st1)"
    using assms b by (auto simp: create_quote_raced_def split: prod.splits sum.splits)
  have usd: "''USD'' \<in> set PRICEABLE_PAYOUT_CURRENCIES" by code_simp
  let ?pref = "py_upper (ben_preferred_payout_currency b)"
  let ?cur = "if ?pref \<in> set PRICEABLE_PAYOUT_CURRENCIES then ?pref else ''USD''"
  have "?cur \<in> set PRICEABLE_PAYOUT_CURRENCIES" using usd by simp
  moreover obtain before q r usage where "assert_within_limits s u zar now d0 = Inr before" "calculate_quote s zar rate ?cur = Inr q"
    "insert_remittance (new_remittance s key u b q now written) d1 = Inr (r, d')"
    "assert_within_limits s u 0 now d' = Inr usage"
    "resp = \<lparr>qr_remittance_id = rem_id r, qr_status = rem_status r, qr_beneficiary_id = ben_id b,
            qr_quote = q, qr_quote_expires_at = rem_quote_expires_at r,
            qr_daily_limit_zar = lu_daily_limit usage, qr_monthly_limit_zar = lu_monthly_limit usage,
            qr_daily_remaining_zar = max (daily_remaining usage) 0,
            qr_monthly_remaining_zar = max (monthly_remaining usage) 0\<rparr>"
    using assms b rate by (auto simp: create_quote_raced_def raise_simps Let_def simp del: if_split)
  ultimately show ?thesis using own rate by (intro exI conjI) (assumption | simp)+
qed

lemma limit_error: "assert_within_limits s u a now d = Inl e \<Longrightarrow> limit_refused e = Some 403"
  by (auto simp: assert_within_limits_def Let_def limit_refused_def split: if_splits)

lemma insert_remittance_error: "insert_remittance r d = Inl e \<Longrightarrow> e = IntegrityError \<or> e = DataError"
  by (auto simp: insert_remittance_def Let_def numeric_col_def ebind_eq_Inl split: if_splits)

lemma send_amount_parsed: "parse_send_amount zar = Inr z \<Longrightarrow> z = zar \<and> send_amount_ok zar"
  by (auto simp: parse_send_amount_def MAX_SEND_AMOUNT_ZAR_def send_amount_ok_def split: if_splits)

text \<open>The inserted row is the quote, digit for digit: every figure fits its column.\<close>

lemma inserted_quote:
  assumes "fee_settings_ok s" "send_amount_ok zar" "rate_ok rate" "zar \<le> rate * 10 ^ 12"
    "cur \<in> set PRICEABLE_PAYOUT_CURRENCIES" "calculate_quote s zar rate cur = Inr q"
    "insert_remittance (new_remittance s key u b q now written) d = Inr (r, d')"
  shows "quoted_row d r" "rem_zar_send_amount r = zar" "q_zar_send_amount q = zar" "q_fx_rate q = rate"
    "rem_fx_rate_used r = rate" "rem_transaction_fee_zar r = q_transaction_fee_zar q"
    "rem_fx_margin_zar r = q_fx_margin_zar q" "rem_net_converted_zar r = q_net_converted_zar q"
    "rem_uctusd_amount r = q_uctusd_amount q"
    "q_transaction_fee_zar q + q_fx_margin_zar q + q_net_converted_zar q = zar"
proof -
  have r: "0 < rate" "scaled 6 rate" "scaled 2 zar" "0 < zar" using assms(2,3) by (simp_all add: rate_ok_def send_amount_ok_def)
  have "py_upper (py_strip cur) \<in> set PRICEABLE_PAYOUT_CURRENCIES" using assms(5) by (simp add: priceable_normal)
  from exact_quote_Inr [OF calculate_quote_Inr [OF assms(1-4) this assms(6)] r(1)]
  have q: "q_zar_send_amount q = zar" "q_fx_rate q = rate"
    "q_transaction_fee_zar q + q_fx_margin_zar q + q_net_converted_zar q = zar"
    "0 < q_uctusd_amount q" "scaled 6 (q_uctusd_amount q)" "scaled 2 (q_transaction_fee_zar q)" "scaled 2 (q_fx_margin_zar q)"
    by blast+
  have net: "q_net_converted_zar q = zar - q_transaction_fee_zar q - q_fx_margin_zar q" using q(3) by linarith
  have "scaled 2 (q_net_converted_zar q)" unfolding net using q r(3) by (intro scaled_diff)
  note row = insert_remittance_Inr [OF assms(7)]
  note col = row(11-16) [unfolded new_remittance_def remittance.simps]
  show figs: "rem_zar_send_amount r = zar" "rem_fx_rate_used r = rate" "rem_transaction_fee_zar r = q_transaction_fee_zar q"
    "rem_fx_margin_zar r = q_fx_margin_zar q" "rem_net_converted_zar r = q_net_converted_zar q"
    "rem_uctusd_amount r = q_uctusd_amount q"
    using numeric_col_id [OF _ col(1)] numeric_col_id [OF _ col(2)] numeric_col_id [OF _ col(3)]
      numeric_col_id [OF _ col(4)] numeric_col_id [OF _ col(5)] numeric_col_id [OF _ col(6)] q r \<open>scaled 2 (q_net_converted_zar q)\<close>
    by simp_all
  have "\<bar>rem_uctusd_amount r\<bar> * 10 ^ 6 < 10 ^ 18" by (rule numeric_col_bound [OF col(6)])
  then have "rem_uctusd_amount r < 10 ^ 12" using q(4) unfolding figs(6) by simp
  then have "remittance_ok r"
    using q(4,5) r row(7) figs(1,6) by (simp add: remittance_ok_def token_amount_ok_def new_remittance_def)
  then show "quoted_row d r" using row(2,3,7,10) by (simp add: quoted_row_def new_remittance_def)
  show "q_zar_send_amount q = zar" "q_fx_rate q = rate"
    "q_transaction_fee_zar q + q_fx_margin_zar q + q_net_converted_zar q = zar" by (rule q)+
qed

text \<open>Every refusal of the quote endpoint.\<close>

lemma create_quote_Inl:
  assumes "fee_settings_ok s" "parse_send_amount zar = Inr z"
    "\<forall>rate. fst (current_rate lib s now d0 st) = Inr rate \<longrightarrow> rate_ok rate \<and> zar \<le> rate * 10 ^ 12"
    "create_quote_raced lib s u bid zar key now written d0 d1 st = ((Inl e, d'), st')"
  shows "d' = d1 \<and>
        (e = HTTPException 404 \<and> (\<forall>b \<in> set (beneficiaries d0). ben_id b \<noteq> bid \<or> ben_sender_id b \<noteq> usr_id u) \<or>
         fst (current_rate lib s now d0 st) = Inl e \<or>
         e \<in> {HTTPException 403, HTTPException 422, IntegrityError, DataError})"
proof -
  have quote_error: "e' = AmountTooSmallError" if "fst (current_rate lib s now d0 st) = Inr rate" "cur \<in> set PRICEABLE_PAYOUT_CURRENCIES"
    "calculate_quote s zar rate cur = Inl e'" for e' rate cur
  proof -
    have "py_upper (py_strip cur) \<in> set PRICEABLE_PAYOUT_CURRENCIES" using that(2) by (simp add: priceable_normal)
    then show ?thesis
      using quote_exact_core [of s zar rate cur] exact_quote_error assms(1,3) that send_amount_parsed [OF assms(2)] by simp
  qed
  have usd: "''USD'' \<in> set PRICEABLE_PAYOUT_CURRENCIES" by code_simp
  show ?thesis
  proof (cases "find (\<lambda>b. ben_id b = bid \<and> ben_sender_id b = usr_id u) (beneficiaries d0)")
    case None
    then have "e = HTTPException 404" "d' = d1" using assms(4) by (simp_all add: create_quote_raced_def)
    then show ?thesis using None by (auto simp: find_None_iff)
  next
    case (Some b)
    let ?pref = "py_upper (ben_preferred_payout_currency b)"
    have cur: "(if ?pref \<in> set PRICEABLE_PAYOUT_CURRENCIES then ?pref else ''USD'') \<in> set PRICEABLE_PAYOUT_CURRENCIES"
      using usd by simp
    obtain got st1 where rate: "current_rate lib s now d0 st = (got, st1)"
      by (cases "current_rate lib s now d0 st")
    show ?thesis
    proof (cases got)
      case e2: (Inl e2)
      then show ?thesis using assms(4) Some rate by (auto simp: create_quote_raced_def)
    next
      case r: (Inr rate')
      have "e \<in> {HTTPException 403, HTTPException 422, IntegrityError, DataError} \<and> d' = d1"
        using assms(4) Some rate r quote_error [of rate', OF _ cur]
        by (auto simp: create_quote_raced_def raise_simps Let_def limit_error dest!: insert_remittance_error simp del: if_split)
      then show ?thesis by simp
    qed
  qed
qed

text \<open>
  C29. A quote is binding and a refusal changes nothing. When the quote endpoint answers, the
  database has exactly one more row: a QUOTED remittance of the caller to a beneficiary of the
  caller, carrying digit for digit the figures the answer shows, priced at the rate in force, with
  fee, margin and net adding up to the amount sent, and expiring \<open>quote_ttl_minutes\<close> later.
  Otherwise the database is as it was, and the refusal is 404 for a beneficiary the caller does
  not own, or the error of the rate service, or 403 or 422, or a violated column or key.
\<close>

theorem quote_is_binding:
  assumes "fee_settings_ok s" "parse_send_amount zar = Inr z"
    "\<forall>rate. fst (current_rate lib s now d0 st) = Inr rate \<longrightarrow> rate_ok rate \<and> zar \<le> rate * 10 ^ 12"
    "create_quote_raced lib s u bid zar key now written d0 d1 st = ((res, d'), st')"
  shows "case res of
      Inr resp \<Rightarrow>
        \<exists>r q. d' = d1\<lparr>remittances := remittances d1 @ [r], next_id := Suc (next_id d1)\<rparr> \<and> quoted_row d1 r \<and>
          q = qr_quote resp \<and> qr_remittance_id resp = rem_id r \<and> rem_sender_id r = usr_id u \<and> owns d0 r \<and>
          rem_beneficiary_id r = bid \<and> fst (current_rate lib s now d0 st) = Inr (rem_fx_rate_used r) \<and>
          q_fx_rate q = rem_fx_rate_used r \<and> q_zar_send_amount q = zar \<and> rem_zar_send_amount r = zar \<and>
          rem_transaction_fee_zar r = q_transaction_fee_zar q \<and> rem_fx_margin_zar r = q_fx_margin_zar q \<and>
          rem_net_converted_zar r = q_net_converted_zar q \<and> rem_uctusd_amount r = q_uctusd_amount q \<and>
          rem_transaction_fee_zar r + rem_fx_margin_zar r + rem_net_converted_zar r = zar \<and>
          rem_quote_expires_at r = Some (now + quote_ttl_minutes s * 60 * 10 ^ 6)
    | Inl e \<Rightarrow> d' = d1 \<and>
        (e = HTTPException 404 \<and> (\<forall>b \<in> set (beneficiaries d0). ben_id b \<noteq> bid \<or> ben_sender_id b \<noteq> usr_id u) \<or>
         fst (current_rate lib s now d0 st) = Inl e \<or>
         e \<in> {HTTPException 403, HTTPException 422, IntegrityError, DataError})"
proof (cases res)
  case (Inr resp)
  obtain b rate cur q r usage where b: "b \<in> set (beneficiaries d0)" "ben_id b = bid" "ben_sender_id b = usr_id u"
    and rate: "fst (current_rate lib s now d0 st) = Inr rate" and cur: "cur \<in> set PRICEABLE_PAYOUT_CURRENCIES"
    and q: "calculate_quote s zar rate cur = Inr q"
    and ins: "insert_remittance (new_remittance s key u b q now written) d1 = Inr (r, d')"
    and resp: "qr_quote resp = q" "qr_remittance_id resp = rem_id r"
    using create_quote_Inr [OF assms(4) [unfolded Inr]] by auto
  note row = insert_remittance_Inr [OF ins, unfolded new_remittance_def remittance.simps]
  have "owns d0 r" using b row(5,6) unfolding owns_def by (intro bexI [of _ b]) simp_all
  moreover have "send_amount_ok zar" using send_amount_parsed [OF assms(2)] by blast
  note inserted_quote [OF assms(1) this _ _ cur q ins]
  ultimately show ?thesis using Inr assms(3) rate row(1,5,6,9) b(2) resp by auto
next
  case (Inl e)
  then show ?thesis using create_quote_Inl [OF assms(1-3)] assms(4) by simp
qed

section \<open>Confirming\<close>

lemma owned_is_row:
  assumes "fresh_ids rem_id n (remittances d)" "owned_remittance k sender d = Inr r"
  shows "get_remittance k d = Some r" "rem_id r = k" "rem_sender_id r = sender"
proof -
  have r: "r \<in> set (remittances d)" "rem_id r = k" "rem_sender_id r = sender"
    using assms(2) by (auto simp: owned_remittance_def some_or_eq_Inr find_Some_iff)
  show "get_remittance k d = Some r"
    using fresh_ids_get_by [OF assms(1) r(1)] unfolding get_remittance_def r(2) .
  show "rem_id r = k" "rem_sender_id r = sender" by (rule r)+
qed

lemma simulate_error: "simulate_cash_in r meth now d = Inl e \<Longrightarrow> cash_in_refused e = Some 409 \<or> cash_in_refused e = Some 422"
  by (auto simp: simulate_cash_in_def Let_def ebind_eq_Inl some_or_eq_Inl assert_recipient_registered_def
      cash_in_refused_def split: if_splits)

lemma simulate_result:
  assumes "simulate_cash_in r meth now d = Inr (b, d')" "get_remittance (rem_id r) d = Some r"
  shows "\<exists>r1. get_remittance (rem_id r) d' = Some r1 \<and> rem_status r1 \<in> {CASH_IN_CONFIRMED, QUEUED} \<and>
      (\<forall>j. j \<noteq> rem_id r \<longrightarrow> get_remittance j d' = get_remittance j d) \<and>
      rem_idempotency_key r1 = rem_idempotency_key r \<and> rem_uctusd_amount r1 = rem_uctusd_amount r \<and>
      rem_zar_send_amount r1 = rem_zar_send_amount r \<and>
      (if rem_status r = QUOTED then rem_status r1 = CASH_IN_CONFIRMED \<and> rem_cash_in_confirmed_at r1 = Some now else r1 = r)"
proof (cases "rem_status r = QUOTED")
  case True
  obtain f where d': "d' = put_remittance (rem_id r) f d" and f: "f = (\<lambda>x. x\<lparr>rem_cash_in_method := Some (py_lower (py_strip meth)),
               rem_status := CASH_IN_CONFIRMED, rem_cash_in_confirmed_at := Some now, rem_quote_expires_at := None\<rparr>)"
    using assms(1) True by (auto simp: simulate_cash_in_def Let_def ebind_eq_Inr split: if_splits)
  have "get_remittance (rem_id r) d' = Some (f r)"
    unfolding d' using assms(2) by (intro rem_store.get_put_same) (simp_all add: f)
  moreover have "get_remittance j d' = get_remittance j d" if "j \<noteq> rem_id r" for j
    unfolding d' using that by (intro rem_store.get_put_other) (simp_all add: f)
  ultimately show ?thesis using True by (intro exI [of _ "f r"]) (simp add: f)
next
  case False
  then have "d' = d" "rem_status r \<in> {CASH_IN_CONFIRMED, QUEUED}"
    using assms(1) by (auto simp: simulate_cash_in_def Let_def ebind_eq_Inr split: if_splits)
  then show ?thesis using assms(2) False by simp
qed

text \<open>The publishing half, from a confirmed row: one message, and QUEUED exactly when it was taken.\<close>

lemma publish_result:
  assumes "publish_and_answer pub k d q = ((res, d'), q')" "get_remittance k d = Some r"
    "rem_status r \<in> {CASH_IN_CONFIRMED, QUEUED}"
  shows "q' = snd (pub (rem_idempotency_key r) k q) \<and>
    (\<forall>j. j \<noteq> k \<longrightarrow> get_remittance j d' = get_remittance j d) \<and>
    (case fst (pub (rem_idempotency_key r) k q) of
       Inl e \<Rightarrow> res = Inr (r, False) \<and> d' = d
     | Inr entry \<Rightarrow> res = Inr (r\<lparr>rem_status := QUEUED\<rparr>, True) \<and> get_remittance k d' = Some (r\<lparr>rem_status := QUEUED\<rparr>))"
proof -
  have k: "rem_id r = k" using assms(2) by (rule rem_store.get_key)
  let ?d = "put_remittance k (\<lambda>x. x\<lparr>rem_status := QUEUED\<rparr>) d"
  have g: "get_remittance k ?d = Some (r\<lparr>rem_status := QUEUED\<rparr>)"
    "\<And>j. j \<noteq> k \<Longrightarrow> get_remittance j ?d = get_remittance j d"
    using rem_store.get_put_same [of "\<lambda>x. x\<lparr>rem_status := QUEUED\<rparr>" k d r] assms(2)
      rem_store.get_put_other [of "\<lambda>x. x\<lparr>rem_status := QUEUED\<rparr>" _ k d] by simp_all
  show ?thesis
    using assms g
    by (cases "pub (rem_idempotency_key r) k q"; cases "fst (pub (rem_idempotency_key r) k q)")
      (auto simp: publish_and_answer_def queue_for_settlement_def k)
qed

text \<open>
  C31. Confirming a cash-in locks the quote before anything is published, and a queue that is down
  loses nothing. A refusal is 404, 409 or 422, changes nothing and publishes nothing. Otherwise the
  row is the caller's, no other remittance changes, its figures stay, a quote becomes confirmed at
  this instant and a row already confirmed keeps its instant; exactly one message is published
  for it, and the row is left QUEUED if the queue took the message and confirmed, ready to be
  published again, if it did not, which is what the answer says.
\<close>

theorem confirm_locks_then_publishes:
  assumes "fresh_ids rem_id n (remittances d)" "confirm_cash_in pub u k meth now d q = ((res, d'), q')"
  shows "case res of
      Inl e \<Rightarrow> d' = d \<and> q' = q \<and> e \<in> {HTTPException 404, HTTPException 409, HTTPException 422}
    | Inr (r', queued) \<Rightarrow>
        (\<exists>r. get_remittance k d = Some r \<and> rem_sender_id r = usr_id u \<and> get_remittance k d' = Some r' \<and>
           (\<forall>j. j \<noteq> k \<longrightarrow> get_remittance j d' = get_remittance j d) \<and>
           rem_uctusd_amount r' = rem_uctusd_amount r \<and> rem_zar_send_amount r' = rem_zar_send_amount r \<and>
           rem_cash_in_confirmed_at r' = (if rem_status r = QUOTED then Some now else rem_cash_in_confirmed_at r) \<and>
           (case fst (pub (rem_idempotency_key r) k q) of
              Inl e \<Rightarrow> \<not> queued \<and> rem_status r' = (if rem_status r = QUOTED then CASH_IN_CONFIRMED else rem_status r)
            | Inr entry \<Rightarrow> queued \<and> rem_status r' = QUEUED) \<and>
           q' = snd (pub (rem_idempotency_key r) k q))"
proof (cases "owned_remittance k (usr_id u) d")
  case (Inl e)
  then show ?thesis using assms(2) by (auto simp: confirm_cash_in_def owned_remittance_def some_or_eq_Inl)
next
  case own: (Inr r)
  note r = owned_is_row [OF assms(1) own]
  show ?thesis
  proof (cases "simulate_cash_in r meth now d")
    case (Inl e)
    then show ?thesis using assms(2) own simulate_error [OF Inl] by (auto simp: confirm_cash_in_def http_of_def)
  next
    case (Inr x)
    obtain b d1 where sim: "simulate_cash_in r meth now d = Inr (b, d1)" using Inr by (cases x) simp
    obtain r1 where r1: "get_remittance k d1 = Some r1" "rem_status r1 \<in> {CASH_IN_CONFIRMED, QUEUED}"
      "\<forall>j. j \<noteq> k \<longrightarrow> get_remittance j d1 = get_remittance j d" "rem_idempotency_key r1 = rem_idempotency_key r"
      "rem_uctusd_amount r1 = rem_uctusd_amount r" "rem_zar_send_amount r1 = rem_zar_send_amount r"
      "if rem_status r = QUOTED then rem_status r1 = CASH_IN_CONFIRMED \<and> rem_cash_in_confirmed_at r1 = Some now else r1 = r"
      using simulate_result [OF sim] r by auto
    have "publish_and_answer pub k d1 q = ((res, d'), q')"
      using assms(2) own sim by (simp add: confirm_cash_in_def http_of_def)
    from publish_result [OF this r1(1,2)] show ?thesis
      using r r1 by (cases "fst (pub (rem_idempotency_key r) k q)") (auto split: if_splits)
  qed
qed

section \<open>Runs\<close>

abbreviation demo_quote_key :: string where
  "demo_quote_key \<equiv> ''9f''"

lemma api_settings_facts:
  "fee_settings_ok api_settings" "limit_settings_ok api_settings" "quote_ttl_minutes api_settings = 15"
  "limits_for api_settings KYC_APPROVED = (3000, 25000)"
  "calculate_quote api_settings = calculate_quote (default_settings [] [] [])"
proof -
  note defs = api_settings_def demo_settings_def default_settings_def
  have "fee_settings_ok api_settings \<longleftrightarrow> fee_settings_ok (default_settings [] [] [])"
    by (simp add: fee_settings_ok_def defs)
  then show "fee_settings_ok api_settings" using default_fee_settings_ok by simp
  show "limit_settings_ok api_settings" by (simp add: limit_settings_ok_def defs)
  show "quote_ttl_minutes api_settings = 15" by (simp add: defs)
  show "limits_for api_settings KYC_APPROVED = (3000, 25000)" by (simp add: limits_for_def defs)
  have same: "fixed_remittance_fee_zar api_settings = fixed_remittance_fee_zar (default_settings [] [] [])"
    "percent_fee_bps api_settings = percent_fee_bps (default_settings [] [] [])"
    "fx_margin_bps api_settings = fx_margin_bps (default_settings [] [] [])"
    "cashout_fee_bps api_settings = cashout_fee_bps (default_settings [] [] [])"
    by (simp_all add: defs)
  have "calculate_cash_out_payout api_settings = calculate_cash_out_payout (default_settings [] [] [])"
    by (intro ext) (simp only: calculate_cash_out_payout_def same)
  then show "calculate_quote api_settings = calculate_quote (default_settings [] [] [])"
    by (intro ext) (simp only: calculate_quote_def same)
qed

definition demo_row_quoted :: remittance where
  "demo_row_quoted = (new_remittance api_settings demo_quote_key (demo_user 1 ''ann@x.org'') (hd (beneficiaries demo_db))
     worked_quote 50 60)\<lparr>rem_id := 10\<rparr>"

lemma demo_insert:
  "insert_remittance (new_remittance api_settings demo_quote_key (demo_user 1 ''ann@x.org'') (hd (beneficiaries demo_db))
     worked_quote 50 60) demo_db =
   Inr (demo_row_quoted, demo_db\<lparr>remittances := [demo_row_quoted], next_id := 11\<rparr>)"
proof -
  have c: "numeric_col 12 2 1000 = Inr 1000" "numeric_col 12 6 (37/2) = Inr (37/2)" "numeric_col 12 2 40 = Inr 40"
    "numeric_col 12 2 10 = Inr 10" "numeric_col 12 2 950 = Inr 950" "numeric_col 18 6 (51351351/1000000) = Inr (51351351/1000000)"
    by code_simp+
  show ?thesis
    by (simp add: insert_remittance_def demo_row_quoted_def new_remittance_def worked_quote_def demo_db_def empty_db_def c Let_def)
qed

lemma demo_limit:
  assumes "rows_ok d" "\<forall>ds. total_since 1 50 ds d + a \<le> 3000" "scaled 2 a" "0 \<le> a"
  shows "\<exists>usage. assert_within_limits api_settings (demo_user 1 ''ann@x.org'') a 50 d = Inr usage"
proof -
  obtain ds ms where w: "window_starts 50 = (ds, ms)" by fastforce
  have l: "limits_for api_settings (usr_kyc_status (demo_user 1 ''ann@x.org'')) = (3000, 25000)"
    using api_settings_facts(4) by (simp add: demo_user_def)
  have "total_since 1 50 ds d + a \<le> 3000" "total_since 1 50 ms d + a \<le> 3000" using assms(2) by blast+
  then show ?thesis
    using limit_check_eq [OF assms(1) api_settings_facts(2) assms(3,4) w l] by (simp add: Let_def demo_user_def)
qed

lemma demo_create_quote:
  "\<exists>resp st. create_quote_raced demo_fx api_settings (demo_user 1 ''ann@x.org'') 3 1000 demo_quote_key 50 60 demo_db demo_db (Map.empty, 0) =
     ((Inr resp, demo_db\<lparr>remittances := [demo_row_quoted], next_id := 11\<rparr>), st) \<and> qr_quote resp = worked_quote"
proof -
  let ?u = "demo_user 1 ''ann@x.org''" and ?d = "demo_db\<lparr>remittances := [demo_row_quoted], next_id := 11\<rparr>"
  have none: "remittances demo_db = []" by (simp add: demo_db_def empty_db_def)
  have r: "rem_zar_send_amount demo_row_quoted = 1000"
    by (simp add: demo_row_quoted_def new_remittance_def worked_quote_def)
  have sc: "scaled 2 (1000 :: rat)" by simp
  obtain u1 where l1: "assert_within_limits api_settings ?u 1000 50 demo_db = Inr u1"
    using demo_limit [of demo_db 1000] none by (auto simp: rows_ok_def total_since_def)
  have "total_since 1 50 ds ?d + 0 \<le> 3000" for ds by (simp add: total_since_def r)
  then obtain u2 where l2: "assert_within_limits api_settings ?u 0 50 ?d = Inr u2"
    using demo_limit [of ?d 0] r by (auto simp: rows_ok_def)
  have b: "find (\<lambda>b. ben_id b = 3 \<and> ben_sender_id b = usr_id ?u) (beneficiaries demo_db) = Some (hd (beneficiaries demo_db))"
    by (simp add: demo_db_def demo_user_def)
  have cur: "py_upper (ben_preferred_payout_currency (hd (beneficiaries demo_db))) = ''USD''"
    by (simp add: demo_db_def) code_simp
  have usd: "''USD'' \<in> set PRICEABLE_PAYOUT_CURRENCIES" by code_simp
  have q: "calculate_quote api_settings 1000 (37/2) ''USD'' = Inr worked_quote"
    using worked_quote_computed by (simp add: api_settings_facts(5))
  define v where v: "v = ?u"
  show ?thesis unfolding v [symmetric]
    by (simp add: create_quote_raced_def b [folded v] current_rate_def demo_fx_run http_of_def l1 [folded v] cur usd q
        demo_insert [folded v] l2 [folded v] commit_or_keep_def Let_def)
qed

theorem quote_is_binding_witness:
  "\<exists>resp d' st. create_quote_raced demo_fx api_settings (demo_user 1 ''ann@x.org'') 3 1000 demo_quote_key 50 60 demo_db demo_db (Map.empty, 0) =
     ((Inr resp, d'), st) \<and> (\<exists>r. remittances d' = [r] \<and> rem_transaction_fee_zar r = 40 \<and> rem_net_converted_zar r = 950)"
proof -
  obtain resp st where run: "create_quote_raced demo_fx api_settings (demo_user 1 ''ann@x.org'') 3 1000 demo_quote_key 50 60
      demo_db demo_db (Map.empty, 0) = ((Inr resp, demo_db\<lparr>remittances := [demo_row_quoted], next_id := 11\<rparr>), st)"
    and q: "qr_quote resp = worked_quote"
    using demo_create_quote by blast
  have parse: "parse_send_amount 1000 = Inr 1000" by (simp add: parse_send_amount_def MAX_SEND_AMOUNT_ZAR_def)
  have ok: "rate_ok (37/2) \<and> 1000 \<le> (37/2 :: rat) * 10 ^ 12" by code_simp
  have "fst (current_rate demo_fx api_settings 50 demo_db (Map.empty, 0)) = Inr (37/2)"
    by (simp add: current_rate_def demo_fx_run http_of_def)
  then have rate: "\<forall>rate. fst (current_rate demo_fx api_settings 50 demo_db (Map.empty, 0)) = Inr rate \<longrightarrow>
      rate_ok rate \<and> 1000 \<le> rate * 10 ^ 12"
    using ok by (metis sum.inject(2))
  show ?thesis
    using quote_is_binding [OF api_settings_facts(1) parse rate run] run q
    by (auto simp: worked_quote_def demo_db_def empty_db_def)
qed

theorem confirm_locks_then_publishes_witness:
  "\<exists>r' d'. confirm_cash_in (\<lambda>key k (n :: nat). (Inr ''1-0'', Suc n)) (demo_user 1 ''ann@x.org'') 5 '' Card '' 100 demo_quoted 0 =
     ((Inr (r', True), d'), 1) \<and> rem_status r' = QUEUED \<and> rem_cash_in_confirmed_at r' = Some 100"
proof -
  let ?pub = "\<lambda>key k (n :: nat). (Inr ''1-0'' :: redis_error + string, Suc n)" and ?u = "demo_user 1 ''ann@x.org''"
  have ids: "fresh_ids rem_id 10 (remittances demo_quoted)"
    by (simp add: demo_quoted_def fresh_ids_def demo_remittance_def)
  have own: "owned_remittance 5 (usr_id ?u) demo_quoted = Inr demo_remittance"
    by (simp add: owned_remittance_def demo_quoted_def demo_remittance_def demo_user_def)
  obtain d1 where sim: "simulate_cash_in demo_remittance '' Card '' 100 demo_quoted = Inr (True, d1)"
    using demo_cash_in by blast
  have id: "rem_id demo_remittance = 5" "rem_status demo_remittance = QUOTED" by (simp_all add: demo_remittance_def)
  obtain r1 where r1: "get_remittance 5 d1 = Some r1" "rem_status r1 \<in> {CASH_IN_CONFIRMED, QUEUED}"
    using simulate_result [OF sim] get_demo_remittance id by auto
  obtain res d' q' where run: "confirm_cash_in ?pub ?u 5 '' Card '' 100 demo_quoted 0 = ((res, d'), q')"
    by (metis prod.collapse)
  then have "publish_and_answer ?pub 5 d1 0 = ((res, d'), q')"
    using own sim by (simp add: confirm_cash_in_def http_of_def)
  from publish_result [OF this r1] obtain r' where res: "res = Inr (r', True)" by auto
  show ?thesis
    using confirm_locks_then_publishes [OF ids run] run id get_demo_remittance unfolding res by auto
qed

end
