(* ===== verification/Headroom.thy ===== *)
theory Headroom
  imports RemittanceApi Worker
begin

text \<open>
  The send limits over time: whatever quotes, cash-ins, settlements, retries and refunds run, in
  whatever order, the total of a sender stays within the limits. Each handler is one step; only
  the quote endpoint is taken apart, with its first reads on an earlier database.
\<close>

section \<open>The windows move forward\<close>

lemma month_first_day:
  assumes "0 \<le> now" "local_date now = (y, m, d)"
  shows "local_day now - (d - 1) = ymd2ord y m 1 - 1" "1 \<le> d"
proof -
  have "valid_date y m d" "ymd2ord y m d = local_day now + 1"
    using ord2ymd_sound [OF local_day_nonneg [OF assms(1)]] assms(2) by (simp_all add: local_date_def)
  then show "local_day now - (d - 1) = ymd2ord y m 1 - 1" "1 \<le> d"
    by (simp_all add: ymd2ord_def valid_date_def)
qed

lemma window_starts_mono:
  assumes "0 \<le> now" "now \<le> now'" "window_starts now = (ds, ms)" "window_starts now' = (ds', ms')"
  shows "ds \<le> ds'" "ms \<le> ms'" "ms \<le> ds" "ds \<le> now"
proof -
  obtain y m k where d: "local_date now = (y, m, k)" by (metis prod_cases3)
  obtain y' m' k' where d': "local_date now' = (y', m', k')" by (metis prod_cases3)
  have w: "ds = local_day now * DAY - SAST" "ms = (local_day now - (k - 1)) * DAY - SAST"
    "ds' = local_day now' * DAY - SAST" "ms' = (local_day now' - (k' - 1)) * DAY - SAST"
    using window_starts_eq [OF d] window_starts_eq [OF d'] assms(3,4) by simp_all
  have n': "0 \<le> now'" using assms(1,2) by simp
  note f = month_first_day [OF assms(1) d] and f' = month_first_day [OF n' d']
  show "ds \<le> ds'" using local_day_mono [OF assms(2)] DAY_pos unfolding w by simp
  show md: "ms \<le> ds" using f(2) DAY_pos by (simp add: w left_diff_distrib)
  show dn: "ds \<le> now" by (simp add: w(1) day_reached)
  show "ms \<le> ms'"
  proof (cases "ms' \<le> now")
    case True
    then have "local_day now' - (k' - 1) \<le> local_day now" by (simp add: w(4) day_reached)
    then have "\<exists>j. local_date now = (y', m', j)"
      using same_month [OF local_day_nonneg [OF n'] local_day_nonneg [OF assms(1)] local_day_mono [OF assms(2)]
          d' [unfolded local_date_def]] by (simp add: local_date_def)
    then have "y = y'" "m = m'" using d by auto
    then have "ms = ms'" using f(1) f'(1) by (simp add: w)
    then show ?thesis by simp
  next
    case False
    then show ?thesis using md dn by simp
  qed
qed

section \<open>Steps that use no headroom\<close>

text \<open>
  Row by row: who sent it, how much and when stay, and a row that holds headroom after held it
  before.
\<close>

definition no_new_claim :: "instant \<Rightarrow> remittance \<Rightarrow> remittance \<Rightarrow> bool" where
  "no_new_claim now r r' \<longleftrightarrow>
     rem_id r' = rem_id r \<and> rem_sender_id r' = rem_sender_id r \<and> rem_created_at r' = rem_created_at r \<and>
     rem_zar_send_amount r' = rem_zar_send_amount r \<and> (holds_headroom now r' \<longrightarrow> holds_headroom now r)"

definition uses_no_headroom :: "instant \<Rightarrow> db \<Rightarrow> db \<Rightarrow> bool" where
  "uses_no_headroom now d d' \<longleftrightarrow>
     list_all2 (no_new_claim now) (remittances d) (remittances d') \<and> next_id d \<le> next_id d'"

lemma no_new_claim_refl [simp]: "no_new_claim now r r"
  by (simp add: no_new_claim_def)

lemma no_new_claim_trans: "no_new_claim now a b \<Longrightarrow> no_new_claim now b c \<Longrightarrow> no_new_claim now a c"
  by (simp add: no_new_claim_def)

lemma uses_no_headroom_same: "remittances d' = remittances d \<Longrightarrow> next_id d \<le> next_id d' \<Longrightarrow> uses_no_headroom now d d'"
  by (simp add: uses_no_headroom_def list.rel_refl)

lemma uses_no_headroom_trans: "uses_no_headroom now d d1 \<Longrightarrow> uses_no_headroom now d1 d2 \<Longrightarrow> uses_no_headroom now d d2"
  using list_all2_trans [of "no_new_claim now" "no_new_claim now" "no_new_claim now"] no_new_claim_trans
  unfolding uses_no_headroom_def by (meson order_trans)

lemma uses_no_headroom_put:
  assumes "\<And>r. r \<in> set (remittances d) \<Longrightarrow> rem_id r = k \<Longrightarrow> no_new_claim now r (f r)"
  shows "uses_no_headroom now d (put_remittance k f d)"
  using assms
  by (simp add: uses_no_headroom_def put_remittance_def put_by_def update_where_def list.rel_map list_all2_same)

lemma total_no_new_claim:
  assumes "list_all2 (no_new_claim now) rs rs'" "\<forall>r \<in> set rs. 0 \<le> rem_zar_send_amount r"
  shows "(\<Sum>r \<leftarrow> filter (\<lambda>r. rem_sender_id r = u \<and> since \<le> rem_created_at r \<and> holds_headroom now r) rs'. rem_zar_send_amount r)
    \<le> (\<Sum>r \<leftarrow> filter (\<lambda>r. rem_sender_id r = u \<and> since \<le> rem_created_at r \<and> holds_headroom now r) rs. rem_zar_send_amount r)"
  using assms
proof (induction rule: list_all2_induct)
  case (Cons r rs r' rs')
  then show ?case by (auto simp: no_new_claim_def)
qed simp

lemma uses_no_headroom_total:
  "uses_no_headroom now d d' \<Longrightarrow> rows_ok d \<Longrightarrow> total_since u now since d' \<le> total_since u now since d"
  unfolding uses_no_headroom_def total_since_def rows_ok_def by (intro total_no_new_claim) auto

lemma uses_no_headroom_rows: "uses_no_headroom now d d' \<Longrightarrow> rows_ok d \<Longrightarrow> rows_ok d'"
  unfolding uses_no_headroom_def rows_ok_def list_all2_conv_all_nth no_new_claim_def
  by (metis in_set_conv_nth)

lemma uses_no_headroom_ids:
  assumes "uses_no_headroom now d d'" "fresh_ids rem_id (next_id d) (remittances d)"
  shows "fresh_ids rem_id (next_id d') (remittances d')"
proof -
  have "map rem_id (remittances d') = map rem_id (remittances d)"
    using assms(1) unfolding uses_no_headroom_def no_new_claim_def by (auto simp: list_all2_conv_all_nth intro: nth_equalityI)
  then show ?thesis using assms by (auto simp: fresh_ids_def uses_no_headroom_def)
qed

text \<open>Time alone only frees headroom.\<close>

lemma holds_headroom_later: "now \<le> now' \<Longrightarrow> holds_headroom now' r \<Longrightarrow> holds_headroom now r"
  by (auto simp: holds_headroom_def split: option.splits)

lemma total_later:
  "rows_ok d \<Longrightarrow> now \<le> now' \<Longrightarrow> since \<le> since' \<Longrightarrow> total_since u now' since' d \<le> total_since u now since d"
  unfolding total_since_def
  by (intro sum_list_filter_mono) (auto simp: rows_ok_def holds_headroom_later)

section \<open>The operations\<close>

text \<open>The ledger writes no remittance, and no row of an account.\<close>

definition ledger_write :: "db \<Rightarrow> db \<Rightarrow> bool" where
  "ledger_write d d' \<longleftrightarrow> remittances d' = remittances d \<and> next_id d \<le> next_id d' \<and> users d' = users d \<and>
     kyc_applications d' = kyc_applications d \<and> beneficiaries d' = beneficiaries d"

lemma ledger_write_trans: "ledger_write d d1 \<Longrightarrow> ledger_write d1 d2 \<Longrightarrow> ledger_write d d2"
  by (simp add: ledger_write_def)

lemma wallet_for_write: "wallet_for u now d = Inr (w, d') \<Longrightarrow> ledger_write d d'"
  by (auto simp: wallet_for_def wallet_for_raced_def insert_or_reselect_def insert_wallet_def Let_def ledger_write_def
      split: option.splits sum.splits if_splits)

lemma write_entry_write: "write_entry w dir code a rid h st why now d = Inr (e, d') \<Longrightarrow> ledger_write d d'"
  by (auto simp: write_entry_def insert_entry_def Let_def ebind_eq_Inr ledger_write_def split: if_splits)

lemma record_external_write: "record_external s w dir cur a rid h st why now d = Inr (e, d') \<Longrightarrow> ledger_write d d'"
  by (auto simp: record_external_def ebind_eq_Inr dest: write_entry_write)

lemma locked_balance_row_write: "locked_balance_row w code now d = Inr (r, d') \<Longrightarrow> ledger_write d d'"
  by (auto simp: locked_balance_row_def locked_balance_row_raced_def insert_or_reselect_def insert_balance_def Let_def
      ledger_write_def split: option.splits sum.splits if_splits)

lemma save_balance_write: "save_balance b a now d = Inr d' \<Longrightarrow> ledger_write d d'"
  by (auto simp: save_balance_def ebind_eq_Inr ledger_write_def)

lemma move_balance_write: "move_balance s w dir cur a rid h now d = Inr (e, d') \<Longrightarrow> ledger_write d d'"
  unfolding move_balance_def
  by (auto simp: ebind_eq_Inr dest!: locked_balance_row_write save_balance_write write_entry_write
      intro: ledger_write_trans)

lemma credit_write: "credit s w cur a rid h now d = Inr (e, d') \<Longrightarrow> ledger_write d d'"
  unfolding credit_def by (rule move_balance_write)

lemma debit_write: "debit s w cur a rid h now d = Inr (e, d') \<Longrightarrow> ledger_write d d'"
  unfolding debit_def by (rule move_balance_write)

lemma ledger_write_headroom: "ledger_write d d' \<Longrightarrow> uses_no_headroom now d d'"
  by (simp add: ledger_write_def uses_no_headroom_same)

text \<open>Writing the status of a row that holds headroom, or to a status that holds none.\<close>

lemma status_write_headroom:
  assumes "fresh_ids rem_id n (remittances d)" "get_remittance k d = Some r" "holds_headroom now r"
    "\<And>x. rem_id (f x) = rem_id x \<and> rem_sender_id (f x) = rem_sender_id x \<and> rem_created_at (f x) = rem_created_at x \<and>
       rem_zar_send_amount (f x) = rem_zar_send_amount x"
  shows "uses_no_headroom now d (put_remittance k f d)"
proof (rule uses_no_headroom_put)
  fix x assume x: "x \<in> set (remittances d)" "rem_id x = k"
  have "get_remittance k d = Some x"
    using fresh_ids_get_by [OF assms(1) x(1)] unfolding get_remittance_def x(2) .
  then have "x = r" using assms(2) by simp
  then show "no_new_claim now x (f x)" using assms(3,4) by (simp add: no_new_claim_def)
qed

lemma simulate_cash_in_headroom:
  assumes "simulate_cash_in r meth now d = Inr (b, d')" "get_remittance (rem_id r) d = Some r"
    "fresh_ids rem_id n (remittances d)"
  shows "uses_no_headroom now d d'"
proof (cases b)
  case True
  then have st: "rem_status r = QUOTED" "\<not> is_quote_expired r now"
    and d': "\<exists>m. d' = put_remittance (rem_id r) (\<lambda>x. x\<lparr>rem_cash_in_method := Some m,
               rem_status := CASH_IN_CONFIRMED, rem_cash_in_confirmed_at := Some now, rem_quote_expires_at := None\<rparr>) d"
    using assms(1) by (auto simp: simulate_cash_in_def Let_def ebind_eq_Inr split: if_splits)
  have "holds_headroom now r"
    using st by (auto simp: holds_headroom_def is_quote_expired_def LIMIT_CONSUMING_STATUSES_def split: option.splits)
  then show ?thesis using d' by (auto intro!: status_write_headroom [OF assms(3,2)])
next
  case False
  then have "d' = d" using assms(1) by (auto simp: simulate_cash_in_def Let_def ebind_eq_Inr split: if_splits)
  then show ?thesis by (simp add: uses_no_headroom_same)
qed

text \<open>Every status after the cash-in holds headroom, whatever the clock.\<close>

lemma paid_holds_headroom:
  "rem_status r \<in> {CASH_IN_CONFIRMED, QUEUED, SETTLING} \<Longrightarrow> holds_headroom now r"
  by (auto simp: holds_headroom_def LIMIT_CONSUMING_STATUSES_def)

lemma queue_headroom:
  assumes "queue_for_settlement pub r d q = (Inr (e, d'), q')" "get_remittance (rem_id r) d = Some r"
    "fresh_ids rem_id n (remittances d)"
  shows "uses_no_headroom now d d'"
proof -
  have "rem_status r \<in> {CASH_IN_CONFIRMED, QUEUED, SETTLING}"
    "d' = put_remittance (rem_id r) (\<lambda>x. x\<lparr>rem_status := QUEUED\<rparr>) d"
    using assms(1) by (auto simp: queue_for_settlement_def split: if_splits prod.splits sum.splits)
  then show ?thesis using status_write_headroom [OF assms(3,2) paid_holds_headroom] by simp
qed

lemma failed_holds_headroom:
  "rem_status r = FAILED \<Longrightarrow> rem_cash_in_confirmed_at r \<noteq> None \<Longrightarrow> holds_headroom now r"
  by (simp add: holds_headroom_def LIMIT_CONSUMING_STATUSES_def)

lemma requeue_headroom:
  assumes "requeue_failed_remittance r d = Inr d'" "get_remittance (rem_id r) d = Some r"
    "fresh_ids rem_id n (remittances d)"
  shows "uses_no_headroom now d d'"
proof -
  have "rem_status r = FAILED" "rem_cash_in_confirmed_at r \<noteq> None"
    "d' = put_remittance (rem_id r) (\<lambda>x. x\<lparr>rem_status := CASH_IN_CONFIRMED\<rparr>) d"
    using assms(1) by (auto simp: requeue_failed_remittance_def ebind_eq_Inr split: if_splits)
  then show ?thesis using status_write_headroom [OF assms(3,2) failed_holds_headroom] by simp
qed

lemma refund_headroom:
  assumes "refund_failed_remittance s r now d = Inr d'" "get_remittance (rem_id r) d = Some r"
    "fresh_ids rem_id n (remittances d)"
  shows "uses_no_headroom t d d'"
proof -
  obtain sender :: user and w d1 e d2 where st: "rem_status r = FAILED" "rem_cash_in_confirmed_at r \<noteq> None"
    and w: "wallet_for (usr_id sender) now d = Inr (w, d1)"
    and rec: "record_external s (wal_id w) INCOMING SEND_CURRENCY (rem_zar_send_amount r)
                 (Some (rem_id r)) None ENTRY_SUCCESS None now d1 = Inr (e, d2)"
    and d': "d' = put_remittance (rem_id r) (\<lambda>x. x\<lparr>rem_status := REFUNDED\<rparr>) d2"
    using assms(1) by (auto simp: refund_failed_remittance_def ebind_eq_Inr split: if_splits)
  have lw: "ledger_write d d2" using wallet_for_write [OF w] record_external_write [OF rec] by (rule ledger_write_trans)
  then have "get_remittance (rem_id r) d2 = Some r" "fresh_ids rem_id n (remittances d2)"
    using assms(2,3) by (simp_all add: ledger_write_def get_remittance_def)
  then have "uses_no_headroom t d2 d'" using status_write_headroom [OF _ _ failed_holds_headroom] st by (simp add: d')
  with ledger_write_headroom [OF lw] show ?thesis by (rule uses_no_headroom_trans)
qed

text \<open>The worker's writes to a row it has claimed.\<close>

lemma claimed_write:
  assumes "ledger_write d d2" "get_remittance k d = Some r" "rem_status r = SETTLING" "fresh_ids rem_id n (remittances d)"
    "\<And>x. rem_id (f x) = rem_id x \<and> rem_sender_id (f x) = rem_sender_id x \<and> rem_created_at (f x) = rem_created_at x \<and>
       rem_zar_send_amount (f x) = rem_zar_send_amount x"
  shows "uses_no_headroom now d (put_remittance k f d2)"
proof -
  have "get_remittance k d2 = Some r" "fresh_ids rem_id n (remittances d2)"
    using assms(1,2,4) by (simp_all add: ledger_write_def get_remittance_def)
  then have "uses_no_headroom now d2 (put_remittance k f d2)"
    using status_write_headroom [OF _ _ paid_holds_headroom assms(5)] assms(3) by simp
  with ledger_write_headroom [OF assms(1)] show ?thesis by (rule uses_no_headroom_trans)
qed

lemma record_success_headroom:
  assumes "record_success s r uid h now d = (res, d')" "get_remittance (rem_id r) d = Some r0" "rem_status r0 = SETTLING"
    "fresh_ids rem_id n (remittances d)"
  shows "uses_no_headroom t d d'"
proof (cases "success_writes s r uid h now d")
  case (Inl e)
  then show ?thesis using assms(1) by (simp add: record_success_def uses_no_headroom_same)
next
  case (Inr d3)
  obtain w d1 e d2 d5 where w: "wallet_for uid now d = Inr (w, d1)"
    and cr: "credit s (wal_id w) SETTLEMENT_CURRENCY (rem_uctusd_amount r) (Some (rem_id r)) (Some h) now d1 = Inr (e, d2)"
    and ext: "(case get_user (rem_sender_id r) d2 of None \<Rightarrow> Inr d2
            | Some sender \<Rightarrow>
                ebind (wallet_for (usr_id sender) now d2) (\<lambda>(w', d3).
                ebind (record_external s (wal_id w') OUTGOING SEND_CURRENCY (rem_zar_send_amount r)
                         (Some (rem_id r)) (Some h) ENTRY_SUCCESS None now d3) (\<lambda>(e', d4). Inr d4))) = Inr d5"
    and d3: "d3 = (put_remittance (rem_id r) (\<lambda>x. x\<lparr>rem_status := SETTLED, rem_xrpl_tx_hash := Some h,
            rem_settled_at := Some now, rem_treasury_batch_id := Some (to_hex 32 (next_id d5)),
            rem_treasury_settled_at := Some now\<rparr>) d5)\<lparr>next_id := Suc (next_id d5)\<rparr>"
    using Inr by (auto simp: success_writes_def ebind_eq_Inr)
  have "ledger_write d2 d5"
    using ext by (auto simp: ebind_eq_Inr ledger_write_def split: option.splits
        dest!: wallet_for_write record_external_write)
  then have "ledger_write d d5"
    using wallet_for_write [OF w] credit_write [OF cr] by (blast intro: ledger_write_trans)
  from claimed_write [OF this assms(2-4)]
  have "uses_no_headroom t d (d3\<lparr>next_id := next_id d5\<rparr>)" by (simp add: d3 put_remittance_def)
  moreover have "uses_no_headroom t (d3\<lparr>next_id := next_id d5\<rparr>) d3" by (rule uses_no_headroom_same) (simp_all add: d3)
  ultimately have "uses_no_headroom t d d3" by (rule uses_no_headroom_trans)
  then show ?thesis using assms(1) Inr by (simp add: record_success_def)
qed

lemma fail_settlement_headroom:
  assumes "fail_settlement s k reason who now d = (res, d')" "get_remittance k d = Some r" "rem_status r = SETTLING"
    "fresh_ids rem_id n (remittances d)"
  shows "uses_no_headroom t d d'"
proof -
  let ?d1 = "put_remittance k (\<lambda>x. x\<lparr>rem_status := FAILED\<rparr>) d"
  have put: "uses_no_headroom t d ?d1"
    by (rule claimed_write [OF _ assms(2-4)]) (simp_all add: ledger_write_def)
  have later: "uses_no_headroom t d d2" if "ledger_write ?d1 d2" for d2
    using put ledger_write_headroom [OF that] by (rule uses_no_headroom_trans)
  have "uses_no_headroom t d d2" if "failure_writes s k reason who now d = Inr d2" for d2
    using that put assms(2)
    by (auto simp: failure_writes_def Let_def ebind_eq_Inr split: option.splits
        dest!: wallet_for_write record_external_write intro: later ledger_write_trans)
  then show ?thesis
    using assms(1) put by (auto simp: fail_settlement_def uses_no_headroom_same split: sum.splits if_splits)
qed

lemma settle_claimed_headroom:
  assumes "settle_claimed lib s svc r now d x = ((res, d'), x')" "get_remittance (rem_id r) d = Some r"
    "rem_status r = SETTLING" "fresh_ids rem_id n (remittances d)"
  shows "uses_no_headroom t d d'"
  using assms(1) fail_settlement_headroom [OF _ assms(2-4)] record_success_headroom [OF _ assms(2-4)]
  by (auto simp: settle_claimed_def split: sum.splits prod.splits)

lemma claim_headroom: "uses_no_headroom t d (snd (claim k reclaimed d))"
proof -
  have "no_new_claim t x (if rem_status x \<in> set (claimable_states reclaimed) then x\<lparr>rem_status := SETTLING\<rparr> else x)" for x
    using paid_holds_headroom [of x t]
    by (auto simp: no_new_claim_def claimable_states_def RECLAIMABLE_def CLAIMABLE_def split: if_splits)
  then show ?thesis unfolding claim_put by (intro uses_no_headroom_put)
qed

lemma settle_headroom:
  assumes "settle lib s svc m reclaimed now d x = ((res, d'), x')" "fresh_ids rem_id (next_id d) (remittances d)"
  shows "uses_no_headroom t d d'"
proof (cases "message_remittance_id m")
  case None
  then show ?thesis using assms(1) by (simp add: settle_def uses_no_headroom_same)
next
  case (Some k)
  obtain won d1 where cl: "claim k reclaimed d = (won, d1)" by fastforce
  have h: "uses_no_headroom t d d1" using claim_headroom [of t d k reclaimed] by (simp add: cl)
  have ids: "fresh_ids rem_id (next_id d1) (remittances d1)" by (rule uses_no_headroom_ids [OF h assms(2)])
  show ?thesis
  proof (cases "won \<and> get_remittance k d1 \<noteq> None")
    case True
    then obtain r where r: "get_remittance k d1 = Some r" by blast
    have "d1 = put_remittance k (\<lambda>x. if rem_status x \<in> set (claimable_states reclaimed) then x\<lparr>rem_status := SETTLING\<rparr> else x) d"
      using claim_put [of k reclaimed d] by (simp add: cl)
    moreover obtain r0 where "get_remittance k d = Some r0" "rem_status r0 \<in> set (claimable_states reclaimed)"
      using claim_wins [of d k reclaimed] True cl assms(2) by (auto simp: fresh_ids_def)
    ultimately have st: "rem_status r = SETTLING" using r by (auto simp: rem_store.get_put)
    have k: "rem_id r = k" using r by (rule rem_store.get_key)
    have "settle_claimed lib s svc r now d1 x = ((res, d'), x')"
      using assms(1) Some True r by (simp add: settle_def cl)
    from settle_claimed_headroom [OF this _ st ids] r k have "uses_no_headroom t d1 d'" by simp
    with h show ?thesis by (rule uses_no_headroom_trans)
  next
    case False
    then have "d' = d1" using assms(1) Some by (auto simp: settle_def cl split: bool.splits option.splits)
    then show ?thesis using h by simp
  qed
qed

section \<open>Histories\<close>

text \<open>
  A state is the database and the latest clock reading. Every step is a committed transaction; the
  quote endpoint's first checks may have run on any earlier database \<open>d0\<close>.
\<close>

inductive limit_step ::
  "settings \<Rightarrow> 'n fx_lib \<Rightarrow> 'x xrpl_lib \<Rightarrow> (string \<Rightarrow> uuid \<Rightarrow> 'r \<Rightarrow> (redis_error + string) \<times> 'r) \<Rightarrow>
   db \<times> instant \<Rightarrow> db \<times> instant \<Rightarrow> bool"
  for s :: settings and lib :: "'n fx_lib" and xlib :: "'x xrpl_lib"
    and pub :: "string \<Rightarrow> uuid \<Rightarrow> 'r \<Rightarrow> (redis_error + string) \<times> 'r" where
  quoted: "require_kyc_approved u = Inr u \<Longrightarrow>
    create_quote_raced lib s u bid zar key now written d0 d st = ((Inr resp, d'), st') \<Longrightarrow>
    0 \<le> now \<Longrightarrow> now \<le> written \<Longrightarrow> written \<le> t' \<Longrightarrow> t \<le> t' \<Longrightarrow> limit_step s lib xlib pub (d, t) (d', t')"
| paid_in: "get_remittance (rem_id r) d = Some r \<Longrightarrow> simulate_cash_in r meth now d = Inr (b, d') \<Longrightarrow>
    t \<le> now \<Longrightarrow> limit_step s lib xlib pub (d, t) (d', now)"
| queued: "get_remittance (rem_id r) d = Some r \<Longrightarrow> queue_for_settlement pub r d q = (Inr (entry, d'), q') \<Longrightarrow>
    t \<le> t' \<Longrightarrow> limit_step s lib xlib pub (d, t) (d', t')"
| settled: "settle xlib s svc m reclaimed now d x = ((res, d'), x') \<Longrightarrow> t \<le> t' \<Longrightarrow>
    limit_step s lib xlib pub (d, t) (d', t')"
| requeued: "get_remittance (rem_id r) d = Some r \<Longrightarrow> requeue_failed_remittance r d = Inr d' \<Longrightarrow> t \<le> t' \<Longrightarrow>
    limit_step s lib xlib pub (d, t) (d', t')"
| refunded: "get_remittance (rem_id r) d = Some r \<Longrightarrow> refund_failed_remittance s r now d = Inr d' \<Longrightarrow> t \<le> t' \<Longrightarrow>
    limit_step s lib xlib pub (d, t) (d', t')"
| other: "remittances d' = remittances d \<Longrightarrow> next_id d \<le> next_id d' \<Longrightarrow> t \<le> t' \<Longrightarrow>
    limit_step s lib xlib pub (d, t) (d', t')"

definition in_limits :: "settings \<Rightarrow> instant \<Rightarrow> db \<Rightarrow> uuid \<Rightarrow> bool" where
  "in_limits s t d uid \<longleftrightarrow>
     (case window_starts t of (ds, ms) \<Rightarrow>
        total_since uid t ds d \<le> verified_daily_limit s \<and> total_since uid t ms d \<le> verified_monthly_limit s)"

definition limit_inv :: "settings \<Rightarrow> db \<times> instant \<Rightarrow> bool" where
  "limit_inv s y \<longleftrightarrow>
     (case y of (d, t) \<Rightarrow> 0 \<le> t \<and> rows_ok d \<and> fresh_ids rem_id (next_id d) (remittances d) \<and> (\<forall>uid. in_limits s t d uid))"

lemma in_limits_later: "rows_ok d \<Longrightarrow> 0 \<le> t \<Longrightarrow> t \<le> t' \<Longrightarrow> in_limits s t d uid \<Longrightarrow> in_limits s t' d uid"
proof -
  assume h: "rows_ok d" "0 \<le> t" "t \<le> t'" "in_limits s t d uid"
  obtain ds ms ds' ms' where w: "window_starts t = (ds, ms)" "window_starts t' = (ds', ms')" by (meson surj_pair)
  note m = window_starts_mono [OF h(2,3) w]
  show ?thesis
    using h(4) total_later [OF h(1,3) m(1), of uid] total_later [OF h(1,3) m(2), of uid]
    by (simp add: in_limits_def w)
qed

lemma limit_inv_no_headroom:
  assumes "limit_inv s (d, t)" "t \<le> t'" "uses_no_headroom t' d d'"
  shows "limit_inv s (d', t')"
proof -
  have inv: "0 \<le> t" "rows_ok d" "fresh_ids rem_id (next_id d) (remittances d)" "\<And>uid. in_limits s t d uid"
    using assms(1) by (simp_all add: limit_inv_def)
  have "in_limits s t' d' uid" for uid
  proof -
    obtain ds ms where w: "window_starts t' = (ds, ms)" by fastforce
    have "in_limits s t' d uid" using in_limits_later [OF inv(2,1) assms(2) inv(4)] .
    then show ?thesis
      using uses_no_headroom_total [OF assms(3) inv(2), of uid ds] uses_no_headroom_total [OF assms(3) inv(2), of uid ms]
      by (simp add: in_limits_def w)
  qed
  then show ?thesis
    using inv assms(2) uses_no_headroom_rows [OF assms(3) inv(2)] uses_no_headroom_ids [OF assms(3) inv(3)]
    by (auto simp: limit_inv_def)
qed

lemma fiat_nonneg: "fiat x = Inr y \<Longrightarrow> 0 \<le> x \<Longrightarrow> 0 \<le> y"
  unfolding fiat_def by (rule half_up.quantize_nonneg)

lemma quoted_amount: "calculate_quote s zar rate cur = Inr q \<Longrightarrow> 0 \<le> q_zar_send_amount q"
  by (auto simp: calculate_quote_def ebind_eq_Inr intro: fiat_nonneg split: if_splits)

lemma quote_keeps_limits:
  assumes "require_kyc_approved u = Inr u"
    "create_quote_raced lib s u bid zar key now written d0 d st = ((Inr resp, d'), st')"
    "0 \<le> now" "now \<le> written" "written \<le> t'" "t \<le> t'" "limit_settings_ok s" "limit_inv s (d, t)"
  shows "limit_inv s (d', t')"
proof -
  have inv: "0 \<le> t" "rows_ok d" "fresh_ids rem_id (next_id d) (remittances d)" "\<And>uid. in_limits s t d uid"
    using assms(8) by (simp_all add: limit_inv_def)
  obtain b rate cur q r usage where q: "calculate_quote s zar rate cur = Inr q"
    and ins: "insert_remittance (new_remittance s key u b q now written) d = Inr (r, d')"
    and chk: "assert_within_limits s u 0 now d' = Inr usage"
    using create_quote_Inr [OF assms(2)] by auto
  note row = insert_remittance_Inr [OF ins, unfolded new_remittance_def remittance.simps]
  have "scaled 2 (rem_zar_send_amount r)" "0 \<le> rem_zar_send_amount r"
    using numeric_col_scaled [OF row(11)] numeric_col_nonneg [OF row(11) quoted_amount [OF q]] by simp_all
  then have rows: "rows_ok d'" using inv(2) by (simp add: rows_ok_def row(1))
  have ids: "fresh_ids rem_id (next_id d') (remittances d')" using inv(3) row(1,2) by simp
  have "in_limits s t' d' uid" for uid
  proof (cases "uid = usr_id u")
    case True
    obtain ds ms where w: "window_starts now = (ds, ms)" by fastforce
    have "limits_for s (usr_kyc_status u) = (verified_daily_limit s, verified_monthly_limit s)"
      using assms(1) by (auto simp: require_kyc_approved_def limits_for_def split: if_splits)
    from limit_check_eq [OF rows assms(7) scaled_0 order_refl w this]
    have "in_limits s now d' (usr_id u)" using chk by (auto simp: Let_def in_limits_def w split: if_splits)
    then show ?thesis using in_limits_later [OF rows assms(3)] assms(4,5) True by simp
  next
    case False
    then have "total_since uid t' since d' = total_since uid t' since d" for since
      by (simp add: total_since_def row(1,5))
    then show ?thesis using in_limits_later [OF inv(2,1) assms(6) inv(4), of uid] by (simp add: in_limits_def)
  qed
  then show ?thesis using rows ids inv(1) assms(6) by (auto simp: limit_inv_def)
qed

lemma limit_step_inv: "limit_step s lib xlib pub y y' \<Longrightarrow> limit_settings_ok s \<Longrightarrow> limit_inv s y \<Longrightarrow> limit_inv s y'"
proof (induction rule: limit_step.induct)
  case (quoted u bid zar key now written d0 d st resp d' st' t' t)
  show ?case by (rule quote_keeps_limits [OF quoted])
next
  case (paid_in r d meth now b d' t)
  then have ids: "fresh_ids rem_id (next_id d) (remittances d)" by (simp add: limit_inv_def)
  show ?case by (rule limit_inv_no_headroom [OF paid_in(5,3) simulate_cash_in_headroom [OF paid_in(2,1) ids]])
next
  case (queued r d q entry d' q' t t')
  then have ids: "fresh_ids rem_id (next_id d) (remittances d)" by (simp add: limit_inv_def)
  show ?case by (rule limit_inv_no_headroom [OF queued(5,3) queue_headroom [OF queued(2,1) ids]])
next
  case (settled svc m reclaimed now d x res d' x' t t')
  then have ids: "fresh_ids rem_id (next_id d) (remittances d)" by (simp add: limit_inv_def)
  show ?case by (rule limit_inv_no_headroom [OF settled(4,2) settle_headroom [OF settled(1) ids]])
next
  case (requeued r d d' t t')
  then have ids: "fresh_ids rem_id (next_id d) (remittances d)" by (simp add: limit_inv_def)
  show ?case by (rule limit_inv_no_headroom [OF requeued(5,3) requeue_headroom [OF requeued(2,1) ids]])
next
  case (refunded r d now d' t t')
  then have ids: "fresh_ids rem_id (next_id d) (remittances d)" by (simp add: limit_inv_def)
  show ?case by (rule limit_inv_no_headroom [OF refunded(5,3) refund_headroom [OF refunded(2,1) ids]])
next
  case (other d' d t t')
  then show ?case using uses_no_headroom_same limit_inv_no_headroom [OF other(5,3)] by blast
qed

interpretation limit_run: transition_invariant "limit_step s lib xlib pub" "\<lambda>y. limit_settings_ok s \<and> limit_inv s y"
  by unfold_locales (blast intro: limit_step_inv)

text \<open>
  C30. No sender ever exceeds a limit. Start with no remittances and let quotes of approved
  senders, cash-ins, publications, settlements (their failures included), retries, refunds and
  transactions on other tables commit in any order, the clock never going back, with each quote's
  first checks made on any earlier database: at every moment the rand a sender has in the current
  South African day is at most the daily limit, and in the current month at most the monthly one.
\<close>

theorem limits_hold_over_time:
  assumes "limit_settings_ok s" "(limit_step s lib xlib pub)\<^sup>*\<^sup>* (d0, t0) (d, t)" "remittances d0 = []" "0 \<le> t0"
    "window_starts t = (day_start, month_start)"
  shows "total_since uid t day_start d \<le> verified_daily_limit s \<and>
    total_since uid t month_start d \<le> verified_monthly_limit s"
proof -
  have "0 \<le> verified_daily_limit s" "0 \<le> verified_monthly_limit s"
    using assms(1) by (simp_all add: limit_settings_ok_def)
  then have "in_limits s t0 d0 uid" for uid
    using assms(3) by (simp add: in_limits_def total_since_def split: prod.splits)
  then have "limit_inv s (d0, t0)" using assms(3,4) by (auto simp: limit_inv_def rows_ok_def)
  then have "limit_inv s (d, t)" using limit_run.run_inv [OF assms(2)] assms(1) by blast
  then show ?thesis using assms(5) by (simp add: limit_inv_def in_limits_def)
qed

theorem limits_hold_over_time_witness:
  "\<exists>d. (limit_step api_settings demo_fx demo_lib (\<lambda>key k (n :: nat). (Inr [], n)))\<^sup>*\<^sup>* (demo_db, 0) (d, 60) \<and>
     remittances d = [demo_row_quoted] \<and> total_since 1 60 (fst (window_starts 60)) d \<le> 3000"
proof -
  let ?pub = "\<lambda>key k (n :: nat). (Inr [] :: redis_error + string, n)"
  let ?d = "demo_db\<lparr>remittances := [demo_row_quoted], next_id := 11\<rparr>"
  obtain resp st where run: "create_quote_raced demo_fx api_settings (demo_user 1 ''ann@x.org'') 3 1000 demo_quote_key 50 60
      demo_db demo_db (Map.empty, 0) = ((Inr resp, ?d), st)"
    using demo_create_quote by blast
  have "require_kyc_approved (demo_user 1 ''ann@x.org'') = Inr (demo_user 1 ''ann@x.org'')"
    by (simp add: require_kyc_approved_def demo_user_def)
  then have step: "(limit_step api_settings demo_fx demo_lib ?pub)\<^sup>*\<^sup>* (demo_db, 0) (?d, 60)"
    by (intro r_into_rtranclp limit_step.quoted [OF _ run]) simp_all
  have none: "remittances demo_db = []" by (simp add: demo_db_def empty_db_def)
  have "verified_daily_limit api_settings = 3000"
    by (simp add: api_settings_def demo_settings_def default_settings_def)
  then show ?thesis
    using limits_hold_over_time [OF api_settings_facts(2) step none order_refl, of "fst (window_starts 60)" "snd (window_starts 60)" 1] step
    by (intro exI [of _ ?d]) simp
qed

end
