(* ===== verification/WalletApi.thy ===== *)
theory WalletApi
  imports RemittanceApi
begin

text \<open>
  The recipient's endpoints, \<open>app/routers/wallet.py\<close>, and the administrator's endpoints for money,
  the second half of \<open>app/routers/admin.py\<close>. Each is the service operation of \<open>CashIO\<close> behind
  its lookups, with its exceptions turned into status codes and its commits in place.
\<close>

section \<open>The recipient\<close>

definition MAX_CASH_OUT_UCTUSD :: decimal where
  "MAX_CASH_OUT_UCTUSD = 10 ^ 12"

text \<open>\<open>CashOutRequest\<close>.\<close>

definition parse_cash_out_request :: "settings \<Rightarrow> decimal \<Rightarrow> string \<Rightarrow> exc + decimal \<times> string" where
  "parse_cash_out_request s uctusd currency =
     (let normalised = py_upper (py_strip currency)
      in if 0 < uctusd \<and> uctusd \<le> MAX_CASH_OUT_UCTUSD \<and> uctusd < 10 ^ 12 \<and> scaled 6 uctusd \<and>
            normalised \<in> set (payout_currencies s)
         then Inr (uctusd, normalised) else Inl (HTTPException 422))"

text \<open>The wallet is committed before the balances are read.\<close>

definition get_balance :: "settings \<Rightarrow> user \<Rightarrow> instant \<Rightarrow> db \<Rightarrow> (exc + decimal \<times> (string \<times> decimal) list) \<times> db" where
  "get_balance s u now d =
     (case wallet_for (usr_id u) now d of
        Inl e \<Rightarrow> (Inl e, d)
      | Inr (w, d1) \<Rightarrow>
          (ebind (balance s (wal_id w) ''UCTUSD'' d1) (\<lambda>b. Inr (b, balances s (wal_id w) d1)), d1))"

definition get_wallet_transactions :: "user \<Rightarrow> instant \<Rightarrow> db \<Rightarrow> (exc + wallet_transaction list) \<times> db" where
  "get_wallet_transactions u now d =
     (case wallet_for (usr_id u) now d of
        Inl e \<Rightarrow> (Inl e, d)
      | Inr (w, d1) \<Rightarrow>
          (Inr (sort_key (\<lambda>e. - wtx_created_at e)
                  (filter (\<lambda>e. wtx_wallet_id e = wal_id w) (wallet_transactions d1))), d1))"

definition cash_out_refused :: "exc \<Rightarrow> nat option" where
  "cash_out_refused e =
     (if e = InsufficientFundsError then Some 400
      else if e = AmountTooSmallError \<or> e = UnsupportedPayoutCurrencyError \<or> e = InvalidOperation then Some 422
      else None)"

definition request_cash_out_endpoint ::
  "'n fx_lib \<Rightarrow> settings \<Rightarrow> user \<Rightarrow> decimal \<Rightarrow> string \<Rightarrow> string option \<Rightarrow> instant \<Rightarrow> db \<Rightarrow> fx_cache \<times> 'n \<Rightarrow>
   ((exc + cash_out) \<times> db) \<times> fx_cache \<times> 'n" where
  "request_cash_out_endpoint lib s u uctusd currency key now d st =
     (case current_rate lib s now d st of
        (Inl e, st') \<Rightarrow> ((Inl e, d), st')
      | (Inr rate, st') \<Rightarrow>
          (commit_or_keep d
            (http_of cash_out_refused (request_cash_out s (usr_id u) uctusd currency rate key now d)), st'))"

definition list_own_cash_outs :: "user \<Rightarrow> db \<Rightarrow> cash_out list" where
  "list_own_cash_outs u d =
     sort_key (\<lambda>c. - co_requested_at c) (filter (\<lambda>c. co_user_id c = usr_id u) (cash_outs d))"

definition get_own_cash_out :: "user \<Rightarrow> uuid \<Rightarrow> db \<Rightarrow> exc + cash_out" where
  "get_own_cash_out u k d =
     some_or (HTTPException 404) (find (\<lambda>c. co_id c = k \<and> co_user_id c = usr_id u) (cash_outs d))"

section \<open>The administrator: remittances\<close>

definition confirm_zar_payment ::
  "(string \<Rightarrow> uuid \<Rightarrow> 'r \<Rightarrow> (redis_error + string) \<times> 'r) \<Rightarrow> uuid \<Rightarrow> string option \<Rightarrow> instant \<Rightarrow> db \<Rightarrow> 'r \<Rightarrow>
   ((exc + remittance \<times> bool) \<times> db) \<times> 'r" where
  "confirm_zar_payment pub k payload now d q =
     (case ebind (some_or (HTTPException 404) (get_remittance k d)) (\<lambda>r.
             let meth = (case payload of
                           Some m \<Rightarrow> m
                         | None \<Rightarrow> (case rem_cash_in_method r of
                                     Some m \<Rightarrow> if m = [] then ''bank_transfer'' else m
                                   | None \<Rightarrow> ''bank_transfer''))
             in http_of cash_in_refused
                  (if rem_status r = FAILED then requeue_failed_remittance r d
                   else ebind (simulate_cash_in r meth now d) (\<lambda>(changed, d1). Inr d1))) of
        Inl e \<Rightarrow> ((Inl e, d), q)
      | Inr d1 \<Rightarrow> publish_and_answer pub k d1 q)"

definition refund_remittance :: "settings \<Rightarrow> uuid \<Rightarrow> instant \<Rightarrow> db \<Rightarrow> (exc + remittance) \<times> db" where
  "refund_remittance s k now d =
     commit_or_keep d
       (ebind (some_or (HTTPException 404) (get_remittance k d)) (\<lambda>r.
        ebind (http_of (\<lambda>e. if e = RefundStateError then Some 409 else None) (refund_failed_remittance s r now d)) (\<lambda>d1.
        ebind (some_or (OtherException ''ObjectDeletedError'') (get_remittance k d1)) (\<lambda>r1.
        Inr (r1, d1)))))"

section \<open>The administrator: cash-outs\<close>

definition get_cash_out :: "uuid \<Rightarrow> db \<Rightarrow> exc + cash_out" where
  "get_cash_out k d = some_or (HTTPException 404) (get_cash_out_row k d)"

definition list_cash_outs :: "cash_out_status option \<Rightarrow> db \<Rightarrow> cash_out list" where
  "list_cash_outs status_filter d =
     sort_key co_requested_at
       (filter (\<lambda>c. case status_filter of None \<Rightarrow> True | Some st \<Rightarrow> co_status c = st) (cash_outs d))"

text \<open>
  The approval is committed, then the burn message is published; a queue that is down answers 503
  with the row APPROVED, and approving it again only publishes.
\<close>

definition approve_cash_out_endpoint ::
  "(uuid \<Rightarrow> 'r \<Rightarrow> (redis_error + string) \<times> 'r) \<Rightarrow> user \<Rightarrow> uuid \<Rightarrow> instant \<Rightarrow> db \<Rightarrow> 'r \<Rightarrow>
   ((exc + cash_out) \<times> db) \<times> 'r" where
  "approve_cash_out_endpoint pub admin k now d q =
     (case ebind (get_cash_out k d) (\<lambda>c.
             if co_status c \<noteq> CO_APPROVED
             then http_of (\<lambda>e. if e = CashOutStateError then Some 409 else None)
                    (approve_cash_out c now
                       (put_cash_out k (\<lambda>x. x\<lparr>co_reviewed_by_admin_id := Some (usr_id admin)\<rparr>) d))
             else Inr d) of
        Inl e \<Rightarrow> ((Inl e, d), q)
      | Inr d1 \<Rightarrow>
          (case get_cash_out_row k d1 of
             None \<Rightarrow> ((Inl (OtherException ''ObjectDeletedError''), d1), q)
           | Some c \<Rightarrow>
               (case queue_cash_out_burn pub c q of
                  (Inr entry_id, q') \<Rightarrow> ((Inr c, d1), q')
                | (Inl e, q') \<Rightarrow>
                    ((Inl (case (if e = CashOutStateError then Some 409
                                 else if e = SettlementPublishError then Some 503 else None) of
                             Some code \<Rightarrow> HTTPException code | None \<Rightarrow> e), d1), q'))))"

definition reject_cash_out_endpoint ::
  "settings \<Rightarrow> user \<Rightarrow> uuid \<Rightarrow> string option \<Rightarrow> instant \<Rightarrow> db \<Rightarrow> (exc + cash_out) \<times> db" where
  "reject_cash_out_endpoint s admin k reason now d =
     commit_or_keep d
       (ebind (get_cash_out k d) (\<lambda>c.
        ebind (http_of (\<lambda>e. if e = CashOutStateError then Some 409 else None)
                 (fail_cash_out s c
                    (case reason of
                       Some t \<Rightarrow> if t = [] then ''Rejected by administrator'' else t
                     | None \<Rightarrow> ''Rejected by administrator'')
                    now ADMIN_FAIL_STATES
                    (put_cash_out k (\<lambda>x. x\<lparr>co_reviewed_by_admin_id := Some (usr_id admin)\<rparr>) d))) (\<lambda>d1.
        ebind (some_or (OtherException ''ObjectDeletedError'') (get_cash_out_row k d1)) (\<lambda>c1.
        Inr (c1, d1)))))"

section \<open>What a cash-out request answers\<close>

lemma insert_cash_out_error:
  "insert_cash_out c d = Inl e \<Longrightarrow>
     e = DataError \<or> e = IntegrityError \<and> co_idempotency_key c \<noteq> None \<and>
       (\<exists>x \<in> set (cash_outs d). co_idempotency_key x = co_idempotency_key c)"
  by (auto simp: insert_cash_out_def Let_def numeric_col_def ebind_eq_Inl split: if_splits)

lemma replayed_None:
  "replayed_cash_out uid (Some k) d = None \<Longrightarrow> x \<in> set (cash_outs d) \<Longrightarrow> co_idempotency_key x = Some k \<Longrightarrow>
     co_user_id x \<noteq> uid"
  by (auto simp: replayed_cash_out_def find_None_iff)

lemma request_error:
  assumes run: "request_cash_out s uid u cur rate key now d = Inl e" and inv: "app_inv s d" and cor: "corridor_ok s"
    and req: "cash_out_request_ok s u rate" and cur: "py_upper (py_strip cur) \<in> set (payout_currencies s)"
  shows "e = AmountTooSmallError \<or>
    e = InsufficientFundsError \<and> (\<forall>w. wallet_of uid d = Some w \<longrightarrow> held (wal_id w) SETTLEMENT_CURRENCY d < u) \<or>
    e = DataError \<and> (\<exists>q. calculate_cash_out_payout s u cur rate = Inr q \<and> 10 ^ 12 \<le> coq_payout_amount q) \<or>
    e = IntegrityError \<and> (\<exists>x \<in> set (cash_outs d). key = co_idempotency_key x \<and> key \<noteq> None \<and> co_user_id x \<noteq> uid)"
proof -
  have new: "replayed_cash_out uid key d = None" using run by (auto simp: request_cash_out_def split: option.splits)
  have u: "scaled 6 u" "fee_settings_ok s" "token_amount_ok u" "rate_ok rate" "u * rate \<le> 10 ^ 15"
    using req by (auto simp: cash_out_request_ok_def token_amount_ok_def)
  have mv: "token_movement s SETTLEMENT_CURRENCY u"
    using req cor by (auto simp: cash_out_request_ok_def token_amount_ok_def token_movement_def corridor_ok_def)
  obtain w d1 where w: "wallet_for uid now d = Inr (w, d1)" using wallet_for_total by blast
  note wf = wallet_for_app [OF w inv]
  have same: "w0 = w" if "wallet_of uid d = Some w0" for w0 :: wallet
    using w that by (simp add: wallet_for_def wallet_for_raced_def)
  show ?thesis
  proof (cases "calculate_cash_out_payout s u cur rate")
    case (Inl e')
    have "calculate_cash_out_payout s u cur rate = exact_cash_out s u (py_upper (py_strip cur)) rate"
      by (rule cash_out_exact_core [OF u(2-4) payout_currency_facts(4) [OF cur] u(5)])
    then have "e' = AmountTooSmallError" using Inl by (auto simp: exact_cash_out_def Let_def split: if_splits)
    then show ?thesis using run new Inl by (simp add: request_cash_out_def)
  next
    case (Inr q)
    note p = priced_cash_out [OF Inr req]
    have g: "guard_or UnsupportedPayoutCurrencyError (coq_payout_currency q \<in> set (payout_currencies s)) = Inr ()"
      using cur p(2) by simp
    show ?thesis
    proof (cases "held (wal_id w) SETTLEMENT_CURRENCY d < u")
      case True
      then have "debit s (wal_id w) SETTLEMENT_CURRENCY u None None now d1 = Inl InsufficientFundsError"
        using debit_outcome(1) [OF app_inv_ledger_inv(1) [OF wf(1)] mv] wf(3) by simp
      then have "e = InsufficientFundsError" using run by (simp add: request_cash_out_def new Inr g w p(3))
      then show ?thesis using True same by blast
    next
      case False
      then have "u \<le> held (wal_id w) SETTLEMENT_CURRENCY d1" using wf(3) by simp
      from debit_outcome(2) [OF app_inv_ledger_inv(1) [OF wf(1)] mv this]
      obtain x d2 where deb: "debit s (wal_id w) SETTLEMENT_CURRENCY u None None now d1 = Inr (x, d2)" by blast
      have cos: "cash_outs d2 = cash_outs d"
        using plain_move_app(2) [OF deb [unfolded debit_def] wf(1) u(1)] wf(4) by (simp add: ledger_only_def)
      have ins: "insert_cash_out (new_cash_out uid q (wtx_id x) key now) d2 = Inl e"
        using run by (simp add: request_cash_out_def new Inr g w p(3) deb)
      have wide: "e = DataError \<Longrightarrow> 10 ^ 12 \<le> coq_payout_amount q"
        using insert_priced(2) [OF Inr req] ins by (metis not_le)
      from insert_cash_out_error [OF ins]
      consider "e = DataError" | k y where "e = IntegrityError" "key = Some k" "y \<in> set (cash_outs d)" "co_idempotency_key y = Some k"
        using cos by (auto simp: new_cash_out_def)
      then show ?thesis
      proof cases
        case 1
        then show ?thesis using Inr wide by simp
      next
        case 2
        then have "co_user_id y \<noteq> uid" using replayed_None new by blast
        then show ?thesis using 2 by (intro disjI2 conjI bexI [of _ y]) simp_all
      qed
    qed
  qed
qed

text \<open>A request that is no replay.\<close>

lemma new_request_outcome:
  assumes "request_cash_out s uid u cur rate' key now d = Inr (c, d')" "replayed_cash_out uid key d = None"
    "app_inv s d" "cash_out_request_ok s u rate'" "py_upper (py_strip cur) = cur"
  shows "app_inv s d' \<and> co_user_id c = uid \<and> co_idempotency_key c = key \<and> co_status c = CO_REQUESTED \<and>
    co_uctusd_amount c = u \<and> co_payout_currency c = cur \<and> cash_outs d' = cash_outs d @ [c] \<and>
    uct_claims d' = uct_claims d - u \<and>
    (\<exists>w. wallet_of uid d' = Some w \<and> u \<le> held (wal_id w) SETTLEMENT_CURRENCY d \<and>
       (\<forall>x k. held x k d' = held x k d - (if x = wal_id w \<and> k = SETTLEMENT_CURRENCY then u else 0)))"
proof -
  note f = request_new_app [OF assms(1,2,3,4)]
  obtain q where q: "calculate_cash_out_payout s u cur rate' = Inr q"
    using assms(1,2) by (auto simp: request_cash_out_def ebind_eq_Inr)
  have "co_payout_currency c = cur" using f(11) [OF q] priced_cash_out(2) [OF q assms(4)] assms(5) by simp
  moreover have "\<exists>w. wallet_of uid d' = Some w \<and> u \<le> held (wal_id w) SETTLEMENT_CURRENCY d \<and>
       (\<forall>x k. held x k d' = held x k d - (if x = wal_id w \<and> k = SETTLEMENT_CURRENCY then u else 0))"
    using f(9) by blast
  ultimately show ?thesis using f(1,2,4-7,10) by simp
qed

text \<open>
  C32. A cash-out request is answered by the whole movement or by none of it. When the endpoint
  answers with a row, the row is the caller's; it is either the cash-out an earlier request with
  the same key opened, and then nothing was written, or a new REQUESTED cash-out of the amount
  asked for, whose reservation has left the caller's UCTUSD and only that. When it refuses, the
  database is exactly as it was, and it is one of three documented answers, the rate service's error,
  422 for an amount the fee swallows or 400 for a balance that does not cover it, or one of two
  exceptions no handler catches, which the client sees as a 500: DataError for a payout of \<open>10 ^ 12\<close> or
  more, too wide for its column, and IntegrityError for an idempotency key another user has already
  spent. Every answer keeps the invariant.
\<close>

theorem cash_out_all_or_nothing:
  assumes "app_inv s d" "corridor_ok s" "parse_cash_out_request s raw raw_cur = Inr (u, cur)"
    "\<forall>rate. fst (current_rate lib s now d st) = Inr rate \<longrightarrow> cash_out_request_ok s u rate"
    "request_cash_out_endpoint lib s usr u cur key now d st = ((res, d'), st')"
  shows "app_inv s d' \<and>
    (case res of
       Inr c \<Rightarrow>
         co_user_id c = usr_id usr \<and> co_idempotency_key c = key \<and>
         (if replayed_cash_out (usr_id usr) key d = Some c then d' = d
          else co_status c = CO_REQUESTED \<and> co_uctusd_amount c = u \<and> co_payout_currency c = cur \<and>
               cash_outs d' = cash_outs d @ [c] \<and> uct_claims d' = uct_claims d - u \<and>
               (\<exists>w. wallet_of (usr_id usr) d' = Some w \<and> u \<le> held (wal_id w) SETTLEMENT_CURRENCY d \<and>
                  (\<forall>x k. held x k d' = held x k d - (if x = wal_id w \<and> k = SETTLEMENT_CURRENCY then u else 0))))
     | Inl e \<Rightarrow>
         d' = d \<and>
         (fst (current_rate lib s now d st) = Inl e \<or> e = HTTPException 422 \<or>
          e = DataError \<and> (\<exists>rate q. fst (current_rate lib s now d st) = Inr rate \<and>
            calculate_cash_out_payout s u cur rate = Inr q \<and> 10 ^ 12 \<le> coq_payout_amount q) \<or>
          e = HTTPException 400 \<and>
            (\<forall>w. wallet_of (usr_id usr) d = Some w \<longrightarrow> held (wal_id w) SETTLEMENT_CURRENCY d < u) \<or>
          e = IntegrityError \<and>
            (\<exists>x \<in> set (cash_outs d). key = co_idempotency_key x \<and> key \<noteq> None \<and> co_user_id x \<noteq> usr_id usr)))"
proof -
  obtain got st1 where rate: "current_rate lib s now d st = (got, st1)" by (cases "current_rate lib s now d st")
  have cur: "cur \<in> set (payout_currencies s)"
    using assms(3) by (auto simp: parse_cash_out_request_def Let_def split: if_splits)
  note norm = payout_currency_facts(3) [OF cur]
  show ?thesis
  proof (cases got)
    case (Inl e)
    then show ?thesis using assms(1,5) rate by (auto simp: request_cash_out_endpoint_def)
  next
    case r: (Inr rate')
    have req: "cash_out_request_ok s u rate'" using assms(4) rate r by simp
    have run: "commit_or_keep d (http_of cash_out_refused (request_cash_out s (usr_id usr) u cur rate' key now d)) = (res, d')"
      using assms(5) rate r by (simp add: request_cash_out_endpoint_def)
    show ?thesis
    proof (cases res)
      case (Inl e)
      then obtain e' where "request_cash_out s (usr_id usr) u cur rate' key now d = Inl e'" "d' = d"
        "e = (case cash_out_refused e' of Some c \<Rightarrow> HTTPException c | None \<Rightarrow> e')"
        using run by (auto simp: raise_simps)
      then show ?thesis
        using request_error [OF _ assms(1,2) req, of "usr_id usr" cur key now e'] cur norm assms(1) Inl
        by (auto simp: cash_out_refused_def rate r)
    next
      case (Inr c)
      then have ok: "request_cash_out s (usr_id usr) u cur rate' key now d = Inr (c, d')"
        using run by (simp add: raise_simps)
      show ?thesis
      proof (cases "replayed_cash_out (usr_id usr) key d")
        case (Some x)
        then have "c = x" "d' = d" using ok request_replay by force+
        then show ?thesis using Some assms(1) Inr by (simp add: replayed_Some)
      next
        case None
        then show ?thesis using new_request_outcome [OF ok None assms(1) req norm] Inr by simp
      qed
    qed
  qed
qed

section \<open>Approving a cash-out\<close>

text \<open>The row an approval leaves.\<close>

definition approved_by :: "user \<Rightarrow> instant \<Rightarrow> cash_out \<Rightarrow> cash_out" where
  "approved_by admin now c =
     c\<lparr>co_reviewed_by_admin_id := Some (usr_id admin), co_status := CO_APPROVED, co_approved_at := Some now\<rparr>"

lemma row_co_id: "get_cash_out_row k d = Some c \<Longrightarrow> co_id c = k"
  by (auto simp: get_cash_out_row_def get_by_def find_Some_iff)

lemma approve_again:
  assumes "get_cash_out_row k d = Some c" "co_status c = CO_APPROVED"
  shows "approve_cash_out_endpoint pub admin k now d q =
    ((case fst (pub k q) of Inl e \<Rightarrow> Inl (HTTPException 503) | Inr entry_id \<Rightarrow> Inr c, d), snd (pub k q))"
  using assms row_co_id [OF assms(1)]
  by (auto simp: approve_cash_out_endpoint_def get_cash_out_def queue_cash_out_burn_def split: sum.split prod.split)

lemma approve_first:
  assumes c: "get_cash_out_row k d = Some c" and st: "co_status c = CO_REQUESTED" and inv: "app_inv s d"
  shows "\<exists>d1. (approve_cash_out_endpoint pub admin k now d q =
      ((case fst (pub k q) of Inl e \<Rightarrow> Inl (HTTPException 503) | Inr entry_id \<Rightarrow> Inr (approved_by admin now c), d1), snd (pub k q))) \<and>
    app_inv s d1 \<and> get_cash_out_row k d1 = Some (approved_by admin now c) \<and>
    (\<forall>j. j \<noteq> k \<longrightarrow> get_cash_out_row j d1 = get_cash_out_row j d) \<and>
    wallet_transactions d1 = wallet_transactions d \<and> ledger_balances d1 = ledger_balances d"
proof -
  define f where "f = (\<lambda>x :: cash_out. x\<lparr>co_reviewed_by_admin_id := Some (usr_id admin)\<rparr>)"
  define g where "g = (\<lambda>x :: cash_out. x\<lparr>co_status := CO_APPROVED, co_approved_at := Some now\<rparr>)"
  define d1 where "d1 = put_cash_out k g (put_cash_out k f d)"
  note k = row_co_id [OF c]
  have same: "co_id (f x) = co_id x" "co_id (g x) = co_id x" for x by (simp_all add: f_def g_def)
  have gf: "g (f c) = approved_by admin now c" by (simp add: f_def g_def approved_by_def)
  have run: "approve_cash_out c now (put_cash_out k f d) = Inr d1"
    using st k by (simp add: approve_cash_out_def d1_def g_def)
  have "app_inv s (put_cash_out k f d)"
    by (rule app_inv_put_cash_out [OF inv]) (auto simp: f_def cash_out_ok_def)
  note ap = approve_app [OF run this]
  have row: "get_cash_out_row k d1 = Some (approved_by admin now c)"
    unfolding d1_def gf [symmetric] by (intro co_store.get_put_same same c)
  have "get_cash_out_row j d1 = get_cash_out_row j d" if "j \<noteq> k" for j
    unfolding d1_def using that by (simp add: co_store.get_put_other [OF same(1)] co_store.get_put_other [OF same(2)])
  moreover have "approve_cash_out_endpoint pub admin k now d q =
      ((case fst (pub k q) of Inl e \<Rightarrow> Inl (HTTPException 503) | Inr entry_id \<Rightarrow> Inr (approved_by admin now c), d1), snd (pub k q))"
    using c st k row run [unfolded f_def]
    by (auto simp: approve_cash_out_endpoint_def get_cash_out_def queue_cash_out_burn_def http_of_def approved_by_def
        split: sum.split prod.split)
  ultimately show ?thesis using ap(1,2) row by (intro exI [of _ d1]) (auto simp: d1_def put_cash_out_def)
qed

text \<open>
  C34. Approving a cash-out survives an unreachable queue. Only a requested or approved cash-out can
  be approved: any other answers 409 and changes nothing. Otherwise exactly one burn message is
  offered to the queue; whether or not it is taken, the row is committed as APPROVED, under the
  administrator who approved it first, no other cash-out changes, no balance or ledger entry moves,
  and the answer is 503 exactly when the queue refused. Approving once more, by anyone, at any
  time and with the queue in any state, then writes nothing and offers the same one message.
\<close>

theorem approval_survives_outage:
  assumes "app_inv s d" "get_cash_out_row k d = Some c"
    "approve_cash_out_endpoint pub admin k now d q = ((res, d'), q')"
  shows "if co_status c \<in> {CO_REQUESTED, CO_APPROVED}
    then \<exists>c'. c' = (if co_status c = CO_REQUESTED then approved_by admin now c else c) \<and>
      res = (case fst (pub k q) of Inl e \<Rightarrow> Inl (HTTPException 503) | Inr entry_id \<Rightarrow> Inr c') \<and>
      q' = snd (pub k q) \<and> app_inv s d' \<and> get_cash_out_row k d' = Some c' \<and>
      (\<forall>j. j \<noteq> k \<longrightarrow> get_cash_out_row j d' = get_cash_out_row j d) \<and>
      wallet_transactions d' = wallet_transactions d \<and> ledger_balances d' = ledger_balances d \<and>
      (\<forall>admin2 now2 q2. approve_cash_out_endpoint pub admin2 k now2 d' q2 =
         ((case fst (pub k q2) of Inl e \<Rightarrow> Inl (HTTPException 503) | Inr entry_id \<Rightarrow> Inr c', d'), snd (pub k q2)))
    else res = Inl (HTTPException 409) \<and> d' = d \<and> q' = q"
proof -
  consider (new) "co_status c = CO_REQUESTED" | (again) "co_status c = CO_APPROVED"
    | (closed) "co_status c \<notin> {CO_REQUESTED, CO_APPROVED}" by blast
  then show ?thesis
  proof cases
    case new
    let ?c = "approved_by admin now c"
    obtain d1 where d1: "approve_cash_out_endpoint pub admin k now d q =
      ((case fst (pub k q) of Inl e \<Rightarrow> Inl (HTTPException 503) | Inr entry_id \<Rightarrow> Inr ?c, d1), snd (pub k q))"
      and facts: "app_inv s d1" "get_cash_out_row k d1 = Some ?c" "\<forall>j. j \<noteq> k \<longrightarrow> get_cash_out_row j d1 = get_cash_out_row j d"
      "wallet_transactions d1 = wallet_transactions d" "ledger_balances d1 = ledger_balances d"
      using approve_first [OF assms(2) new assms(1), of pub admin now q] by blast
    have "co_status ?c = CO_APPROVED" by (simp add: approved_by_def)
    note again = approve_again [OF facts(2) this, of pub]
    show ?thesis using d1 facts again assms(3) new by simp
  next
    case again
    then show ?thesis using approve_again [OF assms(2) again, of pub] assms by simp
  next
    case closed
    then show ?thesis using assms(2,3)
      by (auto simp: approve_cash_out_endpoint_def get_cash_out_def approve_cash_out_def http_of_def)
  qed
qed

section \<open>Witnesses\<close>

lemma api_app_inv: "app_inv api_settings d = app_inv demo_settings d"
proof -
  have "supported_currencies_list api_settings = supported_currencies_list demo_settings"
    by (simp add: supported_currencies_list_def api_settings_def)
  then show ?thesis
    by (simp add: app_inv_def ledger_inv_def ledger_shape_def balances_ok_def balance_ok_def cash_out_ok_def payout_currencies_def)
qed

theorem cash_out_all_or_nothing_witness:
  "\<exists>d c d' st. request_cash_out_endpoint demo_fx api_settings (demo_user 2 ''Bob@x.org'') 20 ''USD'' (Some ''k'') 0 d (Map.empty, 0) =
     ((Inr c, d'), st) \<and> cash_outs d' = [c] \<and> co_status c = CO_REQUESTED \<and> uct_claims d = 50 \<and> uct_claims d' = 30"
proof -
  let ?u = "demo_user 2 ''Bob@x.org''"
  have "scaled 6 (50 :: rat)" by simp
  then obtain d w where d: "app_inv api_settings d" "wallet_of 2 d = Some w"
    "\<forall>x k. held x k d = (if x = wal_id w \<and> k = SETTLEMENT_CURRENCY then 50 else 0)"
    "cash_outs d = []" "uct_claims d = 50"
    using demo_funded [of 50] unfolding api_app_inv by auto
  have sup: "supported_currencies_list api_settings = supported_currencies_list demo_settings"
    by (simp add: supported_currencies_list_def api_settings_def)
  have cor: "corridor_ok api_settings" using corridor_demo by (simp add: corridor_ok_def sup)
  have cur: "py_upper (py_strip ''USD'') = ''USD''" "''USD'' \<in> set (payout_currencies api_settings)"
    using payout_currencies_demo by (code_simp, simp add: payout_currencies_def sup)
  have "scaled 6 (20 :: rat)" by simp
  then have parse: "parse_cash_out_request api_settings 20 ''USD'' = Inr (20, ''USD'')"
    using cur by (simp add: parse_cash_out_request_def MAX_CASH_OUT_UCTUSD_def)
  have served: "fst (current_rate demo_fx api_settings 0 d (Map.empty, 0)) = Inr (37/2)"
    by (simp add: current_rate_def demo_fx_run http_of_def)
  have req: "cash_out_request_ok api_settings 20 (37/2)"
    using demo_request_ok(1) api_settings_facts(1) by (simp add: cash_out_request_ok_def)
  then have rates: "\<forall>rate. fst (current_rate demo_fx api_settings 0 d (Map.empty, 0)) = Inr rate \<longrightarrow>
      cash_out_request_ok api_settings 20 rate"
    using served by (metis sum.inject(2))
  have n: "replayed_cash_out 2 (Some ''k'') d = None" by (simp add: replayed_cash_out_def d(4))
  have same: "calculate_cash_out_payout api_settings = calculate_cash_out_payout demo_settings"
  proof -
    have "cashout_fee_bps api_settings = cashout_fee_bps demo_settings"
      by (simp add: api_settings_def demo_settings_def default_settings_def)
    then show ?thesis by (intro ext) (simp only: calculate_cash_out_payout_def)
  qed
  obtain c d' where run: "request_cash_out api_settings 2 20 ''USD'' (37/2) (Some ''k'') 0 d = Inr (c, d')"
    using request_outcome(2) [OF d(1) cor req n _ demo_priced(1) [folded same] d(2), of 0] cur d(3,4) by fastforce
  obtain st where answer: "request_cash_out_endpoint demo_fx api_settings ?u 20 ''USD'' (Some ''k'') 0 d (Map.empty, 0) =
      ((Inr c, d'), st)"
    using served run by (cases "current_rate demo_fx api_settings 0 d (Map.empty, 0)")
      (auto simp: request_cash_out_endpoint_def commit_or_keep_def http_of_def demo_user_def)
  have uid: "usr_id ?u = 2" by (simp add: demo_user_def)
  from cash_out_all_or_nothing [OF d(1) cor parse rates answer] have "co_status c = CO_REQUESTED \<and> cash_outs d' = [c] \<and> uct_claims d' = 30"
    unfolding uid n using d(4,5) by simp
  then show ?thesis using answer d(5) by blast
qed

theorem approval_survives_outage_witness:
  "\<exists>d c c' d'. get_cash_out_row (co_id c) d = Some c \<and> co_status c = CO_REQUESTED \<and>
     approve_cash_out_endpoint (\<lambda>k (n :: nat). (Inl RedisFailure, n)) (demo_user 9 ''root'') (co_id c) 5 d 0 =
       ((Inl (HTTPException 503), d'), 0) \<and> get_cash_out_row (co_id c) d' = Some c' \<and> co_status c' = CO_APPROVED"
proof -
  let ?pub = "\<lambda>k (n :: nat). (Inl RedisFailure :: redis_error + string, n)" and ?u = "demo_user 9 ''root''"
  obtain d w c d1 where d: "app_inv demo_settings d" "cash_outs d = []"
    and run: "request_cash_out demo_settings 2 20 ''USD'' (37/2) (Some ''k'') 0 d = Inr (c, d1)"
    using demo_requested by blast
  have n: "replayed_cash_out 2 (Some ''k'') d = None" by (simp add: replayed_cash_out_def d(2))
  note f = request_new_app [OF run n d(1) demo_request_ok(1)]
  have row: "get_cash_out_row (co_id c) d1 = Some c"
    by (rule app_inv_get_cash_out [OF f(1)]) (simp add: f(2))
  obtain res d' q' where ap: "approve_cash_out_endpoint ?pub ?u (co_id c) 5 d1 0 = ((res, d'), q')"
    by (metis prod.collapse)
  from approval_survives_outage [OF f(1) row ap] f(4)
  have "res = Inl (HTTPException 503) \<and> q' = 0 \<and> get_cash_out_row (co_id c) d' = Some (approved_by ?u 5 c)" by simp
  then show ?thesis using row f(4) ap
    by (intro exI [of _ d1] exI [of _ c] exI [of _ "approved_by ?u 5 c"] exI [of _ d']) (simp add: approved_by_def)
qed

end
