(* ===== verification/Delivery.thy ===== *)
theory Delivery
  imports RemittanceApi
begin

text \<open>
  The happy path through the endpoint, the queue and the worker: what each part promises is enough
  for the next, so a paid-in quote reaches its recipient.
\<close>

section \<open>From the confirmation to the message\<close>

lemma confirm_goes_through:
  assumes inv: "app_inv s d" and r: "get_remittance k d = Some r" "rem_sender_id r = usr_id u"
    and live: "rem_status r = QUOTED" "\<not> is_quote_expired r now" and m: "py_lower (py_strip meth) \<in> set CASH_IN_METHODS"
    and recipient: "resolve_recipient r d = Inr recipient"
    and pub: "pub (rem_idempotency_key r) k q = (Inr entry_id, q')"
  shows "\<exists>r1 f. confirm_cash_in pub u k meth now d q = ((Inr (r1, True), put_remittance k f d), q') \<and>
      app_inv s (put_remittance k f d) \<and> (\<forall>x. rem_id (f x) = rem_id x) \<and> r1 = f r \<and> rem_status r1 = QUEUED \<and>
      rem_uctusd_amount r1 = rem_uctusd_amount r \<and> rem_zar_send_amount r1 = rem_zar_send_amount r \<and>
      rem_beneficiary_id r1 = rem_beneficiary_id r \<and> rem_sender_id r1 = rem_sender_id r \<and>
      rem_idempotency_key r1 = rem_idempotency_key r"
proof -
  define g where "g = (\<lambda>x :: remittance. x\<lparr>rem_cash_in_method := Some (py_lower (py_strip meth)),
      rem_status := CASH_IN_CONFIRMED, rem_cash_in_confirmed_at := Some now, rem_quote_expires_at := None\<rparr>)"
  define f where "f = (\<lambda>x. (g x)\<lparr>rem_status := QUEUED\<rparr>)"
  have k: "rem_id r = k" "r \<in> set (remittances d)" using app_inv_remittance [OF inv r(1)] by simp_all
  have own: "owned_remittance k (usr_id u) d = Inr r"
  proof -
    have "find (\<lambda>r. rem_id r = k \<and> rem_sender_id r = usr_id u) (remittances d) \<noteq> None"
      using k r(2) by (auto simp: find_None_iff)
    then obtain x where x: "find (\<lambda>r. rem_id r = k \<and> rem_sender_id r = usr_id u) (remittances d) = Some x" by blast
    then have "x \<in> set (remittances d)" "rem_id x = k" by (auto simp: find_Some_iff)
    then show ?thesis using x row_unique [OF inv r(1)] by (simp add: owned_remittance_def)
  qed
  have reg: "\<exists>y. assert_recipient_registered r d = Inr y"
    using recipient by (auto simp: resolve_recipient_def assert_recipient_registered_def ebind_eq_Inr some_or_eq_Inr)
  have sim: "simulate_cash_in r meth now d = Inr (True, put_remittance k g d)"
    using reg live m k by (auto simp: simulate_cash_in_def Let_def g_def)
  have r': "get_remittance (rem_id r) d = Some r" using r(1) k by simp
  note app1 = simulate_cash_in_app(1) [OF sim inv r']
  have row: "get_remittance k (put_remittance k g d) = Some (g r)"
    by (rule rem_store.get_put_same [OF _ r(1)]) (simp add: g_def)
  have two: "put_remittance k (\<lambda>x. x\<lparr>rem_status := QUEUED\<rparr>) (put_remittance k g d) = put_remittance k f d"
    by (simp add: put_remittance_def put_by_def update_where_def f_def g_def comp_def)
  have "app_inv s (put_remittance k (\<lambda>x. x\<lparr>rem_status := QUEUED\<rparr>) (put_remittance k g d))"
    by (rule mark_queued_app [OF app1]) (use row in \<open>simp add: g_def\<close>)
  then have app2: "app_inv s (put_remittance k f d)" unfolding two .
  have "publish_and_answer pub k (put_remittance k g d) q = ((Inr (f r, True), put_remittance k f d), q')"
    using row pub two k by (simp add: publish_and_answer_def queue_for_settlement_def f_def g_def)
  then have "confirm_cash_in pub u k meth now d q = ((Inr (f r, True), put_remittance k f d), q')"
    using own sim by (simp add: confirm_cash_in_def http_of_def)
  then show ?thesis using app2 by (intro exI [of _ "f r"] exI [of _ f]) (simp add: f_def g_def)
qed

section \<open>From the message to the credit\<close>

lemma recipient_cong:
  assumes "rem_beneficiary_id r' = rem_beneficiary_id r" "beneficiaries d' = beneficiaries d" "users d' = users d"
    "resolve_recipient r d = Inr recipient"
  shows "resolve_recipient r' d' = Inr recipient"
  using assms by (auto simp: resolve_recipient_def ebind_eq_Inr some_or_eq_Inr get_beneficiary_row_def user_by_contact_def)

lemma settle_goes_through:
  assumes inv: "app_inv s d" and cor: "corridor_ok s" and m: "message_remittance_id m = Some k"
    and r: "get_remittance k d = Some r" "rem_status r \<in> set CLAIMABLE" "resolve_recipient r d = Inr recipient"
    and pools: "pool_of SEND_POOL d = Some sp" "pool_of PAYOUT_POOL d = Some pp"
    and pay: "send_pooled_payment lib s svc sp (pw_xrpl_address pp) (token_str (rem_uctusd_amount r)) x = (Inr h, x')"
    and fresh: "\<forall>e \<in> set (wallet_transactions d). wtx_remittance_id e \<noteq> Some k"
    and fits: "\<forall>w. held w SETTLEMENT_CURRENCY d + rem_uctusd_amount r < 10 ^ 12" "rem_zar_send_amount r < 10 ^ 12"
  shows "\<exists>d' w. settle lib s svc m False now d x = ((Inr OUT_SETTLED, d'), x') \<and> app_inv s d' \<and>
      status_of k d' = Some SETTLED \<and> wallet_of (usr_id recipient) d' = Some w \<and>
      (\<forall>v c. held v c d' = held v c d + (if v = wal_id w \<and> c = SETTLEMENT_CURRENCY then rem_uctusd_amount r else 0))"
proof -
  define f where "f = (\<lambda>x :: remittance. if rem_status x \<in> set (claimable_states False) then x\<lparr>rem_status := SETTLING\<rparr> else x)"
  define d1 where "d1 = put_remittance k f d"
  have claimable: "rem_status r \<in> set (claimable_states False)" using r(2) by (simp add: claimable_states_def)
  have claim: "claim k False d = (True, d1)"
  proof -
    have "fst (claim k False d)" using claim_wins [OF app_inv_distinct(1) [OF inv], of k False] r(1) claimable by blast
    moreover have "snd (claim k False d) = d1" by (simp add: claim_put d1_def f_def)
    ultimately show ?thesis by (metis prod.collapse)
  qed
  note c = claim_app [OF inv, of k False, unfolded claim, simplified]
  have row: "get_remittance k d1 = Some (f r)" unfolding d1_def by (rule rem_store.get_put_same [OF _ r(1)]) (simp add: f_def)
  have fr: "rem_uctusd_amount (f r) = rem_uctusd_amount r" "rem_zar_send_amount (f r) = rem_zar_send_amount r"
    "rem_beneficiary_id (f r) = rem_beneficiary_id r" "rem_id (f r) = k"
    using app_inv_remittance [OF inv r(1)] by (simp_all add: f_def)
  have row': "get_remittance (rem_id (f r)) d1 = Some (f r)" using row fr(4) by simp
  have same: "held v cc d1 = held v cc d" "pool_of role d1 = pool_of role d" for v cc role
    by (simp_all add: d1_def put_remittance_def held_def balance_row_def pool_of_def)
  have rec: "resolve_recipient (f r) d1 = Inr recipient"
    by (rule recipient_cong [OF fr(3) _ _ r(3)]) (simp_all add: d1_def put_remittance_def)
  obtain d2 where w: "success_writes s (f r) (usr_id recipient) h now d1 = Inr d2"
    using success_outcome [OF c(1) cor row', of "usr_id recipient" h now] fits fresh
    by (auto simp: fr same c(2) entry_key_def)
  have conf: "rem_cash_in_confirmed_at (f r) \<noteq> None" using c(4) row by (simp add: confirmed_def)
  note sw = success_writes_app [OF w c(1) row' refl conf]
  have "settle_claimed lib s svc (f r) now d1 x = ((Inr OUT_SETTLED, d2), x')"
    using rec pools pay w by (simp add: settle_claimed_def load_pool_def same fr record_success_def)
  then have run: "settle lib s svc m False now d x = ((Inr OUT_SETTLED, d2), x')"
    using m claim row by (simp add: settle_def)
  obtain w where w': "wallet_of (usr_id recipient) d2 = Some w"
    "\<forall>v cc. held v cc d2 = held v cc d1 + (if v = wal_id w \<and> cc = SETTLEMENT_CURRENCY then rem_uctusd_amount r else 0)"
    using sw(5) fr(1) by auto
  have "status_of k d2 = Some SETTLED" using sw(4) fr(4) by simp
  with run sw(1) w' show ?thesis by (intro exI [of _ d2] exI [of _ w]) (simp add: same)
qed

text \<open>
  C15. What is paid in arrives. Take a live quote of the caller whose recipient is registered. If
  Redis takes the message and the acknowledgement, both pools exist, the network validates the
  payment, and no balance is at the limit of its column, then the endpoint answers that the
  cash-in is queued, and the worker, given the message the endpoint published, acknowledges it: the
  remittance is SETTLED and the recipient's UCTUSD balance has grown by exactly the amount quoted,
  and no other balance in any currency has moved.
\<close>

theorem paid_in_is_delivered:
  assumes "app_inv (wk_settings n) d" "corridor_ok (wk_settings n)"
    "get_remittance k d = Some r" "rem_sender_id r = usr_id u" "rem_status r = QUOTED" "\<not> is_quote_expired r now"
    "py_lower (py_strip meth) \<in> set CASH_IN_METHODS" "resolve_recipient r d = Inr recipient"
    "k < 16 ^ 32" "rem_idempotency_key r \<noteq> []"
    "pub (rem_idempotency_key r) k q = (Inr entry_id, q')"
    "acknowledge (wk_xack n) (wk_queue n) entry_id redis = (Inr (), redis')"
    "pool_of SEND_POOL d = Some sp" "pool_of PAYOUT_POOL d = Some pp"
    "send_pooled_payment (wk_lib n) (wk_settings n) (wk_xrpl n) sp (pw_xrpl_address pp)
       (token_str (rem_uctusd_amount r)) chain = (Inr h, chain')"
    "\<forall>e \<in> set (wallet_transactions d). wtx_remittance_id e \<noteq> Some k"
    "\<forall>w. held w SETTLEMENT_CURRENCY d + rem_uctusd_amount r < 10 ^ 12" "rem_zar_send_amount r < 10 ^ 12"
  shows "\<exists>r1 d1 w' w.
    confirm_cash_in pub u k meth now d q = ((Inr (r1, True), d1), q') \<and>
    handle n (entry_id, settlement_message (rem_idempotency_key r) k) False
      \<lparr>wo_db = d1, wo_chain = chain, wo_redis = redis, wo_now = later\<rparr> = (Inr True, w') \<and>
    wo_redis w' = redis' \<and> wo_chain w' = chain' \<and> app_inv (wk_settings n) (wo_db w') \<and>
    status_of k (wo_db w') = Some SETTLED \<and> wallet_of (usr_id recipient) (wo_db w') = Some w \<and>
    (\<forall>v c. held v c (wo_db w') = held v c d +
       (if v = wal_id w \<and> c = SETTLEMENT_CURRENCY then rem_uctusd_amount r else 0))"
proof -
  let ?s = "wk_settings n" and ?m = "settlement_message (rem_idempotency_key r) k"
  obtain r1 f where conf: "confirm_cash_in pub u k meth now d q = ((Inr (r1, True), put_remittance k f d), q')"
    and inv1: "app_inv ?s (put_remittance k f d)" and f: "\<forall>x. rem_id (f x) = rem_id x" "r1 = f r"
    and r1: "rem_status r1 = QUEUED" "rem_uctusd_amount r1 = rem_uctusd_amount r"
      "rem_zar_send_amount r1 = rem_zar_send_amount r" "rem_beneficiary_id r1 = rem_beneficiary_id r"
    using confirm_goes_through [of ?s d k r u now meth recipient pub q entry_id q', OF assms(1,3-8,11)] by blast
  let ?d1 = "put_remittance k f d"
  have row: "get_remittance k ?d1 = Some r1" unfolding f(2) using f(1) assms(3) by (intro rem_store.get_put_same) auto
  have same: "held v c ?d1 = held v c d" "pool_of role ?d1 = pool_of role d" for v c role
    by (simp_all add: put_remittance_def held_def balance_row_def pool_of_def)
  have rec: "resolve_recipient r1 ?d1 = Inr recipient"
    by (rule recipient_cong [OF r1(4) _ _ assms(8)]) (simp_all add: put_remittance_def)
  have m: "message_remittance_id ?m = Some k" "message_get ''kind'' ?m \<noteq> Some ''cash_out''"
    using assms(9,10) uuid_roundtrip [OF assms(9)]
    by (simp_all add: message_remittance_id_def settlement_message_def message_get_def truthy_def uuid_str_def Let_def)
  obtain d2 w where run: "settle (wk_lib n) ?s (wk_xrpl n) ?m False later ?d1 chain = ((Inr OUT_SETTLED, d2), chain')"
    and d2: "app_inv ?s d2" "status_of k d2 = Some SETTLED" "wallet_of (usr_id recipient) d2 = Some w"
      "\<forall>v c. held v c d2 = held v c ?d1 + (if v = wal_id w \<and> c = SETTLEMENT_CURRENCY then rem_uctusd_amount r1 else 0)"
    using settle_goes_through [OF inv1 assms(2) m(1) row _ rec, of sp pp "wk_lib n" "wk_xrpl n" chain h chain' later]
      assms(13-18) r1 by (auto simp: CLAIMABLE_def same)
  have "handle n (entry_id, ?m) False \<lparr>wo_db = ?d1, wo_chain = chain, wo_redis = redis, wo_now = later\<rparr> =
      (Inr True, \<lparr>wo_db = d2, wo_chain = chain', wo_redis = redis', wo_now = later\<rparr>)"
    using run m(2) assms(12) by (simp add: handle_def)
  with conf d2 show ?thesis
    by (intro exI [of _ r1] exI [of _ ?d1] exI [of _ "\<lparr>wo_db = d2, wo_chain = chain', wo_redis = redis', wo_now = later\<rparr>"] exI [of _ w])
      (simp add: same r1(2))
qed

section \<open>A run of it\<close>

definition demo_ready :: db where
  "demo_ready = (demo_at QUOTED)\<lparr>remittances := [demo_remittance]\<rparr>"

lemma demo_ready_app: "app_inv s demo_ready"
proof -
  have "scaled 2 (1000 :: rat)" "token_amount_ok (51351351/1000000)" by code_simp+
  then have "remittance_ok demo_remittance" by (simp add: remittance_ok_def demo_remittance_def)
  moreover have "ledger_inv s demo_ready"
    by (rule ledger_inv_same [OF _ _ _ _ app_inv_ledger_inv(1) [OF demo_db_app]]) (simp_all add: demo_ready_def demo_at_def)
  ultimately show ?thesis
    by (simp add: app_inv_def fresh_ids_def status_linked_def demo_ready_def demo_remittance_def)
      (simp add: demo_at_def demo_db_def empty_db_def)
qed

lemma demo_ready_facts:
  "get_remittance 5 demo_ready = Some demo_remittance" "wallet_transactions demo_ready = []"
  "held w c demo_ready = 0" "pool_of SEND_POOL demo_ready = Some (demo_pool 6 SEND_POOL)"
  "pool_of PAYOUT_POOL demo_ready = Some (demo_pool 7 PAYOUT_POOL)"
  "resolve_recipient demo_remittance demo_ready = Inr (demo_user 2 ''Bob@x.org'')"
proof -
  show "get_remittance 5 demo_ready = Some demo_remittance"
    by (simp add: demo_ready_def get_remittance_def get_by_Cons demo_remittance_def)
  show "wallet_transactions demo_ready = []" by (simp add: demo_ready_def)
  have "held w c demo_ready = held w c (demo_at QUOTED)" by (simp add: demo_ready_def held_def balance_row_def)
  then show "held w c demo_ready = 0" by simp
  have "pool_of role demo_ready = pool_of role (demo_at QUOTED)" for role by (simp add: demo_ready_def pool_of_def)
  then show "pool_of SEND_POOL demo_ready = Some (demo_pool 6 SEND_POOL)"
    "pool_of PAYOUT_POOL demo_ready = Some (demo_pool 7 PAYOUT_POOL)" by simp_all
  show "resolve_recipient demo_remittance demo_ready = Inr (demo_user 2 ''Bob@x.org'')"
    by (rule recipient_cong [OF _ _ _ demo_at_recipient [of QUOTED QUOTED]]) (simp_all add: demo_ready_def demo_remittance_def)
qed

theorem paid_in_is_delivered_witness:
  "\<exists>r1 d1 w' w. confirm_cash_in (\<lambda>key k (n :: nat). (Inr ''1-0'', Suc n)) (demo_user 1 ''ann@x.org'') 5 ''card'' 100 demo_ready 0 =
       ((Inr (r1, True), d1), 1) \<and>
     handle demo_worker (''1-0'', settlement_message ''k5'' 5) False
       \<lparr>wo_db = d1, wo_chain = 0, wo_redis = [], wo_now = 200\<rparr> = (Inr True, w') \<and>
     status_of 5 (wo_db w') = Some SETTLED \<and> held w SETTLEMENT_CURRENCY (wo_db w') = 51351351/1000000"
proof -
  let ?pub = "\<lambda>key k (n :: nat). (Inr ''1-0'' :: redis_error + string, Suc n)"
  have s: "wk_settings demo_worker = demo_settings" "wk_lib demo_worker = demo_lib" "wk_xrpl demo_worker = demo_svc"
    by (simp_all add: demo_worker_def)
  have m: "py_lower (py_strip ''card'') \<in> set CASH_IN_METHODS" by code_simp
  have row: "rem_sender_id demo_remittance = usr_id (demo_user 1 ''ann@x.org'')" "rem_status demo_remittance = QUOTED"
    "\<not> is_quote_expired demo_remittance 100" "rem_idempotency_key demo_remittance = ''k5''"
    "rem_uctusd_amount demo_remittance = 51351351/1000000" "rem_zar_send_amount demo_remittance = 1000"
    by (simp_all add: demo_remittance_def demo_user_def is_quote_expired_def)
  have ack: "acknowledge (wk_xack demo_worker) (wk_queue demo_worker) ''1-0'' [] = (Inr (), [''1-0''])"
    by (simp add: demo_worker_def acknowledge_def)
  have pay: "send_pooled_payment (wk_lib demo_worker) (wk_settings demo_worker) (wk_xrpl demo_worker) (demo_pool 6 SEND_POOL)
      (pw_xrpl_address (demo_pool 7 PAYOUT_POOL)) (token_str (rem_uctusd_amount demo_remittance)) 0 = (Inr ''H'', 1)"
    using demo_pay [of demo_settings "demo_pool 6 SEND_POOL" "pw_xrpl_address (demo_pool 7 PAYOUT_POOL)"
        "token_str (rem_uctusd_amount demo_remittance)" 0] by (simp add: s)
  have pub: "?pub (rem_idempotency_key demo_remittance) 5 0 = (Inr ''1-0'', 1)" by simp
  have app: "app_inv (wk_settings demo_worker) demo_ready" by (rule demo_ready_app)
  have cor: "corridor_ok (wk_settings demo_worker)" using corridor_demo by (simp add: s)
  have small: "(5 :: nat) < 16 ^ 32" "rem_idempotency_key demo_remittance \<noteq> []" by (simp_all add: row)
  have fits: "\<forall>e \<in> set (wallet_transactions demo_ready). wtx_remittance_id e \<noteq> Some 5"
    "\<forall>w. held w SETTLEMENT_CURRENCY demo_ready + rem_uctusd_amount demo_remittance < 10 ^ 12"
    "rem_zar_send_amount demo_remittance < 10 ^ 12"
    by (simp_all add: demo_ready_facts row)
  show ?thesis
    using paid_in_is_delivered [where pub = ?pub and q = "0 :: nat" and q' = 1 and later = 200, OF app cor demo_ready_facts(1) row(1-3) m demo_ready_facts(6) small pub ack
        demo_ready_facts(4,5) pay fits] row(4,5) demo_ready_facts(3)
    by auto
qed

end
