(* ===== verification/Backlog.thy ===== *)
theory Backlog
  imports Worker
begin

text \<open>
  The worker's loop against its backlog: that the messages waiting on the stream are worked off, one
  a turn and in order, whatever becomes of each. Redis is a parameter; \<open>stream_documented\<close> says what
  the three commands of the loop do to the entries no consumer has read yet (\<open>unread\<close>) and to those
  delivered and not acknowledged (\<open>pending\<close>). XAUTOCLAIM may fail, or hand over any of the pending
  entries, ten at most: which of them have been idle long enough is for Redis to say. An
  acknowledgement may fail too. Reads of new entries are answered.
\<close>

section \<open>What Redis promises the loop\<close>

definition stream_documented ::
  "('x, 'r) worker \<Rightarrow> ('r \<Rightarrow> entry list) \<Rightarrow> ('r \<Rightarrow> entry list) \<Rightarrow> bool" where
  "stream_documented k unread pending \<longleftrightarrow>
     (\<forall>r. case wk_xautoclaim k (qc_stream (wk_queue k)) (qc_group (wk_queue k)) (wk_consumer k)
                 (settlement_reclaim_idle_ms (wk_settings k)) 10 r of
            (Inl e, r') \<Rightarrow> unread r' = unread r \<and> pending r' = pending r
          | (Inr None, r') \<Rightarrow> unread r' = unread r \<and> set (pending r') \<subseteq> set (pending r)
          | (Inr (Some es), r') \<Rightarrow> unread r' = unread r \<and> set (pending r') \<subseteq> set (pending r) \<and>
               set es \<subseteq> set (pending r) \<and> length es \<le> 10) \<and>
     (\<forall>r. \<exists>reply r'. wk_xreadgroup k (qc_group (wk_queue k)) (wk_consumer k) (qc_stream (wk_queue k), ''>'') 1
                 (Some (qc_block_ms (wk_queue k))) r = (Inr reply, r') \<and>
               entries_of reply = take 1 (unread r) \<and> unread r' = drop 1 (unread r) \<and>
               pending r' = pending r @ take 1 (unread r)) \<and>
     (\<forall>r i. case wk_xack k (qc_stream (wk_queue k)) (qc_group (wk_queue k)) i r of
               (Inl e, r') \<Rightarrow> unread r' = unread r \<and> pending r' = pending r
             | (Inr u, r') \<Rightarrow> unread r' = unread r \<and> pending r' = filter (\<lambda>en. fst en \<noteq> i) (pending r))"

text \<open>One message: its processing decides the database, and at most its own acknowledgement is sent.\<close>

lemma handle_effect:
  obtains res d' x' where
    "(if message_get ''kind'' (snd en) = Some ''cash_out''
      then burn_cash_out (wk_lib k) (wk_settings k) (wk_xrpl k) (snd en) (wo_now w) (wo_db w) (wo_chain w)
      else settle (wk_lib k) (wk_settings k) (wk_xrpl k) (snd en) b (wo_now w) (wo_db w) (wo_chain w)) = ((res, d'), x')"
    "wo_db (snd (handle k en b w)) = d'"
    "wo_redis (snd (handle k en b w)) = wo_redis w \<or>
     wo_redis (snd (handle k en b w)) = snd (acknowledge (wk_xack k) (wk_queue k) (fst en) (wo_redis w))"
proof -
  obtain i m where en: "en = (i, m)" by fastforce
  obtain res d' x' where run:
    "(if message_get ''kind'' m = Some ''cash_out''
      then burn_cash_out (wk_lib k) (wk_settings k) (wk_xrpl k) m (wo_now w) (wo_db w) (wo_chain w)
      else settle (wk_lib k) (wk_settings k) (wk_xrpl k) m b (wo_now w) (wo_db w) (wo_chain w)) = ((res, d'), x')"
    by (metis prod.collapse)
  obtain a r' where ack: "acknowledge (wk_xack k) (wk_queue k) i (wo_redis w) = (a, r')" by fastforce
  have "wo_db (snd (handle k en b w)) = d' \<and>
    (wo_redis (snd (handle k en b w)) = wo_redis w \<or> wo_redis (snd (handle k en b w)) = r')"
  proof (cases res)
    case (Inl e)
    then show ?thesis using run en by (cases e) (auto simp: handle_def)
  next
    case (Inr out)
    then show ?thesis using run en ack by (cases a) (auto simp: handle_def)
  qed
  then show ?thesis using that [of res d' x', unfolded en fst_conv snd_conv, OF run] ack unfolding en by simp
qed

lemma handle_unread:
  assumes "stream_documented k unread pending"
  shows "unread (wo_redis (snd (handle k en b w))) = unread (wo_redis w)"
    "set (pending (wo_redis (snd (handle k en b w)))) \<subseteq> set (pending (wo_redis w))"
proof -
  have "case acknowledge (wk_xack k) (wk_queue k) (fst en) r of
      (Inl e, r') \<Rightarrow> unread r' = unread r \<and> pending r' = pending r
    | (Inr u, r') \<Rightarrow> unread r' = unread r \<and> pending r' = filter (\<lambda>x. fst x \<noteq> fst en) (pending r)" for r
    using assms by (simp add: stream_documented_def acknowledge_def)
  then have ack: "unread (snd (acknowledge (wk_xack k) (wk_queue k) (fst en) r)) = unread r \<and>
      set (pending (snd (acknowledge (wk_xack k) (wk_queue k) (fst en) r))) \<subseteq> set (pending r)" for r
    by (smt (verit) filter_is_subset order_refl prod.case_eq_if sum.case_eq_if)
  show "unread (wo_redis (snd (handle k en b w))) = unread (wo_redis w)"
    "set (pending (wo_redis (snd (handle k en b w)))) \<subseteq> set (pending (wo_redis w))"
    by (rule handle_effect [of en k w b]; use ack [of "wo_redis w"] in auto)+
qed

lemma handle_app:
  assumes "app_inv (wk_settings k) (wo_db w)"
  shows "app_inv (wk_settings k) (wo_db (snd (handle k en b w)))"
proof -
  obtain res d' x' where run:
    "(if message_get ''kind'' (snd en) = Some ''cash_out''
      then burn_cash_out (wk_lib k) (wk_settings k) (wk_xrpl k) (snd en) (wo_now w) (wo_db w) (wo_chain w)
      else settle (wk_lib k) (wk_settings k) (wk_xrpl k) (snd en) b (wo_now w) (wo_db w) (wo_chain w)) = ((res, d'), x')"
    "wo_db (snd (handle k en b w)) = d'"
    by (rule handle_effect [of en k w b])
  then show ?thesis using processing_leaves_row [OF assms run(1)] by simp
qed

lemma handle_all_unread:
  assumes "stream_documented k unread pending"
  shows "unread (wo_redis (snd (handle_all k es b w))) = unread (wo_redis w) \<and>
    set (pending (wo_redis (snd (handle_all k es b w)))) \<subseteq> set (pending (wo_redis w))"
proof (induction es arbitrary: w)
  case (Cons e es)
  note h = handle_unread [OF assms, of e b w]
  show ?case using h Cons.IH [of "snd (handle k e b w)"] by (cases "handle k e b w") (fastforce split: sum.splits)
qed simp

lemma handle_all_app:
  assumes "app_inv (wk_settings k) (wo_db w)"
  shows "app_inv (wk_settings k) (wo_db (snd (handle_all k es b w)))"
  using assms
proof (induction es arbitrary: w)
  case (Cons e es)
  then show ?case
    using handle_app [OF Cons.prems, of e b] Cons.IH [of "snd (handle k e b w)"]
    by (cases "handle k e b w") (auto split: sum.splits)
qed simp

section \<open>A turn\<close>

text \<open>
  The world once the abandoned messages have been taken over, whether that ended without an
  exception, and the entries read next, which the turn passes to \<open>handle\<close>.
\<close>

definition took :: "('x, 'r) worker \<Rightarrow> ('x, 'r) world \<Rightarrow> ('x, 'r) world" where
  "took k w = snd (reclaim_abandoned k w)"

definition clear_turn :: "('x, 'r) worker \<Rightarrow> ('x, 'r) world \<Rightarrow> bool" where
  "clear_turn k w = (case fst (reclaim_abandoned k w) of Inl e \<Rightarrow> False | Inr u \<Rightarrow> True)"

definition next_read :: "('x, 'r) worker \<Rightarrow> ('x, 'r) world \<Rightarrow> entry list" where
  "next_read k w =
     (case fst (read_new (wk_xreadgroup k) (wk_queue k) (wk_consumer k) 1 (wo_redis (took k w))) of
        Inl e \<Rightarrow> [] | Inr es \<Rightarrow> es)"

lemma took_keeps:
  assumes "stream_documented k unread pending"
  shows "unread (wo_redis (took k w)) = unread (wo_redis w) \<and>
    set (pending (wo_redis (took k w))) \<subseteq> set (pending (wo_redis w))"
proof -
  obtain es r' where rs: "reclaim_stale (wk_xautoclaim k) (wk_queue k) (wk_consumer k)
      (settlement_reclaim_idle_ms (wk_settings k)) 10 (wo_redis w) = (es, r')" by fastforce
  have "unread r' = unread (wo_redis w) \<and> set (pending r') \<subseteq> set (pending (wo_redis w))"
  proof (cases "wk_xautoclaim k (qc_stream (wk_queue k)) (qc_group (wk_queue k)) (wk_consumer k)
                 (settlement_reclaim_idle_ms (wk_settings k)) 10 (wo_redis w)")
    case (Pair reply r1)
    have "case (reply, r1) of
            (Inl e, r') \<Rightarrow> unread r' = unread (wo_redis w) \<and> pending r' = pending (wo_redis w)
          | (Inr None, r') \<Rightarrow> unread r' = unread (wo_redis w) \<and> set (pending r') \<subseteq> set (pending (wo_redis w))
          | (Inr (Some es), r') \<Rightarrow> unread r' = unread (wo_redis w) \<and> set (pending r') \<subseteq> set (pending (wo_redis w)) \<and>
               set es \<subseteq> set (pending (wo_redis w)) \<and> length es \<le> 10"
      using conjunct1 [OF assms [unfolded stream_documented_def], THEN spec, of "wo_redis w"] unfolding Pair .
    then show ?thesis using rs Pair
      by (auto simp: reclaim_stale_def split: sum.splits option.splits redis_error.splits)
  qed
  then show ?thesis
    using rs handle_all_unread [OF assms, of _ True "w\<lparr>wo_redis := r'\<rparr>"]
    by (cases es) (auto simp: took_def reclaim_abandoned_def handle_reply_def)
qed

lemma turn:
  assumes "stream_documented k unread pending"
  shows "\<not> clear_turn k w \<Longrightarrow> loop_turn k w = took k w"
    "clear_turn k w \<Longrightarrow> next_read k w = take 1 (unread (wo_redis w))"
    "clear_turn k w \<Longrightarrow> unread (wo_redis (loop_turn k w)) = drop 1 (unread (wo_redis w)) \<and>
       set (pending (wo_redis (loop_turn k w))) \<subseteq> set (pending (wo_redis w)) \<union> set (take 1 (unread (wo_redis w)))"
proof -
  let ?v = "took k w"
  note v = took_keeps [OF assms, of w]
  obtain reply r2 where r2: "wk_xreadgroup k (qc_group (wk_queue k)) (wk_consumer k) (qc_stream (wk_queue k), ''>'') 1
       (Some (qc_block_ms (wk_queue k))) (wo_redis ?v) = (Inr reply, r2)" "entries_of reply = take 1 (unread (wo_redis ?v))"
     "unread r2 = drop 1 (unread (wo_redis ?v))" "pending r2 = pending (wo_redis ?v) @ take 1 (unread (wo_redis ?v))"
    using assms unfolding stream_documented_def by blast
  have read: "read_new (wk_xreadgroup k) (wk_queue k) (wk_consumer k) 1 (wo_redis ?v) = (Inr (take 1 (unread (wo_redis w))), r2)"
    using r2(1,2) v by (simp add: read_new_def map_reply_def)
  show "\<not> clear_turn k w \<Longrightarrow> loop_turn k w = took k w"
    by (auto simp: clear_turn_def loop_turn_def took_def split: sum.splits prod.splits)
  show "clear_turn k w \<Longrightarrow> next_read k w = take 1 (unread (wo_redis w))"
    by (simp add: next_read_def read)
  assume "clear_turn k w"
  then have "loop_turn k w = snd (handle_all k (take 1 (unread (wo_redis w))) False (?v\<lparr>wo_redis := r2\<rparr>))"
    using read by (auto simp: clear_turn_def loop_turn_def took_def handle_reply_def split: sum.splits prod.splits)
  then show "unread (wo_redis (loop_turn k w)) = drop 1 (unread (wo_redis w)) \<and>
       set (pending (wo_redis (loop_turn k w))) \<subseteq> set (pending (wo_redis w)) \<union> set (take 1 (unread (wo_redis w)))"
    using handle_all_unread [OF assms, of "take 1 (unread (wo_redis w))" False "?v\<lparr>wo_redis := r2\<rparr>"] r2(3,4) v by auto
qed

lemma loop_turn_app:
  assumes "app_inv (wk_settings k) (wo_db w)"
  shows "app_inv (wk_settings k) (wo_db (loop_turn k w))"
proof -
  have reply: "app_inv (wk_settings k) (wo_db (snd (handle_reply k f b v)))"
    if "app_inv (wk_settings k) (wo_db v)" for f b v
    using that handle_all_app [of k "v\<lparr>wo_redis := snd (f (wo_redis v))\<rparr>"]
    by (auto simp: handle_reply_def split: sum.splits prod.splits)
  obtain res v where v: "reclaim_abandoned k w = (res, v)" by fastforce
  then have "app_inv (wk_settings k) (wo_db v)" using reply [OF assms] by (metis reclaim_abandoned_def snd_conv)
  then show ?thesis using v reply by (cases res) (simp_all add: loop_turn_def)
qed

section \<open>The backlog is worked off\<close>

text \<open>
  Along \<open>n\<close> turns: how many took over what was abandoned without an exception, and the entries read as
  new, in the order in which they are passed to \<open>handle\<close>.
\<close>

fun clear_turns :: "nat \<Rightarrow> (('x, 'r) world \<Rightarrow> ('x, 'r) world) \<Rightarrow> ('x, 'r) worker \<Rightarrow> ('x, 'r) world \<Rightarrow> nat" where
  "clear_turns 0 between k w = 0"
| "clear_turns (Suc n) between k w =
     (if clear_turn k w then 1 else 0) + clear_turns n between k (between (loop_turn k w))"

fun first_deliveries ::
  "nat \<Rightarrow> (('x, 'r) world \<Rightarrow> ('x, 'r) world) \<Rightarrow> ('x, 'r) worker \<Rightarrow> ('x, 'r) world \<Rightarrow> entry list" where
  "first_deliveries 0 between k w = []"
| "first_deliveries (Suc n) between k w =
     (if clear_turn k w then next_read k w else []) @ first_deliveries n between k (between (loop_turn k w))"

lemma run_turns_serve:
  assumes "stream_documented k unread pending"
    and between: "\<And>v. \<exists>ms. unread (wo_redis (between v)) = unread (wo_redis v) @ ms"
      "\<And>v. pending (wo_redis (between v)) = pending (wo_redis v)"
  shows "(\<exists>ms. first_deliveries n between k w @ unread (wo_redis (run_turns n between k w)) = unread (wo_redis w) @ ms) \<and>
    min (clear_turns n between k w) (length (unread (wo_redis w))) \<le> length (first_deliveries n between k w) \<and>
    set (pending (wo_redis (run_turns n between k w))) \<subseteq> set (pending (wo_redis w)) \<union> set (first_deliveries n between k w)"
proof (induction n arbitrary: w)
  case (Suc n)
  let ?v = "between (loop_turn k w)"
  note t = turn [OF assms(1), of w] and b = between(2) [of "loop_turn k w"]
  obtain m0 where m0: "unread (wo_redis ?v) = unread (wo_redis (loop_turn k w)) @ m0" using between(1) by blast
  obtain ms where ms: "first_deliveries n between k ?v @ unread (wo_redis (run_turns n between k ?v)) = unread (wo_redis ?v) @ ms"
    using Suc.IH by blast
  note IH = Suc.IH [of ?v, THEN conjunct2]
  show ?case
  proof (cases "clear_turn k w")
    case True
    then have "first_deliveries (Suc n) between k w @ unread (wo_redis (run_turns (Suc n) between k w)) =
        unread (wo_redis w) @ m0 @ ms"
      using t(2,3) ms m0 by simp
    moreover have "min (clear_turns (Suc n) between k w) (length (unread (wo_redis w))) \<le>
        length (first_deliveries (Suc n) between k w)"
      using True t(2,3) m0 IH by (cases "unread (wo_redis w)") auto
    moreover have "set (pending (wo_redis (run_turns (Suc n) between k w))) \<subseteq>
        set (pending (wo_redis w)) \<union> set (first_deliveries (Suc n) between k w)"
      using True t(2,3) b IH by auto
    ultimately show ?thesis by blast
  next
    case False
    note same = t(1) [OF False] took_keeps [OF assms(1), of w]
    have "first_deliveries (Suc n) between k w @ unread (wo_redis (run_turns (Suc n) between k w)) =
        unread (wo_redis w) @ m0 @ ms"
      using False same ms m0 by simp
    moreover have "min (clear_turns (Suc n) between k w) (length (unread (wo_redis w))) \<le>
        length (first_deliveries (Suc n) between k w)"
      using False same m0 IH by (auto simp: min_le_iff_disj)
    moreover have "set (pending (wo_redis (run_turns (Suc n) between k w))) \<subseteq>
        set (pending (wo_redis w)) \<union> set (first_deliveries (Suc n) between k w)"
      using False same b IH by auto
    ultimately show ?thesis by blast
  qed
qed simp

lemma run_turns_app:
  assumes "app_inv (wk_settings k) (wo_db w)"
    and between: "\<And>v. app_inv (wk_settings k) (wo_db v) \<Longrightarrow> app_inv (wk_settings k) (wo_db (between v))"
  shows "app_inv (wk_settings k) (wo_db (run_turns n between k w))"
  using assms(1)
proof (induction n arbitrary: w)
  case (Suc n)
  then show ?case using between [OF loop_turn_app] by simp
qed simp

text \<open>A turn with nothing to take over is clear.\<close>

lemma idle_clear:
  assumes "\<forall>r. \<exists>r'. wk_xautoclaim k (qc_stream (wk_queue k)) (qc_group (wk_queue k)) (wk_consumer k)
                 (settlement_reclaim_idle_ms (wk_settings k)) 10 r = (Inr (Some []), r')"
  shows "clear_turns n between k w = n"
proof (induction n arbitrary: w)
  case (Suc n)
  obtain r' where "wk_xautoclaim k (qc_stream (wk_queue k)) (qc_group (wk_queue k)) (wk_consumer k)
                 (settlement_reclaim_idle_ms (wk_settings k)) 10 (wo_redis w) = (Inr (Some []), r')"
    using assms by blast
  then have "clear_turn k w"
    by (simp add: clear_turn_def reclaim_abandoned_def handle_reply_def reclaim_stale_def)
  then show ?case using Suc.IH by simp
qed simp

text \<open>
  C20. The worker works its backlog off. Let Redis do what it documents and answer the reads, and let
  whoever acts between two turns publish messages but read none. Then along any number of turns the
  messages read as new and passed to \<open>handle\<close> are those waiting and then those published, in their
  order, each once, whatever becomes of them: one that fails, raises or cannot be acknowledged holds up
  none behind it. Every turn whose takeover of abandoned messages raises nothing reads one, and every
  turn is such if XAUTOCLAIM finds nothing idle; after as many as there were messages waiting, all of
  these have been read. The invariant of the database stands, and what is unacknowledged was so before or
  is among the messages read.
\<close>

theorem backlog_worked_off:
  assumes "stream_documented k unread pending" "app_inv (wk_settings k) (wo_db w)"
    "\<forall>v. (\<exists>ms. unread (wo_redis (between v)) = unread (wo_redis v) @ ms) \<and>
       pending (wo_redis (between v)) = pending (wo_redis v)"
    "\<forall>v. app_inv (wk_settings k) (wo_db v) \<longrightarrow> app_inv (wk_settings k) (wo_db (between v))"
  shows "(\<exists>ms. first_deliveries n between k w @ unread (wo_redis (run_turns n between k w)) = unread (wo_redis w) @ ms) \<and>
    (length (unread (wo_redis w)) \<le> clear_turns n between k w \<longrightarrow>
       (\<exists>ms. first_deliveries n between k w = unread (wo_redis w) @ ms)) \<and>
    ((\<forall>r. \<exists>r'. wk_xautoclaim k (qc_stream (wk_queue k)) (qc_group (wk_queue k)) (wk_consumer k)
                 (settlement_reclaim_idle_ms (wk_settings k)) 10 r = (Inr (Some []), r')) \<longrightarrow>
       clear_turns n between k w = n) \<and>
    app_inv (wk_settings k) (wo_db (run_turns n between k w)) \<and>
    set (pending (wo_redis (run_turns n between k w))) \<subseteq> set (pending (wo_redis w)) \<union> set (first_deliveries n between k w)"
proof -
  note s = run_turns_serve [OF assms(1), of between n w] and b = assms(3) [THEN spec]
  obtain ms where ms: "first_deliveries n between k w @ unread (wo_redis (run_turns n between k w)) = unread (wo_redis w) @ ms"
    using s b by blast
  have "\<exists>ms. first_deliveries n between k w = unread (wo_redis w) @ ms"
    if "length (unread (wo_redis w)) \<le> clear_turns n between k w"
  proof -
    have "length (unread (wo_redis w)) \<le> length (first_deliveries n between k w)" using s b that by simp
    then have "unread (wo_redis w) = take (length (unread (wo_redis w))) (first_deliveries n between k w)"
      using arg_cong [OF ms, of "take (length (unread (wo_redis w)))"] by simp
    then show ?thesis by (metis append_take_drop_id)
  qed
  moreover have "app_inv (wk_settings k) (wo_db (run_turns n between k w))"
    using run_turns_app [OF assms(2), of between n] assms(4) by blast
  ultimately show ?thesis using s b idle_clear [of k n between w] by blast
qed

text \<open>
  A stream of two lists, the unread and the pending entries, with the settlement of \<open>demo_worker\<close> behind
  it. All that is pending is idle, and is handed over.
\<close>

definition list_worker :: "(nat, entry list \<times> entry list) worker" where
  "list_worker = \<lparr>wk_settings = demo_settings, wk_lib = demo_lib, wk_xrpl = demo_svc,
     wk_queue = \<lparr>qc_stream = ''s'', qc_group = ''g'', qc_block_ms = 5000\<rparr>, wk_consumer = ''c'',
     wk_xgroup_create = (\<lambda>a b r. (Inr (), r)), wk_busygroup = (\<lambda>t. True),
     wk_xreadgroup = (\<lambda>a b c n bl (un, pe). (Inr [(''s'', take 1 un)], (drop 1 un, pe @ take 1 un))),
     wk_xautoclaim = (\<lambda>a b c n t (un, pe). (Inr (Some (take 10 pe)), (un, pe))),
     wk_xack = (\<lambda>a b i (un, pe). (Inr (), (un, filter (\<lambda>en. fst en \<noteq> i) pe)))\<rparr>"

lemma list_worker_documented: "stream_documented list_worker fst snd"
  by (auto simp: stream_documented_def list_worker_def entries_of_def dest: in_set_takeD)

text \<open>Three messages: one abandoned by a worker that stopped, and two not read yet.\<close>

definition three_messages :: "(nat, entry list \<times> entry list) world" where
  "three_messages = \<lparr>wo_db = demo_at QUEUED, wo_chain = 0,
     wo_redis = ([(''1-0'', [(''kind'', ''other'')]), (''2-0'', settlement_message ''k5'' 5)],
                 [(''0-1'', [(''kind'', ''gone'')])]), wo_now = 200\<rparr>"

text \<open>A message that names nothing is skipped and acknowledged.\<close>

lemma skipped_message:
  assumes "message_get ''kind'' m \<noteq> Some ''cash_out''" "message_remittance_id m = None"
  shows "handle list_worker (i, m) b (w\<lparr>wo_redis := (un, pe)\<rparr>) =
    (Inr True, w\<lparr>wo_redis := (un, filter (\<lambda>en. fst en \<noteq> i) pe)\<rparr>)"
  using assms by (simp add: handle_def settle_def acknowledge_def list_worker_def)

lemma three_turns: "clear_turns 2 id list_worker three_messages = 2"
proof -
  define v0 where "v0 = three_messages"
  let ?w = "\<lambda>un pe. v0\<lparr>wo_redis := (un, pe)\<rparr>"
  let ?a = "(''0-1'', [(''kind'', ''gone'')]) :: entry" and ?b = "(''1-0'', [(''kind'', ''other'')]) :: entry"
    and ?c = "(''2-0'', settlement_message ''k5'' 5) :: entry"
  have start: "three_messages = ?w [?b, ?c] [?a]" by (simp add: v0_def three_messages_def)
  have none: "message_remittance_id [(''kind'', t)] = None" for t
    by (simp add: message_remittance_id_def message_get_def truthy_def)
  have a: "handle list_worker ?a b (?w un pe) = (Inr True, ?w un (filter (\<lambda>en. fst en \<noteq> ''0-1'') pe))"
    and b: "handle list_worker ?b b (?w un pe) = (Inr True, ?w un (filter (\<lambda>en. fst en \<noteq> ''1-0'') pe))" for b un pe
    by (rule skipped_message; simp add: none message_get_def)+
  have re: "reclaim_abandoned list_worker (?w un pe) = handle_all list_worker (take 10 pe) True (?w un pe)" for un pe
    by (simp add: reclaim_abandoned_def handle_reply_def reclaim_stale_def) (simp add: list_worker_def)
  have rd: "handle_reply list_worker (read_new (wk_xreadgroup list_worker) (wk_queue list_worker) (wk_consumer list_worker) 1) False
      (?w un pe) = handle_all list_worker (take 1 un) False (?w (drop 1 un) (pe @ take 1 un))" for un pe
    by (simp add: handle_reply_def read_new_def map_reply_def) (simp add: list_worker_def entries_of_def)
  have one: "reclaim_abandoned list_worker (?w [?b, ?c] [?a]) = (Inr (), ?w [?b, ?c] [])" by (simp add: re a)
  then have "loop_turn list_worker (?w [?b, ?c] [?a]) = ?w [?c] []"
    by (simp add: loop_turn_def rd b)
  moreover have "reclaim_abandoned list_worker (?w [?c] []) = (Inr (), ?w [?c] [])" by (simp add: re)
  ultimately show ?thesis using one unfolding start numeral_2_eq_2
    by (simp add: clear_turn_def)
qed

theorem backlog_worked_off_witness:
  "clear_turns 2 id list_worker three_messages = 2 \<and>
   (\<exists>ms. first_deliveries 2 id list_worker three_messages = fst (wo_redis three_messages) @ ms) \<and>
   app_inv demo_settings (wo_db (run_turns 2 id list_worker three_messages))"
proof -
  have "app_inv (wk_settings list_worker) (wo_db three_messages)"
    by (simp add: list_worker_def three_messages_def demo_at_app)
  note w = backlog_worked_off [OF list_worker_documented this, of id 2]
  have "length (fst (wo_redis three_messages)) = 2" by (simp add: three_messages_def)
  then show ?thesis using w three_turns by (simp add: list_worker_def)
qed

end
