(* ===== verification/Migrations.thy ===== *)
theory Migrations
  imports Prelude "HOL-Library.AList"
begin

text \<open>
  The database's own history, \<open>migrations/versions/\<close>. A revision is a list of statements, in the
  order its \<open>upgrade\<close> and \<open>downgrade\<close> issue them; \<open>postgres\<close> is what \<open>_is_postgres\<close> answers. Alembic
  and the database that carry a statement out are parameters: an \<open>engine\<close> with a view of its
  catalogue, of which \<open>documented\<close> says what each statement does to it while no table holds rows.
\<close>

section \<open>Catalogues\<close>

datatype sql_type = Uuid | String | DateTime | Date | Boolean | Numeric nat nat | Enum string "string list"

text \<open>
  A column as stored: on SQLite an enum is a VARCHAR as long as its longest member; on Postgres it
  refers to a type of its own.
\<close>

datatype stored_type = Plain sql_type | Varchar nat | Named string

record column =
  cl_name :: string
  cl_type :: sql_type
  cl_nullable :: bool
  cl_default :: "string option"

record stored_column =
  sc_name :: string
  sc_type :: stored_type
  sc_nullable :: bool
  sc_default :: "string option"

datatype unique_key = Unique "string option" "string list"

datatype foreign_key = Foreign "string option" string string

datatype index = Index string "string list" bool

record tbl =
  tb_primary :: "string list"
  tb_columns :: "stored_column list"
  tb_uniques :: "unique_key list"
  tb_foreigns :: "foreign_key list"
  tb_indexes :: "index list"

record catalogue =
  ca_tables :: "(string \<times> tbl) list"
  ca_types :: "(string \<times> string list) list"

definition empty_catalogue :: catalogue where
  "empty_catalogue = \<lparr>ca_tables = [], ca_types = []\<rparr>"

text \<open>
  The statements the revisions use. \<open>checkfirst\<close> makes creating or dropping a type a question about
  whether it is there; \<open>Rewrite\<close>, \<open>Copy_column\<close> and \<open>Set_all\<close> are UPDATEs, which touch rows only.
\<close>

datatype statement =
    Create_table string "column list" "string list" "unique_key list" "foreign_key list"
  | Drop_table string
  | Add_column string column
  | Drop_column string string
  | Rename_column string string string
  | Set_nullable string string bool
  | Drop_default string string
  | Set_type string string sql_type
  | Create_index string string "string list" bool
  | Drop_index string string
  | Create_unique string string "string list"
  | Create_foreign string string string string
  | Drop_constraint string string
  | Create_type string "string list" bool
  | Drop_type string bool
  | Add_value string string
  | Rename_type string string
  | Rewrite string string string string
  | Copy_column string string string
  | Set_all string string string

subsection \<open>What a statement does\<close>

text \<open>
  On Postgres a table with an enum column brings its type with it. Whether that first looks for a
  type of this name is the business of SQLAlchemy and its versions, so it is a parameter: with
  \<open>Postgres False\<close> creating a table fails on a type that is already there.
\<close>

datatype platform = Sqlite | Postgres bool

definition on_postgres :: "platform \<Rightarrow> bool" where
  "on_postgres p = (p \<noteq> Sqlite)"

definition stored_as :: "bool \<Rightarrow> sql_type \<Rightarrow> stored_type" where
  "stored_as postgres ty =
     (case ty of
        Enum n ms \<Rightarrow> if postgres then Named n else Varchar (foldr max (map length ms) 0)
      | t \<Rightarrow> Plain t)"

definition stored :: "bool \<Rightarrow> column \<Rightarrow> stored_column" where
  "stored postgres c =
     \<lparr>sc_name = cl_name c, sc_type = stored_as postgres (cl_type c), sc_nullable = cl_nullable c, sc_default = cl_default c\<rparr>"

definition enums_of :: "column list \<Rightarrow> (string \<times> string list) list" where
  "enums_of cs = concat (map (\<lambda>c. case cl_type c of Enum n ms \<Rightarrow> [(n, ms)] | _ \<Rightarrow> []) cs)"

definition add_type :: "string \<times> string list \<Rightarrow> catalogue \<Rightarrow> catalogue" where
  "add_type t c = (if map_of (ca_types c) (fst t) = None then c\<lparr>ca_types := t # ca_types c\<rparr> else c)"

definition on_table :: "string \<Rightarrow> (tbl \<Rightarrow> tbl option) \<Rightarrow> catalogue \<Rightarrow> catalogue option" where
  "on_table name f c =
     (case map_of (ca_tables c) name of
        None \<Rightarrow> None
      | Some t \<Rightarrow> map_option (\<lambda>t'. c\<lparr>ca_tables := AList.update name t' (ca_tables c)\<rparr>) (f t))"

definition on_column :: "string \<Rightarrow> (stored_column \<Rightarrow> stored_column) \<Rightarrow> tbl \<Rightarrow> tbl option" where
  "on_column name f t =
     (if name \<in> sc_name ` set (tb_columns t)
      then Some (t\<lparr>tb_columns := map (\<lambda>c. if sc_name c = name then f c else c) (tb_columns t)\<rparr>) else None)"

definition unique_columns :: "unique_key \<Rightarrow> string list" where
  "unique_columns u = (case u of Unique n cs \<Rightarrow> cs)"

definition unique_name :: "unique_key \<Rightarrow> string option" where
  "unique_name u = (case u of Unique n cs \<Rightarrow> n)"

definition foreign_column :: "foreign_key \<Rightarrow> string" where
  "foreign_column f = (case f of Foreign n c t \<Rightarrow> c)"

definition foreign_table :: "foreign_key \<Rightarrow> string" where
  "foreign_table f = (case f of Foreign n c t \<Rightarrow> t)"

definition foreign_name :: "foreign_key \<Rightarrow> string option" where
  "foreign_name f = (case f of Foreign n c t \<Rightarrow> n)"

definition index_columns :: "index \<Rightarrow> string list" where
  "index_columns i = (case i of Index n cs u \<Rightarrow> cs)"

definition index_name :: "index \<Rightarrow> string" where
  "index_name i = (case i of Index n cs u \<Rightarrow> n)"

definition has_column :: "tbl \<Rightarrow> string \<Rightarrow> bool" where
  "has_column t name = list_ex (\<lambda>c. sc_name c = name) (tb_columns t)"

definition mentions :: "string \<Rightarrow> tbl \<Rightarrow> bool" where
  "mentions col t \<longleftrightarrow> list_ex (\<lambda>u. col \<in> set (unique_columns u)) (tb_uniques t) \<or>
     list_ex (\<lambda>f. foreign_column f = col) (tb_foreigns t) \<or> list_ex (\<lambda>i. col \<in> set (index_columns i)) (tb_indexes t)"

definition referenced :: "string \<Rightarrow> catalogue \<Rightarrow> bool" where
  "referenced name c \<longleftrightarrow>
     list_ex (\<lambda>(m, t). m \<noteq> name \<and> list_ex (\<lambda>f. foreign_table f = name) (tb_foreigns t)) (ca_tables c)"

definition type_used :: "string \<Rightarrow> catalogue \<Rightarrow> bool" where
  "type_used name c \<longleftrightarrow> list_ex (\<lambda>(m, t). list_ex (\<lambda>x. sc_type x = Named name) (tb_columns t)) (ca_tables c)"

definition index_taken :: "string \<Rightarrow> catalogue \<Rightarrow> bool" where
  "index_taken name c \<longleftrightarrow> list_ex (\<lambda>(m, t). list_ex (\<lambda>i. index_name i = name) (tb_indexes t)) (ca_tables c)"

definition only_if :: "bool \<Rightarrow> 'a \<Rightarrow> 'a option" where
  "only_if b x = (if b then Some x else None)"

fun carry_out :: "platform \<Rightarrow> statement \<Rightarrow> catalogue \<Rightarrow> catalogue option" where
  "carry_out pg (Create_table name cols pk us fs) c =
     only_if (map_of (ca_tables c) name = None \<and>
           list_all (\<lambda>f. foreign_table f = name \<or> map_of (ca_tables c) (foreign_table f) \<noteq> None) fs \<and>
           (pg = Postgres False \<longrightarrow> list_all (\<lambda>(n, ms). map_of (ca_types c) n = None) (enums_of cols)))
       ((if on_postgres pg then foldr add_type (enums_of cols) c else c)
          \<lparr>ca_tables := (name, \<lparr>tb_primary = pk, tb_columns = map (stored (on_postgres pg)) cols, tb_uniques = us, tb_foreigns = fs,
                               tb_indexes = []\<rparr>) # ca_tables c\<rparr>)"
| "carry_out pg (Drop_table name) c =
     only_if (map_of (ca_tables c) name \<noteq> None \<and> \<not> referenced name c)
       (c\<lparr>ca_tables := AList.delete name (ca_tables c)\<rparr>)"
| "carry_out pg (Add_column name col) c =
     on_table name (\<lambda>t. only_if (\<not> has_column t (cl_name col)) (t\<lparr>tb_columns := tb_columns t @ [stored (on_postgres pg) col]\<rparr>)) c"
| "carry_out pg (Drop_column name col) c =
     on_table name (\<lambda>t. only_if (has_column t col \<and> \<not> mentions col t)
       (t\<lparr>tb_columns := filter (\<lambda>x. sc_name x \<noteq> col) (tb_columns t)\<rparr>)) c"
| "carry_out pg (Rename_column name old new) c =
     on_table name (\<lambda>t. if has_column t new \<or> mentions old t then None
       else on_column old (\<lambda>x. x\<lparr>sc_name := new\<rparr>) t) c"
| "carry_out pg (Set_nullable name col b) c = on_table name (on_column col (\<lambda>x. x\<lparr>sc_nullable := b\<rparr>)) c"
| "carry_out pg (Drop_default name col) c = on_table name (on_column col (\<lambda>x. x\<lparr>sc_default := None\<rparr>)) c"
| "carry_out pg (Set_type name col ty) c = on_table name (on_column col (\<lambda>x. x\<lparr>sc_type := stored_as (on_postgres pg) ty\<rparr>)) c"
| "carry_out pg (Create_index i name cols u) c =
     (if index_taken i c then None
      else on_table name (\<lambda>t. only_if (list_all (has_column t) cols) (t\<lparr>tb_indexes := Index i cols u # tb_indexes t\<rparr>)) c)"
| "carry_out pg (Drop_index i name) c =
     on_table name (\<lambda>t. only_if (list_ex (\<lambda>x. index_name x = i) (tb_indexes t))
       (t\<lparr>tb_indexes := filter (\<lambda>x. index_name x \<noteq> i) (tb_indexes t)\<rparr>)) c"
| "carry_out pg (Create_unique n name cols) c =
     on_table name (\<lambda>t. only_if (list_all (has_column t) cols) (t\<lparr>tb_uniques := Unique (Some n) cols # tb_uniques t\<rparr>)) c"
| "carry_out pg (Create_foreign n name col target) c =
     (if map_of (ca_tables c) target = None then None
      else on_table name (\<lambda>t. only_if (has_column t col) (t\<lparr>tb_foreigns := Foreign (Some n) col target # tb_foreigns t\<rparr>)) c)"
| "carry_out pg (Drop_constraint n name) c =
     on_table name (\<lambda>t. only_if (list_ex (\<lambda>u. unique_name u = Some n) (tb_uniques t) \<or>
                              list_ex (\<lambda>f. foreign_name f = Some n) (tb_foreigns t))
       (t\<lparr>tb_uniques := filter (\<lambda>u. unique_name u \<noteq> Some n) (tb_uniques t),
          tb_foreigns := filter (\<lambda>f. foreign_name f \<noteq> Some n) (tb_foreigns t)\<rparr>)) c"
| "carry_out pg (Create_type n ms checkfirst) c =
     (if \<not> on_postgres pg then Some c else only_if (checkfirst \<or> map_of (ca_types c) n = None) (add_type (n, ms) c))"
| "carry_out pg (Drop_type n checkfirst) c =
     (if \<not> on_postgres pg then Some c
      else only_if ((checkfirst \<or> map_of (ca_types c) n \<noteq> None) \<and> \<not> type_used n c)
             (c\<lparr>ca_types := AList.delete n (ca_types c)\<rparr>))"
| "carry_out pg (Add_value n v) c =
     (case map_of (ca_types c) n of
        None \<Rightarrow> None
      | Some ms \<Rightarrow> Some (if v \<in> set ms then c else c\<lparr>ca_types := AList.update n (ms @ [v]) (ca_types c)\<rparr>))"
| "carry_out pg (Rename_type old new) c =
     (case map_of (ca_types c) old of
        None \<Rightarrow> None
      | Some ms \<Rightarrow>
          only_if (map_of (ca_types c) new = None)
            (c\<lparr>ca_types := (new, ms) # AList.delete old (ca_types c),
               ca_tables := map (\<lambda>(m, t). (m, t\<lparr>tb_columns :=
                 map (\<lambda>x. if sc_type x = Named old then x\<lparr>sc_type := Named new\<rparr> else x) (tb_columns t)\<rparr>)) (ca_tables c)\<rparr>))"
| "carry_out pg (Rewrite name col old new) c = on_table name (\<lambda>t. only_if (has_column t col) t) c"
| "carry_out pg (Copy_column name col source) c = on_table name (\<lambda>t. only_if (has_column t col \<and> has_column t source) t) c"
| "carry_out pg (Set_all name col v) c = on_table name (\<lambda>t. only_if (has_column t col) t) c"

fun carry_all :: "platform \<Rightarrow> statement list \<Rightarrow> catalogue \<Rightarrow> catalogue option" where
  "carry_all pg [] c = Some c"
| "carry_all pg (st # sts) c = (case carry_out pg st c of None \<Rightarrow> None | Some c' \<Rightarrow> carry_all pg sts c')"

section \<open>The revisions\<close>

definition required :: "string \<Rightarrow> sql_type \<Rightarrow> column" where
  "required n ty = \<lparr>cl_name = n, cl_type = ty, cl_nullable = False, cl_default = None\<rparr>"

definition optional :: "string \<Rightarrow> sql_type \<Rightarrow> column" where
  "optional n ty = \<lparr>cl_name = n, cl_type = ty, cl_nullable = True, cl_default = None\<rparr>"

definition zero_by_default :: "string \<Rightarrow> sql_type \<Rightarrow> column" where
  "zero_by_default n ty = \<lparr>cl_name = n, cl_type = ty, cl_nullable = False, cl_default = Some ''0''\<rparr>"

definition upgrade_initial :: "bool \<Rightarrow> statement list" where
  "upgrade_initial postgres =
     [Create_table ''users''
        [required ''id'' Uuid, required ''email'' String, required ''hashed_password'' String, required ''full_name'' String,
         required ''kyc_status'' (Enum ''kycstatus'' [''NOT_STARTED'', ''PENDING'', ''APPROVED'', ''REJECTED'']),
         required ''is_admin'' Boolean, optional ''created_at'' DateTime] [''id''] [] [],
      Create_index ''ix_users_email'' ''users'' [''email''] True,
      Create_table ''beneficiaries''
        [required ''id'' Uuid, required ''sender_id'' Uuid, required ''full_name'' String, required ''contact'' String,
         required ''country'' String, required ''preferred_payout_currency'' String,
         required ''relationship_to_sender'' String, optional ''created_at'' DateTime] [''id'']
        [Unique (Some ''uq_beneficiary_sender_contact'') [''sender_id'', ''contact'']]
        [Foreign None ''sender_id'' ''users''],
      Create_table ''kyc_applications''
        [required ''id'' Uuid, required ''user_id'' Uuid, required ''full_name'' String, required ''date_of_birth'' Date,
         required ''nationality'' String, required ''identification_number'' String, required ''residential_address'' String,
         required ''mobile_number'' String, required ''email'' String, required ''source_of_funds'' String,
         required ''status'' (Enum ''applicationstatus'' [''PENDING'', ''APPROVED'', ''REJECTED'']),
         optional ''reviewed_by_admin_id'' Uuid, optional ''reviewed_at'' DateTime, optional ''rejection_reason'' String,
         optional ''submitted_at'' DateTime] [''id''] []
        [Foreign None ''reviewed_by_admin_id'' ''users'', Foreign None ''user_id'' ''users''],
      Create_table ''wallets''
        [required ''id'' Uuid, required ''user_id'' Uuid, optional ''xrpl_address'' String,
         optional ''xrpl_encrypted_seed'' String, required ''rlusd_balance'' (Numeric 18 6),
         optional ''trustline_established'' DateTime, optional ''created_at'' DateTime] [''id'']
        [Unique None [''user_id'']] [Foreign None ''user_id'' ''users''],
      Create_table ''remittances''
        [required ''id'' Uuid, required ''idempotency_key'' String, required ''sender_id'' Uuid,
         required ''beneficiary_id'' Uuid, required ''zar_send_amount'' (Numeric 12 2), required ''fx_rate_used'' (Numeric 12 6),
         required ''transaction_fee_zar'' (Numeric 12 2), required ''fx_margin_zar'' (Numeric 12 2),
         required ''net_converted_zar'' (Numeric 12 2), required ''rlusd_amount'' (Numeric 18 6),
         required ''status'' (Enum ''remittancestatus''
           [''QUOTED'', ''CASH_IN_CONFIRMED'', ''QUEUED'', ''SETTLING'', ''SETTLED'', ''FAILED'']),
         optional ''xrpl_tx_hash'' String, optional ''cash_in_method'' String, optional ''created_at'' DateTime,
         optional ''settled_at'' DateTime] [''id'']
        [Unique None [''idempotency_key'']]
        [Foreign None ''beneficiary_id'' ''beneficiaries'', Foreign None ''sender_id'' ''users''],
      Create_table ''wallet_transactions''
        [required ''id'' Uuid, required ''wallet_id'' Uuid, optional ''remittance_id'' Uuid, required ''direction'' String,
         required ''amount_rlusd'' (Numeric 18 6), optional ''xrpl_tx_hash'' String, required ''status'' String,
         optional ''created_at'' DateTime] [''id''] []
        [Foreign None ''remittance_id'' ''remittances'', Foreign None ''wallet_id'' ''wallets'']]"

definition downgrade_initial :: "bool \<Rightarrow> statement list" where
  "downgrade_initial postgres =
     [Drop_table ''wallet_transactions'', Drop_table ''remittances'', Drop_table ''wallets'',
      Drop_table ''kyc_applications'', Drop_table ''beneficiaries'', Drop_index ''ix_users_email'' ''users'',
      Drop_table ''users'', Drop_type ''remittancestatus'' True, Drop_type ''applicationstatus'' True,
      Drop_type ''kycstatus'' True]"

definition upgrade_treasury :: "bool \<Rightarrow> statement list" where
  "upgrade_treasury postgres =
     [Add_column ''remittances'' (optional ''treasury_batch_id'' String),
      Add_column ''remittances'' (optional ''treasury_settled_at'' DateTime)]"

definition downgrade_treasury :: "bool \<Rightarrow> statement list" where
  "downgrade_treasury postgres =
     [Drop_column ''remittances'' ''treasury_settled_at'', Drop_column ''remittances'' ''treasury_batch_id'']"

definition pool_roles :: "string list" where
  "pool_roles = [''SEND_POOL'', ''PAYOUT_POOL'']"

definition upgrade_pooled_custody :: "bool \<Rightarrow> statement list" where
  "upgrade_pooled_custody postgres =
     [Create_type ''poolrole'' pool_roles True,
      Create_table ''platform_wallets''
        [required ''id'' Uuid, required ''role'' (Enum ''poolrole'' pool_roles), required ''xrpl_address'' String,
         required ''xrpl_encrypted_seed'' String, optional ''trustline_established'' DateTime,
         optional ''created_at'' DateTime] [''id''] [Unique None [''role'']] [],
      Create_table ''ledger_balances''
        [required ''id'' Uuid, required ''wallet_id'' Uuid, required ''currency'' String, required ''amount'' (Numeric 18 6),
         optional ''updated_at'' DateTime] [''id'']
        [Unique (Some ''uq_ledger_balance_wallet_currency'') [''wallet_id'', ''currency'']]
        [Foreign None ''wallet_id'' ''wallets''],
      Add_column ''wallet_transactions'' (optional ''currency'' String),
      Add_column ''wallet_transactions'' (optional ''amount'' (Numeric 18 6)),
      Add_column ''wallet_transactions'' (optional ''failure_reason'' String),
      Set_all ''wallet_transactions'' ''currency'' ''RLUSD'',
      Copy_column ''wallet_transactions'' ''amount'' ''amount_rlusd'',
      Set_nullable ''wallet_transactions'' ''currency'' False,
      Set_nullable ''wallet_transactions'' ''amount'' False,
      Create_unique ''uq_wallet_tx_remittance_direction_status'' ''wallet_transactions''
        [''remittance_id'', ''direction'', ''status''],
      Drop_column ''wallet_transactions'' ''amount_rlusd'',
      Drop_column ''wallets'' ''rlusd_balance'', Drop_column ''wallets'' ''xrpl_address'',
      Drop_column ''wallets'' ''xrpl_encrypted_seed'', Drop_column ''wallets'' ''trustline_established'']"

definition downgrade_pooled_custody :: "bool \<Rightarrow> statement list" where
  "downgrade_pooled_custody postgres =
     [Add_column ''wallets'' (optional ''xrpl_encrypted_seed'' String),
      Add_column ''wallets'' (optional ''trustline_established'' DateTime),
      Add_column ''wallets'' (optional ''xrpl_address'' String),
      Add_column ''wallets'' (zero_by_default ''rlusd_balance'' (Numeric 18 6)),
      Drop_default ''wallets'' ''rlusd_balance'',
      Drop_constraint ''uq_wallet_tx_remittance_direction_status'' ''wallet_transactions'',
      Add_column ''wallet_transactions'' (zero_by_default ''amount_rlusd'' (Numeric 18 6)),
      Copy_column ''wallet_transactions'' ''amount_rlusd'' ''amount'',
      Drop_default ''wallet_transactions'' ''amount_rlusd'',
      Drop_column ''wallet_transactions'' ''failure_reason'', Drop_column ''wallet_transactions'' ''amount'',
      Drop_column ''wallet_transactions'' ''currency'',
      Drop_table ''ledger_balances'', Drop_table ''platform_wallets'', Drop_type ''poolrole'' True]"

definition RELABEL :: "(string \<times> string) list" where
  "RELABEL = [(''ledger_balances'', ''currency''), (''wallet_transactions'', ''currency''),
     (''beneficiaries'', ''preferred_payout_currency'')]"

definition upgrade_rename :: "bool \<Rightarrow> statement list" where
  "upgrade_rename postgres =
     Rename_column ''remittances'' ''rlusd_amount'' ''uctusd_amount'' #
     map (\<lambda>(table, column). Rewrite table column ''RLUSD'' ''UCTUSD'') RELABEL"

definition downgrade_rename :: "bool \<Rightarrow> statement list" where
  "downgrade_rename postgres =
     map (\<lambda>(table, column). Rewrite table column ''UCTUSD'' ''RLUSD'') RELABEL @
     [Rename_column ''remittances'' ''uctusd_amount'' ''rlusd_amount'']"

definition upgrade_cash_outs :: "bool \<Rightarrow> statement list" where
  "upgrade_cash_outs postgres =
     (let statuses = [''REQUESTED'', ''APPROVED'', ''COMPLETED'', ''FAILED''] in
     [Create_type ''cashoutstatus'' statuses True,
      Create_table ''cash_outs''
        [required ''id'' Uuid, required ''user_id'' Uuid, required ''uctusd_amount'' (Numeric 18 6),
         required ''cash_out_fee_uctusd'' (Numeric 18 6), required ''net_uctusd'' (Numeric 18 6),
         required ''payout_currency'' String, required ''payout_amount'' (Numeric 18 6),
         required ''fx_rate_used'' (Numeric 12 6), required ''status'' (Enum ''cashoutstatus'' statuses),
         optional ''failure_reason'' String, optional ''debit_transaction_id'' Uuid,
         optional ''credit_transaction_id'' Uuid, required ''requested_at'' DateTime, optional ''approved_at'' DateTime,
         optional ''completed_at'' DateTime] [''id''] []
        [Foreign None ''user_id'' ''users'', Foreign None ''debit_transaction_id'' ''wallet_transactions'',
         Foreign None ''credit_transaction_id'' ''wallet_transactions''],
      Create_table ''fx_rates''
        [required ''id'' Uuid, required ''currency_pair'' String, required ''rate'' (Numeric 12 6),
         required ''effective_from'' DateTime, optional ''source'' String, optional ''created_at'' DateTime] [''id''] [] [],
      Create_index ''ix_fx_rates_currency_pair'' ''fx_rates'' [''currency_pair''] False,
      Add_column ''remittances'' (optional ''quote_expires_at'' DateTime),
      Add_column ''remittances'' (optional ''cash_in_confirmed_at'' DateTime)])"

definition downgrade_cash_outs :: "bool \<Rightarrow> statement list" where
  "downgrade_cash_outs postgres =
     [Drop_column ''remittances'' ''cash_in_confirmed_at'', Drop_column ''remittances'' ''quote_expires_at'',
      Drop_index ''ix_fx_rates_currency_pair'' ''fx_rates'', Drop_table ''fx_rates'', Drop_table ''cash_outs'',
      Drop_type ''cashoutstatus'' True]"

definition REMITTANCE_STATUSES_AFTER :: "string list" where
  "REMITTANCE_STATUSES_AFTER = [''QUOTED'', ''CASH_IN_CONFIRMED'', ''QUEUED'', ''SETTLING'', ''SETTLED'', ''FAILED'', ''REFUNDED'']"

definition REMITTANCE_STATUSES_BEFORE :: "string list" where
  "REMITTANCE_STATUSES_BEFORE = butlast REMITTANCE_STATUSES_AFTER"

definition upgrade_audit :: "bool \<Rightarrow> statement list" where
  "upgrade_audit postgres =
     (if postgres then [Add_value ''remittancestatus'' ''REFUNDED''] else []) @
     [Add_column ''cash_outs'' (optional ''idempotency_key'' String),
      Add_column ''cash_outs'' (optional ''reviewed_by_admin_id'' Uuid),
      Create_foreign ''fk_cash_outs_reviewed_by_admin_id_users'' ''cash_outs'' ''reviewed_by_admin_id'' ''users'',
      Create_index ''uq_cash_outs_idempotency_key'' ''cash_outs'' [''idempotency_key''] True,
      Create_index ''ix_cash_outs_user_id'' ''cash_outs'' [''user_id''] False,
      Create_index ''ix_wallet_transactions_wallet_id'' ''wallet_transactions'' [''wallet_id''] False,
      Create_index ''ix_remittances_sender_id_created_at'' ''remittances'' [''sender_id'', ''created_at''] False]"

definition downgrade_audit :: "bool \<Rightarrow> statement list" where
  "downgrade_audit postgres =
     [Drop_index ''ix_remittances_sender_id_created_at'' ''remittances'',
      Drop_index ''ix_wallet_transactions_wallet_id'' ''wallet_transactions'',
      Drop_index ''ix_cash_outs_user_id'' ''cash_outs'', Drop_index ''uq_cash_outs_idempotency_key'' ''cash_outs'',
      Drop_constraint ''fk_cash_outs_reviewed_by_admin_id_users'' ''cash_outs'',
      Drop_column ''cash_outs'' ''reviewed_by_admin_id'', Drop_column ''cash_outs'' ''idempotency_key'',
      Rewrite ''remittances'' ''status'' ''REFUNDED'' ''FAILED''] @
     (if postgres
      then [Rename_type ''remittancestatus'' ''remittancestatus_old'',
            Create_type ''remittancestatus'' REMITTANCE_STATUSES_BEFORE False,
            Set_type ''remittances'' ''status'' (Enum ''remittancestatus'' REMITTANCE_STATUSES_BEFORE),
            Drop_type ''remittancestatus_old'' False]
      else [])"

definition CASH_OUT_STATUSES_AFTER :: "string list" where
  "CASH_OUT_STATUSES_AFTER = [''REQUESTED'', ''APPROVED'', ''PROCESSING'', ''COMPLETED'', ''FAILED'']"

definition CASH_OUT_STATUSES_BEFORE :: "string list" where
  "CASH_OUT_STATUSES_BEFORE = filter (\<lambda>s. s \<noteq> ''PROCESSING'') CASH_OUT_STATUSES_AFTER"

definition upgrade_burn :: "bool \<Rightarrow> statement list" where
  "upgrade_burn postgres =
     (if postgres then [Add_value ''cashoutstatus'' ''PROCESSING''] else []) @
     [Add_column ''cash_outs'' (optional ''xrpl_tx_hash'' String)] @
     (if \<not> postgres then [Set_type ''cash_outs'' ''status'' (Enum ''cashoutstatus'' CASH_OUT_STATUSES_AFTER)] else [])"

definition downgrade_burn :: "bool \<Rightarrow> statement list" where
  "downgrade_burn postgres =
     [Rewrite ''cash_outs'' ''status'' ''PROCESSING'' ''APPROVED'', Drop_column ''cash_outs'' ''xrpl_tx_hash''] @
     (if \<not> postgres then [Set_type ''cash_outs'' ''status'' (Enum ''cashoutstatus'' CASH_OUT_STATUSES_BEFORE)] else []) @
     (if postgres
      then [Rename_type ''cashoutstatus'' ''cashoutstatus_old'',
            Create_type ''cashoutstatus'' CASH_OUT_STATUSES_BEFORE False,
            Set_type ''cash_outs'' ''status'' (Enum ''cashoutstatus'' CASH_OUT_STATUSES_BEFORE),
            Drop_type ''cashoutstatus_old'' False]
      else [])"

text \<open>The chain the \<open>down_revision\<close> identifiers form, oldest first.\<close>

record revision =
  rv_id :: string
  rv_down :: "string option"
  rv_upgrade :: "bool \<Rightarrow> statement list"
  rv_downgrade :: "bool \<Rightarrow> statement list"

definition history :: "revision list" where
  "history =
     [\<lparr>rv_id = ''61e1977a85b7'', rv_down = None, rv_upgrade = upgrade_initial, rv_downgrade = downgrade_initial\<rparr>,
      \<lparr>rv_id = ''d546f21aa491'', rv_down = Some ''61e1977a85b7'', rv_upgrade = upgrade_treasury, rv_downgrade = downgrade_treasury\<rparr>,
      \<lparr>rv_id = ''f20b2cb74a0f'', rv_down = Some ''d546f21aa491'', rv_upgrade = upgrade_pooled_custody, rv_downgrade = downgrade_pooled_custody\<rparr>,
      \<lparr>rv_id = ''a3c81f4e57d2'', rv_down = Some ''f20b2cb74a0f'', rv_upgrade = upgrade_rename, rv_downgrade = downgrade_rename\<rparr>,
      \<lparr>rv_id = ''b7f4c9e21d08'', rv_down = Some ''a3c81f4e57d2'', rv_upgrade = upgrade_cash_outs, rv_downgrade = downgrade_cash_outs\<rparr>,
      \<lparr>rv_id = ''c4b81f70d2ae'', rv_down = Some ''b7f4c9e21d08'', rv_upgrade = upgrade_audit, rv_downgrade = downgrade_audit\<rparr>,
      \<lparr>rv_id = ''d8e2a5c71b39'', rv_down = Some ''c4b81f70d2ae'', rv_upgrade = upgrade_burn, rv_downgrade = downgrade_burn\<rparr>]"


definition upgrade :: "platform \<Rightarrow> revision list \<Rightarrow> statement list" where
  "upgrade p rs = concat (map (\<lambda>r. rv_upgrade r (on_postgres p)) rs)"

definition downgrade :: "platform \<Rightarrow> revision list \<Rightarrow> statement list" where
  "downgrade p rs = concat (map (\<lambda>r. rv_downgrade r (on_postgres p)) (rev rs))"

section \<open>The schema the models declare\<close>

text \<open>What \<open>Base.metadata\<close> holds of one class: its table and the indexes declared beside it.\<close>

definition User_table :: "statement list" where
  "User_table =
     [Create_table ''users''
        [required ''id'' Uuid, required ''email'' String, required ''hashed_password'' String, required ''full_name'' String,
         required ''kyc_status'' (Enum ''kycstatus'' [''NOT_STARTED'', ''PENDING'', ''APPROVED'', ''REJECTED'']),
         required ''is_admin'' Boolean, optional ''created_at'' DateTime] [''id''] [] [],
      Create_index ''ix_users_email'' ''users'' [''email''] True]"

definition Beneficiary_table :: "statement list" where
  "Beneficiary_table =
     [Create_table ''beneficiaries''
        [required ''id'' Uuid, required ''sender_id'' Uuid, required ''full_name'' String, required ''contact'' String,
         required ''country'' String, required ''preferred_payout_currency'' String,
         required ''relationship_to_sender'' String, optional ''created_at'' DateTime] [''id'']
        [Unique (Some ''uq_beneficiary_sender_contact'') [''sender_id'', ''contact'']]
        [Foreign None ''sender_id'' ''users'']]"

definition KYCApplication_table :: "statement list" where
  "KYCApplication_table =
     [Create_table ''kyc_applications''
        [required ''id'' Uuid, required ''user_id'' Uuid, required ''full_name'' String, required ''date_of_birth'' Date,
         required ''nationality'' String, required ''identification_number'' String, required ''residential_address'' String,
         required ''mobile_number'' String, required ''email'' String, required ''source_of_funds'' String,
         required ''status'' (Enum ''applicationstatus'' [''PENDING'', ''APPROVED'', ''REJECTED'']),
         optional ''reviewed_by_admin_id'' Uuid, optional ''reviewed_at'' DateTime, optional ''rejection_reason'' String,
         optional ''submitted_at'' DateTime] [''id''] []
        [Foreign None ''user_id'' ''users'', Foreign None ''reviewed_by_admin_id'' ''users'']]"

definition Remittance_table :: "statement list" where
  "Remittance_table =
     [Create_table ''remittances''
        [required ''id'' Uuid, required ''idempotency_key'' String, required ''sender_id'' Uuid, required ''beneficiary_id'' Uuid,
         required ''zar_send_amount'' (Numeric 12 2), required ''fx_rate_used'' (Numeric 12 6),
         required ''transaction_fee_zar'' (Numeric 12 2), required ''fx_margin_zar'' (Numeric 12 2),
         required ''net_converted_zar'' (Numeric 12 2), required ''uctusd_amount'' (Numeric 18 6),
         required ''status'' (Enum ''remittancestatus''
           [''QUOTED'', ''CASH_IN_CONFIRMED'', ''QUEUED'', ''SETTLING'', ''SETTLED'', ''FAILED'', ''REFUNDED'']),
         optional ''xrpl_tx_hash'' String, optional ''cash_in_method'' String, optional ''created_at'' DateTime,
         optional ''quote_expires_at'' DateTime, optional ''cash_in_confirmed_at'' DateTime, optional ''settled_at'' DateTime,
         optional ''treasury_batch_id'' String, optional ''treasury_settled_at'' DateTime] [''id'']
        [Unique None [''idempotency_key'']]
        [Foreign None ''sender_id'' ''users'', Foreign None ''beneficiary_id'' ''beneficiaries''],
      Create_index ''ix_remittances_sender_id_created_at'' ''remittances'' [''sender_id'', ''created_at''] False]"

definition CashOut_table :: "statement list" where
  "CashOut_table =
     [Create_table ''cash_outs''
        [required ''id'' Uuid, required ''user_id'' Uuid, required ''uctusd_amount'' (Numeric 18 6),
         required ''cash_out_fee_uctusd'' (Numeric 18 6), required ''net_uctusd'' (Numeric 18 6),
         required ''payout_currency'' String, required ''payout_amount'' (Numeric 18 6), required ''fx_rate_used'' (Numeric 12 6),
         required ''status'' (Enum ''cashoutstatus'' [''REQUESTED'', ''APPROVED'', ''PROCESSING'', ''COMPLETED'', ''FAILED'']),
         optional ''failure_reason'' String, optional ''debit_transaction_id'' Uuid, optional ''credit_transaction_id'' Uuid,
         optional ''idempotency_key'' String, optional ''xrpl_tx_hash'' String, optional ''reviewed_by_admin_id'' Uuid,
         required ''requested_at'' DateTime, optional ''approved_at'' DateTime, optional ''completed_at'' DateTime] [''id''] []
        [Foreign None ''user_id'' ''users'', Foreign None ''debit_transaction_id'' ''wallet_transactions'',
         Foreign None ''credit_transaction_id'' ''wallet_transactions'', Foreign None ''reviewed_by_admin_id'' ''users''],
      Create_index ''uq_cash_outs_idempotency_key'' ''cash_outs'' [''idempotency_key''] True,
      Create_index ''ix_cash_outs_user_id'' ''cash_outs'' [''user_id''] False]"

definition Wallet_table :: "statement list" where
  "Wallet_table =
     [Create_table ''wallets'' [required ''id'' Uuid, required ''user_id'' Uuid, optional ''created_at'' DateTime] [''id'']
        [Unique None [''user_id'']] [Foreign None ''user_id'' ''users'']]"

definition LedgerBalance_table :: "statement list" where
  "LedgerBalance_table =
     [Create_table ''ledger_balances''
        [required ''id'' Uuid, required ''wallet_id'' Uuid, required ''currency'' String, required ''amount'' (Numeric 18 6),
         optional ''updated_at'' DateTime] [''id'']
        [Unique (Some ''uq_ledger_balance_wallet_currency'') [''wallet_id'', ''currency'']]
        [Foreign None ''wallet_id'' ''wallets'']]"

definition WalletTransaction_table :: "statement list" where
  "WalletTransaction_table =
     [Create_table ''wallet_transactions''
        [required ''id'' Uuid, required ''wallet_id'' Uuid, optional ''remittance_id'' Uuid, required ''direction'' String,
         required ''currency'' String, required ''amount'' (Numeric 18 6), optional ''xrpl_tx_hash'' String,
         required ''status'' String, optional ''failure_reason'' String, optional ''created_at'' DateTime] [''id'']
        [Unique (Some ''uq_wallet_tx_remittance_direction_status'') [''remittance_id'', ''direction'', ''status'']]
        [Foreign None ''wallet_id'' ''wallets'', Foreign None ''remittance_id'' ''remittances''],
      Create_index ''ix_wallet_transactions_wallet_id'' ''wallet_transactions'' [''wallet_id''] False]"

definition PlatformWallet_table :: "statement list" where
  "PlatformWallet_table =
     [Create_table ''platform_wallets''
        [required ''id'' Uuid, required ''role'' (Enum ''poolrole'' [''SEND_POOL'', ''PAYOUT_POOL'']),
         required ''xrpl_address'' String, required ''xrpl_encrypted_seed'' String, optional ''trustline_established'' DateTime,
         optional ''created_at'' DateTime] [''id''] [Unique None [''role'']] []]"

definition FxRate_table :: "statement list" where
  "FxRate_table =
     [Create_table ''fx_rates''
        [required ''id'' Uuid, required ''currency_pair'' String, required ''rate'' (Numeric 12 6),
         required ''effective_from'' DateTime, optional ''source'' String, optional ''created_at'' DateTime] [''id''] [] [],
      Create_index ''ix_fx_rates_currency_pair'' ''fx_rates'' [''currency_pair''] False]"

text \<open>The tables of \<open>Base.metadata\<close>, a table after those it refers to.\<close>

definition metadata :: "statement list" where
  "metadata = User_table @ Beneficiary_table @ KYCApplication_table @ Wallet_table @ Remittance_table @
     WalletTransaction_table @ CashOut_table @ LedgerBalance_table @ PlatformWallet_table @ FxRate_table"

definition declared_schema :: "platform \<Rightarrow> catalogue option" where
  "declared_schema p = carry_all p metadata empty_catalogue"

text \<open>
  Two catalogues hold the same schema: the same tables with the same columns, keys and indexes and
  the same types, whatever the order they were made in. A foreign key counts by its column and its
  target, as the models leave it to the database to name it.
\<close>

text \<open>Equations under which the kernel compares names character by character only as far as they agree.\<close>

lemma equal_Cons_lazy [code]:
  "HOL.equal (x # xs) (y # ys) = (if HOL.equal x y then HOL.equal xs ys else False)"
  "HOL.equal [] (y # ys) = False" "HOL.equal (x # xs) [] = False" "HOL.equal [] [] = True"
  by (simp_all add: equal_eq)

lemma equal_Char_lazy [code]:
  "HOL.equal (Char a0 a1 a2 a3 a4 a5 a6 a7) (Char b0 b1 b2 b3 b4 b5 b6 b7) =
     (if a0 = b0 then if a1 = b1 then if a2 = b2 then if a3 = b3 then if a4 = b4 then if a5 = b5 then if a6 = b6 then a7 = b7
        else False else False else False else False else False else False else False)"
  by (simp add: equal_eq)

fun among :: "'a \<Rightarrow> 'a list \<Rightarrow> bool" where
  "among x [] = False"
| "among x (y # ys) = (if x = y then True else among x ys)"

definition same_elements :: "'a list \<Rightarrow> 'a list \<Rightarrow> bool" where
  "same_elements xs ys \<longleftrightarrow> length xs = length ys \<and> list_all (\<lambda>x. among x ys) xs \<and> list_all (\<lambda>y. among y xs) ys"

definition same_table :: "tbl \<Rightarrow> tbl \<Rightarrow> bool" where
  "same_table t u \<longleftrightarrow> tb_primary t = tb_primary u \<and> same_elements (tb_columns t) (tb_columns u) \<and>
     same_elements (tb_uniques t) (tb_uniques u) \<and> same_elements (tb_indexes t) (tb_indexes u) \<and>
     same_elements (map (\<lambda>f. (foreign_column f, foreign_table f)) (tb_foreigns t))
                   (map (\<lambda>f. (foreign_column f, foreign_table f)) (tb_foreigns u))"

definition same_entries :: "('a \<Rightarrow> 'a \<Rightarrow> bool) \<Rightarrow> (string \<times> 'a) list \<Rightarrow> (string \<times> 'a) list \<Rightarrow> bool" where
  "same_entries eq xs ys \<longleftrightarrow> same_elements (map fst xs) (map fst ys) \<and>
     list_all (\<lambda>(n, x). case map_of ys n of None \<Rightarrow> False | Some y \<Rightarrow> eq x y) xs"

definition same_schema :: "catalogue \<Rightarrow> catalogue \<Rightarrow> bool" where
  "same_schema c d \<longleftrightarrow> same_entries same_table (ca_tables c) (ca_tables d) \<and>
     same_entries same_elements (ca_types c) (ca_types d)"

section \<open>The engine\<close>

record 'e engine =
  en_exec :: "statement \<Rightarrow> 'e \<Rightarrow> 'e option"
  en_view :: "'e \<Rightarrow> catalogue"

definition documented :: "platform \<Rightarrow> 'e engine \<Rightarrow> bool" where
  "documented p eng \<longleftrightarrow> (\<forall>st e. map_option (en_view eng) (en_exec eng st e) = carry_out p st (en_view eng e))"

fun exec_all :: "'e engine \<Rightarrow> statement list \<Rightarrow> 'e \<Rightarrow> 'e option" where
  "exec_all eng [] e = Some e"
| "exec_all eng (st # sts) e = (case en_exec eng st e of None \<Rightarrow> None | Some e' \<Rightarrow> exec_all eng sts e')"

lemma exec_all_view:
  "documented p eng \<Longrightarrow> map_option (en_view eng) (exec_all eng sts e) = carry_all p sts (en_view eng e)"
proof (induction sts arbitrary: e)
  case (Cons st sts)
  have *: "carry_out p st (en_view eng e) = map_option (en_view eng) (en_exec eng st e)"
    using Cons.prems by (simp add: documented_def)
  show ?case by (cases "en_exec eng st e") (simp_all add: * Cons.IH [OF Cons.prems])
qed simp

lemma exec_all_some:
  assumes "documented p eng" "carry_all p sts (en_view eng e) = Some c"
  obtains e' where "exec_all eng sts e = Some e'" "en_view eng e' = c"
  using exec_all_view [OF assms(1), of sts e] assms(2) by auto

lemma exec_all_none:
  "documented p eng \<Longrightarrow> carry_all p sts (en_view eng e) = None \<Longrightarrow> exec_all eng sts e = None"
  using exec_all_view [of p eng sts e] by simp

lemma carry_all_append:
  "carry_all p (xs @ ys) c = (case carry_all p xs c of None \<Rightarrow> None | Some c' \<Rightarrow> carry_all p ys c')"
  by (induction xs arbitrary: c) (auto split: option.splits)

section \<open>What the history makes of an empty database\<close>

text \<open>
  \<open>walk\<close> goes up the history and down again. It answers the catalogue it comes back to, provided the
  head holds the schema \<open>d\<close> and every step down leaves the schema that revision started from.
\<close>

fun walk :: "platform \<Rightarrow> catalogue \<Rightarrow> revision list \<Rightarrow> catalogue \<Rightarrow> catalogue option" where
  "walk p d [] c = (if same_schema c d then Some c else None)"
| "walk p d (r # rs) c =
     (case carry_all p (upgrade p [r]) c of
        None \<Rightarrow> None
      | Some c1 \<Rightarrow>
          (case walk p d rs c1 of
             None \<Rightarrow> None
           | Some c2 \<Rightarrow>
               (case carry_all p (downgrade p [r]) c2 of
                  None \<Rightarrow> None
                | Some c3 \<Rightarrow> if same_schema c3 c then Some c3 else None)))"

definition walks :: "platform \<Rightarrow> bool" where
  "walks p =
     (case declared_schema p of
        None \<Rightarrow> False
      | Some d \<Rightarrow> (case walk p d history empty_catalogue of None \<Rightarrow> False | Some c \<Rightarrow> True))"

lemma walks_sqlite: "walks Sqlite"
  by code_simp

lemma walks_postgres: "walks (Postgres True)"
  by code_simp

lemma stops_postgres: "carry_all (Postgres False) (upgrade (Postgres False) (take 3 history)) empty_catalogue = None"
  by code_simp

lemma upgrade_Cons: "upgrade p (r # rs) = upgrade p [r] @ upgrade p rs"
  by (simp add: upgrade_def)

lemma upgrade_append: "upgrade p (rs @ qs) = upgrade p rs @ upgrade p qs"
  by (simp add: upgrade_def)

lemma downgrade_Cons: "downgrade p (r # rs) = downgrade p rs @ downgrade p [r]"
  by (simp add: downgrade_def)

lemma walk_round:
  "walk p d rs c = Some c' \<Longrightarrow>
     \<exists>h. carry_all p (upgrade p rs) c = Some h \<and> same_schema h d \<and> carry_all p (downgrade p rs) h = Some c'"
proof (induction p d rs c arbitrary: c' rule: walk.induct)
  case (1 p d c)
  then show ?case by (simp add: upgrade_def downgrade_def split: if_splits)
next
  case (2 p d r rs c)
  obtain c1 c2 where c1: "carry_all p (upgrade p [r]) c = Some c1" and w: "walk p d rs c1 = Some c2"
    and c3: "carry_all p (downgrade p [r]) c2 = Some c'"
    using "2.prems" by (auto split: option.splits if_splits)
  from "2.IH" [OF c1 w] c1 c3 show ?case
    by (auto simp: upgrade_Cons [of p r rs] downgrade_Cons [of p r rs] carry_all_append)
qed

lemma walk_undoes:
  assumes "walk p d rs c = Some c'" and "i < length rs"
  shows "\<exists>ci h c2. carry_all p (upgrade p (take i rs)) c = Some ci \<and> carry_all p (upgrade p rs) c = Some h \<and>
           carry_all p (downgrade p (drop i rs)) h = Some c2 \<and> same_schema c2 ci"
  using assms
proof (induction p d rs c arbitrary: i c' rule: walk.induct)
  case (2 p d r rs c)
  obtain c1 c2 where c1: "carry_all p (upgrade p [r]) c = Some c1" and w: "walk p d rs c1 = Some c2"
    and same: "same_schema c' c"
    using "2.prems"(1) by (auto split: option.splits if_splits)
  show ?case
  proof (cases i)
    case 0
    then show ?thesis using walk_round [OF "2.prems"(1)] same by (auto simp: upgrade_def [of p "[]"])
  next
    case (Suc j)
    have "j < length rs" using "2.prems"(2) Suc by simp
    from "2.IH" [OF c1 w this] c1 Suc show ?thesis
      by (auto simp: upgrade_Cons [of p r rs] upgrade_Cons [of p r "take j rs"] carry_all_append)
  qed
qed simp

lemma same_schema_empty: "same_schema c empty_catalogue \<Longrightarrow> c = empty_catalogue"
  by (simp add: same_schema_def same_entries_def same_elements_def empty_catalogue_def)

lemma walks_platform: "p \<noteq> Postgres False \<Longrightarrow> walks p"
  by (cases p) (auto simp: walks_sqlite walks_postgres)

lemma stops_all: "carry_all (Postgres False) (upgrade (Postgres False) history) empty_catalogue = None"
proof -
  have "history = take 3 history @ drop 3 history" by simp
  then show ?thesis by (metis (no_types, lifting) carry_all_append option.simps(4) stops_postgres upgrade_append)
qed

text \<open>Each \<open>down_revision\<close> names the revision before.\<close>

lemma history_linked:
  "map rv_down history = None # map (\<lambda>r. Some (rv_id r)) (butlast history)" "distinct (map rv_id history)"
  by (simp_all add: history_def)

text \<open>
  C33. The migrations build the schema the models declare. On an engine that does what its statements
  are documented to do, \<open>alembic upgrade head\<close> from an empty database runs every revision and ends in
  the schema \<open>Base.metadata\<close> declares: every table, column with its type, nullability and default,
  key and index. It does so on SQLite, and on Postgres if creating a table passes over an enum type
  that is already there. If it does not, the upgrade stops on the type that revision
  \<open>f20b2cb74a0f\<close> has just created itself, and no upgrade reaches the head.
\<close>

theorem migrations_reach_the_models:
  assumes "documented p eng" and "en_view eng e = empty_catalogue"
  shows "if p = Postgres False then exec_all eng (upgrade p history) e = None
         else \<exists>e' d. exec_all eng (upgrade p history) e = Some e' \<and> declared_schema p = Some d \<and>
                same_schema (en_view eng e') d"
proof (cases "p = Postgres False")
  case True
  then show ?thesis using exec_all_none [OF assms(1)] stops_all assms(2) by simp
next
  case False
  then obtain c d where c: "walk p d history empty_catalogue = Some c" and d: "declared_schema p = Some d"
    using walks_platform [of p] by (auto simp: walks_def split: option.splits)
  obtain h where h: "carry_all p (upgrade p history) empty_catalogue = Some h" "same_schema h d"
    using walk_round [OF c] by blast
  obtain e' where "exec_all eng (upgrade p history) e = Some e'" "en_view eng e' = h"
    using exec_all_some [OF assms(1)] h(1) assms(2) by metis
  then show ?thesis using False d h(2) by auto
qed

definition catalogue_engine :: "platform \<Rightarrow> catalogue engine" where
  "catalogue_engine p = \<lparr>en_exec = carry_out p, en_view = id\<rparr>"

lemma catalogue_engine_documented: "documented p (catalogue_engine p)"
  by (simp add: documented_def catalogue_engine_def option.map_id0)

theorem migrations_reach_the_models_witness:
  "(\<exists>e' d. exec_all (catalogue_engine Sqlite) (upgrade Sqlite history) empty_catalogue = Some e' \<and>
      declared_schema Sqlite = Some d \<and> same_schema (en_view (catalogue_engine Sqlite) e') d) \<and>
   exec_all (catalogue_engine (Postgres False)) (upgrade (Postgres False) history) empty_catalogue = None"
  using migrations_reach_the_models [OF catalogue_engine_documented [of Sqlite], of empty_catalogue]
    migrations_reach_the_models [OF catalogue_engine_documented [of "Postgres False"], of empty_catalogue]
  by (simp add: catalogue_engine_def)

text \<open>
  The history can be undone to any point. From the head, \<open>alembic downgrade\<close> to a revision runs the
  \<open>downgrade\<close> of every later one, newest first, and leaves the schema the upgrade had at that revision.
  Down to the base it leaves an empty database, with no table and no enum type behind, so that
  upgrading again starts afresh.
\<close>

theorem migrations_undo:
  assumes "documented p eng" and "en_view eng e = empty_catalogue" and "p \<noteq> Postgres False" and "i < length history"
  shows "\<exists>head e1 e2. exec_all eng (upgrade p history) e = Some head \<and>
     exec_all eng (upgrade p (take i history)) e = Some e1 \<and> exec_all eng (downgrade p (drop i history)) head = Some e2 \<and>
     same_schema (en_view eng e2) (en_view eng e1) \<and> (i = 0 \<longrightarrow> en_view eng e2 = empty_catalogue)"
proof -
  note some = exec_all_some [OF assms(1)]
  obtain c d where "walk p d history empty_catalogue = Some c"
    using walks_platform [OF assms(3)] by (auto simp: walks_def split: option.splits)
  from walk_undoes [OF this assms(4)] obtain c1 h c2 where
      c: "carry_all p (upgrade p (take i history)) empty_catalogue = Some c1"
        "carry_all p (upgrade p history) empty_catalogue = Some h"
        "carry_all p (downgrade p (drop i history)) h = Some c2" and same: "same_schema c2 c1"
    by blast
  obtain e1 where e1: "exec_all eng (upgrade p (take i history)) e = Some e1" "en_view eng e1 = c1"
    using some c(1) assms(2) by metis
  obtain head where head: "exec_all eng (upgrade p history) e = Some head" "en_view eng head = h"
    using some c(2) assms(2) by metis
  obtain e2 where e2: "exec_all eng (downgrade p (drop i history)) head = Some e2" "en_view eng e2 = c2"
    using some c(3) head(2) by metis
  have "c2 = empty_catalogue" if "i = 0"
    using that c(1) same by (simp add: upgrade_def same_schema_empty)
  then show ?thesis using e1 head e2 same by (intro exI [of _ head] exI [of _ e1] exI [of _ e2]) simp
qed

theorem migrations_undo_witness:
  "\<exists>head e1 e2.
     exec_all (catalogue_engine (Postgres True)) (upgrade (Postgres True) history) empty_catalogue = Some head \<and>
     exec_all (catalogue_engine (Postgres True)) (upgrade (Postgres True) (take 5 history)) empty_catalogue = Some e1 \<and>
     exec_all (catalogue_engine (Postgres True)) (downgrade (Postgres True) (drop 5 history)) head = Some e2 \<and>
     same_schema (en_view (catalogue_engine (Postgres True)) e2) (en_view (catalogue_engine (Postgres True)) e1)"
  using migrations_undo [OF catalogue_engine_documented [of "Postgres True"], of empty_catalogue 5]
  by (auto simp: catalogue_engine_def history_def)

end
