(* ===== verification/Responses.thy ===== *)
theory Responses
  imports WalletApi
begin

text \<open>
  What a handler's return value looks like to the client: the response schemas of
  \<open>app/schemas\<close>, each as the record of its fields and the function FastAPI applies to the row. A
  column the schema does not list is gone: no response has room for a password, a foreign user's
  identifier or an internal key.
\<close>

section \<open>Timestamps\<close>

text \<open>
  Python's \<open>datetime\<close>: without a zone, or with an offset from UTC in microseconds. A column is read
  back without a zone.
\<close>

datatype py_datetime = Naive int | Aware int int

definition as_utc :: "py_datetime \<Rightarrow> py_datetime" where
  "as_utc v = (case v of Naive t \<Rightarrow> Aware t 0 | Aware t offset \<Rightarrow> Aware (t - offset) 0)"

definition utc_datetime :: "instant \<Rightarrow> py_datetime" where
  "utc_datetime t = as_utc (Naive t)"

text \<open>The instant a value stands for, and what a client whose clock is \<open>zone\<close> ahead of UTC reads.\<close>

definition read_in_zone :: "int \<Rightarrow> py_datetime \<Rightarrow> instant" where
  "read_in_zone zone v = (case v of Naive t \<Rightarrow> t - zone | Aware t offset \<Rightarrow> t - offset)"

lemma as_utc_idem [simp]: "as_utc (as_utc v) = as_utc v"
  by (cases v) (simp_all add: as_utc_def)

lemma as_utc_aware: "read_in_zone zone (as_utc (Aware t offset)) = read_in_zone zone' (Aware t offset)"
  by (simp add: as_utc_def read_in_zone_def)

lemma utc_datetime_read [simp]: "read_in_zone zone (utc_datetime t) = t"
  by (simp add: utc_datetime_def as_utc_def read_in_zone_def)

lemma naive_read: "read_in_zone zone (Naive t) = t \<longleftrightarrow> zone = 0"
  by (simp add: read_in_zone_def)

lemma utc_datetime_inj [simp]: "utc_datetime t = utc_datetime t' \<longleftrightarrow> t = t'"
  by (simp add: utc_datetime_def as_utc_def)

section \<open>Users and sessions\<close>

record user_read =
  ur_id :: uuid
  ur_email :: string
  ur_full_name :: string
  ur_kyc_status :: kyc_status
  ur_is_admin :: bool
  ur_created_at :: py_datetime

definition user_read_of :: "user \<Rightarrow> user_read" where
  "user_read_of u =
     \<lparr>ur_id = usr_id u, ur_email = usr_email u, ur_full_name = usr_full_name u,
      ur_kyc_status = usr_kyc_status u, ur_is_admin = usr_is_admin u,
      ur_created_at = utc_datetime (usr_created_at u)\<rparr>"

record token_response =
  tr_access_token :: string
  tr_token_type :: string
  tr_expires_in :: int

definition token_response_of :: "string \<times> int \<Rightarrow> token_response" where
  "token_response_of t = \<lparr>tr_access_token = fst t, tr_token_type = ''bearer'', tr_expires_in = snd t\<rparr>"

record me_read =
  mr_id :: uuid
  mr_email :: string
  mr_full_name :: string
  mr_kyc_status :: kyc_status
  mr_is_admin :: bool
  mr_daily_limit_zar :: decimal
  mr_monthly_limit_zar :: decimal

definition me_read_of :: "me_response \<Rightarrow> me_read" where
  "me_read_of m =
     (let u = me_user m
      in \<lparr>mr_id = usr_id u, mr_email = usr_email u, mr_full_name = usr_full_name u,
          mr_kyc_status = usr_kyc_status u, mr_is_admin = usr_is_admin u,
          mr_daily_limit_zar = me_daily_limit m, mr_monthly_limit_zar = me_monthly_limit m\<rparr>)"

section \<open>KYC and beneficiaries\<close>

record kyc_application_read =
  kar_id :: uuid
  kar_status :: application_status
  kar_submitted_at :: py_datetime
  kar_reviewed_at :: "py_datetime option"
  kar_rejection_reason :: "string option"

definition kyc_application_read_of :: "kyc_application \<Rightarrow> kyc_application_read" where
  "kyc_application_read_of a =
     \<lparr>kar_id = kyc_id a, kar_status = kyc_app_status a, kar_submitted_at = utc_datetime (kyc_submitted_at a),
      kar_reviewed_at = map_option utc_datetime (kyc_reviewed_at a), kar_rejection_reason = kyc_rejection_reason a\<rparr>"

record admin_kyc_application_read = kyc_application_read +
  akr_user_id :: uuid
  akr_full_name :: string
  akr_email :: string
  akr_nationality :: string
  akr_identification_number :: string

definition admin_kyc_application_read_of :: "kyc_application \<Rightarrow> admin_kyc_application_read" where
  "admin_kyc_application_read_of a =
     \<lparr>kar_id = kyc_id a, kar_status = kyc_app_status a, kar_submitted_at = utc_datetime (kyc_submitted_at a),
      kar_reviewed_at = map_option utc_datetime (kyc_reviewed_at a), kar_rejection_reason = kyc_rejection_reason a,
      akr_user_id = kyc_user_id a, akr_full_name = kyc_full_name a, akr_email = kyc_email a,
      akr_nationality = kyc_nationality a, akr_identification_number = kyc_identification_number a\<rparr>"

record kyc_status_response =
  ksr_kyc_status :: kyc_status
  ksr_latest_application :: "kyc_application_read option"

definition kyc_status_response_of :: "kyc_status \<times> kyc_application option \<Rightarrow> kyc_status_response" where
  "kyc_status_response_of r =
     \<lparr>ksr_kyc_status = fst r, ksr_latest_application = map_option kyc_application_read_of (snd r)\<rparr>"

record beneficiary_read =
  br_id :: uuid
  br_full_name :: string
  br_contact :: string
  br_country :: string
  br_preferred_payout_currency :: string
  br_relationship_to_sender :: string
  br_created_at :: py_datetime

definition beneficiary_read_of :: "beneficiary \<Rightarrow> beneficiary_read" where
  "beneficiary_read_of b =
     \<lparr>br_id = ben_id b, br_full_name = ben_full_name b, br_contact = ben_contact b, br_country = ben_country b,
      br_preferred_payout_currency = ben_preferred_payout_currency b,
      br_relationship_to_sender = ben_relationship_to_sender b, br_created_at = utc_datetime (ben_created_at b)\<rparr>"

section \<open>Money\<close>

record remittance_read =
  rr_id :: uuid
  rr_status :: remittance_status
  rr_beneficiary_id :: uuid
  rr_zar_send_amount :: decimal
  rr_fx_rate_used :: decimal
  rr_transaction_fee_zar :: decimal
  rr_fx_margin_zar :: decimal
  rr_net_converted_zar :: decimal
  rr_uctusd_amount :: decimal
  rr_cash_in_method :: "string option"
  rr_xrpl_tx_hash :: "string option"
  rr_created_at :: py_datetime
  rr_quote_expires_at :: "py_datetime option"
  rr_cash_in_confirmed_at :: "py_datetime option"
  rr_settled_at :: "py_datetime option"

definition remittance_read_of :: "remittance \<Rightarrow> remittance_read" where
  "remittance_read_of r =
     \<lparr>rr_id = rem_id r, rr_status = rem_status r, rr_beneficiary_id = rem_beneficiary_id r,
      rr_zar_send_amount = rem_zar_send_amount r, rr_fx_rate_used = rem_fx_rate_used r,
      rr_transaction_fee_zar = rem_transaction_fee_zar r, rr_fx_margin_zar = rem_fx_margin_zar r,
      rr_net_converted_zar = rem_net_converted_zar r, rr_uctusd_amount = rem_uctusd_amount r,
      rr_cash_in_method = rem_cash_in_method r, rr_xrpl_tx_hash = rem_xrpl_tx_hash r,
      rr_created_at = utc_datetime (rem_created_at r),
      rr_quote_expires_at = map_option utc_datetime (rem_quote_expires_at r),
      rr_cash_in_confirmed_at = map_option utc_datetime (rem_cash_in_confirmed_at r),
      rr_settled_at = map_option utc_datetime (rem_settled_at r)\<rparr>"

text \<open>\<open>QuoteResponse\<close> is the handler's own record but for its timestamp.\<close>

record quote_read =
  qd_quote :: quote_response
  qd_expires_at :: "py_datetime option"

definition quote_read_of :: "quote_response \<Rightarrow> quote_read" where
  "quote_read_of q = \<lparr>qd_quote = q, qd_expires_at = map_option utc_datetime (qr_quote_expires_at q)\<rparr>"

record cash_in_confirm_response =
  ccr_remittance :: remittance_read
  ccr_queued :: bool

definition cash_in_confirm_response_of :: "remittance \<times> bool \<Rightarrow> cash_in_confirm_response" where
  "cash_in_confirm_response_of r = \<lparr>ccr_remittance = remittance_read_of (fst r), ccr_queued = snd r\<rparr>"

record cash_out_read =
  cr_id :: uuid
  cr_status :: cash_out_status
  cr_uctusd_amount :: decimal
  cr_cash_out_fee_uctusd :: decimal
  cr_net_uctusd :: decimal
  cr_payout_currency :: string
  cr_payout_amount :: decimal
  cr_fx_rate_used :: decimal
  cr_failure_reason :: "string option"
  cr_xrpl_tx_hash :: "string option"
  cr_requested_at :: py_datetime
  cr_approved_at :: "py_datetime option"
  cr_completed_at :: "py_datetime option"

definition cash_out_read_of :: "cash_out \<Rightarrow> cash_out_read" where
  "cash_out_read_of c =
     \<lparr>cr_id = co_id c, cr_status = co_status c, cr_uctusd_amount = co_uctusd_amount c,
      cr_cash_out_fee_uctusd = co_cash_out_fee_uctusd c, cr_net_uctusd = co_net_uctusd c,
      cr_payout_currency = co_payout_currency c, cr_payout_amount = co_payout_amount c,
      cr_fx_rate_used = co_fx_rate_used c, cr_failure_reason = co_failure_reason c,
      cr_xrpl_tx_hash = co_xrpl_tx_hash c, cr_requested_at = utc_datetime (co_requested_at c),
      cr_approved_at = map_option utc_datetime (co_approved_at c),
      cr_completed_at = map_option utc_datetime (co_completed_at c)\<rparr>"

record wallet_balance_read =
  wbr_uctusd_balance :: decimal
  wbr_balances :: "(string \<times> decimal) list"

definition wallet_balance_read_of :: "decimal \<times> (string \<times> decimal) list \<Rightarrow> wallet_balance_read" where
  "wallet_balance_read_of b = \<lparr>wbr_uctusd_balance = fst b, wbr_balances = snd b\<rparr>"

record wallet_transaction_read =
  wtr_id :: uuid
  wtr_remittance_id :: "uuid option"
  wtr_direction :: direction
  wtr_currency :: string
  wtr_amount :: decimal
  wtr_xrpl_tx_hash :: "string option"
  wtr_status :: entry_status
  wtr_failure_reason :: "string option"
  wtr_created_at :: py_datetime

definition wallet_transaction_read_of :: "wallet_transaction \<Rightarrow> wallet_transaction_read" where
  "wallet_transaction_read_of e =
     \<lparr>wtr_id = wtx_id e, wtr_remittance_id = wtx_remittance_id e, wtr_direction = wtx_direction e,
      wtr_currency = wtx_currency e, wtr_amount = wtx_amount e, wtr_xrpl_tx_hash = wtx_xrpl_tx_hash e,
      wtr_status = wtx_status e, wtr_failure_reason = wtx_failure_reason e,
      wtr_created_at = utc_datetime (wtx_created_at e)\<rparr>"

end
