(* ===== verification/Service.thy ===== *)
theory Service
  imports Headroom WalletApi Promise Backlog
begin

text \<open>
  The service as a whole: every request of the API, every message the worker handles and every
  script an operator runs, one committed after the other on one database, and that \<open>System\<close> and
  \<open>Accounts\<close> say the truth about it. Each handler is the definition of its own theory, taken whole;
  the interleaving of the parts of two handlers is what \<open>System\<close> adds.
\<close>

section \<open>What the account handlers leave alone\<close>

inductive account_request :: "settings \<Rightarrow> 'n auth_lib \<Rightarrow> db \<Rightarrow> db \<Rightarrow> bool" for s :: settings and lib :: "'n auth_lib" where
  registered: "register lib payload now d n = ((Inr u, d'), n') \<Longrightarrow> account_request s lib d d'"
| profile: "get_user (usr_id u) d = Some u \<Longrightarrow> update_profile s u name email d = (Inr me, d') \<Longrightarrow> account_request s lib d d'"
| submitted: "get_user (usr_id u) d = Some u \<Longrightarrow> submit_kyc u f now d = Inr (a, d') \<Longrightarrow> account_request s lib d d'"
| kyc_approved: "approve_kyc admin k now d = Inr (a, d') \<Longrightarrow> account_request s lib d d'"
| kyc_rejected: "reject_kyc admin k reason now d = Inr (a, d') \<Longrightarrow> account_request s lib d d'"
| beneficiary_added: "get_user (usr_id u) d = Some u \<Longrightarrow> create_beneficiary u bf now d = Inr (b, d') \<Longrightarrow> account_request s lib d d'"
| beneficiary_removed: "delete_beneficiary u k d = Inr d' \<Longrightarrow> account_request s lib d d'"
| admin_made: "create_or_promote_admin lib email password name now d n = ((Inr u, d'), n') \<Longrightarrow> account_request s lib d d'"

lemma account_request_step: "account_request s lib d d' \<Longrightarrow> account_step s lib d d'"
  by (induction rule: account_request.induct) (auto intro: api_step.intros account_step.intros)

lemma account_request_change: "account_request s lib d d' \<Longrightarrow> accounts_change d d'"
proof (induction rule: account_request.induct)
  case (registered payload now d n u d' n')
  then show ?case using register_ok [OF registered]
    by (auto simp: insert_user_def Let_def accounts_change_def ebind_eq_Inr split: if_splits)
next
  case (profile u d name email me d')
  then show ?case using update_profile_ok [OF profile(2)] by (auto simp: accounts_change_def put_user_def)
next
  case (submitted u d f now a d')
  then show ?case
    by (auto simp: submit_kyc_def commit_or_keep_def http_of_def Let_def accounts_change_def ebind_eq_Inr
        put_user_def split: if_splits sum.splits option.splits)
next
  case (kyc_approved admin k now d a d')
  then show ?case using approve_ok [OF kyc_approved] by (auto simp: accounts_change_def put_user_def put_kyc_def)
next
  case (kyc_rejected admin k reason now d a d')
  then show ?case using reject_ok [OF kyc_rejected] by (auto simp: accounts_change_def put_user_def put_kyc_def)
next
  case (beneficiary_added u d bf now b d')
  then show ?case
    by (auto simp: create_beneficiary_def insert_beneficiary_def commit_or_keep_def http_of_def Let_def
        accounts_change_def ebind_eq_Inr split: if_splits sum.splits option.splits)
next
  case (beneficiary_removed u k d d')
  then show ?case by (auto simp: delete_beneficiary_def accounts_change_def ebind_eq_Inr split: if_splits)
next
  case (admin_made email password name now d n u d' n')
  then show ?case
    by (auto simp: create_or_promote_admin_def commit_or_keep_def http_of_def Let_def accounts_change_def ebind_eq_Inr
        put_user_def insert_user_def split: if_splits sum.splits option.splits prod.splits)
qed

lemma seed_fx_rate_change:
  "seed_fx_rate rate source now d = Inr d' \<Longrightarrow> accounts_change d d' \<and> money_change d d'"
  by (auto simp: seed_fx_rate_def accounts_change_def money_change_def ebind_eq_Inr split: sum.splits if_splits)

lemma platform_change:
  "remittances d' = remittances d \<Longrightarrow> cash_outs d' = cash_outs d \<Longrightarrow> wallets d' = wallets d \<Longrightarrow>
   ledger_balances d' = ledger_balances d \<Longrightarrow> wallet_transactions d' = wallet_transactions d \<Longrightarrow> users d' = users d \<Longrightarrow>
   kyc_applications d' = kyc_applications d \<Longrightarrow> beneficiaries d' = beneficiaries d \<Longrightarrow> next_id d \<le> next_id d' \<Longrightarrow>
   accounts_change d d' \<and> money_change d d'"
  by (auto simp: accounts_change_def money_change_def)

lemma insert_pool_change:
  "insert_pool p d = Inr (p', d') \<Longrightarrow> accounts_change d (d'\<lparr>platform_wallets := ps\<rparr>) \<and> money_change d (d'\<lparr>platform_wallets := ps\<rparr>)"
  by (rule platform_change) (auto simp: insert_pool_def Let_def split: if_splits)

lemma create_pool_change:
  assumes "create_pool lib s svc role seed skip now d x = (Inr (r, d'), x')"
  shows "accounts_change d d' \<and> money_change d d'"
proof (cases "pool_of role d")
  case None
  let ?acc = "case (case seed of Some sd \<Rightarrow> if sd = [] then None else Some sd | None \<Rightarrow> None) of
       Some sd \<Rightarrow> (ebind (lib_address lib sd) (\<lambda>a. Inr (a, sd, None)), x)
     | None \<Rightarrow> (case create_testnet_account lib x of
                 (Inl e, x') \<Rightarrow> (Inl e, x')
               | (Inr (a, sd), x') \<Rightarrow> (Inr (a, sd, Some sd), x'))"
  obtain account x1 where acc: "?acc = (account, x1)" by fastforce
  have "\<exists>p p' d1 ps. insert_pool p d = Inr (p', d1) \<and> d' = d1\<lparr>platform_wallets := ps\<rparr>"
    using assms None unfolding create_pool_def acc Let_def
    by (fastforce split: sum.splits prod.splits if_splits simp: db.splits)
  then show ?thesis using insert_pool_change by blast
qed (use assms in \<open>simp add: create_pool_def platform_change\<close>)

lemma accounts_change_trans: "accounts_change d d1 \<Longrightarrow> accounts_change d1 d2 \<Longrightarrow> accounts_change d d2"
  by (auto simp: accounts_change_def)

section \<open>What the money handlers leave alone\<close>

lemma money_change_refl [simp]: "money_change d d"
  by (auto simp: money_change_def)

lemma money_change_trans: "money_change d d1 \<Longrightarrow> money_change d1 d2 \<Longrightarrow> money_change d d2"
  by (fastforce simp: money_change_def owns_def)

lemma ledger_write_money: "ledger_write d d' \<Longrightarrow> money_change d d'"
  by (auto simp: ledger_write_def money_change_def)

lemma init_pools_change:
  "init_platform_wallets lib s svc seed1 seed2 skip now d x = (out, d', x') \<Longrightarrow> accounts_change d d' \<and> money_change d d'"
  by (auto simp: init_platform_wallets_def platform_change split: sum.splits prod.splits
      dest!: create_pool_change intro: money_change_trans accounts_change_trans)

lemma money_put:
  assumes "\<And>x. rem_beneficiary_id (f x) = rem_beneficiary_id x \<and> rem_sender_id (f x) = rem_sender_id x"
  shows "money_change d (put_remittance k f d)"
  using assms by (fastforce simp: money_change_def put_remittance_def put_by_def update_where_def)

lemma money_put_cash_out: "money_change d (put_cash_out k f d)"
  by (auto simp: money_change_def put_cash_out_def)

lemma money_next: "money_change d d' \<Longrightarrow> money_change d (d'\<lparr>next_id := Suc (next_id d')\<rparr>)"
  by (auto simp: money_change_def)

lemma money_put_after:
  assumes "money_change d d1" "\<And>x. rem_beneficiary_id (f x) = rem_beneficiary_id x \<and> rem_sender_id (f x) = rem_sender_id x"
  shows "money_change d (put_remittance k f d1)"
  by (rule money_change_trans [OF assms(1) money_put [OF assms(2)]])

lemma money_cash_out_after: "money_change d d1 \<Longrightarrow> money_change d (put_cash_out k f d1)"
  using money_change_trans money_put_cash_out by blast

lemma wallet_credit_money:
  assumes "wallet_for u now d = Inr (w, d1)" "credit s v cur a rid h now' d1 = Inr (e, d2)"
  shows "money_change d d2"
  by (rule ledger_write_money [OF ledger_write_trans [OF wallet_for_write [OF assms(1)] credit_write [OF assms(2)]]])

lemma simulate_money: "simulate_cash_in r m now d = Inr (b, d') \<Longrightarrow> money_change d d'"
  by (auto simp: simulate_cash_in_def Let_def ebind_eq_Inr split: if_splits intro!: money_put)

lemma requeue_money: "requeue_failed_remittance r d = Inr d' \<Longrightarrow> money_change d d'"
  by (auto simp: requeue_failed_remittance_def ebind_eq_Inr split: if_splits intro!: money_put)

lemma refund_money:
  assumes "refund_failed_remittance s r now d = Inr d'" shows "money_change d d'"
proof -
  obtain sender :: user and w d1 e d2 where w: "wallet_for (usr_id sender) now d = Inr (w, d1)"
    and e: "record_external s (wal_id w) INCOMING SEND_CURRENCY (rem_zar_send_amount r)
                 (Some (rem_id r)) None ENTRY_SUCCESS None now d1 = Inr (e, d2)"
    and d': "d' = put_remittance (rem_id r) (\<lambda>x. x\<lparr>rem_status := REFUNDED\<rparr>) d2"
    using assms by (auto simp: refund_failed_remittance_def ebind_eq_Inr split: if_splits)
  show ?thesis unfolding d'
    by (rule money_put_after [OF ledger_write_money [OF ledger_write_trans [OF wallet_for_write [OF w] record_external_write [OF e]]]]) simp
qed

lemma insert_cash_out_money: "insert_cash_out c d = Inr (c', d') \<Longrightarrow> money_change d d'"
  by (auto simp: insert_cash_out_def Let_def ebind_eq_Inr money_change_def split: if_splits)

lemma request_money:
  assumes "request_cash_out s uid u cur rate key now d = Inr (c, d')" shows "money_change d d'"
proof (cases "replayed_cash_out uid key d")
  case None
  then obtain q w d1 e d2 where w: "wallet_for uid now d = Inr (w, d1)"
    and e: "debit s (wal_id w) SETTLEMENT_CURRENCY (coq_uctusd_amount q) None None now d1 = Inr (e, d2)"
    and ins: "insert_cash_out (new_cash_out uid q (wtx_id e) key now) d2 = Inr (c, d')"
    using assms by (auto simp: request_cash_out_def ebind_eq_Inr)
  have "money_change d d2"
    by (rule ledger_write_money [OF ledger_write_trans [OF wallet_for_write [OF w] debit_write [OF e]]])
  with insert_cash_out_money [OF ins] show ?thesis by (blast intro: money_change_trans)
qed (use assms in \<open>simp add: request_cash_out_def\<close>)

lemma fail_cash_out_money: "fail_cash_out s c reason now sts d = Inr d' \<Longrightarrow> money_change d d'"
  by (auto simp: fail_cash_out_def ebind_eq_Inr split: if_splits intro!: money_cash_out_after dest: wallet_credit_money)

lemma complete_money: "complete_cash_out s c h now d = Inr d' \<Longrightarrow> money_change d d'"
  by (auto simp: complete_cash_out_def ebind_eq_Inr intro!: money_cash_out_after dest: wallet_credit_money)

lemma approve_money: "approve_cash_out c now d = Inr d' \<Longrightarrow> money_change d d'"
  by (auto simp: approve_cash_out_def split: if_splits intro: money_put_cash_out)

lemma claim_money: "claim k reclaimed d = (won, d') \<Longrightarrow> money_change d d'"
  using claim_put [of k reclaimed d] by (auto intro!: money_put)

lemma claim_cash_out_money: "claim_cash_out k d = (won, d') \<Longrightarrow> money_change d d'"
  using claim_cash_out_put [of k d] by (auto intro!: money_put_cash_out)

lemma record_burn_money: "record_burn s c h now d = (res, d') \<Longrightarrow> money_change d d'"
  by (auto simp: record_burn_def split: sum.splits dest: complete_money)

lemma fail_claimed_money: "fail_claimed_cash_out s k reason now d = (res, d') \<Longrightarrow> money_change d d'"
  by (auto simp: fail_claimed_cash_out_def ebind_eq_Inr split: sum.splits dest: fail_cash_out_money)

lemma success_writes_money:
  assumes "success_writes s r uid h now d = Inr d'" shows "money_change d d'"
proof -
  obtain w d1 e d2 d5 where w: "wallet_for uid now d = Inr (w, d1)"
    and cr: "credit s (wal_id w) SETTLEMENT_CURRENCY (rem_uctusd_amount r) (Some (rem_id r)) (Some h) now d1 = Inr (e, d2)"
    and ext: "(case get_user (rem_sender_id r) d2 of None \<Rightarrow> Inr d2
            | Some sender \<Rightarrow>
                ebind (wallet_for (usr_id sender) now d2) (\<lambda>(w', d3).
                ebind (record_external s (wal_id w') OUTGOING SEND_CURRENCY (rem_zar_send_amount r)
                         (Some (rem_id r)) (Some h) ENTRY_SUCCESS None now d3) (\<lambda>(e', d4). Inr d4))) = Inr d5"
    and d': "d' = (put_remittance (rem_id r) (\<lambda>x. x\<lparr>rem_status := SETTLED, rem_xrpl_tx_hash := Some h,
            rem_settled_at := Some now, rem_treasury_batch_id := Some (to_hex 32 (next_id d5)),
            rem_treasury_settled_at := Some now\<rparr>) d5)\<lparr>next_id := Suc (next_id d5)\<rparr>"
    using assms by (auto simp: success_writes_def ebind_eq_Inr)
  have "ledger_write d2 d5"
    using ext by (auto simp: ebind_eq_Inr ledger_write_def split: option.splits
        dest!: wallet_for_write record_external_write)
  then have "money_change d d5" using wallet_credit_money [OF w cr] ledger_write_money by (blast intro: money_change_trans)
  from money_next [OF money_put_after [OF this, of "\<lambda>x. x\<lparr>rem_status := SETTLED, rem_xrpl_tx_hash := Some h,
            rem_settled_at := Some now, rem_treasury_batch_id := Some (to_hex 32 (next_id d5)),
            rem_treasury_settled_at := Some now\<rparr>" "rem_id r"]]
  show ?thesis by (simp add: d')
qed

lemma record_success_money: "record_success s r uid h now d = (res, d') \<Longrightarrow> money_change d d'"
  by (auto simp: record_success_def split: sum.splits dest: success_writes_money)

lemma failure_writes_money:
  assumes "failure_writes s k reason who now d = Inr d'" shows "money_change d d'"
proof -
  let ?d = "put_remittance k (\<lambda>x. x\<lparr>rem_status := FAILED\<rparr>) d"
  have put: "money_change d ?d" by (rule money_put) simp
  have "ledger_write ?d d'" if "ledger_write ?d d1" "ledger_write d1 d'" for d1 using that by (rule ledger_write_trans)
  then have "d' = ?d \<or> ledger_write ?d d'"
    using assms by (auto simp: failure_writes_def Let_def ebind_eq_Inr split: option.splits
        dest!: wallet_for_write record_external_write)
  then show ?thesis using put by (auto intro: money_change_trans ledger_write_money)
qed

lemma fail_settlement_money: "fail_settlement s k reason who now d = (res, d') \<Longrightarrow> money_change d d'"
  by (auto simp: fail_settlement_def split: sum.splits if_splits dest: failure_writes_money intro!: money_put)

section \<open>Every handler is a run of the system\<close>

text \<open>A step of the system that is a transaction of the money side, and what such steps lead to.\<close>

definition money_step :: "settings \<Rightarrow> sys \<Rightarrow> sys \<Rightarrow> bool" where
  "money_step s y y' \<longleftrightarrow> sys_step s y y' \<and> money_change (sy_db y) (sy_db y')"

definition leads :: "settings \<Rightarrow> sys \<Rightarrow> db \<Rightarrow> bool" where
  "leads s y d \<longleftrightarrow> (\<exists>y'. (money_step s)\<^sup>*\<^sup>* y y' \<and> sy_db y' = d)"

lemma leads_refl: "sy_db y = d \<Longrightarrow> leads s y d"
  by (auto simp: leads_def)

lemma leads_step: "sys_step s y y1 \<Longrightarrow> money_change (sy_db y) (sy_db y1) \<Longrightarrow> leads s y1 d \<Longrightarrow> leads s y d"
proof -
  assume "sys_step s y y1" "money_change (sy_db y) (sy_db y1)"
  then have "money_step s y y1" by (simp add: money_step_def)
  then show "leads s y1 d \<Longrightarrow> leads s y d" unfolding leads_def by (blast intro: converse_rtranclp_into_rtranclp)
qed

lemma leads_last: "sys_step s y y1 \<Longrightarrow> money_change (sy_db y) (sy_db y1) \<Longrightarrow> sy_db y1 = d \<Longrightarrow> leads s y d"
  by (blast intro: leads_step leads_refl)

lemma settle_leads:
  assumes "settle lib s svc m reclaimed now (sy_db y) x = ((res, d'), x')" "sys_inv s y"
  shows "leads s y d'"
  using assms(1) sys_inv_parts(1) [OF assms(2)]
proof (cases rule: settle_cases)
  case skip
  then show ?thesis by (simp add: leads_refl)
next
  case (fail rid r d1 reason who)
  let ?y1 = "y\<lparr>sy_db := d1, sy_jobs := JClaimed rid # sy_jobs y\<rparr>"
  have "leads s ?y1 d'"
    by (rule leads_last [OF failed [of "JClaimed rid" rid ?y1]]) (use fail(5) in \<open>simp_all add: fail_settlement_money\<close>)
  then show ?thesis
    by (rule leads_step [OF claim [OF fail(2)], rotated]) (simp add: claim_money [OF fail(2)])
next
  case (paid rid r d1 recipient sp pp h)
  let ?r = "r\<lparr>rem_status := SETTLING\<rparr>"
  let ?y1 = "y\<lparr>sy_db := d1, sy_jobs := JClaimed rid # sy_jobs y\<rparr>"
  let ?y2 = "?y1\<lparr>sy_paid := (rid, rem_uctusd_amount ?r) # sy_paid ?y1,
      sy_jobs := JPaid rid (usr_id recipient) h (rem_uctusd_amount ?r) # remove1 (JClaimed rid) (sy_jobs ?y1)\<rparr>"
  have "leads s ?y2 d'"
    by (rule leads_last [OF recorded [of rid "usr_id recipient" h "rem_uctusd_amount ?r" ?y2 ?r]])
      (use paid(4,9) in \<open>simp_all add: record_success_money\<close>)
  moreover have "sys_step s ?y1 ?y2" by (rule pay) (use paid(4) in simp_all)
  ultimately have "leads s ?y1 d'" by (intro leads_step [of s ?y1 ?y2]) simp_all
  then show ?thesis
    by (rule leads_step [OF claim [OF paid(2)], rotated]) (simp add: claim_money [OF paid(2)])
qed

lemma burn_leads:
  assumes "burn_cash_out lib s svc m now (sy_db y) x = ((res, d'), x')" "sys_inv s y"
  shows "leads s y d'"
  using assms(1) sys_inv_parts(1) [OF assms(2)]
proof (cases rule: burn_cases)
  case skip
  then show ?thesis by (simp add: leads_refl)
next
  case (fail cid c d1 reason)
  let ?y1 = "y\<lparr>sy_db := d1, sy_jobs := JBurning cid # sy_jobs y\<rparr>"
  have "leads s ?y1 d'"
    by (rule leads_last [OF burn_failed [of "JBurning cid" cid ?y1]]) (use fail(5) in \<open>simp_all add: fail_claimed_money\<close>)
  then show ?thesis
    by (rule leads_step [OF claim_burn [OF fail(2)], rotated]) (simp add: claim_cash_out_money [OF fail(2)])
next
  case (burned cid c d1 pp h)
  let ?c = "c\<lparr>co_status := CO_PROCESSING\<rparr>"
  let ?y1 = "y\<lparr>sy_db := d1, sy_jobs := JBurning cid # sy_jobs y\<rparr>"
  let ?y2 = "?y1\<lparr>sy_burned := (cid, co_net_uctusd ?c) # sy_burned ?y1,
      sy_jobs := JBurned cid h # remove1 (JBurning cid) (sy_jobs ?y1)\<rparr>"
  have "leads s ?y2 d'"
    by (rule leads_last [OF complete [of cid h ?y2 ?c]]) (use burned(4,7) in \<open>simp_all add: record_burn_money\<close>)
  moreover have "sys_step s ?y1 ?y2" by (rule sys_step.burned) (use burned(4) in simp_all)
  ultimately have "leads s ?y1 d'" by (intro leads_step [of s ?y1 ?y2]) simp_all
  then show ?thesis
    by (rule leads_step [OF claim_burn [OF burned(2)], rotated]) (simp add: claim_cash_out_money [OF burned(2)])
qed

lemma handle_leads:
  assumes "handle k en reclaimed w = (res, w')" "sy_db y = wo_db w" "sys_inv (wk_settings k) y"
  shows "leads (wk_settings k) y (wo_db w')"
proof -
  obtain i m where en: "en = (i, m)" by fastforce
  obtain out d' x' where run:
    "(if message_get ''kind'' m = Some ''cash_out''
      then burn_cash_out (wk_lib k) (wk_settings k) (wk_xrpl k) m (wo_now w) (wo_db w) (wo_chain w)
      else settle (wk_lib k) (wk_settings k) (wk_xrpl k) m reclaimed (wo_now w) (wo_db w) (wo_chain w)) = ((out, d'), x')"
    by (metis prod.collapse)
  have "wo_db w' = d'"
    using handle_effect [of "(i, m)" k w reclaimed] run assms(1) en by (metis prod.inject snd_conv)
  moreover have "leads (wk_settings k) y d'"
    using run settle_leads [OF _ assms(3)] burn_leads [OF _ assms(3)] by (simp add: assms(2) split: if_splits)
  ultimately show ?thesis by simp
qed

lemma publish_leads:
  assumes "publish_and_answer pub k (sy_db y) q = ((res, d'), q')"
  shows "leads s y d'"
proof (cases "\<exists>r entry q''. get_remittance k (sy_db y) = Some r \<and> queue_for_settlement pub r (sy_db y) q = (Inr (entry, d'), q'')")
  case True
  then obtain r entry q'' where r: "get_remittance k (sy_db y) = Some r"
    and pub: "queue_for_settlement pub r (sy_db y) q = (Inr (entry, d'), q'')" by blast
  have k: "rem_id r = k" using r by (rule rem_store.get_key)
  have st: "rem_status r \<in> {CASH_IN_CONFIRMED, QUEUED}" and d': "d' = put_remittance k (\<lambda>x. x\<lparr>rem_status := QUEUED\<rparr>) (sy_db y)"
    using pub k by (auto simp: queue_for_settlement_def split: if_splits sum.splits prod.splits)
  let ?y1 = "y\<lparr>sy_marking := k # sy_marking y\<rparr>"
  have "leads s ?y1 d'"
    by (rule leads_last [OF mark [of k ?y1]]) (simp_all add: d' money_put)
  then show ?thesis by (rule leads_step [OF publish [OF r st], rotated]) simp
next
  case False
  then have "d' = sy_db y" using assms by (auto simp: publish_and_answer_def split: option.splits prod.splits sum.splits)
  then show ?thesis by (simp add: leads_refl)
qed

lemma confirm_leads:
  assumes "confirm_cash_in pub u k meth now (sy_db y) q = ((res, d'), q')" "sys_inv s y"
  shows "leads s y d'"
proof (cases "ebind (owned_remittance k (usr_id u) (sy_db y)) (\<lambda>r. http_of cash_in_refused (simulate_cash_in r meth now (sy_db y)))")
  case (Inl e)
  then show ?thesis using assms(1) by (simp add: confirm_cash_in_def leads_refl)
next
  case (Inr bd)
  then obtain r b d1 where r: "owned_remittance k (usr_id u) (sy_db y) = Inr r" and bd: "bd = (b, d1)"
    and sim: "simulate_cash_in r meth now (sy_db y) = Inr (b, d1)"
    by (cases bd) (auto simp: raise_simps)
  have row: "get_remittance (rem_id r) (sy_db y) = Some r"
  proof -
    have "fresh_ids rem_id (next_id (sy_db y)) (remittances (sy_db y))" using sys_inv_parts(1) [OF assms(2)] by (simp add: app_inv_def)
    from owned_is_row(1,2) [OF this r] show ?thesis by simp
  qed
  have "publish_and_answer pub k (sy_db (y\<lparr>sy_db := d1\<rparr>)) q = ((res, d'), q')"
    using assms(1) Inr bd by (simp add: confirm_cash_in_def)
  then have "leads s (y\<lparr>sy_db := d1\<rparr>) d'" by (rule publish_leads)
  then show ?thesis by (rule leads_step [OF cash_in [OF row sim], rotated]) (simp add: simulate_money [OF sim])
qed

lemma admin_confirm_leads:
  assumes "confirm_zar_payment pub k payload now (sy_db y) q = ((res, d'), q')"
  shows "leads s y d'"
proof (cases "get_remittance k (sy_db y)")
  case None
  then show ?thesis using assms by (simp add: confirm_zar_payment_def some_or_def leads_refl)
next
  case (Some r)
  have k: "rem_id r = k" using Some by (rule rem_store.get_key)
  let ?meth = "case payload of Some m \<Rightarrow> m | None \<Rightarrow> (case rem_cash_in_method r of
                                     Some m \<Rightarrow> if m = [] then ''bank_transfer'' else m
                                   | None \<Rightarrow> ''bank_transfer'')"
  let ?change = "if rem_status r = FAILED then requeue_failed_remittance r (sy_db y)
                   else ebind (simulate_cash_in r ?meth now (sy_db y)) (\<lambda>(changed, d1). Inr d1)"
  show ?thesis
  proof (cases ?change)
    case (Inl e)
    then show ?thesis using assms Some by (simp add: confirm_zar_payment_def some_or_def http_of_def Let_def leads_refl
          split: option.splits)
  next
    case (Inr d1)
    have "publish_and_answer pub k (sy_db (y\<lparr>sy_db := d1\<rparr>)) q = ((res, d'), q')"
      using assms Some Inr by (simp add: confirm_zar_payment_def some_or_def http_of_def Let_def)
    then have go: "leads s (y\<lparr>sy_db := d1\<rparr>) d'" by (rule publish_leads)
    have "sys_step s y (y\<lparr>sy_db := d1\<rparr>) \<and> money_change (sy_db y) d1"
    proof (cases "rem_status r = FAILED")
      case True
      then show ?thesis using Inr requeue [of r y d1 s] Some k requeue_money by simp
    next
      case False
      then obtain b where "simulate_cash_in r ?meth now (sy_db y) = Inr (b, d1)" using Inr by (auto simp: ebind_eq_Inr)
      then show ?thesis using cash_in [of r y _ now b d1 s] Some k simulate_money by blast
    qed
    then show ?thesis using go by (auto intro: leads_step)
  qed
qed

lemma refund_leads:
  assumes "refund_remittance s k now (sy_db y) = (res, d')"
  shows "leads s y d'"
proof (cases res)
  case (Inl e)
  then show ?thesis using assms by (simp add: refund_remittance_def raise_simps leads_refl)
next
  case (Inr r1)
  then obtain r where r: "get_remittance k (sy_db y) = Some r" "refund_failed_remittance s r now (sy_db y) = Inr d'"
    using assms by (auto simp: refund_remittance_def raise_simps)
  have "rem_id r = k" using r(1) by (rule rem_store.get_key)
  then show ?thesis
    using leads_last [OF refund [of r y s now d']] r refund_money [OF r(2)] by simp
qed

lemma request_leads:
  assumes "request_cash_out_endpoint lib s u a cur key now (sy_db y) st = ((res, d'), st')"
    "\<forall>rate. fst (current_rate lib s now (sy_db y) st) = Inr rate \<longrightarrow> cash_out_request_ok s a rate"
  shows "leads s y d'"
proof (cases res)
  case (Inl e)
  then show ?thesis using assms(1)
    by (auto simp: request_cash_out_endpoint_def raise_simps leads_refl split: prod.splits sum.splits)
next
  case (Inr c)
  then obtain rate st1 where "current_rate lib s now (sy_db y) st = (Inr rate, st1)"
    and run: "request_cash_out s (usr_id u) a cur rate key now (sy_db y) = Inr (c, d')"
    using assms(1) by (auto simp: request_cash_out_endpoint_def raise_simps split: prod.splits sum.splits)
  then show ?thesis
    using leads_last [OF request [OF _ run]] assms(2) request_money [OF run] by simp
qed

text \<open>A review is noted on the row before the decision, in the same transaction.\<close>

lemma reviewed_row:
  fixes a :: "uuid option"
  assumes "get_cash_out_row k (sy_db y) = Some c"
  defines "c' \<equiv> c\<lparr>co_reviewed_by_admin_id := a\<rparr>" and "d \<equiv> put_cash_out k (\<lambda>x. x\<lparr>co_reviewed_by_admin_id := a\<rparr>) (sy_db y)"
  shows "sys_step s y (y\<lparr>sy_db := d\<rparr>)" "money_change (sy_db y) d" "get_cash_out_row (co_id c') d = Some c'"
    "approve_cash_out c' now d = approve_cash_out c now d" "fail_cash_out s c' reason now sts d = fail_cash_out s c reason now sts d"
  using assms row_co_id [OF assms(1)]
  by (auto simp: review money_put_cash_out co_store.get_put approve_cash_out_def fail_cash_out_def)

lemma approve_leads:
  assumes "approve_cash_out_endpoint pub admin k now (sy_db y) q = ((res, d'), q')"
  shows "leads s y d'"
proof (cases "get_cash_out_row k (sy_db y)")
  case None
  then show ?thesis using assms by (simp add: approve_cash_out_endpoint_def get_cash_out_def some_or_def leads_refl)
next
  case (Some c)
  let ?d = "put_cash_out k (\<lambda>x. x\<lparr>co_reviewed_by_admin_id := Some (usr_id admin)\<rparr>) (sy_db y)"
  note rev = reviewed_row [OF Some, where a = "Some (usr_id admin)"]
  have "d' = sy_db y \<or> approve_cash_out c now ?d = Inr d'"
    using assms Some
    by (auto simp: approve_cash_out_endpoint_def get_cash_out_def some_or_def http_of_def
        split: if_splits sum.splits option.splits prod.splits)
  then show ?thesis
  proof
    assume ap: "approve_cash_out c now ?d = Inr d'"
    have "leads s (y\<lparr>sy_db := ?d\<rparr>) d'"
      using leads_last [OF approve [of "c\<lparr>co_reviewed_by_admin_id := Some (usr_id admin)\<rparr>" "y\<lparr>sy_db := ?d\<rparr>" now d' s]] rev(3,4) ap approve_money [OF ap] by simp
    then show ?thesis using leads_step [OF rev(1)] rev(2) by simp
  qed (simp add: leads_refl)
qed

lemma reject_leads:
  assumes "reject_cash_out_endpoint s admin k why now (sy_db y) = (res, d')"
  shows "leads s y d'"
proof (cases res)
  case (Inl e)
  then show ?thesis using assms by (simp add: reject_cash_out_endpoint_def raise_simps leads_refl)
next
  case (Inr c1)
  let ?d = "put_cash_out k (\<lambda>x. x\<lparr>co_reviewed_by_admin_id := Some (usr_id admin)\<rparr>) (sy_db y)"
  obtain c reason where c: "get_cash_out_row k (sy_db y) = Some c"
    and rj: "fail_cash_out s c reason now ADMIN_FAIL_STATES ?d = Inr d'"
    using assms Inr by (auto simp: reject_cash_out_endpoint_def raise_simps get_cash_out_def)
  note rev = reviewed_row [OF c, where a = "Some (usr_id admin)"]
  have "leads s (y\<lparr>sy_db := ?d\<rparr>) d'"
    using leads_last [OF reject [of "c\<lparr>co_reviewed_by_admin_id := Some (usr_id admin)\<rparr>" "y\<lparr>sy_db := ?d\<rparr>" s reason now d']]
      rev(3,5) rj fail_cash_out_money [OF rj] by simp
  then show ?thesis using leads_step [OF rev(1)] rev(2) by simp
qed

lemma wallet_leads:
  assumes "wallet_for uid now (sy_db y) = Inr (w, d')" shows "leads s y d'"
  using leads_last [OF wallet [OF assms]] ledger_write_money [OF wallet_for_write [OF assms]] by simp

lemma balance_leads: "get_balance s u now (sy_db y) = (res, d') \<Longrightarrow> leads s y d'"
  by (auto simp: get_balance_def leads_refl split: sum.splits intro: wallet_leads)

lemma history_leads: "get_wallet_transactions u now (sy_db y) = (res, d') \<Longrightarrow> leads s y d'"
  by (auto simp: get_wallet_transactions_def leads_refl split: sum.splits intro: wallet_leads)

lemma quote_leads:
  assumes "create_quote_raced lib s u bid zar key now written d0 (sy_db y) st = ((res, d'), st')"
    "fee_settings_ok s" "parse_send_amount zar = Inr z"
    "\<forall>rate. fst (current_rate lib s now d0 st) = Inr rate \<longrightarrow> rate_ok rate \<and> zar \<le> rate * 10 ^ 12"
    "\<exists>b \<in> set (beneficiaries (sy_db y)). ben_id b = bid \<and> ben_sender_id b = usr_id u"
  shows "leads s y d'"
proof (cases res)
  case (Inl e)
  then show ?thesis using create_quote_Inl [OF assms(2,3,4) assms(1) [unfolded Inl]] by (simp add: leads_refl)
next
  case (Inr resp)
  obtain b rate cur q r where b: "ben_id b = bid" "ben_sender_id b = usr_id u"
    and rate: "fst (current_rate lib s now d0 st) = Inr rate" "cur \<in> set PRICEABLE_PAYOUT_CURRENCIES" "calculate_quote s zar rate cur = Inr q"
    and ins: "insert_remittance (new_remittance s key u b q now written) (sy_db y) = Inr (r, d')"
    using create_quote_Inr [OF assms(1) [unfolded Inr]] by blast
  have zar: "send_amount_ok zar" using send_amount_parsed [OF assms(3)] by simp
  note qr = inserted_quote [OF assms(2) zar _ _ rate(2,3) ins]
  note row = insert_remittance_Inr [OF ins]
  have "owns (sy_db y) r" using assms(5) row(5,6) b by (auto simp: owns_def new_remittance_def)
  then have "money_change (sy_db y) d'" by (auto simp: row(1) money_change_def)
  then show ?thesis
    using leads_last [OF quote [of y r s]] qr(1) assms(4) rate(1) by (simp add: row(1))
qed

section \<open>The service\<close>

text \<open>
  One committed request, message or script. The caller of a request is whoever the dependencies let
  through. A quote's first reads may be older than its INSERT, which the foreign key on the
  beneficiary checks against the database it finds; the bounds on its amount are its schema's, those
  on a rate what any plausible rate satisfies.
\<close>

inductive service_step ::
  "settings \<Rightarrow> 'n auth_lib \<Rightarrow> 'f fx_lib \<Rightarrow> (string \<Rightarrow> uuid \<Rightarrow> 'r \<Rightarrow> (redis_error + string) \<times> 'r) \<Rightarrow>
   (uuid \<Rightarrow> 'r \<Rightarrow> (redis_error + string) \<times> 'r) \<Rightarrow> ('x, 'p) worker \<Rightarrow> db \<Rightarrow> db \<Rightarrow> bool"
  for s :: settings and alib :: "'n auth_lib" and flib :: "'f fx_lib"
    and pub :: "string \<Rightarrow> uuid \<Rightarrow> 'r \<Rightarrow> (redis_error + string) \<times> 'r"
    and bpub :: "uuid \<Rightarrow> 'r \<Rightarrow> (redis_error + string) \<times> 'r" and wk :: "('x, 'p) worker" where
  account: "account_request s alib d d' \<Longrightarrow> service_step s alib flib pub bpub wk d d'"
| rate_pinned: "seed_fx_rate rate source now d = Inr d' \<Longrightarrow> service_step s alib flib pub bpub wk d d'"
| pools_made: "init_platform_wallets (wk_lib wk) s svc seed1 seed2 skip now d x = (out, d', x') \<Longrightarrow> service_step s alib flib pub bpub wk d d'"
| quoted: "create_quote_raced flib s u bid zar key now written d0 d st = ((res, d'), st') \<Longrightarrow>
    parse_send_amount zar = Inr z \<Longrightarrow>
    \<forall>rate. fst (current_rate flib s now d0 st) = Inr rate \<longrightarrow> rate_ok rate \<and> zar \<le> rate * 10 ^ 12 \<Longrightarrow>
    \<exists>b \<in> set (beneficiaries d). ben_id b = bid \<and> ben_sender_id b = usr_id u \<Longrightarrow> service_step s alib flib pub bpub wk d d'"
| paid_in: "confirm_cash_in pub u k meth now d q = ((res2, d'), q') \<Longrightarrow> service_step s alib flib pub bpub wk d d'"
| payment_confirmed: "confirm_zar_payment pub k payload now d q = ((res2, d'), q') \<Longrightarrow> service_step s alib flib pub bpub wk d d'"
| refunded: "refund_remittance s k now d = (res3, d') \<Longrightarrow> service_step s alib flib pub bpub wk d d'"
| requested: "parse_cash_out_request s raw raw_cur = Inr (a, cur) \<Longrightarrow>
    request_cash_out_endpoint flib s u a cur okey now d st = ((res4, d'), st') \<Longrightarrow>
    \<forall>rate. fst (current_rate flib s now d st) = Inr rate \<longrightarrow> rate_ok rate \<and> a * rate \<le> 10 ^ 15 \<Longrightarrow>
    service_step s alib flib pub bpub wk d d'"
| approved: "approve_cash_out_endpoint bpub admin k now d q = ((res4, d'), q') \<Longrightarrow> service_step s alib flib pub bpub wk d d'"
| rejected: "reject_cash_out_endpoint s admin k why now d = (res4, d') \<Longrightarrow> service_step s alib flib pub bpub wk d d'"
| balance_read: "get_balance s u now d = (res5, d') \<Longrightarrow> service_step s alib flib pub bpub wk d d'"
| history_read: "get_wallet_transactions u now d = (res6, d') \<Longrightarrow> service_step s alib flib pub bpub wk d d'"
| worked: "handle wk en reclaimed w = (res7, w') \<Longrightarrow>
    service_step s alib flib pub bpub wk (wo_db w) (wo_db w')"

lemma money_steps_sys: "(money_step s)\<^sup>*\<^sup>* y y' \<Longrightarrow> (sys_step s)\<^sup>*\<^sup>* y y' \<and> money_change (sy_db y) (sy_db y')"
  by (induction rule: rtranclp_induct)
    (auto simp: money_step_def intro: rtranclp.rtrancl_into_rtrancl money_change_trans)

lemma service_leads:
  assumes "service_step s alib flib pub bpub wk d d'" "sy_db y = d" "sys_inv s y"
    "fee_settings_ok s" "wk_settings wk = s"
  shows "account_step s alib d d' \<and> accounts_change d d' \<or> accounts_change d d' \<and> money_change d d' \<or> leads s y d'"
  using assms(1,2)
proof cases
  case (account)
  then show ?thesis using account_request_step [OF account] account_request_change [OF account] by simp
next
  case (rate_pinned rate source now)
  then show ?thesis using seed_fx_rate_change [OF rate_pinned] by blast
next
  case (pools_made svc seed1 seed2 skip now x out x')
  then show ?thesis using init_pools_change [OF pools_made] by blast
next
  case (quoted u bid zar key now written d0 st res st' z)
  then show ?thesis using quote_leads [of flib s u bid zar key now written d0 y st res d' st' z] assms(2,4) by blast
next
  case (paid_in u k meth now q res2 q')
  then show ?thesis using confirm_leads [OF paid_in [folded assms(2)] assms(3)] by blast
next
  case (payment_confirmed k payload now q res2 q')
  then show ?thesis using admin_confirm_leads [OF payment_confirmed [folded assms(2)]] by blast
next
  case (refunded k now res3)
  then show ?thesis using refund_leads [OF refunded [folded assms(2)]] by blast
next
  case (requested raw raw_cur a cur u okey now st res4 st')
  have "token_amount_ok a" "a < 10 ^ 12"
    using requested(1) by (auto simp: parse_cash_out_request_def MAX_CASH_OUT_UCTUSD_def token_amount_ok_def Let_def split: if_splits)
  then have "\<forall>rate. fst (current_rate flib s now (sy_db y) st) = Inr rate \<longrightarrow> cash_out_request_ok s a rate"
    using requested(3) assms(2,4) by (simp add: cash_out_request_ok_def)
  then show ?thesis using request_leads [OF requested(2) [folded assms(2)]] by blast
next
  case (approved admin k now q res4 q')
  then show ?thesis using approve_leads [OF approved [folded assms(2)]] by blast
next
  case (rejected admin k why now res4)
  then show ?thesis using reject_leads [OF rejected [folded assms(2)]] by blast
next
  case (balance_read u now res5)
  then show ?thesis using balance_leads [OF balance_read [folded assms(2)]] by blast
next
  case (history_read u now res6)
  then show ?thesis using history_leads [OF history_read [folded assms(2)]] by blast
next
  case (worked en reclaimed w res7 w')
  then show ?thesis using handle_leads [OF worked(3)] assms(2,3,5) by simp
qed

lemma service_step_tracks:
  assumes "service_step s alib flib pub bpub wk d d'" "sy_db y = d" "sys_reachable s y"
    "(account_step s alib)\<^sup>*\<^sup>* empty_db d" "fee_settings_ok s" "wk_settings wk = s"
  shows "\<exists>y'. sys_reachable s y' \<and> sy_db y' = d' \<and> (account_step s alib)\<^sup>*\<^sup>* empty_db d'"
proof -
  have acc: "sys_step s y (y\<lparr>sy_db := d'\<rparr>)" if "accounts_change d d'" using accounts [of y d' s] that assms(2) by simp
  have money: "(account_step s alib)\<^sup>*\<^sup>* empty_db d'" if "money_change d d'"
    using assms(4) account_step.api [OF api_step.money [OF that], of s alib] by (rule rtranclp.rtrancl_into_rtrancl)
  from service_leads [OF assms(1,2) sys_reachable_inv [OF assms(3)] assms(5,6)] show ?thesis
  proof (elim disjE conjE)
    assume "account_step s alib d d'" "accounts_change d d'"
    then show ?thesis using acc assms(3,4) unfolding sys_reachable_def
      by (intro exI [of _ "y\<lparr>sy_db := d'\<rparr>"]) (auto intro: rtranclp.rtrancl_into_rtrancl)
  next
    assume "accounts_change d d'" "money_change d d'"
    then show ?thesis using acc money assms(3) unfolding sys_reachable_def
      by (intro exI [of _ "y\<lparr>sy_db := d'\<rparr>"]) (auto intro: rtranclp.rtrancl_into_rtrancl)
  next
    assume "leads s y d'"
    then obtain y' where y': "(money_step s)\<^sup>*\<^sup>* y y'" "sy_db y' = d'" by (auto simp: leads_def)
    then show ?thesis using money_steps_sys [OF y'(1)] money assms(2,3) unfolding sys_reachable_def
      by (intro exI [of _ y']) (auto intro: rtranclp_trans)
  qed
qed

lemma service_run:
  assumes "(service_step s alib flib pub bpub wk)\<^sup>*\<^sup>* empty_db d" "fee_settings_ok s" "wk_settings wk = s"
  shows "\<exists>y. sys_reachable s y \<and> sy_db y = d \<and> (account_step s alib)\<^sup>*\<^sup>* empty_db d"
  using assms(1)
proof (induction rule: rtranclp_induct)
  case base
  show ?case by (intro exI [of _ init_sys]) (simp add: sys_reachable_def init_sys_def)
next
  case (step d1 d2)
  then obtain y where y: "sys_reachable s y" "sy_db y = d1" "(account_step s alib)\<^sup>*\<^sup>* empty_db d1" by blast
  show ?case by (rule service_step_tracks [OF step(2) y(2,1,3) assms(2,3)])
qed

section \<open>Property\<close>

text \<open>
  Whatever requests, messages and scripts the service has served, one after the other from an
  empty database, its database is one the transition system of \<open>System\<close> reaches: the tables of money
  and the tables of accounts are well formed, and what users were promised came about by the steps of
  the promise alone.
\<close>

theorem service_runs_in_system:
  assumes "(service_step s alib flib pub bpub wk)\<^sup>*\<^sup>* empty_db d" "fee_settings_ok s" "wk_settings wk = s"
  shows "\<exists>y. sys_reachable s y \<and> sy_db y = d \<and> app_inv s d \<and> account_inv d \<and>
    promise_step\<^sup>*\<^sup>* nothing_promised (promised d)"
proof -
  obtain y where y: "sys_reachable s y" "sy_db y = d" "(account_step s alib)\<^sup>*\<^sup>* empty_db d"
    using service_run [OF assms] by blast
  have "app_inv s d" using sys_inv_parts(1) [OF sys_reachable_inv [OF y(1)]] y(2) by simp
  moreover have "account_inv d" by (rule account_run.run_inv [OF y(3) account_inv_empty])
  moreover have "promise_step\<^sup>*\<^sup>* nothing_promised (promised d)"
    using promise_run.run_simulated [OF _ sys_init_inv, of s y] y(1,2) by (auto simp: sys_reachable_def promise_init)
  ultimately show ?thesis using y(1,2) by blast
qed

theorem service_runs_in_system_witness:
  "\<exists>d y. (service_step demo_settings plain_lib demo_fx (\<lambda>t k (q::nat). (Inr ''1-0'', q)) (\<lambda>k q. (Inr ''1-0'', q)) demo_worker)\<^sup>*\<^sup>* empty_db d \<and>
     map wal_user_id (wallets d) = [0] \<and> map usr_email (users d) = [''ann@x.org''] \<and>
     sys_reachable demo_settings y \<and> sy_db y = d \<and> account_inv d"
proof -
  let ?step = "service_step demo_settings plain_lib demo_fx (\<lambda>t k (q::nat). (Inr ''1-0'', q)) (\<lambda>k q. (Inr ''1-0'', q)) demo_worker"
  let ?d = "ann_db KYC_NOT_STARTED [] 1"
  let ?d' = "?d\<lparr>wallets := [\<lparr>wal_id = 1, wal_user_id = 0, wal_created_at = 9\<rparr>], next_id := 2\<rparr>"
  have s1: "?step empty_db ?d" by (rule service_step.account, rule account_request.registered, rule ann_run(1))
  have "wallet_for (usr_id ann) 9 ?d = Inr (\<lparr>wal_id = 1, wal_user_id = 0, wal_created_at = 9\<rparr>, ?d')"
    by (simp add: wallet_for_def wallet_for_raced_def wallet_of_def insert_or_reselect_def insert_wallet_def
        get_by_Cons ann_db_def ann_def empty_db_def Let_def)
  then have "get_balance demo_settings ann 9 ?d = (fst (get_balance demo_settings ann 9 ?d), ?d')" by (simp add: get_balance_def)
  then have s2: "?step ?d ?d'" by (rule service_step.balance_read)
  have run: "?step\<^sup>*\<^sup>* empty_db ?d'" using s1 s2 by (meson converse_rtranclp_into_rtranclp rtranclp.rtrancl_refl)
  have "fee_settings_ok demo_settings" "wk_settings demo_worker = demo_settings"
    by (simp_all add: demo_settings_def default_fee_settings_ok demo_worker_def)
  from service_runs_in_system [OF run this]
  obtain y where "sys_reachable demo_settings y" "sy_db y = ?d'" "account_inv ?d'" by blast
  then show ?thesis using run by (intro exI [of _ ?d'] exI [of _ y]) (simp add: ann_db_def ann_def)
qed

end
