(* ===== verification/Api.thy ===== *)
theory Api
  imports Responses Service
begin

text \<open>
  The HTTP interface of \<open>app/main.py\<close>: the six routers under their prefixes, the dependencies each
  route declares, the request schemas, the handlers, and the status codes. A request is its route
  with its path, query and body values, already of the types the route declares (a path segment that
  is no UUID, or a body that is not the JSON object asked for, is FastAPI's own 422). FastAPI solves
  the dependencies before it validates the body, so a request without credentials is answered 401
  whatever it carries. An exception that is no \<open>HTTPException\<close> is answered 500.

  The server's clock and the random text of \<open>uuid4().hex\<close> are functions of the number of requests
  served before.
\<close>

section \<open>The server\<close>

record ('n, 'f, 'r) api =
  api_settings :: settings
  api_auth :: "'n auth_lib"
  api_fx :: "'f fx_lib"
  api_publish :: "string \<Rightarrow> uuid \<Rightarrow> 'r \<Rightarrow> (redis_error + string) \<times> 'r"
  api_publish_burn :: "uuid \<Rightarrow> 'r \<Rightarrow> (redis_error + string) \<times> 'r"
  api_clock :: "nat \<Rightarrow> instant"
  api_today :: "nat \<Rightarrow> int \<times> int \<times> int"
  api_hex :: "nat \<Rightarrow> string"

record ('n, 'f, 'r) server =
  sv_db :: db
  sv_auth :: "string option \<times> 'n"
  sv_fx :: "fx_cache \<times> 'f"
  sv_redis :: 'r
  sv_served :: nat

datatype auth_request =
    Register string string string
  | Login string string
  | Login_form string string
  | Logout
  | Get_profile
  | Update_profile "string option" "string option"

datatype kyc_request = Submit_kyc kyc_form | Get_kyc_status

datatype beneficiary_request =
    Create_beneficiary beneficiary_form
  | List_beneficiaries
  | Get_beneficiary uuid
  | Delete_beneficiary uuid

datatype remittance_request =
    Create_quote uuid decimal
  | Confirm_cash_in uuid string
  | List_remittances
  | Get_remittance_status uuid

datatype wallet_request =
    Get_balance
  | Get_wallet_transactions
  | Request_cash_out decimal string "string option"
  | List_own_cash_outs
  | Get_own_cash_out uuid

datatype admin_request =
    List_kyc_applications "application_status option"
  | Approve_kyc uuid
  | Reject_kyc uuid "string option"
  | Confirm_zar_payment uuid "string option"
  | Refund_remittance uuid
  | List_cash_outs "cash_out_status option"
  | Approve_cash_out uuid
  | Reject_cash_out uuid "string option"

datatype request =
    Auth auth_request
  | KYC kyc_request
  | Beneficiaries beneficiary_request
  | Remittances remittance_request
  | Wallet wallet_request
  | Admin admin_request
  | Health_check

datatype body =
    User_body user_read
  | Token_body token_response
  | Me_body me_read
  | Kyc_body kyc_application_read
  | Kyc_status_body kyc_status_response
  | Kyc_list_body "admin_kyc_application_read list"
  | Beneficiary_body beneficiary_read
  | Beneficiary_list_body "beneficiary_read list"
  | Quote_body quote_read
  | Confirm_body cash_in_confirm_response
  | Remittance_body remittance_read
  | Remittance_list_body "remittance_read list"
  | Balance_body wallet_balance_read
  | Transaction_list_body "wallet_transaction_read list"
  | Cash_out_body cash_out_read
  | Cash_out_list_body "cash_out_read list"
  | Detail_body
  | No_body

type_synonym response = "nat \<times> body"

section \<open>Answers\<close>

definition status_code :: "exc \<Rightarrow> nat" where
  "status_code e = (case e of HTTPException code \<Rightarrow> code | _ \<Rightarrow> 500)"

definition answer :: "nat \<Rightarrow> ('a \<Rightarrow> body) \<Rightarrow> exc + 'a \<Rightarrow> response" where
  "answer code f m = (case m of Inl e \<Rightarrow> (status_code e, Detail_body) | Inr v \<Rightarrow> (code, f v))"

text \<open>A dependency or a schema that may refuse the request before its handler runs.\<close>

definition admit :: "exc + 'a \<Rightarrow> ('a \<Rightarrow> 's \<Rightarrow> response \<times> 's) \<Rightarrow> 's \<Rightarrow> response \<times> 's" where
  "admit m k x = (case m of Inl e \<Rightarrow> ((status_code e, Detail_body), x) | Inr v \<Rightarrow> k v x)"

text \<open>A handler that changes nothing, and one that leaves a database.\<close>

definition reads :: "nat \<Rightarrow> ('a \<Rightarrow> body) \<Rightarrow> exc + 'a \<Rightarrow> 's \<Rightarrow> response \<times> 's" where
  "reads code f m x = (answer code f m, x)"

definition writes ::
  "nat \<Rightarrow> ('a \<Rightarrow> body) \<Rightarrow> (exc + 'a) \<times> db \<Rightarrow> ('n, 'f, 'r) server \<Rightarrow> response \<times> ('n, 'f, 'r) server" where
  "writes code f r x = (answer code f (fst r), x\<lparr>sv_db := snd r\<rparr>)"

definition now_of :: "('n, 'f, 'r) api \<Rightarrow> ('n, 'f, 'r) server \<Rightarrow> instant" where
  "now_of a x = api_clock a (sv_served x)"

text \<open>\<open>OAuth2PasswordBearer\<close> answers 401 when the request has no bearer token.\<close>

definition caller :: "('n, 'f, 'r) api \<Rightarrow> string option \<Rightarrow> ('n, 'f, 'r) server \<Rightarrow> exc + user" where
  "caller a bearer x =
     ebind (some_or (HTTPException 401) bearer) (\<lambda>tok.
       get_current_user (api_auth a) (api_settings a) tok (now_of a x) (sv_db x))"

definition approved_caller :: "('n, 'f, 'r) api \<Rightarrow> string option \<Rightarrow> ('n, 'f, 'r) server \<Rightarrow> exc + user" where
  "approved_caller a bearer x = ebind (caller a bearer x) require_kyc_approved"

definition admin_caller :: "('n, 'f, 'r) api \<Rightarrow> string option \<Rightarrow> ('n, 'f, 'r) server \<Rightarrow> exc + user" where
  "admin_caller a bearer x = ebind (caller a bearer x) require_admin"

section \<open>Request schemas\<close>

text \<open>\<open>UserLogin\<close>, \<open>ProfileUpdate\<close> and \<open>KYCReviewRequest\<close>; the others are with their handlers.\<close>

definition parse_user_login :: "'n auth_lib \<Rightarrow> string \<Rightarrow> string \<Rightarrow> exc + string \<times> string" where
  "parse_user_login lib email password =
     ebind (some_or (HTTPException 422) (valid_email lib email)) (\<lambda>email. Inr (email, password))"

definition parse_profile_update ::
  "'n auth_lib \<Rightarrow> string option \<Rightarrow> string option \<Rightarrow> exc + string option \<times> string option" where
  "parse_profile_update lib email full_name =
     ebind (case email of
              None \<Rightarrow> Inr None
            | Some t \<Rightarrow> ebind (some_or (HTTPException 422) (valid_email lib t)) (\<lambda>t. Inr (Some t))) (\<lambda>email.
     ebind (guard_or (HTTPException 422) (case full_name of None \<Rightarrow> True | Some t \<Rightarrow> length_within 1 200 t)) (\<lambda>_.
     Inr (email, full_name)))"

definition parse_kyc_review :: "string option \<Rightarrow> exc + string option" where
  "parse_kyc_review reason =
     ebind (guard_or (HTTPException 422) (case reason of None \<Rightarrow> True | Some t \<Rightarrow> length_within 0 500 t))
       (\<lambda>_. Inr reason)"

section \<open>The routers\<close>

fun auth_routes ::
  "('n, 'f, 'r) api \<Rightarrow> string option \<Rightarrow> auth_request \<Rightarrow> ('n, 'f, 'r) server \<Rightarrow> response \<times> ('n, 'f, 'r) server" where
  "auth_routes a bearer (Register email password full_name) x =
     admit (parse_user_register (api_auth a) email password full_name) (\<lambda>payload x.
       case register (api_auth a) payload (now_of a x) (sv_db x) (snd (sv_auth x)) of
         (r, n') \<Rightarrow> writes 201 (User_body \<circ> user_read_of) r (x\<lparr>sv_auth := (fst (sv_auth x), n')\<rparr>)) x"
| "auth_routes a bearer (Login email password) x =
     admit (parse_user_login (api_auth a) email password) (\<lambda>(email, password) x.
       case login (api_auth a) (api_settings a) email password (now_of a x) (sv_db x) (sv_auth x) of
         (r, st') \<Rightarrow> reads 200 (Token_body \<circ> token_response_of) r (x\<lparr>sv_auth := st'\<rparr>)) x"
| "auth_routes a bearer (Login_form username password) x =
     (case login_form (api_auth a) (api_settings a) username password (now_of a x) (sv_db x) (sv_auth x) of
        (r, st') \<Rightarrow> reads 200 (Token_body \<circ> token_response_of) r (x\<lparr>sv_auth := st'\<rparr>))"
| "auth_routes a bearer Logout x = ((200, Detail_body), x)"
| "auth_routes a bearer Get_profile x =
     admit (caller a bearer x) (\<lambda>u. reads 200 (Me_body \<circ> me_read_of) (Inr (me_response_of (api_settings a) u))) x"
| "auth_routes a bearer (Update_profile email full_name) x =
     admit (caller a bearer x) (\<lambda>u.
     admit (parse_profile_update (api_auth a) email full_name) (\<lambda>(email, full_name) x.
       writes 200 (Me_body \<circ> me_read_of) (update_profile (api_settings a) u full_name email (sv_db x)) x)) x"

fun kyc_routes ::
  "('n, 'f, 'r) api \<Rightarrow> string option \<Rightarrow> kyc_request \<Rightarrow> ('n, 'f, 'r) server \<Rightarrow> response \<times> ('n, 'f, 'r) server" where
  "kyc_routes a bearer (Submit_kyc form) x =
     admit (caller a bearer x) (\<lambda>u.
     admit (parse_kyc_form (api_auth a) (api_today a (sv_served x)) form) (\<lambda>f x.
       writes 201 (Kyc_body \<circ> kyc_application_read_of)
         (commit_or_keep (sv_db x) (submit_kyc u f (now_of a x) (sv_db x))) x)) x"
| "kyc_routes a bearer Get_kyc_status x =
     admit (caller a bearer x) (\<lambda>u x.
       reads 200 (Kyc_status_body \<circ> kyc_status_response_of) (Inr (get_kyc_status u (sv_db x))) x) x"

fun beneficiary_routes ::
  "('n, 'f, 'r) api \<Rightarrow> string option \<Rightarrow> beneficiary_request \<Rightarrow> ('n, 'f, 'r) server \<Rightarrow> response \<times> ('n, 'f, 'r) server" where
  "beneficiary_routes a bearer (Create_beneficiary form) x =
     admit (caller a bearer x) (\<lambda>u.
     admit (parse_beneficiary_form (api_auth a) form) (\<lambda>f x.
       writes 201 (Beneficiary_body \<circ> beneficiary_read_of)
         (commit_or_keep (sv_db x) (create_beneficiary u f (now_of a x) (sv_db x))) x)) x"
| "beneficiary_routes a bearer List_beneficiaries x =
     admit (caller a bearer x) (\<lambda>u x.
       reads 200 (Beneficiary_list_body \<circ> map beneficiary_read_of) (Inr (list_beneficiaries u (sv_db x))) x) x"
| "beneficiary_routes a bearer (Get_beneficiary k) x =
     admit (caller a bearer x) (\<lambda>u x.
       reads 200 (Beneficiary_body \<circ> beneficiary_read_of) (get_beneficiary u k (sv_db x)) x) x"
| "beneficiary_routes a bearer (Delete_beneficiary k) x =
     admit (caller a bearer x) (\<lambda>u x.
       writes 204 (\<lambda>_. No_body)
         (commit_or_keep (sv_db x) (ebind (delete_beneficiary u k (sv_db x)) (\<lambda>d. Inr ((), d)))) x) x"

fun remittance_routes ::
  "('n, 'f, 'r) api \<Rightarrow> string option \<Rightarrow> remittance_request \<Rightarrow> ('n, 'f, 'r) server \<Rightarrow> response \<times> ('n, 'f, 'r) server" where
  "remittance_routes a bearer (Create_quote k zar) x =
     admit (approved_caller a bearer x) (\<lambda>u.
     admit (parse_send_amount zar) (\<lambda>zar x.
       case create_quote (api_fx a) (api_settings a) u k zar (api_hex a (sv_served x)) (now_of a x) (sv_db x) (sv_fx x) of
         (r, st') \<Rightarrow> writes 201 (Quote_body \<circ> quote_read_of) r (x\<lparr>sv_fx := st'\<rparr>))) x"
| "remittance_routes a bearer (Confirm_cash_in k meth) x =
     admit (approved_caller a bearer x) (\<lambda>u.
     admit (parse_cash_in_method meth) (\<lambda>meth x.
       case confirm_cash_in (api_publish a) u k meth (now_of a x) (sv_db x) (sv_redis x) of
         (r, q') \<Rightarrow> writes 200 (Confirm_body \<circ> cash_in_confirm_response_of) r (x\<lparr>sv_redis := q'\<rparr>))) x"
| "remittance_routes a bearer List_remittances x =
     admit (caller a bearer x) (\<lambda>u x.
       reads 200 (Remittance_list_body \<circ> map remittance_read_of) (Inr (list_remittances u (sv_db x))) x) x"
| "remittance_routes a bearer (Get_remittance_status k) x =
     admit (caller a bearer x) (\<lambda>u x.
       reads 200 (Remittance_body \<circ> remittance_read_of) (get_remittance_status u k (sv_db x)) x) x"

fun wallet_routes ::
  "('n, 'f, 'r) api \<Rightarrow> string option \<Rightarrow> wallet_request \<Rightarrow> ('n, 'f, 'r) server \<Rightarrow> response \<times> ('n, 'f, 'r) server" where
  "wallet_routes a bearer Get_balance x =
     admit (caller a bearer x) (\<lambda>u x.
       writes 200 (Balance_body \<circ> wallet_balance_read_of) (get_balance (api_settings a) u (now_of a x) (sv_db x)) x) x"
| "wallet_routes a bearer Get_wallet_transactions x =
     admit (caller a bearer x) (\<lambda>u x.
       writes 200 (Transaction_list_body \<circ> map wallet_transaction_read_of)
         (get_wallet_transactions u (now_of a x) (sv_db x)) x) x"
| "wallet_routes a bearer (Request_cash_out uctusd currency key) x =
     admit (caller a bearer x) (\<lambda>u.
     admit (parse_cash_out_request (api_settings a) uctusd currency) (\<lambda>(uctusd, currency) x.
       case request_cash_out_endpoint (api_fx a) (api_settings a) u uctusd currency key (now_of a x) (sv_db x) (sv_fx x) of
         (r, st') \<Rightarrow> writes 201 (Cash_out_body \<circ> cash_out_read_of) r (x\<lparr>sv_fx := st'\<rparr>))) x"
| "wallet_routes a bearer List_own_cash_outs x =
     admit (caller a bearer x) (\<lambda>u x.
       reads 200 (Cash_out_list_body \<circ> map cash_out_read_of) (Inr (list_own_cash_outs u (sv_db x))) x) x"
| "wallet_routes a bearer (Get_own_cash_out k) x =
     admit (caller a bearer x) (\<lambda>u x.
       reads 200 (Cash_out_body \<circ> cash_out_read_of) (get_own_cash_out u k (sv_db x)) x) x"

fun admin_routes ::
  "('n, 'f, 'r) api \<Rightarrow> string option \<Rightarrow> admin_request \<Rightarrow> ('n, 'f, 'r) server \<Rightarrow> response \<times> ('n, 'f, 'r) server" where
  "admin_routes a bearer (List_kyc_applications st) x =
     admit (admin_caller a bearer x) (\<lambda>u x.
       reads 200 (Kyc_list_body \<circ> map admin_kyc_application_read_of) (Inr (list_kyc_applications st (sv_db x))) x) x"
| "admin_routes a bearer (Approve_kyc k) x =
     admit (admin_caller a bearer x) (\<lambda>u x.
       writes 200 (Kyc_body \<circ> kyc_application_read_of)
         (commit_or_keep (sv_db x) (approve_kyc u k (now_of a x) (sv_db x))) x) x"
| "admin_routes a bearer (Reject_kyc k reason) x =
     admit (admin_caller a bearer x) (\<lambda>u.
     admit (parse_kyc_review reason) (\<lambda>reason x.
       writes 200 (Kyc_body \<circ> kyc_application_read_of)
         (commit_or_keep (sv_db x) (reject_kyc u k reason (now_of a x) (sv_db x))) x)) x"
| "admin_routes a bearer (Confirm_zar_payment k payload) x =
     admit (admin_caller a bearer x) (\<lambda>u.
     admit (case payload of None \<Rightarrow> Inr None | Some t \<Rightarrow> ebind (parse_cash_in_method t) (\<lambda>t. Inr (Some t))) (\<lambda>payload x.
       case confirm_zar_payment (api_publish a) k payload (now_of a x) (sv_db x) (sv_redis x) of
         (r, q') \<Rightarrow> writes 200 (Confirm_body \<circ> cash_in_confirm_response_of) r (x\<lparr>sv_redis := q'\<rparr>))) x"
| "admin_routes a bearer (Refund_remittance k) x =
     admit (admin_caller a bearer x) (\<lambda>u x.
       writes 200 (Remittance_body \<circ> remittance_read_of)
         (refund_remittance (api_settings a) k (now_of a x) (sv_db x)) x) x"
| "admin_routes a bearer (List_cash_outs st) x =
     admit (admin_caller a bearer x) (\<lambda>u x.
       reads 200 (Cash_out_list_body \<circ> map cash_out_read_of) (Inr (list_cash_outs st (sv_db x))) x) x"
| "admin_routes a bearer (Approve_cash_out k) x =
     admit (admin_caller a bearer x) (\<lambda>u x.
       case approve_cash_out_endpoint (api_publish_burn a) u k (now_of a x) (sv_db x) (sv_redis x) of
         (r, q') \<Rightarrow> writes 200 (Cash_out_body \<circ> cash_out_read_of) r (x\<lparr>sv_redis := q'\<rparr>)) x"
| "admin_routes a bearer (Reject_cash_out k reason) x =
     admit (admin_caller a bearer x) (\<lambda>u.
     admit (parse_kyc_review reason) (\<lambda>reason x.
       writes 200 (Cash_out_body \<circ> cash_out_read_of)
         (reject_cash_out_endpoint (api_settings a) u k reason (now_of a x) (sv_db x)) x)) x"

section \<open>The application\<close>

fun route ::
  "('n, 'f, 'r) api \<Rightarrow> string option \<Rightarrow> request \<Rightarrow> ('n, 'f, 'r) server \<Rightarrow> response \<times> ('n, 'f, 'r) server" where
  "route a bearer (Auth r) = auth_routes a bearer r"
| "route a bearer (KYC r) = kyc_routes a bearer r"
| "route a bearer (Beneficiaries r) = beneficiary_routes a bearer r"
| "route a bearer (Remittances r) = remittance_routes a bearer r"
| "route a bearer (Wallet r) = wallet_routes a bearer r"
| "route a bearer (Admin r) = admin_routes a bearer r"
| "route a bearer Health_check = Pair (200, Detail_body)"

definition serve ::
  "('n, 'f, 'r) api \<Rightarrow> string option \<times> request \<Rightarrow> ('n, 'f, 'r) server \<Rightarrow> response \<times> ('n, 'f, 'r) server" where
  "serve a r x =
     (case route a (fst r) (snd r) x of (resp, x') \<Rightarrow> (resp, x'\<lparr>sv_served := Suc (sv_served x)\<rparr>))"

section \<open>What a request can do to the database\<close>

lemma snd_reads [simp]: "snd (reads code f m x) = x"
  by (simp add: reads_def)

lemma snd_writes [simp]: "snd (writes code f r x) = x\<lparr>sv_db := snd r\<rparr>"
  by (simp add: writes_def)

lemma caller_on_record:
  "caller a bearer x = Inr u \<Longrightarrow> get_user (usr_id u) (sv_db x) = Some u"
  by (auto simp: caller_def get_current_user_def raise_simps get_user_def dest: get_by_Some)

text \<open>
  The bound under which a request is a step of the service: if the source serves it a rate, it is a
  plausible one. Everything else the schemas see to.
\<close>

definition plausible_rate :: "('n, 'f, 'r) api \<Rightarrow> ('n, 'f, 'r) server \<Rightarrow> bool" where
  "plausible_rate a x \<longleftrightarrow>
     (\<forall>rate. fst (current_rate (api_fx a) (api_settings a) (now_of a x) (sv_db x) (sv_fx x)) = Inr rate \<longrightarrow>
        rate_ok rate \<and> rate \<le> 1000)"

definition served ::
  "('n, 'f, 'r) api \<Rightarrow> ('x, 'p) worker \<Rightarrow> ('n, 'f, 'r) server \<Rightarrow> ('n, 'f, 'r) server \<Rightarrow> bool" where
  "served a wk x x' \<longleftrightarrow> sv_db x' = sv_db x \<or>
     service_step (api_settings a) (api_auth a) (api_fx a) (api_publish a) (api_publish_burn a) wk (sv_db x) (sv_db x')"

lemma served_same [simp]: "sv_db x' = sv_db x \<Longrightarrow> served a wk x x'"
  by (simp add: served_def)

lemma served_step:
  "service_step (api_settings a) (api_auth a) (api_fx a) (api_publish a) (api_publish_burn a) wk (sv_db x) (sv_db x') \<Longrightarrow>
   served a wk x x'"
  by (simp add: served_def)

lemma served_admit:
  assumes "\<And>v. m = Inr v \<Longrightarrow> served a wk x (snd (k v x))"
  shows "served a wk x (snd (admit m k x))"
  using assms by (simp add: admit_def split: sum.splits)

lemma served_account:
  assumes "\<And>v d'. res = Inr (v, d') \<Longrightarrow> account_request (api_settings a) (api_auth a) (sv_db x) d'"
  shows "served a wk x (snd (writes code f (commit_or_keep (sv_db x) res) x))"
proof (cases res)
  case (Inr r)
  obtain v d' where r: "r = (v, d')" by fastforce
  have "account_request (api_settings a) (api_auth a) (sv_db x) d'" using assms Inr r by blast
  then show ?thesis using Inr r by (intro served_step service_step.account) (simp add: commit_or_keep_def)
qed (simp add: commit_or_keep_def)

lemma auth_served: "served a wk x (snd (auth_routes a bearer r x))"
proof (cases r)
  case (Register email password full_name)
  show ?thesis unfolding Register auth_routes.simps
  proof (rule served_admit)
    fix payload
    obtain res d' n' where r: "register (api_auth a) payload (now_of a x) (sv_db x) (snd (sv_auth x)) = ((res, d'), n')"
      by (metis prod.exhaust)
    show "served a wk x (snd (case register (api_auth a) payload (now_of a x) (sv_db x) (snd (sv_auth x)) of
        (r, n') \<Rightarrow> writes 201 (User_body \<circ> user_read_of) r (x\<lparr>sv_auth := (fst (sv_auth x), n')\<rparr>)))"
    proof (cases res)
      case (Inl e)
      then have "d' = sv_db x"
        using r by (auto simp: register_def commit_or_keep_def split: prod.splits sum.splits)
      then show ?thesis by (simp add: r)
    next
      case (Inr u)
      have "account_request (api_settings a) (api_auth a) (sv_db x) d'"
        by (rule account_request.registered [OF r [unfolded Inr]])
      then show ?thesis by (intro served_step service_step.account) (simp add: r)
    qed
  qed
next
  case (Update_profile email full_name)
  show ?thesis unfolding Update_profile auth_routes.simps
  proof (intro served_admit)
    fix u and v :: "string option \<times> string option" assume u: "caller a bearer x = Inr u"
    obtain e n where v: "v = (e, n)" by fastforce
    obtain res d' where r: "update_profile (api_settings a) u n e (sv_db x) = (res, d')" by fastforce
    show "served a wk x (snd ((case v of (email, full_name) \<Rightarrow> \<lambda>x.
        writes 200 (Me_body \<circ> me_read_of) (update_profile (api_settings a) u full_name email (sv_db x)) x) x))"
    proof (cases res)
      case (Inl e)
      then have "d' = sv_db x"
        using r by (auto simp: update_profile_def commit_or_keep_def http_of_def Let_def split: if_splits sum.splits)
      then show ?thesis by (simp add: v r)
    next
      case (Inr me)
      have "account_request (api_settings a) (api_auth a) (sv_db x) d'"
        by (rule account_request.profile [OF caller_on_record [OF u] r [unfolded Inr]])
      then show ?thesis by (intro served_step service_step.account) (simp add: v r)
    qed
  qed
next
  case (Login email password)
  show ?thesis unfolding Login auth_routes.simps by (rule served_admit) (simp_all split: prod.split)
next
  case (Get_profile)
  show ?thesis unfolding Get_profile auth_routes.simps by (rule served_admit) simp_all
qed (simp_all split: prod.split)

lemma kyc_served: "served a wk x (snd (kyc_routes a bearer r x))"
proof (cases r)
  case (Submit_kyc form)
  show ?thesis unfolding Submit_kyc kyc_routes.simps
    by (intro served_admit served_account account_request.submitted) (simp_all add: caller_on_record)
next
  case (Get_kyc_status)
  show ?thesis unfolding Get_kyc_status kyc_routes.simps by (rule served_admit) simp_all
qed

lemma beneficiary_served: "served a wk x (snd (beneficiary_routes a bearer r x))"
proof (cases r)
  case (Create_beneficiary form)
  show ?thesis unfolding Create_beneficiary beneficiary_routes.simps
    by (intro served_admit served_account account_request.beneficiary_added) (simp_all add: caller_on_record)
next
  case (Delete_beneficiary k)
  show ?thesis unfolding Delete_beneficiary beneficiary_routes.simps
    by (intro served_admit served_account) (auto simp: ebind_eq_Inr intro: account_request.beneficiary_removed)
next
  case (List_beneficiaries)
  show ?thesis unfolding List_beneficiaries beneficiary_routes.simps by (rule served_admit) simp_all
next
  case (Get_beneficiary k)
  show ?thesis unfolding Get_beneficiary beneficiary_routes.simps by (rule served_admit) simp_all
qed

lemma plausible_rate_zar:
  assumes "plausible_rate a x" "parse_send_amount zar = Inr z"
  shows "\<forall>rate. fst (current_rate (api_fx a) (api_settings a) (now_of a x) (sv_db x) (sv_fx x)) = Inr rate \<longrightarrow>
    rate_ok rate \<and> z \<le> rate * 10 ^ 12"
proof (intro allI impI)
  fix rate assume "fst (current_rate (api_fx a) (api_settings a) (now_of a x) (sv_db x) (sv_fx x)) = Inr rate"
  then have ok: "rate_ok rate" using assms(1) unfolding plausible_rate_def by blast
  then obtain n where n: "rate = of_int n / 10 ^ 6" "0 < rate" by (auto simp: rate_ok_def scaled_def)
  then have "1 \<le> n" by (simp add: zero_less_divide_iff)
  then have "1 / 10 ^ 6 \<le> rate" using n(1) by (simp add: divide_right_mono)
  moreover have "z \<le> 10 ^ 6" using assms(2) by (auto simp: parse_send_amount_def MAX_SEND_AMOUNT_ZAR_def split: if_splits)
  ultimately show "rate_ok rate \<and> z \<le> rate * 10 ^ 12" using ok by (auto intro: order_trans)
qed

lemma parse_send_amount_same: "parse_send_amount zar = Inr z \<Longrightarrow> z = zar"
  by (simp add: parse_send_amount_def split: if_splits)

lemma remittance_served:
  assumes "plausible_rate a x"
  shows "served a wk x (snd (remittance_routes a bearer r x))"
proof (cases r)
  case (Create_quote k zar)
  show ?thesis unfolding Create_quote remittance_routes.simps
  proof (intro served_admit)
    fix u z assume z: "parse_send_amount zar = Inr z"
    obtain res d' st' where q: "create_quote (api_fx a) (api_settings a) u k z (api_hex a (sv_served x)) (now_of a x) (sv_db x) (sv_fx x) =
        ((res, d'), st')" by (metis prod.exhaust)
    show "served a wk x (snd (case create_quote (api_fx a) (api_settings a) u k z (api_hex a (sv_served x)) (now_of a x)
        (sv_db x) (sv_fx x) of (r, st') \<Rightarrow> writes 201 (Quote_body \<circ> quote_read_of) r (x\<lparr>sv_fx := st'\<rparr>)))"
    proof (cases "\<exists>b \<in> set (beneficiaries (sv_db x)). ben_id b = k \<and> ben_sender_id b = usr_id u")
      case True
      have "parse_send_amount z = Inr z" using z parse_send_amount_same [OF z] by simp
      then show ?thesis
        by (intro served_step) (simp add: q service_step.quoted [OF q [unfolded create_quote_def] _ plausible_rate_zar [OF assms z] True])
    next
      case False
      then have "find (\<lambda>b. ben_id b = k \<and> ben_sender_id b = usr_id u) (beneficiaries (sv_db x)) = None"
        by (auto simp: find_None_iff)
      then have "d' = sv_db x" using q by (simp add: create_quote_def create_quote_raced_def)
      then show ?thesis by (simp add: q)
    qed
  qed
next
  case (Confirm_cash_in k meth)
  show ?thesis unfolding Confirm_cash_in remittance_routes.simps
  proof (intro served_admit)
    fix u m
    obtain res d' q' where q: "confirm_cash_in (api_publish a) u k m (now_of a x) (sv_db x) (sv_redis x) = ((res, d'), q')"
      by (metis prod.exhaust)
    show "served a wk x (snd (case confirm_cash_in (api_publish a) u k m (now_of a x) (sv_db x) (sv_redis x) of
        (r, q') \<Rightarrow> writes 200 (Confirm_body \<circ> cash_in_confirm_response_of) r (x\<lparr>sv_redis := q'\<rparr>)))"
      by (intro served_step) (simp add: q service_step.paid_in [OF q])
  qed
next
  case (List_remittances)
  show ?thesis unfolding List_remittances remittance_routes.simps by (rule served_admit) simp_all
next
  case (Get_remittance_status k)
  show ?thesis unfolding Get_remittance_status remittance_routes.simps by (rule served_admit) simp_all
qed

lemma wallet_served:
  assumes "plausible_rate a x"
  shows "served a wk x (snd (wallet_routes a bearer r x))"
proof (cases r)
  case (Get_balance)
  show ?thesis unfolding Get_balance wallet_routes.simps
    by (intro served_admit served_step)
      (simp, rule service_step.balance_read, rule prod.collapse [symmetric])
next
  case (Get_wallet_transactions)
  show ?thesis unfolding Get_wallet_transactions wallet_routes.simps
    by (intro served_admit served_step)
      (simp, rule service_step.history_read, rule prod.collapse [symmetric])
next
  case (Request_cash_out raw raw_cur key)
  show ?thesis unfolding Request_cash_out wallet_routes.simps
  proof (intro served_admit)
    fix u v assume v: "parse_cash_out_request (api_settings a) raw raw_cur = Inr v"
    obtain amt cur where p: "v = (amt, cur)" by fastforce
    obtain res d' st' where q: "request_cash_out_endpoint (api_fx a) (api_settings a) u amt cur key (now_of a x) (sv_db x) (sv_fx x) =
        ((res, d'), st')" by (metis prod.exhaust)
    have amt: "0 < amt" "amt < 10 ^ 12" using v p by (auto simp: parse_cash_out_request_def Let_def split: if_splits)
    have "rate_ok rate \<and> amt * rate \<le> 10 ^ 15"
      if "fst (current_rate (api_fx a) (api_settings a) (now_of a x) (sv_db x) (sv_fx x)) = Inr rate" for rate
    proof -
      have r: "rate_ok rate" "rate \<le> 1000" using assms that unfolding plausible_rate_def by blast+
      then have "amt * rate \<le> 10 ^ 12 * 1000" using amt by (intro mult_mono) (auto simp: rate_ok_def)
      then show ?thesis using r by simp
    qed
    then have "service_step (api_settings a) (api_auth a) (api_fx a) (api_publish a) (api_publish_burn a) wk (sv_db x) d'"
      by (intro service_step.requested [OF v [unfolded p] q]) blast
    then show "served a wk x (snd ((case v of (uctusd, currency) \<Rightarrow> \<lambda>x.
       case request_cash_out_endpoint (api_fx a) (api_settings a) u uctusd currency key (now_of a x) (sv_db x) (sv_fx x) of
         (r, st') \<Rightarrow> writes 201 (Cash_out_body \<circ> cash_out_read_of) r (x\<lparr>sv_fx := st'\<rparr>)) x))"
      by (intro served_step) (simp add: p q)
  qed
next
  case (List_own_cash_outs)
  show ?thesis unfolding List_own_cash_outs wallet_routes.simps by (rule served_admit) simp_all
next
  case (Get_own_cash_out k)
  show ?thesis unfolding Get_own_cash_out wallet_routes.simps by (rule served_admit) simp_all
qed

lemma admin_served: "served a wk x (snd (admin_routes a bearer r x))"
proof (cases r)
  case (Approve_kyc k)
  show ?thesis unfolding Approve_kyc admin_routes.simps
    by (intro served_admit served_account account_request.kyc_approved)
next
  case (Reject_kyc k reason)
  show ?thesis unfolding Reject_kyc admin_routes.simps
    by (intro served_admit served_account account_request.kyc_rejected)
next
  case (Confirm_zar_payment k payload)
  show ?thesis unfolding Confirm_zar_payment admin_routes.simps
  proof (intro served_admit)
    fix m
    obtain res d' q' where q: "confirm_zar_payment (api_publish a) k m (now_of a x) (sv_db x) (sv_redis x) = ((res, d'), q')"
      by (metis prod.exhaust)
    show "served a wk x (snd (case confirm_zar_payment (api_publish a) k m (now_of a x) (sv_db x) (sv_redis x) of
        (r, q') \<Rightarrow> writes 200 (Confirm_body \<circ> cash_in_confirm_response_of) r (x\<lparr>sv_redis := q'\<rparr>)))"
      by (intro served_step) (simp add: q service_step.payment_confirmed [OF q])
  qed
next
  case (Refund_remittance k)
  show ?thesis unfolding Refund_remittance admin_routes.simps
    by (intro served_admit served_step)
      (simp, rule service_step.refunded, rule prod.collapse [symmetric])
next
  case (Approve_cash_out k)
  show ?thesis unfolding Approve_cash_out admin_routes.simps
  proof (intro served_admit)
    fix u
    obtain res d' q' where q: "approve_cash_out_endpoint (api_publish_burn a) u k (now_of a x) (sv_db x) (sv_redis x) = ((res, d'), q')"
      by (metis prod.exhaust)
    show "served a wk x (snd (case approve_cash_out_endpoint (api_publish_burn a) u k (now_of a x) (sv_db x) (sv_redis x) of
        (r, q') \<Rightarrow> writes 200 (Cash_out_body \<circ> cash_out_read_of) r (x\<lparr>sv_redis := q'\<rparr>)))"
      by (intro served_step) (simp add: q service_step.approved [OF q])
  qed
next
  case (Reject_cash_out k reason)
  show ?thesis unfolding Reject_cash_out admin_routes.simps
    by (intro served_admit served_step)
      (simp, rule service_step.rejected, rule prod.collapse [symmetric])
next
  case (List_kyc_applications st)
  show ?thesis unfolding List_kyc_applications admin_routes.simps by (rule served_admit) simp_all
next
  case (List_cash_outs st)
  show ?thesis unfolding List_cash_outs admin_routes.simps by (rule served_admit) simp_all
qed

lemma sv_db_serve [simp]: "sv_db (snd (serve a r x)) = sv_db (snd (route a (fst r) (snd r) x))"
  by (simp add: serve_def split: prod.split)

lemma fst_serve [simp]: "fst (serve a r x) = fst (route a (fst r) (snd r) x)"
  by (simp add: serve_def split: prod.split)

lemma serve_served:
  assumes "plausible_rate a x"
  shows "served a wk x (snd (serve a r x))"
proof -
  have "served a wk x (snd (route a (fst r) (snd r) x))"
    by (cases "snd r") (simp_all add: auth_served kyc_served beneficiary_served remittance_served [OF assms]
        wallet_served [OF assms] admin_served)
  then show ?thesis by (simp add: served_def)
qed

section \<open>The platform\<close>

text \<open>
  What happens to the server: it serves a request, or the worker or an operator's script commits
  to its database and puts or takes messages on Redis meanwhile.
\<close>

inductive platform_step ::
  "('n, 'f, 'r) api \<Rightarrow> ('x, 'p) worker \<Rightarrow> ('n, 'f, 'r) server \<Rightarrow> ('n, 'f, 'r) server \<Rightarrow> bool"
  for a :: "('n, 'f, 'r) api" and wk :: "('x, 'p) worker" where
  request: "serve a r x = (resp, x') \<Longrightarrow> plausible_rate a x \<Longrightarrow> platform_step a wk x x'"
| elsewhere: "service_step (api_settings a) (api_auth a) (api_fx a) (api_publish a) (api_publish_burn a) wk (sv_db x) d' \<Longrightarrow>
    platform_step a wk x (x\<lparr>sv_db := d', sv_redis := q'\<rparr>)"

fun serve_all ::
  "('n, 'f, 'r) api \<Rightarrow> (string option \<times> request) list \<Rightarrow> ('n, 'f, 'r) server \<Rightarrow> response list \<times> ('n, 'f, 'r) server" where
  "serve_all a [] x = ([], x)"
| "serve_all a (r # rs) x =
     (case serve a r x of (resp, x1) \<Rightarrow> (case serve_all a rs x1 of (resps, x2) \<Rightarrow> (resp # resps, x2)))"

lemma platform_step_service:
  "platform_step a wk x x' \<Longrightarrow> sv_db x' = sv_db x \<or>
     service_step (api_settings a) (api_auth a) (api_fx a) (api_publish a) (api_publish_burn a) wk (sv_db x) (sv_db x')"
proof (induction rule: platform_step.induct)
  case (request r x resp x')
  then show ?case using serve_served [OF request(2), of wk r] by (simp add: served_def)
qed simp

lemma platform_run_service:
  assumes "(platform_step a wk)\<^sup>*\<^sup>* x x'"
  shows "(service_step (api_settings a) (api_auth a) (api_fx a) (api_publish a) (api_publish_burn a) wk)\<^sup>*\<^sup>* (sv_db x) (sv_db x')"
  using assms
proof (induction rule: rtranclp_induct)
  case (step x1 x2)
  then show ?case using platform_step_service [OF step(2)] by (auto intro: rtranclp.rtrancl_into_rtrancl)
qed simp

text \<open>With the mock source, every rate is plausible.\<close>

lemma mock_plausible:
  assumes "exchange_rate_source (api_settings a) = ''mock''" "mock_settings_ok (api_settings a)"
    "mock_band (api_settings a) + 1 / 10 ^ 6 < fx_mock_base_rate (api_settings a)"
    "fx_mock_base_rate (api_settings a) + mock_band (api_settings a) + 1 / 10 ^ 6 \<le> 1000"
  shows "plausible_rate a x"
proof -
  obtain rate where r: "mock_rate (fx_sha256 (api_fx a)) (api_settings a) (unix_time (now_of a x)) = Inr rate" "scaled 6 rate"
    "\<bar>rate - fx_mock_base_rate (api_settings a)\<bar> \<le> mock_band (api_settings a) + 1 / 10 ^ 6" "rate < 10 ^ 6"
    using mock_rate_served [OF assms(2)] by blast
  have "fst (current_rate (api_fx a) (api_settings a) (now_of a x) (sv_db x) (sv_fx x)) = Inr rate"
    using r(1) assms(1) by (simp add: current_rate_def get_usd_zar_rate_def http_of_def Let_def split: prod.split)
  then show ?thesis using r(2-4) assms(3,4) by (simp add: plausible_rate_def rate_ok_def abs_le_iff)
qed

text \<open>
  C11. Whatever is asked of the API, in whatever order and by whomever, and whatever the worker and the
  operators do in between, the database stays one the transition system of \<open>System\<close> reaches: the
  tables of money and of accounts keep their invariants, and what users were promised came about by
  steps of the promise alone.
\<close>

theorem requests_stay_in_system:
  assumes "(platform_step a wk)\<^sup>*\<^sup>* x x'" "sv_db x = empty_db" "fee_settings_ok (api_settings a)"
    "wk_settings wk = api_settings a"
  shows "\<exists>y. sys_reachable (api_settings a) y \<and> sy_db y = sv_db x' \<and> app_inv (api_settings a) (sv_db x') \<and>
    account_inv (sv_db x') \<and> promise_step\<^sup>*\<^sup>* nothing_promised (promised (sv_db x'))"
proof -
  obtain y where y: "sys_reachable (api_settings a) y" "sy_db y = sv_db x'"
    "(account_step (api_settings a) (api_auth a))\<^sup>*\<^sup>* empty_db (sv_db x')"
    using service_run [OF platform_run_service [OF assms(1), unfolded assms(2)] assms(3,4)] by blast
  have "app_inv (api_settings a) (sv_db x')" using sys_inv_parts(1) [OF sys_reachable_inv [OF y(1)]] y(2) by simp
  moreover have "account_inv (sv_db x')" by (rule account_run.run_inv [OF y(3) account_inv_empty])
  moreover have "promise_step\<^sup>*\<^sup>* nothing_promised (promised (sv_db x'))"
    using promise_run.run_simulated [OF _ sys_init_inv, of "api_settings a" y] y(1,2)
    by (auto simp: sys_reachable_def promise_init)
  ultimately show ?thesis using y(1,2) by blast
qed

section \<open>A run\<close>

definition demo_api :: "(nat, nat, nat) api" where
  "demo_api =
     \<lparr>api_settings = demo_settings, api_auth = plain_lib, api_fx = demo_fx,
      api_publish = (\<lambda>key k q. (Inr ''1-0'', Suc q)), api_publish_burn = (\<lambda>k q. (Inr ''1-0'', Suc q)),
      api_clock = (\<lambda>n. 5 + int n), api_today = (\<lambda>n. (2026, 1, 1)), api_hex = (\<lambda>n. replicate (Suc n) CHR ''k'')\<rparr>"

definition demo_server :: "db \<Rightarrow> (nat, nat, nat) server" where
  "demo_server d = \<lparr>sv_db = d, sv_auth = (None, 0), sv_fx = (Map.empty, 0), sv_redis = 0, sv_served = 0\<rparr>"

lemma demo_plausible: "plausible_rate demo_api x"
proof (rule mock_plausible)
  have f: "fx_mock_base_rate demo_settings = 37/2" "fx_mock_volatility_bps demo_settings = 150"
    by (simp_all add: demo_settings_def default_settings_def)
  have "scaled 6 (37/2 :: rat)" by code_simp
  then show "mock_settings_ok (api_settings demo_api)" by (simp add: mock_settings_ok_def demo_api_def f)
  show "mock_band (api_settings demo_api) + 1 / 10 ^ 6 < fx_mock_base_rate (api_settings demo_api)"
    "fx_mock_base_rate (api_settings demo_api) + mock_band (api_settings demo_api) + 1 / 10 ^ 6 \<le> 1000"
    by (simp_all add: mock_band_def demo_api_def f)
qed (simp add: demo_api_def demo_settings_def default_settings_def)

lemma demo_register:
  "serve demo_api (None, Auth (Register ''ann@x.org'' ''secret12'' ''Ann'')) (demo_server empty_db) =
     ((201, User_body (user_read_of ann)),
      (demo_server (ann_db KYC_NOT_STARTED [] 1))\<lparr>sv_auth := (None, 1), sv_served := 1\<rparr>)"
proof -
  have "parse_user_register plain_lib ''ann@x.org'' ''secret12'' ''Ann'' = Inr (''ann@x.org'', ''secret12'', ''Ann'')"
    by code_simp
  then show ?thesis
    by (simp add: serve_def admit_def writes_def answer_def demo_api_def demo_server_def now_of_def ann_run(1))
qed

theorem requests_stay_in_system_witness:
  "\<exists>x y. map fst (fst (serve_all demo_api
       [(None, Auth (Register ''ann@x.org'' ''secret12'' ''Ann'')), (None, Auth Get_profile)] (demo_server empty_db))) = [201, 401] \<and>
     (platform_step demo_api demo_worker)\<^sup>*\<^sup>* (demo_server empty_db) x \<and> map usr_email (users (sv_db x)) = [''ann@x.org''] \<and>
     sys_reachable demo_settings y \<and> sy_db y = sv_db x \<and> account_inv (sv_db x)"
proof -
  let ?x = "(demo_server (ann_db KYC_NOT_STARTED [] 1))\<lparr>sv_auth := (None, 1), sv_served := 1\<rparr>"
  have run: "(platform_step demo_api demo_worker)\<^sup>*\<^sup>* (demo_server empty_db) ?x"
    using platform_step.request [OF demo_register demo_plausible] by blast
  have s: "api_settings demo_api = demo_settings" by (simp add: demo_api_def)
  have "sv_db (demo_server empty_db) = empty_db" "fee_settings_ok (api_settings demo_api)" "wk_settings demo_worker = api_settings demo_api"
    by (simp_all add: s demo_server_def) (simp_all add: demo_settings_def default_fee_settings_ok demo_worker_def)
  from requests_stay_in_system [OF run this]
  obtain y where "sys_reachable demo_settings y" "sy_db y = sv_db ?x" "account_inv (sv_db ?x)" unfolding s by blast
  moreover have "map fst (fst (serve_all demo_api
       [(None, Auth (Register ''ann@x.org'' ''secret12'' ''Ann'')), (None, Auth Get_profile)] (demo_server empty_db))) = [201, 401]"
    by (simp add: demo_register) (simp add: serve_def admit_def caller_def status_code_def)
  moreover have "map usr_email (users (sv_db ?x)) = [''ann@x.org'']" by (simp add: demo_server_def ann_db_def ann_def)
  ultimately show ?thesis using run by (intro exI [of _ ?x] exI [of _ y]) simp
qed

end
