(* ===== verification/Isolation.thy ===== *)
theory Isolation
  imports Api
begin

text \<open>
  Who may do what to whose rows: that the routes let through only the callers they declare, that what
  a user reads of their own account depends on their own rows alone, and that what a user does
  outside the administrators' routes leaves everybody else's rows as they are.
\<close>

section \<open>The doors\<close>

datatype role = Anyone | Signed_in | Approved | Administrator

fun role_of :: "request \<Rightarrow> role" where
  "role_of (Auth Get_profile) = Signed_in"
| "role_of (Auth (Update_profile email full_name)) = Signed_in"
| "role_of (Auth r) = Anyone"
| "role_of (KYC r) = Signed_in"
| "role_of (Beneficiaries r) = Signed_in"
| "role_of (Remittances (Create_quote k zar)) = Approved"
| "role_of (Remittances (Confirm_cash_in k meth)) = Approved"
| "role_of (Remittances r) = Signed_in"
| "role_of (Wallet r) = Signed_in"
| "role_of (Admin r) = Administrator"
| "role_of Health_check = Anyone"

definition turned_away :: "nat \<Rightarrow> ('n, 'f, 'r) api \<Rightarrow> string option \<times> request \<Rightarrow> ('n, 'f, 'r) server \<Rightarrow> bool" where
  "turned_away code a r x \<longleftrightarrow> serve a r x = ((code, Detail_body), x\<lparr>sv_served := Suc (sv_served x)\<rparr>)"

lemma get_current_user_Inl: "get_current_user lib s tok now d = Inl e \<Longrightarrow> e = HTTPException 401"
  by (auto simp: get_current_user_def decode_access_token_def http_of_def some_or_def ebind_def split: sum.splits option.splits if_splits)

lemma caller_Inl: "caller a bearer x = Inl e \<Longrightarrow> e = HTTPException 401"
  by (cases bearer) (auto simp: caller_def some_or_def dest: get_current_user_Inl)

lemma admit_Inl: "m = Inl (HTTPException code) \<Longrightarrow> admit m k x = ((code, Detail_body), x)"
  by (simp add: admit_def status_code_def)

lemma route_guarded:
  assumes "caller a bearer x = Inl (HTTPException 401)"
  shows "kyc_routes a bearer r1 x = ((401, Detail_body), x)" "beneficiary_routes a bearer r2 x = ((401, Detail_body), x)"
    "remittance_routes a bearer r3 x = ((401, Detail_body), x)" "wallet_routes a bearer r4 x = ((401, Detail_body), x)"
    "admin_routes a bearer r5 x = ((401, Detail_body), x)"
proof -
  have c: "approved_caller a bearer x = Inl (HTTPException 401)" "admin_caller a bearer x = Inl (HTTPException 401)"
    using assms by (simp_all add: approved_caller_def admin_caller_def)
  show "kyc_routes a bearer r1 x = ((401, Detail_body), x)" by (cases r1) (simp_all add: admit_Inl assms)
  show "beneficiary_routes a bearer r2 x = ((401, Detail_body), x)" by (cases r2) (simp_all add: admit_Inl assms)
  show "remittance_routes a bearer r3 x = ((401, Detail_body), x)" by (cases r3) (simp_all add: admit_Inl assms c)
  show "wallet_routes a bearer r4 x = ((401, Detail_body), x)" by (cases r4) (simp_all add: admit_Inl assms)
  show "admin_routes a bearer r5 x = ((401, Detail_body), x)" by (cases r5) (simp_all add: admit_Inl c)
qed

lemma route_not_admin:
  assumes "caller a bearer x = Inr u" "\<not> usr_is_admin u"
  shows "admin_routes a bearer r x = ((403, Detail_body), x)"
proof -
  have "admin_caller a bearer x = Inl (HTTPException 403)" using assms by (simp add: admin_caller_def require_admin_def)
  then show ?thesis by (cases r) (simp_all add: admit_Inl)
qed

lemma route_not_approved:
  assumes "caller a bearer x = Inr u" "usr_kyc_status u \<noteq> KYC_APPROVED" "role_of (Remittances r) = Approved"
  shows "remittance_routes a bearer r x = ((403, Detail_body), x)"
proof -
  have "approved_caller a bearer x = Inl (HTTPException 403)" using assms(1,2) by (simp add: approved_caller_def require_kyc_approved_def)
  then show ?thesis using assms(3) by (cases r) (simp_all add: admit_Inl)
qed

lemma route_unauthenticated:
  assumes "caller a bearer x = Inl e" "role_of req \<noteq> Anyone"
  shows "route a bearer req x = ((401, Detail_body), x)"
proof -
  have c: "caller a bearer x = Inl (HTTPException 401)" using assms(1) caller_Inl [OF assms(1)] by simp
  show ?thesis
  proof (cases req)
    case (Auth r)
    then show ?thesis using assms(2) by (cases r) (simp_all add: admit_Inl c)
  qed (use assms(2) in \<open>simp_all add: route_guarded [OF c]\<close>)
qed

lemma serve_turned_away:
  "route a bearer req x = ((code, Detail_body), x) \<Longrightarrow> turned_away code a (bearer, req) x"
  by (simp add: turned_away_def serve_def)

text \<open>
  C12. The doors are where the routes put them. Without a valid token every request but registering,
  logging in or out and the health check is answered 401; a signed-in user without an approved KYC
  application is answered 403 where money is sent, and one who is no administrator 403 on every
  administrator's route. A request turned away has changed nothing and asked nothing of the queue.
\<close>

theorem doors_hold:
  "(role_of req \<noteq> Anyone \<and> (\<forall>u. caller a bearer x \<noteq> Inr u) \<longrightarrow> turned_away 401 a (bearer, req) x) \<and>
   (\<forall>u. caller a bearer x = Inr u \<longrightarrow>
      (role_of req = Approved \<and> usr_kyc_status u \<noteq> KYC_APPROVED \<longrightarrow> turned_away 403 a (bearer, req) x) \<and>
      (role_of req = Administrator \<and> \<not> usr_is_admin u \<longrightarrow> turned_away 403 a (bearer, req) x))"
proof (intro conjI impI allI)
  assume "role_of req \<noteq> Anyone \<and> (\<forall>u. caller a bearer x \<noteq> Inr u)"
  then obtain e where "caller a bearer x = Inl e" "role_of req \<noteq> Anyone" by (metis sum.exhaust)
  then show "turned_away 401 a (bearer, req) x" by (intro serve_turned_away route_unauthenticated)
next
  fix u assume u: "caller a bearer x = Inr u" and r: "role_of req = Approved \<and> usr_kyc_status u \<noteq> KYC_APPROVED"
  then obtain rr where "req = Remittances rr" by (cases req rule: role_of.cases) auto
  then show "turned_away 403 a (bearer, req) x"
    using route_not_approved [OF u] r by (intro serve_turned_away) simp
next
  fix u assume u: "caller a bearer x = Inr u" and r: "role_of req = Administrator \<and> \<not> usr_is_admin u"
  then obtain rr where "req = Admin rr" by (cases req rule: role_of.cases) auto
  then show "turned_away 403 a (bearer, req) x"
    using route_not_admin [OF u] r by (intro serve_turned_away) simp
qed

section \<open>A user's own rows\<close>

definition own_rows_same :: "uuid \<Rightarrow> db \<Rightarrow> db \<Rightarrow> bool" where
  "own_rows_same v d d' \<longleftrightarrow>
     get_user v d' = get_user v d \<and>
     filter (\<lambda>a. kyc_user_id a = v) (kyc_applications d') = filter (\<lambda>a. kyc_user_id a = v) (kyc_applications d) \<and>
     filter (\<lambda>b. ben_sender_id b = v) (beneficiaries d') = filter (\<lambda>b. ben_sender_id b = v) (beneficiaries d) \<and>
     filter (\<lambda>r. rem_sender_id r = v) (remittances d') = filter (\<lambda>r. rem_sender_id r = v) (remittances d) \<and>
     filter (\<lambda>c. co_user_id c = v) (cash_outs d') = filter (\<lambda>c. co_user_id c = v) (cash_outs d) \<and>
     wallet_of v d' = wallet_of v d \<and>
     (\<forall>w. wallet_of v d = Some w \<longrightarrow>
        filter (\<lambda>b. bal_wallet_id b = wal_id w) (ledger_balances d') = filter (\<lambda>b. bal_wallet_id b = wal_id w) (ledger_balances d) \<and>
        filter (\<lambda>e. wtx_wallet_id e = wal_id w) (wallet_transactions d') =
          filter (\<lambda>e. wtx_wallet_id e = wal_id w) (wallet_transactions d))"

lemma own_rows_refl [simp]: "own_rows_same v d d"
  by (simp add: own_rows_same_def)

lemma own_rows_trans: "own_rows_same v d d1 \<Longrightarrow> own_rows_same v d1 d2 \<Longrightarrow> own_rows_same v d d2"
  by (simp add: own_rows_same_def)

text \<open>The requests that read the caller's account, and the two of them that make the wallet on first use.\<close>

fun reads_own :: "request \<Rightarrow> bool" where
  "reads_own (Auth Get_profile) = True"
| "reads_own (KYC Get_kyc_status) = True"
| "reads_own (Beneficiaries List_beneficiaries) = True"
| "reads_own (Beneficiaries (Get_beneficiary k)) = True"
| "reads_own (Remittances List_remittances) = True"
| "reads_own (Remittances (Get_remittance_status k)) = True"
| "reads_own (Wallet List_own_cash_outs) = True"
| "reads_own (Wallet (Get_own_cash_out k)) = True"
| "reads_own (Wallet Get_balance) = True"
| "reads_own (Wallet Get_wallet_transactions) = True"
| "reads_own r = False"

fun reads_wallet :: "request \<Rightarrow> bool" where
  "reads_wallet (Wallet Get_balance) = True"
| "reads_wallet (Wallet Get_wallet_transactions) = True"
| "reads_wallet r = False"

lemma find_and: "find (\<lambda>x. P x \<and> Q x) xs = find P (filter Q xs)"
  by (induction xs) auto

lemma get_by_filter: "(\<And>x. key x = k \<Longrightarrow> Q x) \<Longrightarrow> get_by key k xs = get_by key k (filter Q xs)"
  by (induction xs) (auto simp: get_by_Cons)

lemma caller_same:
  assumes "caller a bearer x = Inr u" "own_rows_same (usr_id u) (sv_db x) (sv_db x')" "sv_served x' = sv_served x"
  shows "caller a bearer x' = Inr u"
proof -
  from assms(1) obtain tok where b: "bearer = Some tok"
    and t: "get_current_user (api_auth a) (api_settings a) tok (now_of a x) (sv_db x) = Inr u"
    by (auto simp: caller_def raise_simps)
  have "get_user (usr_id u) (sv_db x') = Some u" using assms(2) caller_on_record [OF assms(1)] by (simp add: own_rows_same_def)
  then show ?thesis using b t assms(3)
    by (auto simp: caller_def get_current_user_def raise_simps now_of_def get_user_def dest: get_by_Some)
qed

lemma own_finds:
  assumes "own_rows_same v d d'"
  shows "find (\<lambda>b. ben_id b = k \<and> ben_sender_id b = v) (beneficiaries d') = find (\<lambda>b. ben_id b = k \<and> ben_sender_id b = v) (beneficiaries d)"
    "find (\<lambda>r. rem_id r = k \<and> rem_sender_id r = v) (remittances d') = find (\<lambda>r. rem_id r = k \<and> rem_sender_id r = v) (remittances d)"
    "find (\<lambda>c. co_id c = k \<and> co_user_id c = v) (cash_outs d') = find (\<lambda>c. co_id c = k \<and> co_user_id c = v) (cash_outs d)"
  using assms unfolding own_rows_same_def find_and by simp_all

lemma own_balances:
  assumes "own_rows_same v d d'" "wallet_of v d = Some w"
  shows "balance s (wal_id w) cur d' = balance s (wal_id w) cur d" "balances s (wal_id w) d' = balances s (wal_id w) d"
proof -
  have f: "filter (\<lambda>b. bal_wallet_id b = wal_id w) (ledger_balances d') = filter (\<lambda>b. bal_wallet_id b = wal_id w) (ledger_balances d)"
    using assms by (simp add: own_rows_same_def)
  then have "balance_row (wal_id w) code d' = balance_row (wal_id w) code d" for code
    unfolding balance_row_def
    by (subst (1 2) get_by_filter [where Q = "\<lambda>b. bal_wallet_id b = wal_id w"]) (auto simp: bal_key_def)
  then show "balance s (wal_id w) cur d' = balance s (wal_id w) cur d" by (simp add: balance_def)
  show "balances s (wal_id w) d' = balances s (wal_id w) d" using f by (simp add: balances_def)
qed

lemma own_wallet_reads:
  assumes "own_rows_same (usr_id u) d d'" "wallet_of (usr_id u) d \<noteq> None"
  shows "fst (get_balance s u now d') = fst (get_balance s u now d)"
    "fst (get_wallet_transactions u now d') = fst (get_wallet_transactions u now d)"
proof -
  obtain w where w: "wallet_of (usr_id u) d = Some w" "wallet_of (usr_id u) d' = Some w"
    using assms by (auto simp: own_rows_same_def)
  have e: "filter (\<lambda>e. wtx_wallet_id e = wal_id w) (wallet_transactions d') = filter (\<lambda>e. wtx_wallet_id e = wal_id w) (wallet_transactions d)"
    using assms(1) w(1) by (simp add: own_rows_same_def)
  show "fst (get_balance s u now d') = fst (get_balance s u now d)"
    using own_balances [OF assms(1) w(1)] w by (simp add: get_balance_def wallet_for_def wallet_for_raced_def)
  show "fst (get_wallet_transactions u now d') = fst (get_wallet_transactions u now d)"
    using e w by (simp add: get_wallet_transactions_def wallet_for_def wallet_for_raced_def)
qed

lemma fst_admitted: "m = Inr v \<Longrightarrow> fst (admit m k x) = fst (k v x)"
  by (simp add: admit_def)

lemma fst_reads [simp]: "fst (reads code f m x) = answer code f m"
  by (simp add: reads_def)

lemma fst_writes [simp]: "fst (writes code f r x) = answer code f (fst r)"
  by (simp add: writes_def)

section \<open>What a handler leaves alone\<close>

lemma filter_put_by:
  assumes "\<And>x. x \<in> set rows \<Longrightarrow> key x = k \<Longrightarrow> \<not> P x \<and> \<not> P (f x)"
  shows "filter P (put_by key k f rows) = filter P rows"
  using assms by (induction rows) (auto simp: put_by_def update_where_def)

lemma own_rows_put_remittance:
  assumes "fresh_ids rem_id n (remittances d)" "get_remittance k d = Some r" "rem_sender_id r \<noteq> v"
    "\<And>x. rem_sender_id (f x) = rem_sender_id x"
  shows "own_rows_same v d (put_remittance k f d)"
proof -
  have "rem_sender_id x \<noteq> v" if "x \<in> set (remittances d)" "rem_id x = k" for x
    using fresh_ids_get_by [OF assms(1) that(1)] assms(2,3) that(2) by (simp add: get_remittance_def)
  then have "filter (\<lambda>r. rem_sender_id r = v) (put_by rem_id k f (remittances d)) = filter (\<lambda>r. rem_sender_id r = v) (remittances d)"
    by (intro filter_put_by) (simp add: assms(4))
  then show ?thesis by (simp add: own_rows_same_def put_remittance_def get_user_def wallet_of_def)
qed

text \<open>The ledger touches one wallet.\<close>

definition only_wallet :: "uuid \<Rightarrow> db \<Rightarrow> db \<Rightarrow> bool" where
  "only_wallet w d d' \<longleftrightarrow>
     users d' = users d \<and> kyc_applications d' = kyc_applications d \<and> beneficiaries d' = beneficiaries d \<and>
     remittances d' = remittances d \<and> cash_outs d' = cash_outs d \<and> wallets d' = wallets d \<and>
     filter (\<lambda>b. bal_wallet_id b \<noteq> w) (ledger_balances d') = filter (\<lambda>b. bal_wallet_id b \<noteq> w) (ledger_balances d) \<and>
     filter (\<lambda>e. wtx_wallet_id e \<noteq> w) (wallet_transactions d') = filter (\<lambda>e. wtx_wallet_id e \<noteq> w) (wallet_transactions d)"

lemma only_wallet_trans: "only_wallet w d d1 \<Longrightarrow> only_wallet w d1 d2 \<Longrightarrow> only_wallet w d d2"
  by (simp add: only_wallet_def)

lemma locked_row_only:
  assumes "locked_balance_row w code now d = Inr (r, d1)"
  shows "only_wallet w d d1 \<and> r \<in> set (ledger_balances d1) \<and> bal_wallet_id r = w"
proof -
  consider "balance_row w code d = Some r" "d1 = d" | "insert_balance w code now d = Inr (r, d1)"
    using assms insert_or_reselect_Inr
    by (fastforce simp: locked_balance_row_def locked_balance_row_raced_def split: option.splits)
  then show ?thesis
  proof cases
    case 1
    then have "r \<in> set (ledger_balances d) \<and> bal_key r = (w, code)" by (auto simp: balance_row_def)
    then show ?thesis using 1(2) by (simp add: only_wallet_def bal_key_def)
  next
    case 2
    then show ?thesis by (auto simp: insert_balance_def Let_def only_wallet_def split: if_splits)
  qed
qed

lemma save_balance_only:
  assumes "save_balance (bal_id r) a now d = Inr d'" "r \<in> set (ledger_balances d)" "bal_wallet_id r = w"
    "fresh_ids bal_id n (ledger_balances d)"
  shows "only_wallet w d d'"
proof -
  have same: "bal_wallet_id x = w" if "x \<in> set (ledger_balances d)" "bal_id x = bal_id r" for x
    using fresh_ids_get_by [OF assms(4) that(1)] fresh_ids_get_by [OF assms(4,2)] assms(3) unfolding that(2) by simp
  have "filter (\<lambda>b. bal_wallet_id b \<noteq> w) (put_by bal_id (bal_id r) (\<lambda>b. b\<lparr>bal_amount := c, bal_updated_at := now\<rparr>) (ledger_balances d)) =
      filter (\<lambda>b. bal_wallet_id b \<noteq> w) (ledger_balances d)" for c
    by (rule filter_put_by) (simp add: same del: not_not)
  moreover obtain c where "d' = d\<lparr>ledger_balances := put_by bal_id (bal_id r) (\<lambda>b. b\<lparr>bal_amount := c, bal_updated_at := now\<rparr>) (ledger_balances d)\<rparr>"
    using assms(1) unfolding save_balance_def ebind_eq_Inr by blast
  ultimately show ?thesis by (simp add: only_wallet_def)
qed

lemma move_balance_only:
  assumes "move_balance s w dir cur a rid h now d = Inr (e, d')" "ledger_shape s d"
  shows "only_wallet w d d'"
proof -
  obtain code r d1 new d2 where v: "validate s cur a = Inr code" and l: "locked_balance_row w code now d = Inr (r, d1)"
    and sv: "save_balance (bal_id r) new now d1 = Inr d2"
    and wr: "write_entry w dir code a rid h ENTRY_SUCCESS None now d2 = Inr (e, d')"
    using assms(1) unfolding move_balance_def by (auto simp: ebind_eq_Inr)
  have "code \<in> set (supported_currencies_list s)" using v by (auto simp: validate_Inr)
  then have sh: "ledger_shape s d1" by (rule locked_balance_row_ok(1) [OF l assms(2)])
  note r = locked_row_only [OF l]
  have "only_wallet w d1 d2"
    by (rule save_balance_only [OF sv, of w "next_id d1"]) (use r sh in \<open>auto simp: ledger_shape_def balances_ok_def\<close>)
  moreover have "only_wallet w d2 d'"
    using wr by (auto simp: write_entry_def insert_entry_def Let_def ebind_eq_Inr only_wallet_def split: if_splits)
  ultimately show ?thesis using r by (blast intro: only_wallet_trans)
qed

lemma own_rows_other_wallet:
  assumes "only_wallet (wal_id w) d d'" "wallets_ok d" "wallet_of u d = Some w" "u \<noteq> v"
  shows "own_rows_same v d d'"
proof -
  have ne: "wal_id w' \<noteq> wal_id w" if "wallet_of v d = Some w'" for w'
  proof
    assume id: "wal_id w' = wal_id w"
    have m: "w \<in> set (wallets d)" "w' \<in> set (wallets d)" "wal_user_id w = u" "wal_user_id w' = v"
      using wallet_of_Some [OF assms(3)] wallet_of_Some [OF that] by auto
    have "get_by wal_id (wal_id w) (wallets d) = Some w" "get_by wal_id (wal_id w') (wallets d) = Some w'"
      using assms(2) fresh_ids_get_by [OF _ m(1)] fresh_ids_get_by [OF _ m(2)] unfolding wallets_ok_def by blast+
    then show False using id m(3,4) assms(4) by simp
  qed
  have narrow: "filter (\<lambda>b. f b = x) zs = filter (\<lambda>b. f b = x) (filter (\<lambda>b. f b \<noteq> y) zs)" if "x \<noteq> y"
    for f :: "'b \<Rightarrow> uuid" and x y zs
    using that by (auto intro: filter_cong)
  have "filter (\<lambda>b. bal_wallet_id b = wal_id w') (ledger_balances d') = filter (\<lambda>b. bal_wallet_id b = wal_id w') (ledger_balances d) \<and>
      filter (\<lambda>e. wtx_wallet_id e = wal_id w') (wallet_transactions d') = filter (\<lambda>e. wtx_wallet_id e = wal_id w') (wallet_transactions d)"
    if "wallet_of v d = Some w'" for w'
    using assms(1) narrow [OF ne [OF that], of bal_wallet_id] narrow [OF ne [OF that], of wtx_wallet_id]
    unfolding only_wallet_def by metis
  then show ?thesis using assms(1) by (simp add: own_rows_same_def only_wallet_def get_user_def wallet_of_def)
qed

lemma wallet_for_own:
  assumes "wallet_for u now d = Inr (w, d')" "u \<noteq> v"
  shows "own_rows_same v d d'"
proof (cases "wallet_of u d")
  case None
  then have "\<exists>w'. wal_user_id w' = u \<and> d' = d\<lparr>wallets := wallets d @ [w'], next_id := Suc (next_id d)\<rparr>"
    using assms(1) by (intro exI [of _ w]) (auto simp: wallet_for_def wallet_for_raced_def insert_or_reselect_def
        insert_wallet_def Let_def split: sum.splits if_splits)
  then show ?thesis using assms(2)
    by (auto simp: own_rows_same_def get_user_def wallet_of_def get_by_append get_by_Cons split: option.splits)
next
  case (Some w')
  then show ?thesis using assms(1) by (simp add: wallet_for_def wallet_for_raced_def)
qed

lemma request_own:
  assumes "request_cash_out s u a cur rate key now d = Inr (c, d')" "ledger_shape s d" "u \<noteq> v"
  shows "own_rows_same v d d'"
proof (cases "replayed_cash_out u key d")
  case None
  then obtain q w d1 e d2 where wf: "wallet_for u now d = Inr (w, d1)"
    and db: "debit s (wal_id w) SETTLEMENT_CURRENCY (coq_uctusd_amount q) None None now d1 = Inr (e, d2)"
    and ins: "insert_cash_out (new_cash_out u q (wtx_id e) key now) d2 = Inr (c, d')"
    using assms(1) by (auto simp: request_cash_out_def ebind_eq_Inr)
  note w = wallet_for_ok [OF wf assms(2)]
  have "own_rows_same v d1 d2"
    using w(1) by (intro own_rows_other_wallet [OF move_balance_only [OF db [unfolded debit_def] w(1)] _ w(4) assms(3)])
      (simp add: ledger_shape_def)
  moreover have "own_rows_same v d2 d'"
    using ins assms(3) by (auto simp: insert_cash_out_def new_cash_out_def Let_def ebind_eq_Inr own_rows_same_def
        get_user_def wallet_of_def split: if_splits)
  ultimately show ?thesis using wallet_for_own [OF wf assms(3)] by (blast intro: own_rows_trans)
next
  case (Some c')
  then show ?thesis using assms(1) by (simp add: request_cash_out_def)
qed

lemma own_commit:
  assumes "\<And>y d'. res = Inr (y, d') \<Longrightarrow> own_rows_same v d d'"
  shows "own_rows_same v d (snd (commit_or_keep d res))"
  using assms by (cases res) (auto simp: commit_or_keep_def)

lemma own_put_user: "usr_id u \<noteq> v \<Longrightarrow> (\<And>x. usr_id (f x) = usr_id x) \<Longrightarrow> own_rows_same v d (put_user (usr_id u) f d)"
  by (simp add: own_rows_same_def put_user_def get_user_def wallet_of_def get_by_put_by)

lemma register_own:
  assumes "register lib payload now d n = ((res, d'), n')" "users_ok d" "get_user v d = Some x"
  shows "own_rows_same v d d'"
proof (cases res)
  case (Inl e)
  then show ?thesis using assms(1) by (auto simp: register_def commit_or_keep_def split: prod.splits sum.splits)
next
  case (Inr u)
  then obtain email h name where ins: "insert_user email h name False now d = Inr (u, d')"
    using assms(1) by (auto simp: register_def commit_or_keep_def raise_simps split: prod.splits sum.splits)
  then have "get_user v d' = get_user v d"
    using assms(3) by (auto simp: insert_user_def Let_def get_user_def get_by_append split: if_splits)
  then show ?thesis using ins
    by (auto simp: insert_user_def Let_def own_rows_same_def wallet_of_def split: if_splits)
qed

lemma update_own: "usr_id u \<noteq> v \<Longrightarrow> own_rows_same v d (snd (update_profile s u name email d))"
  unfolding update_profile_def Let_def
  by (intro own_commit) (auto simp: raise_simps intro!: own_put_user split: if_splits)

lemma submit_own:
  assumes "submit_kyc u f now d = Inr (a, d')" "usr_id u \<noteq> v"
  shows "own_rows_same v d d'"
proof -
  have d': "d' = put_user (usr_id u) (\<lambda>x. x\<lparr>usr_kyc_status := KYC_PENDING\<rparr>)
      (d\<lparr>kyc_applications := kyc_applications d @ [a], next_id := Suc (next_id d)\<rparr>)" and a: "kyc_user_id a = usr_id u"
    using assms(1) by (auto simp: submit_kyc_def Let_def new_application_def split: if_splits)
  have "own_rows_same v d (d\<lparr>kyc_applications := kyc_applications d @ [a], next_id := Suc (next_id d)\<rparr>)"
    using a assms(2) by (simp add: own_rows_same_def get_user_def wallet_of_def)
  then show ?thesis unfolding d' by (rule own_rows_trans) (simp add: own_put_user assms(2))
qed

lemma create_beneficiary_own: "create_beneficiary u f now d = Inr (b, d') \<Longrightarrow> usr_id u \<noteq> v \<Longrightarrow> own_rows_same v d d'"
  by (auto simp: create_beneficiary_def insert_beneficiary_def raise_simps own_rows_same_def get_user_def wallet_of_def
      split: if_splits)

lemma delete_beneficiary_own:
  assumes "delete_beneficiary u k d = Inr d'" "fresh_ids ben_id n (beneficiaries d)" "usr_id u \<noteq> v"
  shows "own_rows_same v d d'"
proof -
  obtain b where b: "b \<in> set (beneficiaries d)" "ben_sender_id b = usr_id u"
    and d': "d' = d\<lparr>beneficiaries := filter (\<lambda>x. ben_id x \<noteq> ben_id b) (beneficiaries d)\<rparr>"
    using assms(1) by (force simp: delete_beneficiary_def owned_beneficiary_def raise_simps find_Some_iff split: if_splits)
  have "ben_id x \<noteq> ben_id b" if "x \<in> set (beneficiaries d)" "ben_sender_id x = v" for x
  proof
    assume e: "ben_id x = ben_id b"
    show False using fresh_ids_get_by [OF assms(2) that(1)] fresh_ids_get_by [OF assms(2) b(1)] b(2) that(2) assms(3) unfolding e by simp
  qed
  then have "filter (\<lambda>b. ben_sender_id b = v) (filter (\<lambda>x. ben_id x \<noteq> ben_id b) (beneficiaries d)) = filter (\<lambda>b. ben_sender_id b = v) (beneficiaries d)"
    unfolding filter_filter by (intro filter_cong) auto
  then show ?thesis by (simp add: d' own_rows_same_def get_user_def wallet_of_def)
qed

lemma quote_own:
  assumes "create_quote lib s u k zar key now d st = ((res, d'), st')" "usr_id u \<noteq> v"
  shows "own_rows_same v d d'"
proof (cases res)
  case (Inl e)
  then show ?thesis using assms(1)
    by (auto simp: create_quote_def create_quote_raced_def commit_or_keep_def split: option.splits prod.splits sum.splits)
next
  case (Inr resp)
  obtain b q r where "insert_remittance (new_remittance s key u b q now now) d = Inr (r, d')"
    using create_quote_Inr [OF assms(1) [unfolded Inr create_quote_def]] by blast
  note row = insert_remittance_Inr [OF this]
  have "rem_sender_id r \<noteq> v" using row(5) assms(2) by (simp add: new_remittance_def)
  then show ?thesis by (simp add: row(1) own_rows_same_def get_user_def wallet_of_def)
qed

lemma publish_own:
  assumes "publish_and_answer pub k d q = ((res, d'), q')" "get_remittance k d = Some r" "rem_sender_id r \<noteq> v"
    "fresh_ids rem_id n (remittances d)"
  shows "own_rows_same v d d'"
  using assms(1-3) get_by_Some [of rem_id k "remittances d" r]
  by (auto simp: publish_and_answer_def queue_for_settlement_def get_remittance_def split: if_splits sum.splits prod.splits
      intro!: own_rows_put_remittance [OF assms(4)])

lemma confirm_own:
  assumes "confirm_cash_in pub u k meth now d q = ((res, d'), q')" "usr_id u \<noteq> v" "fresh_ids rem_id n (remittances d)"
  shows "own_rows_same v d d'"
proof (cases "ebind (owned_remittance k (usr_id u) d) (\<lambda>r. http_of cash_in_refused (simulate_cash_in r meth now d))")
  case (Inl e)
  then show ?thesis using assms(1) by (simp add: confirm_cash_in_def)
next
  case (Inr p)
  obtain b d1 where p: "p = (b, d1)" by fastforce
  obtain r where own: "owned_remittance k (usr_id u) d = Inr r" and sim: "simulate_cash_in r meth now d = Inr (b, d1)"
    using Inr p by (auto simp: raise_simps)
  have r: "r \<in> set (remittances d)" "rem_id r = k" "rem_sender_id r = usr_id u"
    using own by (auto simp: owned_remittance_def raise_simps find_Some_iff)
  have row: "get_remittance k d = Some r" using fresh_ids_get_by [OF assms(3) r(1)] r(2) by (simp add: get_remittance_def)
  have pub: "publish_and_answer pub k d1 q = ((res, d'), q')" using assms(1) Inr p by (simp add: confirm_cash_in_def)
  show ?thesis
  proof (cases "rem_status r = QUOTED")
    case True
    then obtain m where d1: "d1 = put_remittance (rem_id r) (\<lambda>x. x\<lparr>rem_cash_in_method := Some m, rem_status := CASH_IN_CONFIRMED,
        rem_cash_in_confirmed_at := Some now, rem_quote_expires_at := None\<rparr>) d"
      using sim by (auto simp: simulate_cash_in_def Let_def raise_simps split: if_splits)
    have one: "own_rows_same v d d1" unfolding d1 r(2)
      by (rule own_rows_put_remittance [OF assms(3) row]) (use r(3) assms(2) in simp_all)
    have "get_remittance k d1 = Some (r\<lparr>rem_cash_in_method := Some m, rem_status := CASH_IN_CONFIRMED,
        rem_cash_in_confirmed_at := Some now, rem_quote_expires_at := None\<rparr>)"
      using row by (simp add: d1 r(2) get_remittance_def put_remittance_def get_by_put_by)
    then have "own_rows_same v d1 d'"
      by (rule publish_own [OF pub, of _ v n]) (use r(3) assms(2,3) in \<open>simp_all add: d1 put_remittance_def\<close>)
    then show ?thesis using one by (rule own_rows_trans [rotated])
  next
    case False
    then have "d1 = d" using sim by (auto simp: simulate_cash_in_def Let_def raise_simps split: if_splits)
    show ?thesis by (rule publish_own [OF pub [unfolded \<open>d1 = d\<close>] row _ assms(3)]) (use r(3) assms(2) in simp)
  qed
qed

lemma balance_own: "usr_id u \<noteq> v \<Longrightarrow> own_rows_same v d (snd (get_balance s u now d))"
  by (auto simp: get_balance_def intro: wallet_for_own split: sum.splits)

lemma transactions_own: "usr_id u \<noteq> v \<Longrightarrow> own_rows_same v d (snd (get_wallet_transactions u now d))"
  by (auto simp: get_wallet_transactions_def intro: wallet_for_own split: sum.splits)

lemma cash_out_own:
  assumes "request_cash_out_endpoint lib s u a cur key now d st = ((res, d'), st')" "ledger_shape s d" "usr_id u \<noteq> v"
  shows "own_rows_same v d d'"
proof (cases "fst (current_rate lib s now d st)")
  case (Inl e)
  then show ?thesis using assms(1) by (auto simp: request_cash_out_endpoint_def split: prod.splits)
next
  case (Inr rate)
  then have "d' = snd (commit_or_keep d (http_of cash_out_refused (request_cash_out s (usr_id u) a cur rate key now d)))"
    using assms(1) by (auto simp: request_cash_out_endpoint_def split: prod.splits)
  then show ?thesis using request_own [OF _ assms(2,3)] by (auto simp: raise_simps intro!: own_commit)
qed

section \<open>Properties\<close>

text \<open>
  C13. What a user reads of their own account depends on their own rows alone. Whatever else the
  database holds, two databases in which the caller's rows are the same give the same answer to each
  of the requests that read them: nobody else's rows can be read, or inferred, through them.
\<close>

theorem reads_see_own_rows:
  assumes "caller a bearer x = Inr u" "reads_own req" "own_rows_same (usr_id u) (sv_db x) (sv_db x')"
    "sv_served x' = sv_served x" "reads_wallet req \<longrightarrow> wallet_of (usr_id u) (sv_db x) \<noteq> None"
  shows "fst (serve a (bearer, req) x') = fst (serve a (bearer, req) x)"
proof -
  note c = fst_admitted [OF assms(1)] fst_admitted [OF caller_same [OF assms(1,3,4)]]
  have n: "now_of a x' = now_of a x" using assms(4) by (simp add: now_of_def)
  have rows: "filter (\<lambda>a. kyc_user_id a = usr_id u) (kyc_applications (sv_db x')) = filter (\<lambda>a. kyc_user_id a = usr_id u) (kyc_applications (sv_db x))"
    "filter (\<lambda>b. ben_sender_id b = usr_id u) (beneficiaries (sv_db x')) = filter (\<lambda>b. ben_sender_id b = usr_id u) (beneficiaries (sv_db x))"
    "filter (\<lambda>r. rem_sender_id r = usr_id u) (remittances (sv_db x')) = filter (\<lambda>r. rem_sender_id r = usr_id u) (remittances (sv_db x))"
    "filter (\<lambda>c. co_user_id c = usr_id u) (cash_outs (sv_db x')) = filter (\<lambda>c. co_user_id c = usr_id u) (cash_outs (sv_db x))"
    using assms(3) by (simp_all add: own_rows_same_def)
  note finds = own_finds [OF assms(3)]
  show ?thesis using assms(2,5)
    by (cases req rule: reads_own.cases)
      (simp_all add: c n rows finds own_wallet_reads [OF assms(3)] get_kyc_status_def list_beneficiaries_def get_beneficiary_def
        owned_beneficiary_def list_remittances_def get_remittance_status_def owned_remittance_def list_own_cash_outs_def
        get_own_cash_out_def)
qed

lemma own_admit:
  assumes "\<And>w. m = Inr w \<Longrightarrow> own_rows_same v d (sv_db (snd (k w x)))" "sv_db x = d"
  shows "own_rows_same v d (sv_db (snd (admit m k x)))"
  using assms by (simp add: admit_def split: sum.splits)

lemma own_writes: "own_rows_same v d (snd r) \<Longrightarrow> own_rows_same v d (sv_db (snd (writes code f r x)))"
  by simp

lemma caller_approved: "approved_caller a bearer x = Inr u \<Longrightarrow> caller a bearer x = Inr u"
  by (auto simp: approved_caller_def require_kyc_approved_def raise_simps split: if_splits)

lemma routes_own:
  assumes "account_inv (sv_db x)" "app_inv (api_settings a) (sv_db x)" "get_user v (sv_db x) = Some vu" "\<forall>u. caller a bearer x = Inr u \<longrightarrow> usr_id u \<noteq> v"
  shows "own_rows_same v (sv_db x) (sv_db (snd (auth_routes a bearer r1 x)))"
    "own_rows_same v (sv_db x) (sv_db (snd (kyc_routes a bearer r2 x)))"
    "own_rows_same v (sv_db x) (sv_db (snd (beneficiary_routes a bearer r3 x)))"
    "own_rows_same v (sv_db x) (sv_db (snd (remittance_routes a bearer r4 x)))"
    "own_rows_same v (sv_db x) (sv_db (snd (wallet_routes a bearer r5 x)))"
proof -
  have who: "caller a bearer x = Inr u \<Longrightarrow> usr_id u \<noteq> v" "approved_caller a bearer x = Inr u \<Longrightarrow> usr_id u \<noteq> v" for u
    using assms(4) caller_approved by blast+
  have ids: "users_ok (sv_db x)" "fresh_ids ben_id (next_id (sv_db x)) (beneficiaries (sv_db x))"
    "fresh_ids rem_id (next_id (sv_db x)) (remittances (sv_db x))" "ledger_shape (api_settings a) (sv_db x)"
    using assms(1,2) by (simp_all add: account_inv_def beneficiaries_ok_def app_inv_def ledger_inv_def)
  show "own_rows_same v (sv_db x) (sv_db (snd (auth_routes a bearer r1 x)))"
  proof (cases r1)
    case (Register email password name)
    show ?thesis unfolding Register auth_routes.simps
      by (rule own_admit) (auto split: prod.split intro!: own_writes elim!: register_own [OF _ ids(1) assms(3)])
  next
    case (Update_profile email name)
    show ?thesis unfolding Update_profile auth_routes.simps
      by (intro own_admit) (auto split: prod.split dest: who intro!: own_writes update_own)
  next
    case (Login email password)
    show ?thesis unfolding Login auth_routes.simps by (rule own_admit) (auto split: prod.split)
  next
    case (Get_profile)
    show ?thesis unfolding Get_profile auth_routes.simps by (rule own_admit) simp_all
  qed (simp_all split: prod.split)
  show "own_rows_same v (sv_db x) (sv_db (snd (kyc_routes a bearer r2 x)))"
  proof (cases r2)
    case (Submit_kyc form)
    show ?thesis unfolding Submit_kyc kyc_routes.simps
      by (intro own_admit) (auto dest: who intro!: own_writes own_commit elim!: submit_own)
  next
    case (Get_kyc_status)
    show ?thesis unfolding Get_kyc_status kyc_routes.simps by (rule own_admit) simp_all
  qed
  show "own_rows_same v (sv_db x) (sv_db (snd (beneficiary_routes a bearer r3 x)))"
  proof (cases r3)
    case (Create_beneficiary form)
    show ?thesis unfolding Create_beneficiary beneficiary_routes.simps
      by (intro own_admit) (auto intro!: own_writes own_commit dest: who elim!: create_beneficiary_own)
  next
    case (Delete_beneficiary k)
    show ?thesis unfolding Delete_beneficiary beneficiary_routes.simps
      by (intro own_admit) (auto simp: raise_simps intro!: own_writes own_commit dest: who elim!: delete_beneficiary_own [OF _ ids(2)])
  qed (simp_all add: own_admit)
  show "own_rows_same v (sv_db x) (sv_db (snd (remittance_routes a bearer r4 x)))"
  proof (cases r4)
    case (Create_quote k zar)
    show ?thesis unfolding Create_quote remittance_routes.simps
      by (intro own_admit) (auto split: prod.split intro!: own_writes dest: who elim!: quote_own)
  next
    case (Confirm_cash_in k meth)
    show ?thesis unfolding Confirm_cash_in remittance_routes.simps
      by (intro own_admit) (auto split: prod.split intro!: own_writes dest: who elim!: confirm_own [OF _ _ ids(3)])
  qed (simp_all add: own_admit)
  show "own_rows_same v (sv_db x) (sv_db (snd (wallet_routes a bearer r5 x)))"
  proof (cases r5)
    case (Get_balance)
    show ?thesis unfolding Get_balance wallet_routes.simps
      by (intro own_admit own_writes balance_own) (auto dest: who)
  next
    case (Get_wallet_transactions)
    show ?thesis unfolding Get_wallet_transactions wallet_routes.simps
      by (intro own_admit own_writes transactions_own) (auto dest: who)
  next
    case (Request_cash_out raw cur key)
    show ?thesis unfolding Request_cash_out wallet_routes.simps
      by (intro own_admit) (auto split: prod.split intro!: own_writes dest: who elim!: cash_out_own [OF _ ids(4)])
  qed (simp_all add: own_admit)
qed

text \<open>
  C14. What a user does touches nobody else's rows. Outside the administrators' routes, a request leaves
  every other user's account, applications, recipients, remittances, cash-outs, wallet, balances and
  entries as they were, whatever it asks for and whatever comes of it.
\<close>

theorem writes_stay_own:
  assumes "account_inv (sv_db x)" "app_inv (api_settings a) (sv_db x)" "get_user v (sv_db x) \<noteq> None"
    "\<forall>u. caller a bearer x = Inr u \<longrightarrow> usr_id u \<noteq> v" "role_of req \<noteq> Administrator"
  shows "own_rows_same v (sv_db x) (sv_db (snd (serve a (bearer, req) x)))"
proof -
  obtain vu where "get_user v (sv_db x) = Some vu" using assms(3) by blast
  note own = routes_own [OF assms(1,2) this assms(4)]
  show ?thesis using assms(5) by (cases req) (simp_all add: own)
qed

section \<open>Witnesses\<close>

definition ann_token :: string where
  "ann_token = fst (issue_token plain_lib demo_settings 5 ann)"

definition bob :: user where
  "bob = (demo_user 7 ''Bob@x.org'')\<lparr>usr_kyc_status := KYC_NOT_STARTED\<rparr>"

definition bob_too :: "beneficiary list \<Rightarrow> db" where
  "bob_too bs = empty_db\<lparr>users := [ann, bob], beneficiaries := bs, next_id := 10\<rparr>"

definition bobs_mother :: beneficiary where
  "bobs_mother = \<lparr>ben_id = 8, ben_sender_id = 7, ben_full_name = ''M'', ben_contact = ''m@x.org'', ben_country = ''US'',
     ben_preferred_payout_currency = ''USD'', ben_relationship_to_sender = ''M'', ben_created_at = 0\<rparr>"

lemma sv_db_demo [simp]: "sv_db (demo_server d) = d"
  by (simp add: demo_server_def)

lemma demo_api_settings [simp]: "api_settings demo_api = demo_settings"
  by (simp add: demo_api_def)

lemma ann_calls:
  assumes "get_user 0 d = Some ann"
  shows "caller demo_api (Some ann_token) (demo_server d) = Inr ann"
proof -
  have m: "access_token_expire_minutes demo_settings = 60" by (simp add: demo_settings_def default_settings_def)
  have t: "timestamp 5 \<le> timestamp (5 + 60 * 60 * 10 ^ 6)" by (simp add: timestamp_def)
  have id: "usr_id ann = 0" by (simp add: ann_def)
  show ?thesis using token_names_user [OF plain_lib_ok(1), of ann demo_settings 5 5 d] assms t
    by (simp add: caller_def demo_api_def demo_server_def now_of_def ann_token_def m id)
qed

lemma bob_too_users: "get_user 0 (bob_too bs) = Some ann" "get_user 7 (bob_too bs) = Some bob"
  by (simp_all add: bob_too_def get_user_def get_by_Cons ann_def bob_def demo_user_def)

theorem doors_hold_witness:
  "turned_away 401 demo_api (None, Wallet Get_balance) (demo_server (bob_too [])) \<and>
   turned_away 403 demo_api (Some ann_token, Remittances (Create_quote 8 100)) (demo_server (bob_too [])) \<and>
   turned_away 403 demo_api (Some ann_token, Admin (Approve_kyc 3)) (demo_server (bob_too []))"
proof (intro conjI)
  have c: "caller demo_api (Some ann_token) (demo_server (bob_too [])) = Inr ann" by (rule ann_calls) (rule bob_too_users)
  show "turned_away 401 demo_api (None, Wallet Get_balance) (demo_server (bob_too []))"
    using doors_hold [of "Wallet Get_balance" demo_api None "demo_server (bob_too [])"] by (simp add: caller_def)
  show "turned_away 403 demo_api (Some ann_token, Remittances (Create_quote 8 100)) (demo_server (bob_too []))"
    using doors_hold [of "Remittances (Create_quote 8 100)" demo_api "Some ann_token" "demo_server (bob_too [])"]
    by (simp add: c ann_def)
  show "turned_away 403 demo_api (Some ann_token, Admin (Approve_kyc 3)) (demo_server (bob_too []))"
    using doors_hold [of "Admin (Approve_kyc 3)" demo_api "Some ann_token" "demo_server (bob_too [])"]
    by (simp add: c ann_def)
qed

theorem reads_see_own_rows_witness:
  "fst (serve demo_api (Some ann_token, Beneficiaries List_beneficiaries) (demo_server (bob_too [bobs_mother]))) =
     (200, Beneficiary_list_body [])"
proof -
  have c: "caller demo_api (Some ann_token) (demo_server (bob_too [])) = Inr ann" by (rule ann_calls) (rule bob_too_users)
  have "own_rows_same (usr_id ann) (sv_db (demo_server (bob_too []))) (sv_db (demo_server (bob_too [bobs_mother])))"
    by (simp add: own_rows_same_def demo_server_def bob_too_def get_user_def get_by_Cons ann_def bob_def demo_user_def bobs_mother_def
        wallet_of_def empty_db_def)
  then have "fst (serve demo_api (Some ann_token, Beneficiaries List_beneficiaries) (demo_server (bob_too [bobs_mother]))) =
      fst (serve demo_api (Some ann_token, Beneficiaries List_beneficiaries) (demo_server (bob_too [])))"
    by (intro reads_see_own_rows [OF c]) (simp_all add: demo_server_def)
  also have "\<dots> = (200, Beneficiary_list_body [])"
    by (simp add: admit_def c answer_def list_beneficiaries_def) (simp add: demo_server_def bob_too_def)
  finally show ?thesis .
qed

theorem writes_stay_own_witness:
  "map usr_full_name (users (sv_db (snd (serve demo_api (Some ann_token, Auth (Update_profile None (Some ''Ann B'')))
       (demo_server (bob_too [bobs_mother])))))) = [''Ann B'', []] \<and>
   own_rows_same 7 (bob_too [bobs_mother]) (sv_db (snd (serve demo_api (Some ann_token, Auth (Update_profile None (Some ''Ann B'')))
       (demo_server (bob_too [bobs_mother])))))"
proof
  let ?x = "demo_server (bob_too [bobs_mother])"
  have c: "caller demo_api (Some ann_token) ?x = Inr ann" by (rule ann_calls) (rule bob_too_users)
  have "account_inv (bob_too [bobs_mother])"
    by (simp add: account_inv_def users_ok_def kyc_ok_def synced_def beneficiaries_ok_def fresh_ids_def bob_too_def
        empty_db_def ann_def bob_def demo_user_def bobs_mother_def status_from_def)
  moreover have "app_inv (api_settings demo_api) (bob_too [bobs_mother])"
    by (simp add: app_inv_def bob_too_def empty_db_def ledger_inv_def ledger_shape_def wallets_ok_def
        balances_ok_def entries_ok_def reconciled_def held_def balance_row_def entry_sum_def)
  moreover have "\<forall>u. caller demo_api (Some ann_token) ?x = Inr u \<longrightarrow> usr_id u \<noteq> 7" by (simp add: c ann_def)
  ultimately show "own_rows_same 7 (bob_too [bobs_mother]) (sv_db (snd (serve demo_api
      (Some ann_token, Auth (Update_profile None (Some ''Ann B''))) ?x)))"
    using writes_stay_own [of ?x demo_api 7 "Some ann_token" "Auth (Update_profile None (Some ''Ann B''))"]
    by (simp only: sv_db_demo) (simp add: bob_too_users)
  have upd: "snd (update_profile demo_settings ann (Some ''Ann B'') None (bob_too [bobs_mother])) =
      put_user 0 (\<lambda>u. u\<lparr>usr_full_name := ''Ann B''\<rparr>) (bob_too [bobs_mother])"
    by (simp add: update_profile_def commit_or_keep_def http_of_def Let_def ann_def)
  show "map usr_full_name (users (sv_db (snd (serve demo_api (Some ann_token, Auth (Update_profile None (Some ''Ann B''))) ?x)))) =
      [''Ann B'', []]"
    by (simp add: admit_def c parse_profile_update_def length_within_def upd)
      (simp add: put_user_def put_by_def update_where_def bob_too_def ann_def bob_def demo_user_def)
qed

end
