(* ===== verification/Recipients.thy ===== *)
theory Recipients
  imports Isolation "HOL-Library.Multiset"
begin

text \<open>
  Whose wallet a contact names. \<open>User.email\<close> is unique as written, but cash-in and the worker match it
  with the case of both sides folded, and take the first row of a query that asks for no order: where
  two accounts match, the answer is whichever the database comes upon first, and an UPDATE may change
  that. So the properties here are about every order in which the rows of \<open>users\<close> may be listed.
\<close>

lemma find_in_any_order:
  assumes "mset us = mset xs" "{x \<in> set xs. P x} = S" "S \<noteq> {}"
  shows "\<exists>x \<in> S. find P us = Some x"
proof -
  have set: "set us = set xs" using assms(1) by (rule mset_eq_setD)
  then have "find P us \<noteq> None" using assms(2,3) by (auto simp: find_None_iff)
  then obtain x where x: "find P us = Some x" by blast
  then have "P x" "x \<in> set us" by (auto simp: find_Some_iff)
  then show ?thesis using x set assms(2) by blast
qed

lemma listed_first: "x \<in> set xs \<Longrightarrow> mset (x # remove1 x xs) = mset xs"
  by simp

text \<open>After the change two accounts match the contact.\<close>

lemma respelled:
  fixes eve victim :: user and contact email :: string
  assumes "users_ok d" "eve \<in> set (users d)"
    "{z \<in> set (users d). py_lower (usr_email z) = py_lower (py_strip contact)} = {victim}" "victim \<noteq> eve"
    "py_lower email = py_lower (py_strip contact)"
  shows "eve\<lparr>usr_email := email\<rparr> \<in> set (users (put_user (usr_id eve) (\<lambda>u. u\<lparr>usr_email := email\<rparr>) d))"
    "{z \<in> set (users (put_user (usr_id eve) (\<lambda>u. u\<lparr>usr_email := email\<rparr>) d)).
        py_lower (usr_email z) = py_lower (py_strip contact)} = {victim, eve\<lparr>usr_email := email\<rparr>}"
proof -
  let ?eve = "eve\<lparr>usr_email := email\<rparr>" and ?P = "\<lambda>u. py_lower (usr_email u) = py_lower (py_strip contact)"
  let ?d = "put_user (usr_id eve) (\<lambda>u. u\<lparr>usr_email := email\<rparr>) d"
  have dist: "distinct (map usr_id (users d))" using assms(1) by (simp add: users_ok_def fresh_ids_def)
  have same: "z = eve" if "z \<in> set (users d)" "usr_id z = usr_id eve" for z
    using inj_onD [OF conjunct2 [OF dist [unfolded distinct_map]] that(2,1) assms(2)] .
  have rows: "users ?d = map (\<lambda>u. if usr_id u = usr_id eve then u\<lparr>usr_email := email\<rparr> else u) (users d)"
    by (simp add: put_user_def put_by_def update_where_def)
  have here: "?eve \<in> set (users ?d)" unfolding rows set_map by (rule image_eqI [OF _ assms(2)]) simp
  have only: "z = ?eve \<or> z \<in> set (users d) \<and> z \<noteq> eve" if new: "z \<in> set (users ?d)" for z
  proof -
    obtain u where u: "u \<in> set (users d)" "z = (if usr_id u = usr_id eve then u\<lparr>usr_email := email\<rparr> else u)"
      using new unfolding rows set_map by blast
    show ?thesis using u same [OF u(1)] by (cases "usr_id u = usr_id eve") auto
  qed
  have stays: "victim \<in> set (users ?d)" "?P victim"
  proof -
    have v: "victim \<in> set (users d)" "?P victim" using assms(3) by blast+
    then have "usr_id victim \<noteq> usr_id eve" using same assms(4) by blast
    then show "victim \<in> set (users ?d)" unfolding rows set_map by (intro image_eqI [OF _ v(1)]) simp
    show "?P victim" by (rule v(2))
  qed
  have eve_P: "?P ?eve" using assms(5) by simp
  have both: "{z \<in> set (users ?d). ?P z} = {victim, ?eve}"
  proof (intro set_eqI iffI)
    fix z assume "z \<in> {z \<in> set (users ?d). ?P z}"
    then have z: "z = ?eve \<or> z \<in> set (users d)" "?P z" using only by blast+
    then show "z \<in> {victim, ?eve}" using assms(3) by blast
  next
    fix z assume "z \<in> {victim, ?eve}"
    then show "z \<in> {z \<in> set (users ?d). ?P z}" using here stays eve_P by blast
  qed
  show "?eve \<in> set (users ?d)" "{z \<in> set (users ?d). ?P z} = {victim, ?eve}" by (rule here both)+
qed

text \<open>
  C35. An account can take over another's contact. Let a contact name one account, and another user
  change their e-mail to a spelling of that account's that differs in case only. The uniqueness check
  finds no such address and the change is accepted. Before it, in whatever order the database lists the
  users, the contact resolves to its owner; after it, it resolves to the owner or to the taker as that
  order has it, and there is an order in which cash-in finds the taker registered under the contact
  and the worker credits the taker with the remittances sent to it, those already on their way included.
\<close>

theorem contact_taken_over:
  assumes "caller a bearer x = Inr eve" "users_ok (sv_db x)"
    "{z \<in> set (users (sv_db x)). py_lower (usr_email z) = py_lower (py_strip contact)} = {victim}" "victim \<noteq> eve"
    "py_lower email = py_lower (py_strip contact)"
    "\<forall>z \<in> set (users (sv_db x)). usr_email z \<noteq> email" "valid_email (api_auth a) email = Some email"
  shows "\<exists>me x'. serve a (bearer, Auth (Update_profile (Some email) None)) x = ((200, me), x') \<and>
    (\<forall>us. mset us = mset (users (sv_db x)) \<longrightarrow> user_by_contact contact ((sv_db x)\<lparr>users := us\<rparr>) = Some victim) \<and>
    (\<forall>us. mset us = mset (users (sv_db x')) \<longrightarrow>
       user_by_contact contact ((sv_db x')\<lparr>users := us\<rparr>) \<in> {Some victim, Some (eve\<lparr>usr_email := email\<rparr>)}) \<and>
    (\<exists>us. mset us = mset (users (sv_db x')) \<and>
      (\<forall>r b. get_beneficiary_row (rem_beneficiary_id r) (sv_db x') = Some b \<and> ben_contact b = contact \<longrightarrow>
         assert_recipient_registered r ((sv_db x')\<lparr>users := us\<rparr>) = Inr (eve\<lparr>usr_email := email\<rparr>) \<and>
         resolve_recipient r ((sv_db x')\<lparr>users := us\<rparr>) = Inr (eve\<lparr>usr_email := email\<rparr>)))"
proof -
  let ?eve = "eve\<lparr>usr_email := email\<rparr>" and ?P = "\<lambda>u. py_lower (usr_email u) = py_lower (py_strip contact)"
  let ?d = "put_user (usr_id eve) (\<lambda>u. u\<lparr>usr_email := email\<rparr>) (sv_db x)"
  have eve: "get_user (usr_id eve) (sv_db x) = Some eve" by (rule caller_on_record [OF assms(1)])
  then have mem: "eve \<in> set (users (sv_db x))" using get_by_Some [OF eve [unfolded get_user_def]] by simp
  have others: "\<not> (\<exists>v \<in> set (users (sv_db x)). usr_id v \<noteq> usr_id eve \<and> usr_email v = email)" using assms(6) by blast
  have upd: "update_profile (api_settings a) eve None (Some email) (sv_db x) =
      (Inr (me_response_of (api_settings a) ?eve), ?d)"
    using others by (auto simp: update_profile_def commit_or_keep_def http_of_def Let_def)
  note here = respelled(1) [OF assms(2) mem assms(3-5)] and both = respelled(2) [OF assms(2) mem assms(3-5)]
  let ?us = "?eve # remove1 ?eve (users ?d)"
  have first: "user_by_contact contact (?d\<lparr>users := ?us\<rparr>) = Some ?eve" using assms(5) by (simp add: user_by_contact_def)
  have r: "assert_recipient_registered r (?d\<lparr>users := ?us\<rparr>) = Inr ?eve \<and> resolve_recipient r (?d\<lparr>users := ?us\<rparr>) = Inr ?eve"
    if "get_beneficiary_row (rem_beneficiary_id r) ?d = Some b" "ben_contact b = contact" for r b
    using that first by (simp add: assert_recipient_registered_def resolve_recipient_def get_beneficiary_row_def)
  have before: "user_by_contact contact ((sv_db x)\<lparr>users := us\<rparr>) = Some victim" if "mset us = mset (users (sv_db x))" for us
    using find_in_any_order [OF that assms(3)] by (simp add: user_by_contact_def)
  have after: "user_by_contact contact (?d\<lparr>users := us\<rparr>) \<in> {Some victim, Some ?eve}" if "mset us = mset (users ?d)" for us
    using find_in_any_order [OF that both] by (auto simp: user_by_contact_def)
  have us: "mset ?us = mset (users ?d)" by (rule listed_first [OF here])
  let ?x = "x\<lparr>sv_db := ?d, sv_served := Suc (sv_served x)\<rparr>"
  have served: "serve a (bearer, Auth (Update_profile (Some email) None)) x =
      ((200, Me_body (me_read_of (me_response_of (api_settings a) ?eve))), ?x)"
    by (simp add: serve_def admit_def assms(1,7) parse_profile_update_def writes_def upd answer_def)
  have dbx: "sv_db ?x = ?d" by simp
  from served show ?thesis
  proof (intro exI conjI)
    show "\<forall>us. mset us = mset (users (sv_db x)) \<longrightarrow> user_by_contact contact ((sv_db x)\<lparr>users := us\<rparr>) = Some victim"
      using before by blast
    show "\<forall>us. mset us = mset (users (sv_db ?x)) \<longrightarrow>
        user_by_contact contact ((sv_db ?x)\<lparr>users := us\<rparr>) \<in> {Some victim, Some ?eve}"
      unfolding dbx using after by blast
    show "mset ?us = mset (users (sv_db ?x))" unfolding dbx by (rule us)
    show "\<forall>r b. get_beneficiary_row (rem_beneficiary_id r) (sv_db ?x) = Some b \<and> ben_contact b = contact \<longrightarrow>
        assert_recipient_registered r ((sv_db ?x)\<lparr>users := ?us\<rparr>) = Inr ?eve \<and>
        resolve_recipient r ((sv_db ?x)\<lparr>users := ?us\<rparr>) = Inr ?eve"
      unfolding dbx using r by blast
  qed
qed

theorem contact_taken_over_witness:
  "\<exists>me x'. serve demo_api (Some ann_token, Auth (Update_profile (Some ''bob@x.org'') None)) (demo_server (bob_too [])) = ((200, me), x') \<and>
     user_by_contact ''Bob@x.org'' (bob_too []) = Some bob \<and>
     map usr_email (users (sv_db x')) = [''bob@x.org'', ''Bob@x.org'']"
proof -
  let ?x = "demo_server (bob_too [])"
  have c: "caller demo_api (Some ann_token) ?x = Inr ann" by (rule ann_calls) (rule bob_too_users)
  have low: "py_lower (py_strip ''Bob@x.org'') = ''bob@x.org''" "py_lower ''Bob@x.org'' = ''bob@x.org''"
    "py_lower ''bob@x.org'' = ''bob@x.org''" "py_lower ''ann@x.org'' = ''ann@x.org''" by code_simp+
  have e: "usr_email bob = ''Bob@x.org''" "usr_email ann = ''ann@x.org''" by (simp_all add: bob_def demo_user_def ann_def)
  have "users_ok (sv_db ?x)" by (simp add: users_ok_def fresh_ids_def bob_too_def) (simp add: ann_def bob_def demo_user_def)
  moreover have "valid_email (api_auth demo_api) ''bob@x.org'' = Some ''bob@x.org''" by (simp add: demo_api_def plain_lib_def)
  moreover have "{z \<in> set (users (sv_db ?x)). py_lower (usr_email z) = py_lower (py_strip ''Bob@x.org'')} = {bob}"
    by (auto simp: bob_too_def e low)
  moreover have "bob \<noteq> ann" using e by auto
  moreover have "\<forall>z \<in> set (users (sv_db ?x)). usr_email z \<noteq> ''bob@x.org''" by (auto simp: bob_too_def e)
  ultimately obtain me x' where s: "serve demo_api (Some ann_token, Auth (Update_profile (Some ''bob@x.org'') None)) ?x = ((200, me), x')"
    using contact_taken_over [OF c, where victim = bob and contact = "''Bob@x.org''" and email = "''bob@x.org''"] low by auto
  have "sv_db x' = snd (update_profile demo_settings ann None (Some ''bob@x.org'') (bob_too []))"
    using arg_cong [OF s, of "\<lambda>r. sv_db (snd r)"]
    by (simp add: admit_def c parse_profile_update_def) (simp add: demo_api_def plain_lib_def)
  then have "map usr_email (users (sv_db x')) = [''bob@x.org'', ''Bob@x.org'']"
    by (simp add: update_profile_def commit_or_keep_def http_of_def Let_def put_user_def put_by_def update_where_def bob_too_def)
      (simp add: ann_def bob_def demo_user_def)
  moreover have "user_by_contact ''Bob@x.org'' (bob_too []) = Some bob" by (simp add: user_by_contact_def low e bob_too_def)
  ultimately show ?thesis using s by (intro exI [of _ me] exI [of _ x'] conjI)
qed

end
