(* ===== verification/Measure.thy ===== *)
theory Measure
  imports Headroom "HOL-Library.Log_Nat"
begin

text \<open>
  \<open>performance-testing/measure_settlement.py\<close>: queue depth and throughput, and the latency and success
  rate of settlements as the database records them. Redis' \<open>XLEN\<close> and \<open>XINFO GROUPS\<close> are arguments. A
  row's two stamps are instants here; the text SQLite keeps them as, and printing, are left out.

  Python's float is the IEEE double: \<open>double x\<close> is the double nearest to the exact result \<open>x\<close> of an
  operation, ties to even. The range of exponents is not bounded; nothing computed here comes near it.
\<close>

section \<open>Floats\<close>

definition binary_exponent :: "rat \<Rightarrow> int" where
  "binary_exponent x =
     (let (p, q) = quotient_of x; e = bitlen p - bitlen q
      in if x < 2 powi e then e else e + 1)"

definition double :: "rat \<Rightarrow> rat" where
  "double x =
     (if x = 0 then 0
      else let e = binary_exponent \<bar>x\<bar>
           in sgn x * (of_int (round_half_even (\<bar>x\<bar> * 2 powi (53 - e))) * 2 powi (e - 53)))"

text \<open>\<open>round(x)\<close> and \<open>round(x, k)\<close> of a float.\<close>

definition py_round_int :: "rat \<Rightarrow> int" where
  "py_round_int x = round_half_even x"

definition py_round :: "nat \<Rightarrow> rat \<Rightarrow> rat" where
  "py_round k x = double (of_int (round_half_even (x * 10 ^ k)) / 10 ^ k)"

section \<open>The report\<close>

definition percentile :: "rat list \<Rightarrow> rat \<Rightarrow> rat option" where
  "percentile vals fraction =
     (if vals = [] then None
      else let ordered = sort vals;
               index = min (py_round_int (double (fraction * of_nat (length ordered - 1)))) (int (length ordered) - 1)
           in Some (ordered ! nat index))"

record group_stats =
  gs_name :: string
  gs_consumers :: int
  gs_pending :: int
  gs_lag :: int

text \<open>\<open>None\<close> stands for the answer with an error in it.\<close>

definition queue_stats :: "redis_error + int \<Rightarrow> redis_error + group_stats list \<Rightarrow> (int \<times> group_stats list) option" where
  "queue_stats xlen xinfo_groups =
     (case xlen of
        Inl e \<Rightarrow> None
      | Inr n \<Rightarrow> Some (n, case xinfo_groups of Inl e \<Rightarrow> [] | Inr gs \<Rightarrow> gs))"

text \<open>The stream is sampled at the start and at the end of the window; the second read is not guarded.\<close>

text \<open>What ends the script with a traceback.\<close>

datatype crash = Redis_Gone redis_error | Negative_Sleep

definition measure_queue_throughput :: "redis_error + int \<Rightarrow> redis_error + int \<Rightarrow> int \<Rightarrow> crash + (int \<times> int \<times> rat) option" where
  "measure_queue_throughput before after seconds =
     (case before of
        Inl e \<Rightarrow> Inr None
      | Inr start_length \<Rightarrow>
          if seconds < 0 then Inl Negative_Sleep
          else (case after of
             Inl e \<Rightarrow> Inl (Redis_Gone e)
           | Inr end_length \<Rightarrow>
               let published = end_length - start_length
               in Inr (Some (seconds, published, py_round 2 (double (of_int published / of_int seconds))))))"

definition stored_name :: "remittance_status \<Rightarrow> string" where
  "stored_name st =
     (case st of QUOTED \<Rightarrow> ''QUOTED'' | CASH_IN_CONFIRMED \<Rightarrow> ''CASH_IN_CONFIRMED'' | QUEUED \<Rightarrow> ''QUEUED''
      | SETTLING \<Rightarrow> ''SETTLING'' | SETTLED \<Rightarrow> ''SETTLED'' | FAILED \<Rightarrow> ''FAILED'' | REFUNDED \<Rightarrow> ''REFUNDED'')"

definition latencies :: "remittance list \<Rightarrow> rat list" where
  "latencies rows =
     concat (map (\<lambda>r. case (rem_cash_in_confirmed_at r, rem_settled_at r) of
                        (Some start, Some end_) \<Rightarrow> [double (of_int (end_ - start) / 10 ^ 6)]
                      | _ \<Rightarrow> []) rows)"

record settlement_report =
  sr_status_counts :: "string \<Rightarrow> nat"
  sr_settled :: nat
  sr_failed :: nat
  sr_success_rate_percent :: "rat option"
  sr_samples :: nat
  sr_min :: "rat option"
  sr_median :: "rat option"
  sr_p95 :: "rat option"
  sr_max :: "rat option"

definition settlement_stats :: "db \<Rightarrow> settlement_report" where
  "settlement_stats d =
     (let statuses = map (stored_name \<circ> rem_status) (remittances d);
          settled = count_list statuses ''SETTLED'' + count_list statuses ''settled'';
          failed = count_list statuses ''FAILED'' + count_list statuses ''failed'';
          terminal = settled + failed;
          ls = latencies (remittances d);
          shown = map_option (py_round 3)
      in \<lparr>sr_status_counts = count_list statuses, sr_settled = settled, sr_failed = failed,
          sr_success_rate_percent =
            (if terminal \<noteq> 0 then Some (py_round 2 (double (of_nat (100 * settled) / of_nat terminal))) else None),
          sr_samples = length ls,
          sr_min = (if ls \<noteq> [] then shown (Some (Min (set ls))) else None),
          sr_median = (if ls \<noteq> [] then shown (percentile ls (double (50 / 100))) else None),
          sr_p95 = (if ls \<noteq> [] then shown (percentile ls (double (95 / 100))) else None),
          sr_max = (if ls \<noteq> [] then shown (Some (Max (set ls))) else None)\<rparr>)"

text \<open>
  What is shown, and the exit status: the database has to be readable (\<open>None\<close>: it is not there, or
  SQLite refuses), the queue need not. \<open>before\<close> and \<open>after\<close> are the window's two readings.
\<close>

record measured =
  shown_queue :: "(int \<times> group_stats list) option"
  shown_throughput :: "(int \<times> int \<times> rat) option"
  shown_settlement :: "settlement_report option"
  exit_status :: nat

definition measure_main :: "redis_error + int \<Rightarrow> redis_error + group_stats list \<Rightarrow> redis_error + int \<Rightarrow> redis_error + int \<Rightarrow>
    int \<Rightarrow> db option \<Rightarrow> crash + measured" where
  "measure_main xlen xinfo_groups before after watch database =
     ebind (if watch \<noteq> 0 then measure_queue_throughput before after watch else Inr None) (\<lambda>throughput.
     Inr \<lparr>shown_queue = queue_stats xlen xinfo_groups, shown_throughput = throughput,
          shown_settlement = map_option settlement_stats database,
          exit_status = (case database of None \<Rightarrow> 1 | Some d \<Rightarrow> 0)\<rparr>)"

section \<open>Floats round monotonically\<close>

lemma binary_exponent_bounds:
  assumes "0 < x"
  shows "2 powi (binary_exponent x - 1) \<le> x" "x < 2 powi binary_exponent x"
proof -
  obtain p q where pq: "quotient_of x = (p, q)" by fastforce
  have q: "0 < q" using quotient_of_denom_pos [OF pq] .
  have x: "x = of_int p / of_int q" using quotient_of_div [OF pq] .
  then have p: "0 < p" using assms q by (simp add: zero_less_divide_iff)
  have pow: "2 powi (bitlen n - 1) \<le> (of_int n :: rat)" "(of_int n :: rat) < 2 powi bitlen n" "0 < bitlen n" if "0 < n" for n
  proof -
    have b: "2 ^ nat (bitlen n - 1) \<le> n" "n < 2 ^ nat (bitlen n)" using bitlen_bounds [OF that] by blast+
    show pos: "0 < bitlen n"
    proof (rule ccontr)
      assume "\<not> 0 < bitlen n"
      then show False using b(2) that by simp
    qed
    have "(of_int (2 ^ nat (bitlen n - 1)) :: rat) \<le> of_int n" "(of_int n :: rat) < of_int (2 ^ nat (bitlen n))"
      using b by (simp_all only: of_int_le_iff of_int_less_iff)
    then show "2 powi (bitlen n - 1) \<le> (of_int n :: rat)" "(of_int n :: rat) < 2 powi bitlen n"
      using pos by (simp_all add: power_int_def)
  qed
  define e where "e = bitlen p - bitlen q"
  have two: "2 powi (m - 1) = (2 powi m :: rat) / 2" "2 powi (m + 1) = (2 powi m :: rat) * 2" for m
    by (simp_all add: power_int_diff power_int_add)
  have ratio: "2 powi e = (2 powi bitlen p :: rat) / 2 powi bitlen q" by (simp add: e_def power_int_diff)
  have P: "2 powi bitlen p / 2 \<le> (of_int p :: rat)" "(of_int p :: rat) < 2 powi bitlen p"
    and Q: "2 powi bitlen q / 2 \<le> (of_int q :: rat)" "(of_int q :: rat) < 2 powi bitlen q"
    using pow [OF p] pow [OF q] by (simp_all only: two)
  have q0: "0 < (of_int q :: rat)" using q by simp
  have "2 powi e / 2 * (of_int q :: rat) \<le> 2 powi bitlen p / 2" unfolding ratio
    using Q(2) by (simp add: divide_le_eq mult_left_mono less_imp_le)
  then have lo: "2 powi e / 2 \<le> x" using P(1) q0 by (simp add: x pos_le_divide_eq)
  have "2 powi bitlen p \<le> 2 powi e * 2 * (of_int q :: rat)" unfolding ratio
    using Q(1) by (simp add: pos_le_divide_eq mult_left_mono mult.commute)
  then have hi: "x < 2 powi e * 2" using P(2) q0 by (simp add: x pos_divide_less_eq)
  have b: "binary_exponent x = (if x < 2 powi e then e else e + 1)"
    by (simp add: binary_exponent_def pq e_def Let_def)
  show "2 powi (binary_exponent x - 1) \<le> x" using lo by (simp add: b two)
  show "x < 2 powi binary_exponent x" using hi by (simp add: b two)
qed

lemma double_0 [simp]: "double 0 = 0"
  by (simp add: double_def)

lemma double_minus: "double (- x) = - double x"
  by (simp add: double_def sgn_minus Let_def)

lemma double_pos_eq: "0 < x \<Longrightarrow> double x = of_int (round_half_even (x * 2 powi (53 - binary_exponent x))) * 2 powi (binary_exponent x - 53)"
  by (simp add: double_def Let_def)

lemma double_between:
  assumes "0 < x"
  shows "2 powi (binary_exponent x - 1) \<le> double x" "double x \<le> 2 powi binary_exponent x"
proof -
  let ?e = "binary_exponent x"
  note b = binary_exponent_bounds [OF assms]
  have p: "(0::rat) < 2 powi m" for m by simp
  have "2 powi (?e - 1) * 2 powi (53 - ?e) \<le> x * 2 powi (53 - ?e)" using b(1) by (simp add: mult_right_mono)
  moreover have "2 powi (?e - 1) * 2 powi (53 - ?e) = (of_int (2 ^ 52) :: rat)" by (simp flip: power_int_add)
  ultimately have lo: "2 ^ 52 \<le> round_half_even (x * 2 powi (53 - ?e))"
    using half_even.rnd_mono [of "of_int (2 ^ 52)"] half_even.rnd_of_int [of "2 ^ 52"] by metis
  have "x * 2 powi (53 - ?e) \<le> 2 powi ?e * 2 powi (53 - ?e)" using b(2) by (simp add: mult_right_mono)
  moreover have "2 powi ?e * 2 powi (53 - ?e) = (of_int (2 ^ 53) :: rat)" by (simp flip: power_int_add)
  ultimately have hi: "round_half_even (x * 2 powi (53 - ?e)) \<le> 2 ^ 53"
    using half_even.rnd_mono [of _ "of_int (2 ^ 53)"] half_even.rnd_of_int [of "2 ^ 53"] by metis
  have "2 powi (?e - 1) = (of_int (2 ^ 52) :: rat) * 2 powi (?e - 53)"
    using power_int_add [of "2::rat" 52 "?e - 53"] by (simp add: power_int_def)
  also have "\<dots> \<le> of_int (round_half_even (x * 2 powi (53 - ?e))) * 2 powi (?e - 53)"
    using lo by (intro mult_right_mono) (simp_all only: of_int_le_iff, simp)
  finally show "2 powi (?e - 1) \<le> double x" unfolding double_pos_eq [OF assms] .
  have "of_int (round_half_even (x * 2 powi (53 - ?e))) * 2 powi (?e - 53) \<le> (of_int (2 ^ 53) :: rat) * 2 powi (?e - 53)"
    using hi by (intro mult_right_mono) (simp_all only: of_int_le_iff, simp)
  also have "\<dots> = 2 powi ?e"
    using power_int_add [of "2::rat" 53 "?e - 53"] by (simp add: power_int_def)
  finally show "double x \<le> 2 powi ?e" unfolding double_pos_eq [OF assms] .
qed

lemma double_mono_pos:
  assumes "0 < x" "x \<le> y"
  shows "double x \<le> double y"
proof -
  have y: "0 < y" using assms by simp
  note bnx = binary_exponent_bounds [OF assms(1)] and bny = binary_exponent_bounds [OF y]
  have "binary_exponent x \<le> binary_exponent y"
  proof (rule ccontr)
    assume "\<not> ?thesis"
    then have "(2 powi binary_exponent y :: rat) \<le> 2 powi (binary_exponent x - 1)" by (intro power_int_increasing) simp_all
    then show False using bnx(1) bny(2) assms(2) by linarith
  qed
  then consider "binary_exponent x = binary_exponent y" | "binary_exponent x \<le> binary_exponent y - 1" by linarith
  then show ?thesis
  proof cases
    case 1
    have "round_half_even (x * 2 powi (53 - binary_exponent y)) \<le> round_half_even (y * 2 powi (53 - binary_exponent y))"
      using assms by (intro half_even.rnd_mono mult_right_mono) simp_all
    then show ?thesis using assms y 1 by (simp add: double_pos_eq mult_right_mono)
  next
    case 2
    then have "(2 powi binary_exponent x :: rat) \<le> 2 powi (binary_exponent y - 1)" by (intro power_int_increasing) simp_all
    then show ?thesis using double_between [OF assms(1)] double_between [OF y] by linarith
  qed
qed

lemma double_pos: "0 < x \<Longrightarrow> 0 < double x"
  using double_between(1) [of x] by (meson less_le_trans zero_less_numeral zero_less_power_int)

lemma double_mono: "x \<le> y \<Longrightarrow> double x \<le> double y"
proof (cases x "0::rat" rule: linorder_cases)
  case less
  assume xy: "x \<le> y"
  show ?thesis
  proof (cases y "0::rat" rule: linorder_cases)
    case less2: less
    then have "double (- y) \<le> double (- x)" using xy by (intro double_mono_pos) simp_all
    then show ?thesis by (simp add: double_minus)
  next
    case equal
    then show ?thesis using double_pos [of "- x"] less by (simp add: double_minus)
  next
    case greater
    then show ?thesis using double_pos [of "- x"] double_pos [of y] less by (simp add: double_minus)
  qed
next
  case equal
  assume "x \<le> y"
  then show ?thesis using equal double_pos [of y] by (cases "y = 0") simp_all
next
  case greater
  assume "x \<le> y"
  then show ?thesis using greater by (intro double_mono_pos)
qed

lemma py_round_mono: "x \<le> y \<Longrightarrow> py_round k x \<le> py_round k y"
  unfolding py_round_def
  by (intro double_mono divide_right_mono) (simp_all add: half_even.rnd_mono mult_right_mono)

section \<open>Percentiles\<close>

lemma double_half_integer:
  assumes "k < 2 ^ 53"
  shows "double (of_nat k / 2) = of_nat k / 2"
proof (cases "k = 0")
  case False
  let ?x = "of_nat k / 2 :: rat"
  let ?e = "binary_exponent ?x"
  have x: "0 < ?x" using False by simp
  have "2 powi (?e - 1) \<le> ?x" by (rule binary_exponent_bounds(1) [OF x])
  also have "?x < 2 ^ 52"
  proof -
    have "(of_nat k :: rat) < of_nat (2 ^ 53)" using assms by (simp only: of_nat_less_iff)
    then show ?thesis by simp
  qed
  finally have lt: "(2 powi (?e - 1) :: rat) < 2 powi 52" by simp
  have "?e - 1 < 52"
  proof (rule ccontr)
    assume "\<not> ?e - 1 < 52"
    then have "(2 powi 52 :: rat) \<le> 2 powi (?e - 1)" by (intro power_int_increasing) simp_all
    then show False using lt by linarith
  qed
  then have e: "?e \<le> 52" by simp
  have "?x * 2 powi (53 - ?e) = of_int (int k * 2 ^ nat (52 - ?e))"
  proof -
    have "(2 powi (53 - ?e) :: rat) = 2 * 2 powi (52 - ?e)" using power_int_add [of "2::rat" 1 "52 - ?e"] by simp
    moreover have "(2 powi (52 - ?e) :: rat) = 2 ^ nat (52 - ?e)" using e by (simp add: power_int_def)
    ultimately have "(2 powi (53 - ?e) :: rat) = 2 * 2 ^ nat (52 - ?e)" by (simp only:)
    then show ?thesis by (simp only:) simp
  qed
  then have "round_half_even (?x * 2 powi (53 - ?e)) = int k * 2 ^ nat (52 - ?e)"
    by (simp only: half_even.rnd_of_int)
  then have "double ?x = ?x * 2 powi (53 - ?e) * 2 powi (?e - 53)"
    using \<open>?x * 2 powi (53 - ?e) = of_int (int k * 2 ^ nat (52 - ?e))\<close> double_pos_eq [OF x] by (simp only:)
  also have "\<dots> = ?x" using power_int_add [of "2::rat" "53 - ?e" "?e - 53"] by (simp add: mult.assoc)
  finally show ?thesis .
qed simp

lemma double_half: "double (50 / 100) = 1 / 2" "double (1 / 2) = 1 / 2"
  using double_half_integer [of 1] by simp_all

lemma double_one: "double 1 = 1"
  using double_half_integer [of 2] by simp

definition rank_of :: "nat \<Rightarrow> rat \<Rightarrow> nat" where
  "rank_of n fraction = nat (min (py_round_int (double (fraction * of_nat (n - 1)))) (int n - 1))"

lemma percentile_rank: "vals \<noteq> [] \<Longrightarrow> percentile vals f = Some (sort vals ! rank_of (length vals) f)"
  by (simp add: percentile_def rank_of_def Let_def)

lemma rank_of_less: "0 < n \<Longrightarrow> rank_of n f < n"
  by (auto simp: rank_of_def)

lemma rank_of_mono: "f \<le> g \<Longrightarrow> rank_of n f \<le> rank_of n g"
  unfolding rank_of_def py_round_int_def
  by (intro nat_mono min.mono half_even.rnd_mono double_mono mult_right_mono) simp_all

lemma percentile_mono:
  assumes "vals \<noteq> []" "f \<le> g" "percentile vals f = Some a" "percentile vals g = Some b"
  shows "a \<le> b" "a \<in> set vals" "b \<in> set vals"
proof -
  have r: "rank_of (length vals) h < length (sort vals)" for h using assms(1) rank_of_less by simp
  show "a \<le> b" using assms(3,4) rank_of_mono [OF assms(2)] r
    by (auto simp: percentile_rank [OF assms(1)] intro: sorted_nth_mono)
  show "a \<in> set vals" "b \<in> set vals"
    using assms(3,4) nth_mem [OF r] by (auto simp: percentile_rank [OF assms(1)])
qed

lemma rank_of_half:
  assumes "0 < n" "n \<le> 2 ^ 53"
  shows "n \<le> 2 * Suc (rank_of n (double (50 / 100)))" "2 * rank_of n (double (50 / 100)) \<le> n"
proof -
  let ?y = "of_nat (n - 1) / 2 :: rat"
  have "double (double (50 / 100) * of_nat (n - 1)) = ?y"
    using double_half_integer [of "n - 1"] assms by (simp add: double_half)
  then have r: "rank_of n (double (50 / 100)) = nat (min (round_half_even ?y) (int n - 1))"
    unfolding rank_of_def py_round_int_def by (simp only:)
  have near: "\<bar>of_int (round_half_even ?y) - ?y\<bar> \<le> 1 / 2" by (rule half_even.rnd_nearest)
  have "(of_int (2 * round_half_even ?y) :: rat) \<le> of_int (int n)" "(of_int (int n - 2) :: rat) \<le> of_int (2 * round_half_even ?y)"
    using near assms(1) by (simp_all add: abs_le_iff of_nat_diff field_simps)
  then have b: "2 * round_half_even ?y \<le> int n" "int n - 2 \<le> 2 * round_half_even ?y" by (simp_all only: of_int_le_iff)
  have fit: "n \<le> 2 * Suc (nat (min z (int n - 1))) \<and> 2 * nat (min z (int n - 1)) \<le> n"
    if "0 \<le> z" "2 * z \<le> int n" "int n - 2 \<le> 2 * z" "0 < n" for z
    using that by (auto simp: min_def)
  have "0 \<le> round_half_even ?y" by (rule half_even.rnd_nonneg) simp
  then show "n \<le> 2 * Suc (rank_of n (double (50 / 100)))" "2 * rank_of n (double (50 / 100)) \<le> n"
    using fit [OF _ b assms(1)] unfolding r by blast+
qed

lemma count_sorted:
  fixes vals :: "rat list"
  assumes "i < length vals"
  shows "Suc i \<le> length (filter (\<lambda>x. x \<le> sort vals ! i) vals)" "length vals - i \<le> length (filter (\<lambda>x. sort vals ! i \<le> x) vals)"
proof -
  let ?s = "sort vals"
  have len: "length (filter P ?s) = length (filter P vals)" for P :: "rat \<Rightarrow> bool"
    by (simp only: filter_sort length_sort)
  have "\<forall>x \<in> set (take (Suc i) ?s). x \<le> ?s ! i"
    using assms by (auto simp: in_set_conv_nth less_Suc_eq_le intro!: sorted_nth_mono [OF sorted_sort])
  then have "length (filter (\<lambda>x. x \<le> ?s ! i) (take (Suc i) ?s)) = Suc i" using assms by (simp add: filter_id_conv)
  moreover have "length (filter (\<lambda>x. x \<le> ?s ! i) (take (Suc i) ?s @ drop (Suc i) ?s)) \<ge> length (filter (\<lambda>x. x \<le> ?s ! i) (take (Suc i) ?s))"
    by (simp only: filter_append length_append)
  ultimately show "Suc i \<le> length (filter (\<lambda>x. x \<le> ?s ! i) vals)" using len by simp
  have "\<forall>x \<in> set (drop i ?s). ?s ! i \<le> x"
    using assms by (auto simp: in_set_conv_nth intro!: sorted_nth_mono [OF sorted_sort])
  then have "length (filter (\<lambda>x. ?s ! i \<le> x) (drop i ?s)) = length vals - i" by (simp add: filter_id_conv)
  moreover have "length (filter (\<lambda>x. ?s ! i \<le> x) (take i ?s @ drop i ?s)) \<ge> length (filter (\<lambda>x. ?s ! i \<le> x) (drop i ?s))"
    by (simp only: filter_append length_append)
  ultimately show "length vals - i \<le> length (filter (\<lambda>x. ?s ! i \<le> x) vals)" using len by simp
qed

text \<open>
  C36. The latency report is what it says. Its figures are, to the millisecond, latencies that were
  measured: the least, the greatest, one that at least half of the settlements do not exceed and at
  least half reach, and one no smaller than that; they come out in this order, and there are as many
  samples as remittances with both stamps.
\<close>

theorem latency_report_sound:
  assumes "latencies (remittances d) \<noteq> []" "length (latencies (remittances d)) \<le> 2 ^ 53"
  shows "\<exists>lo m p hi. sr_min (settlement_stats d) = Some (py_round 3 lo) \<and> sr_median (settlement_stats d) = Some (py_round 3 m) \<and>
    sr_p95 (settlement_stats d) = Some (py_round 3 p) \<and> sr_max (settlement_stats d) = Some (py_round 3 hi) \<and>
    {lo, m, p, hi} \<subseteq> set (latencies (remittances d)) \<and> lo \<le> m \<and> m \<le> p \<and> p \<le> hi \<and>
    py_round 3 lo \<le> py_round 3 m \<and> py_round 3 m \<le> py_round 3 p \<and> py_round 3 p \<le> py_round 3 hi \<and>
    sr_samples (settlement_stats d) \<le> 2 * length (filter (\<lambda>l. l \<le> m) (latencies (remittances d))) \<and>
    sr_samples (settlement_stats d) \<le> 2 * length (filter (\<lambda>l. m \<le> l) (latencies (remittances d))) \<and>
    sr_samples (settlement_stats d) =
      length (filter (\<lambda>r. rem_cash_in_confirmed_at r \<noteq> None \<and> rem_settled_at r \<noteq> None) (remittances d))"
proof -
  let ?ls = "latencies (remittances d)"
  define m where "m = sort ?ls ! rank_of (length ?ls) (double (50 / 100))"
  define p where "p = sort ?ls ! rank_of (length ?ls) (double (95 / 100))"
  have mp: "percentile ?ls (double (50 / 100)) = Some m" "percentile ?ls (double (95 / 100)) = Some p"
    using percentile_rank [OF assms(1)] by (simp_all add: m_def p_def)
  have "double (50 / 100) \<le> double (95 / 100)" by (rule double_mono) simp
  note o = percentile_mono [OF assms(1) this mp]
  have b: "Min (set ?ls) \<le> m" "p \<le> Max (set ?ls)" "Min (set ?ls) \<in> set ?ls" "Max (set ?ls) \<in> set ?ls"
    using o(2,3) assms(1) by (auto intro: Min_in Max_in)
  have n: "0 < length ?ls" using assms(1) by simp
  note c = count_sorted [OF rank_of_less [OF n], of "double (50 / 100)", folded m_def]
  note h = rank_of_half [OF n assms(2)]
  have samples: "sr_samples (settlement_stats d) = length ?ls" by (simp add: settlement_stats_def Let_def)
  have len: "length (latencies rs) = length (filter (\<lambda>r. rem_cash_in_confirmed_at r \<noteq> None \<and> rem_settled_at r \<noteq> None) rs)" for rs
    by (induction rs) (auto simp: latencies_def split: option.splits)
  have twice: "Suc r \<le> a \<Longrightarrow> k \<le> 2 * Suc r \<Longrightarrow> k \<le> 2 * a" "k - r \<le> a \<Longrightarrow> 2 * r \<le> k \<Longrightarrow> k \<le> 2 * a" for r a k :: nat
    by simp_all
  have half: "length ?ls \<le> 2 * length (filter (\<lambda>l. l \<le> m) ?ls)" "length ?ls \<le> 2 * length (filter (\<lambda>l. m \<le> l) ?ls)"
    using twice(1) [OF c(1) h(1)] twice(2) [OF c(2) h(2)] by blast+
  have figs: "sr_min (settlement_stats d) = Some (py_round 3 (Min (set ?ls)))" "sr_median (settlement_stats d) = Some (py_round 3 m)"
    "sr_p95 (settlement_stats d) = Some (py_round 3 p)" "sr_max (settlement_stats d) = Some (py_round 3 (Max (set ?ls)))"
    using assms(1) mp by (simp_all add: settlement_stats_def Let_def)
  show ?thesis using figs half b o py_round_mono [OF b(1)] py_round_mono [OF b(2)] py_round_mono [OF o(1)] len
    unfolding samples by (intro exI [of _ "Min (set ?ls)"] exI [of _ m] exI [of _ p] exI [of _ "Max (set ?ls)"]) simp
qed

definition demo_timed :: db where
  "demo_timed = demo_db\<lparr>remittances := [demo_remittance\<lparr>rem_status := SETTLED,
     rem_cash_in_confirmed_at := Some 1000000, rem_settled_at := Some 4000000\<rparr>, demo_remittance]\<rparr>"

theorem latency_report_sound_witness:
  "latencies (remittances demo_timed) = [3] \<and> sr_samples (settlement_stats demo_timed) = 1 \<and>
   sr_median (settlement_stats demo_timed) = Some (py_round 3 3)"
proof -
  have "double (3000000 / 10 ^ 6) = 3" using double_half_integer [of 6] by simp
  then have l: "latencies (remittances demo_timed) = [3]"
    by (simp add: latencies_def demo_timed_def demo_remittance_def)
  then have "sr_samples (settlement_stats demo_timed) = 1" by (simp add: settlement_stats_def Let_def)
  then show ?thesis using latency_report_sound [of demo_timed] l by auto
qed

section \<open>What a refund does to the report\<close>

lemma count_put:
  assumes "distinct (map key rows)" "r \<in> set rows"
  shows "count_list (map g (put_by key (key r) f rows)) v + (if g r = v then 1 else 0) =
    count_list (map g rows) v + (if g (f r) = v then 1 else 0)"
proof -
  obtain xs ys where rows: "rows = xs @ r # ys" using assms(2) by (meson split_list)
  have "\<forall>x \<in> set xs \<union> set ys. key x \<noteq> key r" using assms(1) by (auto simp: rows image_iff)
  then have "put_by key (key r) f xs = xs" "put_by key (key r) f ys = ys" by (auto intro!: put_by_absent)
  moreover have "put_by key (key r) f [r] = [f r]" by (simp add: put_by_def update_where_def)
  ultimately have "put_by key (key r) f rows = xs @ f r # ys"
    using put_by_append [of key "key r" f "xs" "[r] @ ys"] put_by_append [of key "key r" f "[r]" ys] by (simp add: rows)
  then show ?thesis by (simp add: rows)
qed

text \<open>
  C37. Refunding a failed remittance improves the success rate. The report counts SETTLED and FAILED
  rows only, so a failure leaves it when it is refunded: as many are settled, one less has failed, the
  rate does not fall, and with the last failure gone a platform that never settled anything has no rate.
\<close>

theorem refund_flatters_report:
  assumes "refund_failed_remittance s r now d = Inr d'" "app_inv s d" "get_remittance (rem_id r) d = Some r"
  shows "sr_settled (settlement_stats d') = sr_settled (settlement_stats d) \<and>
    sr_failed (settlement_stats d) = Suc (sr_failed (settlement_stats d')) \<and>
    (case (sr_success_rate_percent (settlement_stats d), sr_success_rate_percent (settlement_stats d')) of
       (Some before, Some after) \<Rightarrow> before \<le> after
     | (Some before, None) \<Rightarrow> before = 0 \<and> sr_settled (settlement_stats d) = 0
     | _ \<Rightarrow> False)"
proof -
  have rem: "remittances d' = put_by rem_id (rem_id r) (\<lambda>x. x\<lparr>rem_status := REFUNDED\<rparr>) (remittances d)" and st: "rem_status r = FAILED"
    using assms(1) by (auto simp: refund_failed_remittance_def ebind_eq_Inr put_remittance_def ledger_write_def
        dest!: wallet_for_write record_external_write split: if_splits)
  have ids: "distinct (map rem_id (remittances d))" "r \<in> set (remittances d)"
    using assms(2,3) app_inv_remittance [OF assms(2,3)] by (simp_all add: app_inv_def fresh_ids_def)
  note cnt = count_put [OF ids, of "stored_name \<circ> rem_status" "\<lambda>x. x\<lparr>rem_status := REFUNDED\<rparr>"]
  have never: "count_list (map (stored_name \<circ> rem_status) rs) ''settled'' = 0" "count_list (map (stored_name \<circ> rem_status) rs) ''failed'' = 0" for rs
    by (induction rs) (auto simp: stored_name_def split: remittance_status.splits)
  have set: "sr_settled (settlement_stats d') = sr_settled (settlement_stats d)"
    using cnt [of "''SETTLED''"] st by (simp add: settlement_stats_def Let_def rem never stored_name_def)
  have fail: "sr_failed (settlement_stats d) = Suc (sr_failed (settlement_stats d'))"
    using cnt [of "''FAILED''"] st by (simp add: settlement_stats_def Let_def rem never stored_name_def)
  have rate: "sr_success_rate_percent (settlement_stats x) =
      (let s = sr_settled (settlement_stats x); f = sr_failed (settlement_stats x)
       in if s + f \<noteq> 0 then Some (py_round 2 (double (of_nat (100 * s) / of_nat (s + f)))) else None)" for x
    by (simp add: settlement_stats_def Let_def)
  let ?s = "sr_settled (settlement_stats d)" and ?f = "sr_failed (settlement_stats d')"
  have "py_round 2 (double (of_nat (100 * ?s) / of_nat (?s + Suc ?f))) \<le> py_round 2 (double (of_nat (100 * ?s) / of_nat (?s + ?f)))"
    if "?s + ?f \<noteq> 0"
    using that by (intro py_round_mono double_mono divide_left_mono) auto
  moreover have "py_round 2 (double 0) = 0" by (simp add: py_round_def round_half_even_def)
  ultimately show ?thesis using set fail by (simp add: rate Let_def)
qed

theorem refund_flatters_report_witness:
  "\<exists>d'. refund_failed_remittance demo_settings demo_failed 200 demo_failed_db = Inr d' \<and>
     sr_failed (settlement_stats demo_failed_db) = 1 \<and> sr_failed (settlement_stats d') = 0 \<and>
     sr_success_rate_percent (settlement_stats demo_failed_db) = Some 0 \<and> sr_success_rate_percent (settlement_stats d') = None"
proof -
  have sc: "scaled 6 (rem_zar_send_amount demo_failed)" "0 < rem_zar_send_amount demo_failed"
    "rem_zar_send_amount demo_failed < 10 ^ 12" "rem_cash_in_confirmed_at demo_failed \<noteq> None"
    "get_user (rem_sender_id demo_failed) demo_failed_db = Some (demo_user 1 ''ann@x.org'')"
    "wallet_transactions demo_failed_db = []"
    by (simp_all add: demo_failed_def demo_remittance_def demo_failed_db_def demo_db_def get_user_def
        get_by_Cons demo_user_def empty_db_def)
  obtain d' where run: "refund_failed_remittance demo_settings demo_failed 200 demo_failed_db = Inr d'"
    using refund_outcome [OF demo_failed_ok(1) corridor_demo demo_failed_ok(4) sc(4,5,1,2,3)] sc(6) by auto
  have g: "get_remittance (rem_id demo_failed) demo_failed_db = Some demo_failed" using demo_failed_ok by simp
  have "sr_failed (settlement_stats demo_failed_db) = 1" "sr_settled (settlement_stats demo_failed_db) = 0"
    "sr_success_rate_percent (settlement_stats demo_failed_db) = Some (py_round 2 (double 0))"
    by (simp_all add: settlement_stats_def Let_def demo_failed_db_def demo_failed_def stored_name_def)
  moreover have "py_round 2 (double 0) = 0" by (simp add: py_round_def round_half_even_def)
  moreover have "sr_success_rate_percent (settlement_stats x) = None"
    if "sr_settled (settlement_stats x) = 0" "sr_failed (settlement_stats x) = 0" for x
    using that by (simp add: settlement_stats_def Let_def)
  ultimately show ?thesis using refund_flatters_report [OF run demo_failed_ok(1) g] run by auto
qed

end
