(* ===== verification/Scripts.thy ===== *)
theory Scripts
  imports Isolation
begin

text \<open>
  The programs that drive the API over HTTP: \<open>scripts/walkthrough.py\<close>,
  \<open>scripts/walkthrough_remittance.py\<close>, \<open>performance-testing/seed_users.py\<close> and the load test
  \<open>performance-testing/locustfile.py\<close>. A script is the tree of the requests it sends, each with what it
  does on the response. Others use the API at the same time: \<open>between\<close> is what happens to the server
  before each request of the script. Waiting, printing and argument parsing are left out.
\<close>

section \<open>Scripts and their runs\<close>

text \<open>
  How a script ends early: on a response it treats as an exception, by \<open>sys.exit\<close>, or because the
  response lacks the field it reads.
\<close>

datatype failure = Refused nat | Exit | Malformed

datatype 'a script = Done "failure + 'a" | Call "string option \<times> request" "response \<Rightarrow> 'a script"

primrec sbind :: "'a script \<Rightarrow> ('a \<Rightarrow> 'b script) \<Rightarrow> 'b script" where
  "sbind (Done r) f = (case r of Inl e \<Rightarrow> Done (Inl e) | Inr v \<Rightarrow> f v)"
| "sbind (Call q k) f = Call q (\<lambda>resp. sbind (k resp) f)"

text \<open>\<open>try: ... except Exception\<close>.\<close>

primrec attempt :: "'a script \<Rightarrow> (failure + 'a) script" where
  "attempt (Done r) = Done (Inr r)"
| "attempt (Call q k) = Call q (\<lambda>resp. attempt (k resp))"

primrec run_script ::
  "(('n, 'f, 'r) server \<Rightarrow> ('n, 'f, 'r) server) \<Rightarrow> ('n, 'f, 'r) api \<Rightarrow> 'a script \<Rightarrow> ('n, 'f, 'r) server \<Rightarrow>
   (failure + 'a) \<times> ('n, 'f, 'r) server" where
  "run_script between a (Done r) = (\<lambda>x. (r, x))"
| "run_script between a (Call q k) = (\<lambda>x. case serve a q (between x) of (resp, x') \<Rightarrow> run_script between a (k resp) x')"

definition call :: "string option \<Rightarrow> request \<Rightarrow> response script" where
  "call bearer r = Call (bearer, r) (\<lambda>resp. Done (Inr resp))"

text \<open>\<open>raise_for_status\<close>, and the fields the scripts read from a response.\<close>

definition ok_body :: "response \<Rightarrow> failure + body" where
  "ok_body resp = (if 400 \<le> fst resp then Inl (Refused (fst resp)) else Inr (snd resp))"

definition access_token :: "body \<Rightarrow> failure + string" where
  "access_token b = (case b of Token_body t \<Rightarrow> Inr (tr_access_token t) | _ \<Rightarrow> Inl Malformed)"

definition id_of :: "body \<Rightarrow> failure + uuid" where
  "id_of b =
     (case b of Kyc_body k \<Rightarrow> Inr (kar_id k) | Beneficiary_body r \<Rightarrow> Inr (br_id r) | Cash_out_body c \<Rightarrow> Inr (cr_id c)
      | User_body u \<Rightarrow> Inr (ur_id u) | Me_body m \<Rightarrow> Inr (mr_id m) | Remittance_body r \<Rightarrow> Inr (rr_id r) | _ \<Rightarrow> Inl Malformed)"

definition latest_application_id :: "body \<Rightarrow> failure + uuid" where
  "latest_application_id b =
     (case b of Kyc_status_body k \<Rightarrow> some_or Malformed (map_option kar_id (ksr_latest_application k)) | _ \<Rightarrow> Inl Malformed)"

definition remittance_id_of :: "body \<Rightarrow> failure + uuid" where
  "remittance_id_of b = (case b of Quote_body q \<Rightarrow> Inr (qr_remittance_id (qd_quote q)) | _ \<Rightarrow> Inl Malformed)"

definition queued_of :: "body \<Rightarrow> failure + bool" where
  "queued_of b = (case b of Confirm_body c \<Rightarrow> Inr (ccr_queued c) | _ \<Rightarrow> Inl Malformed)"

definition status_of_body :: "body \<Rightarrow> failure + remittance_status" where
  "status_of_body b = (case b of Remittance_body r \<Rightarrow> Inr (rr_status r) | _ \<Rightarrow> Inl Malformed)"

definition uctusd_balance_of :: "body \<Rightarrow> failure + decimal" where
  "uctusd_balance_of b = (case b of Balance_body w \<Rightarrow> Inr (wbr_uctusd_balance w) | _ \<Rightarrow> Inl Malformed)"

text \<open>An integer in an f-string, plain and padded to four digits.\<close>

fun decimal_str :: "nat \<Rightarrow> string" where
  "decimal_str n = (if n < 10 then [char_of (48 + n)] else decimal_str (n div 10) @ [char_of (48 + n mod 10)])"

declare decimal_str.simps [simp del]

definition zero_padded :: "nat \<Rightarrow> string" where
  "zero_padded n = (let t = decimal_str n in replicate (4 - length t) CHR ''0'' @ t)"

section \<open>Seeding the load test\<close>

text \<open>\<open>_post\<close> raises on an error status.\<close>

definition post :: "string option \<Rightarrow> request \<Rightarrow> body script" where
  "post bearer r = Call (bearer, r) (\<lambda>resp. Done (ok_body resp))"

definition login_as :: "string \<Rightarrow> string \<Rightarrow> string script" where
  "login_as email password = sbind (post None (Auth (Login email password))) (\<lambda>b. Done (access_token b))"

definition load_sender_form :: "string \<Rightarrow> string \<Rightarrow> nat \<Rightarrow> kyc_form" where
  "load_sender_form email run_id index =
     \<lparr>kf_full_name = ''Load Sender '' @ decimal_str index, kf_date_of_birth = (1990, 1, 1),
      kf_nationality = ''South African'', kf_identification_number = run_id @ zero_padded index,
      kf_residential_address = ''1 Long Street, Cape Town'', kf_mobile_number = ''+27821234567'',
      kf_email = email, kf_source_of_funds = ''Salary''\<rparr>"

definition create_sender :: "string \<Rightarrow> string \<Rightarrow> string \<Rightarrow> string \<Rightarrow> nat \<Rightarrow> string script" where
  "create_sender admin_token email password run_id index =
     sbind (post None (Auth (Register email password (''Load Sender '' @ decimal_str index)))) (\<lambda>_.
     sbind (login_as email password) (\<lambda>bearer.
     sbind (post (Some bearer) (KYC (Submit_kyc (load_sender_form email run_id index)))) (\<lambda>b.
     sbind (Done (id_of b)) (\<lambda>application.
     sbind (post (Some admin_token) (Admin (Approve_kyc application))) (\<lambda>_.
     Done (Inr bearer))))))"

record seeded =
  sd_email :: string
  sd_password :: string
  sd_recipient_email :: string
  sd_beneficiary_id :: uuid

definition sender_address :: "string \<Rightarrow> nat \<Rightarrow> string" where
  "sender_address run_id index = ''ls-'' @ run_id @ ''-'' @ decimal_str index @ ''@example.com''"

definition recipient_address :: "string \<Rightarrow> nat \<Rightarrow> string" where
  "recipient_address run_id index = ''lr-'' @ run_id @ ''-'' @ decimal_str index @ ''@example.com''"

definition load_recipient_form :: "string \<Rightarrow> nat \<Rightarrow> beneficiary_form" where
  "load_recipient_form contact index =
     \<lparr>bf_full_name = ''Load Recipient '' @ decimal_str index, bf_contact = contact, bf_country = ''United States'',
      bf_preferred_payout_currency = ''USD'', bf_relationship_to_sender = ''Family''\<rparr>"

definition seed_user :: "string \<Rightarrow> string \<Rightarrow> string \<Rightarrow> nat \<Rightarrow> seeded script" where
  "seed_user admin_token password run_id index =
     (let sender_email = sender_address run_id index; recipient_email = recipient_address run_id index in
      sbind (create_sender admin_token sender_email password run_id index) (\<lambda>bearer.
      sbind (post None (Auth (Register recipient_email password (''Load Recipient '' @ decimal_str index)))) (\<lambda>_.
      sbind (post (Some bearer) (Beneficiaries (Create_beneficiary (load_recipient_form recipient_email index)))) (\<lambda>b.
      sbind (Done (id_of b)) (\<lambda>beneficiary.
      Done (Inr \<lparr>sd_email = sender_email, sd_password = password, sd_recipient_email = recipient_email,
                  sd_beneficiary_id = beneficiary\<rparr>))))))"

primrec seed_each :: "string \<Rightarrow> string \<Rightarrow> string \<Rightarrow> nat list \<Rightarrow> seeded list script" where
  "seed_each admin_token password run_id [] = Done (Inr [])"
| "seed_each admin_token password run_id (index # rest) =
     sbind (attempt (seed_user admin_token password run_id index)) (\<lambda>r.
     sbind (seed_each admin_token password run_id rest) (\<lambda>more.
     Done (Inr (case r of Inl e \<Rightarrow> more | Inr user \<Rightarrow> user # more))))"

text \<open>The contents of \<open>users.json\<close>; \<open>None\<close> when the administrator cannot log in and the script returns 1.\<close>

definition seed_users :: "int \<Rightarrow> string \<Rightarrow> string \<Rightarrow> string \<Rightarrow> string \<Rightarrow> seeded list option script" where
  "seed_users count admin_email admin_password password run_id =
     sbind (attempt (login_as admin_email admin_password)) (\<lambda>r.
     case r of
       Inl e \<Rightarrow> Done (Inr None)
     | Inr admin_token \<Rightarrow>
         sbind (seed_each admin_token password run_id [0..<nat count]) (\<lambda>users. Done (Inr (Some users))))"

section \<open>The walkthroughs\<close>

definition exit_unless :: "bool \<Rightarrow> unit script" where
  "exit_unless ok = Done (if ok then Inr () else Inl Exit)"

definition alice_form :: "string \<Rightarrow> kyc_form" where
  "alice_form email =
     \<lparr>kf_full_name = ''Alice Walkthrough'', kf_date_of_birth = (1990, 5, 15), kf_nationality = ''South African'',
      kf_identification_number = ''9005155800086'', kf_residential_address = ''1 Long St, Cape Town'',
      kf_mobile_number = ''+27821234567'', kf_email = email, kf_source_of_funds = ''Salary''\<rparr>"

text \<open>\<open>scripts/walkthrough.py\<close>; its result is what \<open>/auth/me\<close> showed before and after.\<close>

definition walkthrough :: "string \<Rightarrow> string \<Rightarrow> (response \<times> response) script" where
  "walkthrough admin_email admin_password =
     (let email = ''walkthrough.alice@example.com''; password = ''password123'' in
      sbind (call None (Auth (Register email password ''Alice Walkthrough''))) (\<lambda>registered.
      sbind (exit_unless (fst registered = 409 \<or> fst registered = 201)) (\<lambda>_.
      sbind (call None (Auth (Login email password))) (\<lambda>resp.
      sbind (Done (ebind (ok_body resp) access_token)) (\<lambda>sender_token.
      sbind (call (Some sender_token) (Auth Get_profile)) (\<lambda>before.
      sbind (call (Some sender_token) (KYC (Submit_kyc (alice_form email)))) (\<lambda>resp.
      sbind (if fst resp = 409
             then sbind (call (Some sender_token) (KYC Get_kyc_status)) (\<lambda>status. Done (latest_application_id (snd status)))
             else Done (ebind (ok_body resp) id_of)) (\<lambda>application_id.
      sbind (call None (Auth (Login admin_email admin_password))) (\<lambda>resp.
      sbind (Done (ebind (ok_body resp) access_token)) (\<lambda>admin_token.
      sbind (call (Some admin_token) (Admin (Approve_kyc application_id))) (\<lambda>_.
      sbind (call (Some sender_token) (Beneficiaries (Create_beneficiary
         \<lparr>bf_full_name = ''Bob Recipient'', bf_contact = ''bob.walkthrough@example.com'', bf_country = ''United States'',
          bf_preferred_payout_currency = ''usd'', bf_relationship_to_sender = ''Brother''\<rparr>))) (\<lambda>_.
      sbind (call (Some sender_token) (Auth Get_profile)) (\<lambda>after.
      Done (Inr (before, after)))))))))))))))"

text \<open>\<open>scripts/walkthrough_remittance.py\<close>: its helpers, the polling of step 6, and steps 8 to 10.\<close>

definition register_or_exit :: "string \<Rightarrow> string \<Rightarrow> string \<Rightarrow> unit script" where
  "register_or_exit email password full_name =
     sbind (call None (Auth (Register email password full_name))) (\<lambda>resp.
     exit_unless (fst resp = 201 \<or> fst resp = 409))"

primrec poll_until_settled :: "nat \<Rightarrow> string \<Rightarrow> uuid \<Rightarrow> unit script" where
  "poll_until_settled 0 bearer k = Done (Inr ())"
| "poll_until_settled (Suc n) bearer k =
     sbind (call (Some bearer) (Remittances (Get_remittance_status k))) (\<lambda>resp.
     sbind (Done (status_of_body (snd resp))) (\<lambda>st.
     if st = SETTLED \<or> st = FAILED then Done (Inr ()) else poll_until_settled n bearer k))"

text \<open>What the recipient's wallet shows last: the balance and the entries.\<close>

definition cash_out_and_release :: "string \<Rightarrow> string \<Rightarrow> decimal \<Rightarrow> (response \<times> response) script" where
  "cash_out_and_release recipient_token admin_token amount =
     sbind (call (Some recipient_token) (Wallet (Request_cash_out amount ''USD'' None))) (\<lambda>resp.
     sbind (Done (ebind (ok_body resp) id_of)) (\<lambda>cash_out_id.
     sbind (call (Some admin_token) (Admin (Approve_cash_out cash_out_id))) (\<lambda>_.
     sbind (call (Some recipient_token) (Wallet Get_balance)) (\<lambda>shown.
     sbind (call (Some recipient_token) (Wallet Get_wallet_transactions)) (\<lambda>entries.
     Done (Inr (shown, entries)))))))"

text \<open>
  The whole: \<open>None\<close> when nothing has settled yet, else what the last step shows. \<open>tag\<close> is
  \<open>uuid4().hex[:8]\<close>.
\<close>

definition walkthrough_remittance :: "string \<Rightarrow> string \<Rightarrow> string \<Rightarrow> (response \<times> response) option script" where
  "walkthrough_remittance tag admin_email admin_password =
     (let sender_email = ''sender.'' @ tag @ ''@example.com''; recipient_email = ''recipient.'' @ tag @ ''@example.com'';
          password = ''password123'' in
      sbind (register_or_exit sender_email password ''Sipho Sender'') (\<lambda>_.
      sbind (register_or_exit recipient_email password ''Rita Recipient'') (\<lambda>_.
      sbind (login_as sender_email password) (\<lambda>sender_token.
      sbind (login_as recipient_email password) (\<lambda>recipient_token.
      sbind (call (Some sender_token) (KYC (Submit_kyc ((alice_form sender_email)\<lparr>kf_full_name := ''Sipho Sender''\<rparr>)))) (\<lambda>resp.
      sbind (Done (ebind (ok_body resp) id_of)) (\<lambda>application_id.
      sbind (login_as admin_email admin_password) (\<lambda>admin_token.
      sbind (call (Some admin_token) (Admin (Approve_kyc application_id))) (\<lambda>_.
      sbind (call (Some sender_token) (Beneficiaries (Create_beneficiary
         \<lparr>bf_full_name = ''Rita Recipient'', bf_contact = recipient_email, bf_country = ''United States'',
          bf_preferred_payout_currency = ''USD'', bf_relationship_to_sender = ''Sister''\<rparr>))) (\<lambda>resp.
      sbind (Done (ebind (ok_body resp) id_of)) (\<lambda>beneficiary_id.
      sbind (call (Some sender_token) (Remittances (Create_quote beneficiary_id 1000))) (\<lambda>resp.
      sbind (Done (ebind (ok_body resp) remittance_id_of)) (\<lambda>remittance_id.
      sbind (call (Some sender_token) (Remittances (Confirm_cash_in remittance_id ''agent_cash''))) (\<lambda>resp.
      sbind (Done (ebind (ok_body resp) queued_of)) (\<lambda>queued.
      sbind (poll_until_settled (if queued then 6 else 1) sender_token remittance_id) (\<lambda>_.
      sbind (call (Some recipient_token) (Wallet Get_balance)) (\<lambda>resp.
      sbind (Done (uctusd_balance_of (snd resp))) (\<lambda>held.
      if held \<le> 0 then Done (Inr None)
      else sbind (cash_out_and_release recipient_token admin_token held) (\<lambda>shown. Done (Inr (Some shown)))))))))))))))))))))"

section \<open>The load test\<close>

text \<open>
  One \<open>Sender\<close> of \<open>locustfile.py\<close>. A task sends at most one request; its verdict is whether Locust
  counts the request as a success, and the counter raised.
\<close>

record sender =
  ls_beneficiary_id :: uuid
  ls_quoted :: "uuid list"
  ls_tracked :: "uuid list"
  ls_limit_reached :: bool
  ls_headers :: "string option"

type_synonym verdict = "(bool \<times> string option) option"

definition on_start :: "seeded \<Rightarrow> (sender \<times> verdict) script" where
  "on_start credentials =
     (let s = \<lparr>ls_beneficiary_id = sd_beneficiary_id credentials, ls_quoted = [], ls_tracked = [], ls_limit_reached = False,
               ls_headers = None\<rparr> in
      sbind (call None (Auth (Login (sd_email credentials) (sd_password credentials)))) (\<lambda>resp.
      if fst resp \<noteq> 200 then Done (Inr (s, Some (False, None)))
      else sbind (Done (access_token (snd resp))) (\<lambda>bearer.
        Done (Inr (s\<lparr>ls_headers := Some bearer\<rparr>, Some (True, None))))))"

definition quote_task :: "decimal \<Rightarrow> sender \<Rightarrow> (sender \<times> verdict) script" where
  "quote_task send_amount s =
     (if ls_headers s = None \<or> ls_limit_reached s then Done (Inr (s, None))
      else
        sbind (call (ls_headers s) (Remittances (Create_quote (ls_beneficiary_id s) send_amount))) (\<lambda>resp.
        if fst resp = 201
        then sbind (Done (remittance_id_of (snd resp))) (\<lambda>k.
          Done (Inr (s\<lparr>ls_quoted := ls_quoted s @ [k]\<rparr>, Some (True, Some ''quotes_created''))))
        else if fst resp = 403 then Done (Inr (s\<lparr>ls_limit_reached := True\<rparr>, Some (True, Some ''limit_exhausted'')))
        else if fst resp = 503 then Done (Inr (s, Some (False, Some ''fx_unavailable'')))
        else Done (Inr (s, Some (False, None)))))"

definition confirm_task :: "sender \<Rightarrow> (sender \<times> verdict) script" where
  "confirm_task s =
     (if ls_headers s = None \<or> ls_quoted s = [] then Done (Inr (s, None))
      else
        let k = last (ls_quoted s); s = s\<lparr>ls_quoted := butlast (ls_quoted s)\<rparr> in
        sbind (call (ls_headers s) (Remittances (Confirm_cash_in k ''agent_cash''))) (\<lambda>resp.
        if fst resp = 200
        then sbind (Done (queued_of (snd resp))) (\<lambda>queued.
          Done (Inr (s\<lparr>ls_tracked := ls_tracked s @ [k]\<rparr>,
                     Some (True, Some (if queued then ''cash_in_queued'' else ''cash_in_not_queued'')))))
        else if fst resp = 409 then Done (Inr (s, Some (True, Some ''cash_in_conflict'')))
        else Done (Inr (s, Some (False, None)))))"

definition json_status :: "remittance_status \<Rightarrow> string" where
  "json_status st =
     (case st of QUOTED \<Rightarrow> ''quoted'' | CASH_IN_CONFIRMED \<Rightarrow> ''cash_in_confirmed'' | QUEUED \<Rightarrow> ''queued''
      | SETTLING \<Rightarrow> ''settling'' | SETTLED \<Rightarrow> ''settled'' | FAILED \<Rightarrow> ''failed'' | REFUNDED \<Rightarrow> ''refunded'')"

definition TERMINAL_STATUSES :: "remittance_status list" where
  "TERMINAL_STATUSES = [SETTLED, FAILED, REFUNDED]"

definition poll_task :: "sender \<Rightarrow> (sender \<times> verdict) script" where
  "poll_task s =
     (if ls_headers s = None \<or> ls_tracked s = [] then Done (Inr (s, None))
      else
        sbind (call (ls_headers s) (Remittances (Get_remittance_status (last (ls_tracked s))))) (\<lambda>resp.
        if fst resp = 200
        then sbind (Done (status_of_body (snd resp))) (\<lambda>st.
          Done (Inr (if st \<in> set TERMINAL_STATUSES then s\<lparr>ls_tracked := butlast (ls_tracked s)\<rparr> else s,
                     Some (True, Some (''poll_'' @ json_status st)))))
        else Done (Inr (s, Some (False, None)))))"

definition wallet_task :: "sender \<Rightarrow> (sender \<times> verdict) script" where
  "wallet_task s =
     (if ls_headers s = None then Done (Inr (s, None))
      else sbind (call (ls_headers s) (Wallet Get_balance)) (\<lambda>resp. Done (Inr (s, Some (fst resp < 400, None)))))"

datatype load_task = Quote_task | Confirm_task | Poll_task | Wallet_task

definition task_of :: "decimal \<Rightarrow> load_task \<Rightarrow> sender \<Rightarrow> (sender \<times> verdict) script" where
  "task_of send_amount t =
     (case t of Quote_task \<Rightarrow> quote_task send_amount | Confirm_task \<Rightarrow> confirm_task
      | Poll_task \<Rightarrow> poll_task | Wallet_task \<Rightarrow> wallet_task)"

text \<open>A sender's session: it logs in, then performs the tasks Locust picks for it.\<close>

primrec perform :: "decimal \<Rightarrow> load_task list \<Rightarrow> sender \<Rightarrow> (sender \<times> verdict list) script" where
  "perform send_amount [] s = Done (Inr (s, []))"
| "perform send_amount (t # ts) s =
     sbind (task_of send_amount t s) (\<lambda>(s, v). sbind (perform send_amount ts s) (\<lambda>(s, vs). Done (Inr (s, v # vs))))"

definition sender_session :: "decimal \<Rightarrow> load_task list \<Rightarrow> seeded \<Rightarrow> (sender \<times> verdict list) script" where
  "sender_session send_amount ts credentials =
     sbind (on_start credentials) (\<lambda>(s, v). sbind (perform send_amount ts s) (\<lambda>(s, vs). Done (Inr (s, v # vs))))"

text \<open>\<open>_load_credentials\<close> hands the entries of \<open>users.json\<close> out round-robin, and exits when there are none.\<close>

definition nth_credentials :: "seeded list \<Rightarrow> nat \<Rightarrow> failure + seeded" where
  "nth_credentials loaded n = (if loaded = [] then Inl Exit else Inr (loaded ! (n mod length loaded)))"

section \<open>Running scripts\<close>

lemma run_sbind [simp]:
  "run_script between a (sbind m f) x =
     (case run_script between a m x of (Inl e, x') \<Rightarrow> (Inl e, x') | (Inr v, x') \<Rightarrow> run_script between a (f v) x')"
  by (induction m arbitrary: x) (auto split: sum.split prod.split)

lemma run_attempt [simp]: "run_script between a (attempt m) x = (case run_script between a m x of (r, x') \<Rightarrow> (Inr r, x'))"
  by (induction m arbitrary: x) (auto split: prod.split)

lemma run_call [simp]:
  "run_script between a (call bearer r) x = (case serve a (bearer, r) (between x) of (resp, x') \<Rightarrow> (Inr resp, x'))"
  by (simp add: call_def)

lemma run_post [simp]:
  "run_script between a (post bearer r) x = (case serve a (bearer, r) (between x) of (resp, x') \<Rightarrow> (ok_body resp, x'))"
  by (simp add: post_def)

text \<open>Whoever presents a user's token acts as that user.\<close>

lemma token_caller:
  assumes "caller a (Some (fst (issue_token (api_auth a) (api_settings a) t u))) y = Inr w" "jwt_ok (api_auth a)" "usr_id u < 16 ^ 32"
  shows "usr_id w = usr_id u"
  using assms(1) token_names_user [OF assms(2,3), of "api_settings a" t "now_of a y" "sv_db y"]
  by (auto simp: caller_def some_or_def get_user_def dest!: get_by_Some split: if_splits option.splits)

end
