(* ===== verification/Seeding.thy ===== *)
theory Seeding
  imports Scripts "HOL-Library.Sublist"
begin

text \<open>
  What \<open>performance-testing/seed_users.py\<close> promises in its last line: every sender it lists is
  KYC-approved, with a registered recipient. Shown for a script that shares the API with others, as
  long as these leave accounts, approvals and recipients in place.
\<close>

section \<open>What a seeded account rests on\<close>

definition keeps :: "db \<Rightarrow> db \<Rightarrow> bool" where
  "keeps d d' \<longleftrightarrow> next_id d \<le> next_id d' \<and>
     (\<forall>k u. get_user k d = Some u \<longrightarrow> (\<exists>u'. get_user k d' = Some u' \<and> usr_email u' = usr_email u \<and>
        usr_hashed_password u' = usr_hashed_password u \<and>
        (usr_kyc_status u = KYC_APPROVED \<longrightarrow> usr_kyc_status u' = KYC_APPROVED))) \<and>
     (\<forall>k p. get_kyc k d = Some p \<longrightarrow> (\<exists>p'. get_kyc k d' = Some p' \<and> kyc_user_id p' = kyc_user_id p)) \<and>
     (\<forall>k b. get_beneficiary_row k d = Some b \<longrightarrow> get_beneficiary_row k d' = Some b)"

lemma keeps_refl [simp]: "keeps d d"
  by (auto simp: keeps_def)

lemma keeps_user:
  assumes "keeps d d'" "get_user k d = Some u"
  obtains u' where "get_user k d' = Some u'" "usr_email u' = usr_email u" "usr_hashed_password u' = usr_hashed_password u"
    "usr_kyc_status u = KYC_APPROVED \<Longrightarrow> usr_kyc_status u' = KYC_APPROVED"
  using assms unfolding keeps_def by blast

lemma keeps_kyc:
  assumes "keeps d d'" "get_kyc k d = Some p"
  obtains p' where "get_kyc k d' = Some p'" "kyc_user_id p' = kyc_user_id p"
  using assms unfolding keeps_def by blast

lemma keeps_trans:
  assumes "keeps d d1" "keeps d1 d2"
  shows "keeps d d2"
  unfolding keeps_def
proof (intro conjI allI impI)
  show "next_id d \<le> next_id d2" using assms by (auto simp: keeps_def)
next
  fix k u assume "get_user k d = Some u"
  then obtain u1 where 1: "get_user k d1 = Some u1" "usr_email u1 = usr_email u" "usr_hashed_password u1 = usr_hashed_password u"
    "usr_kyc_status u = KYC_APPROVED \<Longrightarrow> usr_kyc_status u1 = KYC_APPROVED"
    using keeps_user [OF assms(1)] by metis
  obtain u2 where 2: "get_user k d2 = Some u2" "usr_email u2 = usr_email u1" "usr_hashed_password u2 = usr_hashed_password u1"
    "usr_kyc_status u1 = KYC_APPROVED \<Longrightarrow> usr_kyc_status u2 = KYC_APPROVED"
    using keeps_user [OF assms(2) 1(1)] by metis
  show "\<exists>u'. get_user k d2 = Some u' \<and> usr_email u' = usr_email u \<and> usr_hashed_password u' = usr_hashed_password u \<and>
      (usr_kyc_status u = KYC_APPROVED \<longrightarrow> usr_kyc_status u' = KYC_APPROVED)"
    using 1 2 by (intro exI [of _ u2]) auto
next
  fix k p assume "get_kyc k d = Some p"
  then obtain p1 where 1: "get_kyc k d1 = Some p1" "kyc_user_id p1 = kyc_user_id p" by (rule keeps_kyc [OF assms(1)])
  obtain p2 where "get_kyc k d2 = Some p2" "kyc_user_id p2 = kyc_user_id p1" by (rule keeps_kyc [OF assms(2) 1(1)])
  then show "\<exists>p'. get_kyc k d2 = Some p' \<and> kyc_user_id p' = kyc_user_id p" using 1 by simp
next
  fix k b assume "get_beneficiary_row k d = Some b"
  then show "get_beneficiary_row k d2 = Some b" using assms by (simp add: keeps_def)
qed

definition sound :: "db \<Rightarrow> db \<Rightarrow> bool" where
  "sound d d' \<longleftrightarrow> (account_inv d \<longrightarrow> account_inv d' \<and> keeps d d')"

lemma sound_refl [simp]: "sound d d"
  by (simp add: sound_def)

lemma sound_trans: "sound d d1 \<Longrightarrow> sound d1 d2 \<Longrightarrow> sound d d2"
  unfolding sound_def using keeps_trans by blast

lemma keeps_put_user:
  assumes "\<And>x. usr_id (f x) = usr_id x \<and> usr_email (f x) = usr_email x \<and> usr_hashed_password (f x) = usr_hashed_password x"
    "\<And>x. get_user k d = Some x \<Longrightarrow> usr_kyc_status x = KYC_APPROVED \<Longrightarrow> usr_kyc_status (f x) = KYC_APPROVED"
  shows "keeps d (put_user k f d)"
  using assms by (auto simp: keeps_def put_user_def get_user_def get_kyc_def get_beneficiary_row_def get_by_put_by)

lemma keeps_append:
  assumes "users d' = users d @ us" "kyc_applications d' = kyc_applications d @ ps" "beneficiaries d' = beneficiaries d @ bs"
    "next_id d \<le> next_id d'"
  shows "keeps d d'"
  using assms by (auto simp: keeps_def get_user_def get_kyc_def get_beneficiary_row_def get_by_append)

lemma register_sound:
  assumes "register lib payload now d n = ((res, d'), n')"
  shows "sound d d'"
proof (cases res)
  case (Inl e)
  then show ?thesis using assms by (auto simp: register_def commit_or_keep_def split: prod.splits sum.splits)
next
  case (Inr u)
  obtain email h name where ins: "insert_user email h name False now d = Inr (u, d')"
    using register_ok [OF assms [unfolded Inr]] by blast
  then have "keeps d d'" by (intro keeps_append [of d' d "[u]" "[]" "[]"]) (auto simp: insert_user_def Let_def split: if_splits)
  then show ?thesis using insert_user_inv(1) [OF ins] by (simp add: sound_def)
qed

lemma submit_sound:
  assumes "submit_kyc u f now d = Inr (p, d')" "get_user (usr_id u) d = Some u"
  shows "sound d d'"
  unfolding sound_def
proof
  assume inv: "account_inv d"
  let ?d1 = "d\<lparr>kyc_applications := kyc_applications d @ [p], next_id := Suc (next_id d)\<rparr>"
  have d': "d' = put_user (usr_id u) (\<lambda>x. x\<lparr>usr_kyc_status := KYC_PENDING\<rparr>) ?d1"
    and free: "\<forall>q \<in> set (kyc_applications d). kyc_user_id q = usr_id u \<longrightarrow> kyc_app_status q \<noteq> APP_APPROVED"
    using assms(1) by (auto simp: submit_kyc_def Let_def split: if_splits)
  have "usr_kyc_status u = status_from (usr_id u) (set (kyc_applications d))"
    using inv assms(2) by (auto simp: account_inv_def synced_def get_user_def)
  then have "usr_kyc_status u \<noteq> KYC_APPROVED" using free by (auto simp: status_from_def split: if_splits)
  then have "keeps ?d1 d'" unfolding d' using assms(2) by (intro keeps_put_user) (simp_all add: get_user_def)
  moreover have "keeps d ?d1" by (rule keeps_append [of _ d "[]" "[p]" "[]"]) simp_all
  ultimately show "account_inv d' \<and> keeps d d'"
    using api_step_inv [OF api_step.submitted [OF assms(2,1)] inv] keeps_trans by blast
qed

lemma approve_sound:
  assumes "approve_kyc admin k now d = Inr (p, d')"
  shows "sound d d'"
proof -
  obtain q v f where q: "get_kyc k d = Some q" "get_user (kyc_user_id q) d = Some v"
    "\<And>x. kyc_id (f x) = kyc_id x \<and> kyc_user_id (f x) = kyc_user_id x"
    "d' = put_user (usr_id v) (\<lambda>x. x\<lparr>usr_kyc_status := KYC_APPROVED\<rparr>) (put_kyc k f d)"
    using approve_ok [OF assms] by blast
  have "keeps d (put_kyc k f d)"
    using q(3) by (auto simp: keeps_def put_kyc_def get_user_def get_kyc_def get_beneficiary_row_def get_by_put_by)
  moreover have "keeps (put_kyc k f d) d'" unfolding q(4) by (rule keeps_put_user) simp_all
  ultimately show ?thesis using api_step_inv [OF api_step.approved [OF assms]] keeps_trans by (auto simp: sound_def)
qed

lemma beneficiary_sound:
  assumes "create_beneficiary u f now d = Inr (b, d')"
  shows "sound d d'" "beneficiaries d' = beneficiaries d @ [b]" "ben_id b = next_id d" "ben_sender_id b = usr_id u"
    "ben_contact b = bf_contact f"
proof -
  have d': "d' = d\<lparr>beneficiaries := beneficiaries d @ [b], next_id := Suc (next_id d)\<rparr>" and b: "ben_id b = next_id d"
    "ben_sender_id b = usr_id u" "ben_contact b = bf_contact f"
    using assms by (auto simp: create_beneficiary_def insert_beneficiary_def http_of_def conflict_of_def
        split: if_splits sum.splits option.splits)
  have "keeps d d'" unfolding d' by (rule keeps_append [of _ d "[]" "[]" "[b]"]) simp_all
  then show "sound d d'" using beneficiary_added_inv(1) [OF assms] by (simp add: sound_def)
  show "beneficiaries d' = beneficiaries d @ [b]" by (simp add: d')
qed (use assms in \<open>auto simp: create_beneficiary_def insert_beneficiary_def http_of_def conflict_of_def
        split: if_splits sum.splits option.splits\<close>)

section \<open>The requests of the script\<close>

fun seeding_request :: "request \<Rightarrow> bool" where
  "seeding_request (Auth (Register e p n)) = True"
| "seeding_request (Auth (Login e p)) = True"
| "seeding_request (KYC (Submit_kyc f)) = True"
| "seeding_request (Admin (Approve_kyc k)) = True"
| "seeding_request (Beneficiaries (Create_beneficiary f)) = True"
| "seeding_request _ = False"

lemma sound_admit:
  assumes "\<And>v. m = Inr v \<Longrightarrow> sound d (sv_db (snd (k v x)))" "sv_db x = d"
  shows "sound d (sv_db (snd (admit m k x)))"
  using assms by (simp add: admit_def split: sum.splits)

lemma sound_commit:
  assumes "\<And>v d'. res = Inr (v, d') \<Longrightarrow> sound d d'"
  shows "sound d (snd (commit_or_keep d res))"
  using assms by (auto simp: commit_or_keep_def split: sum.splits)

lemma seeding_sound:
  assumes "seeding_request r"
  shows "sound (sv_db x) (sv_db (snd (serve a (bearer, r) x)))"
  using assms
proof (cases r rule: seeding_request.cases)
  case (1 e p n)
  show ?thesis unfolding 1 by (auto intro!: sound_admit split: prod.splits dest!: register_sound)
next
  case (2 e p)
  show ?thesis unfolding 2 by (auto intro!: sound_admit split: prod.splits)
next
  case (3 f)
  show ?thesis unfolding 3 by (auto intro!: sound_admit sound_commit intro: submit_sound dest!: caller_on_record)
next
  case (4 k)
  show ?thesis unfolding 4 by (auto intro!: sound_admit sound_commit intro: approve_sound)
next
  case (5 f)
  show ?thesis unfolding 5 by (auto intro!: sound_admit sound_commit intro: beneficiary_sound(1))
qed simp_all

text \<open>A script all of whose requests are such, whatever it is answered.\<close>

primrec only_requests :: "(request \<Rightarrow> bool) \<Rightarrow> 'a script \<Rightarrow> bool" where
  "only_requests P (Done r) = True"
| "only_requests P (Call q k) = (P (snd q) \<and> (\<forall>resp. only_requests P (k resp)))"

lemma only_sbindI [intro]: "only_requests P m \<Longrightarrow> (\<And>v. only_requests P (f v)) \<Longrightarrow> only_requests P (sbind m f)"
  by (induction m) (auto split: sum.split)

lemma only_attempt [simp]: "only_requests P (attempt m) = only_requests P m"
  by (induction m) auto

lemma only_post [simp]: "only_requests P (post bearer r) = P r"
  by (simp add: post_def)

lemma only_login [simp]: "only_requests P (login_as e p) \<longleftrightarrow> P (Auth (Login e p))"
  by (simp add: login_as_def post_def split: sum.split)

lemma seed_user_only: "only_requests seeding_request (seed_user admin_token password run_id i)"
  unfolding seed_user_def create_sender_def Let_def by (intro only_sbindI) simp_all

lemma seed_each_only: "only_requests seeding_request (seed_each admin_token password run_id ixs)"
  by (induction ixs) (auto intro!: only_sbindI simp: seed_user_only split: sum.split)

definition considerate :: "(('n, 'f, 'r) server \<Rightarrow> ('n, 'f, 'r) server) \<Rightarrow> bool" where
  "considerate between \<longleftrightarrow> (\<forall>x. sound (sv_db x) (sv_db (between x)))"

lemma run_sound:
  assumes "considerate between" "only_requests seeding_request m"
  shows "sound (sv_db x) (sv_db (snd (run_script between a m x)))"
  using assms(2)
proof (induction m arbitrary: x)
  case (Call q k)
  obtain resp x' where s: "serve a q (between x) = (resp, x')" by fastforce
  have only: "only_requests seeding_request (k resp)" using Call.prems unfolding only_requests.simps by blast
  have "sound (sv_db x) (sv_db (between x))" using assms(1) by (simp add: considerate_def)
  moreover have "sound (sv_db (between x)) (sv_db x')"
    using seeding_sound [of "snd q" "between x" a "fst q"] Call.prems s by simp
  moreover have "sound (sv_db x') (sv_db (snd (run_script between a (k resp) x')))"
    using Call.IH [OF _ only] by simp
  ultimately show ?case using s by (simp, meson sound_trans)
qed simp

section \<open>What each request that succeeds has done\<close>

lemma run_sbind_Inr:
  assumes "run_script between a (sbind m f) x = (Inr v, x')"
  obtains w y where "run_script between a m x = (Inr w, y)" "run_script between a (f w) y = (Inr v, x')"
  using assms by (auto split: sum.splits prod.splits)

lemma post_Inr:
  assumes "run_script between a (post bearer r) x = (Inr b, x')"
  obtains code where "code < 400" "serve a (bearer, r) (between x) = ((code, b), x')"
  using assms by (auto simp: ok_body_def split: prod.splits if_splits)

text \<open>An exception of passlib is no \<open>HTTPException\<close>.\<close>

definition plain_errors :: "'n auth_lib \<Rightarrow> bool" where
  "plain_errors lib \<longleftrightarrow> (\<forall>p n e n'. pw_hash lib p n = (Inl e, n') \<longrightarrow> status_code e = 500)"

text \<open>The e-mail validator returns an address without space around it.\<close>

definition tidy_emails :: "'n auth_lib \<Rightarrow> bool" where
  "tidy_emails lib \<longleftrightarrow> (\<forall>t v. valid_email lib t = Some v \<longrightarrow> py_strip v = v)"

lemma registered_ok:
  assumes "serve a (bearer, Auth (Register e p n)) y = ((code, b), y')" "code < 400" "plain_errors (api_auth a)"
    "account_inv (sv_db y)"
  shows "\<exists>v u. valid_email (api_auth a) e = Some v \<and> get_user (usr_id u) (sv_db y') = Some u \<and> usr_email u = v"
proof -
  let ?lib = "api_auth a"
  obtain v where v: "valid_email ?lib e = Some v" "parse_user_register ?lib e p n = Inr (v, p, n)"
    using assms(1,2) by (auto simp: serve_def admit_def parse_user_register_def raise_simps status_code_def
        split: sum.splits option.splits prod.splits if_splits)
  obtain h n1 where h: "pw_hash ?lib p (snd (sv_auth y)) = (h, n1)" by fastforce
  show ?thesis
  proof (cases h)
    case (Inl err)
    then have "status_code err = 500" using h assms(3) by (auto simp: plain_errors_def)
    then have False using assms(1,2) v h Inl
      by (auto simp: serve_def admit_def register_def writes_def answer_def)
    then show ?thesis ..
  next
    case (Inr hash)
    show ?thesis
    proof (cases "insert_user v hash n False (now_of a y) (sv_db y)")
      case (Inl err)
      then have "err = IntegrityError" by (auto simp: insert_user_def Let_def split: if_splits)
      then have False using assms(1,2) v h Inr Inl
        by (auto simp: serve_def admit_def register_def writes_def answer_def http_of_def conflict_of_def commit_or_keep_def
            status_code_def)
      then show ?thesis ..
    next
      case ins: (Inr r)
      obtain u d' where r: "r = (u, d')" by fastforce
      have "sv_db y' = d'" using assms(1) v h Inr ins r
        by (auto simp: serve_def admit_def register_def writes_def http_of_def commit_or_keep_def)
      moreover have "account_inv d'" using insert_user_inv(1) [OF ins [unfolded r] assms(4)] .
      then have "get_user (usr_id u) d' = Some u" "usr_email u = v"
        using ins r fresh_ids_get_by [of usr_id "next_id d'" "users d'" u]
        by (auto simp: insert_user_def Let_def get_user_def account_inv_def users_ok_def split: if_splits)
      ultimately show ?thesis using v(1) by blast
    qed
  qed
qed

lemma find_holds: "find P xs = Some z \<Longrightarrow> z \<in> set xs \<and> P z"
  by (auto simp: find_Some_iff)

lemma login_ok:
  assumes "run_script between a (login_as e p) x = (Inr tok, x')"
  shows "\<exists>v u t. valid_email (api_auth a) e = Some v \<and> u \<in> set (users (sv_db (between x))) \<and> usr_email u = v \<and>
    pw_verify (api_auth a) p (usr_hashed_password u) = Inr True \<and>
    tok = fst (issue_token (api_auth a) (api_settings a) t u) \<and> sv_db x' = sv_db (between x)"
proof -
  let ?lib = "api_auth a" and ?y = "between x"
  obtain b where b: "run_script between a (post None (Auth (Login e p))) x = (Inr b, x')" "access_token b = Inr tok"
    using assms unfolding login_as_def by (auto split: sum.splits prod.splits)
  obtain code where s: "serve a (None, Auth (Login e p)) ?y = ((code, b), x')" by (rule post_Inr [OF b(1)])
  obtain t where t: "b = Token_body t" "tok = tr_access_token t" using b(2) by (cases b) (auto simp: access_token_def)
  have "\<exists>v. valid_email ?lib e = Some v"
    using s t by (auto simp: serve_def admit_def parse_user_login_def raise_simps split: sum.splits option.splits prod.splits)
  then obtain v where v: "valid_email ?lib e = Some v" by blast
  then have l: "parse_user_login ?lib e p = Inr (v, p)" by (simp add: parse_user_login_def some_or_def)
  obtain res st' where r: "authenticate ?lib v p (sv_db ?y) (sv_auth ?y) = (res, st')" by (metis surj_pair)
  obtain u where u: "res = Inr u" "tok = fst (issue_token ?lib (api_settings a) (now_of a ?y) u)" "sv_db x' = sv_db ?y"
    using s l r t by (cases res) (auto simp: serve_def admit_def login_def reads_def answer_def token_response_of_def)
  have "user_by_email v (sv_db ?y) = Some u \<and> pw_verify ?lib p (usr_hashed_password u) = Inr True"
    using r u(1) by (auto simp: authenticate_def ebind_eq_Inr split: option.splits prod.splits sum.splits if_splits)
  then have "u \<in> set (users (sv_db ?y)) \<and> usr_email u = v" "pw_verify ?lib p (usr_hashed_password u) = Inr True"
    using find_holds [of "\<lambda>u. usr_email u = v"] by (auto simp: user_by_email_def)
  then show ?thesis using v u by blast
qed

lemma applied_ok:
  assumes "serve a (Some tok, KYC (Submit_kyc f)) y = ((code, b), y')" "id_of b = Inr k" "account_inv (sv_db y)"
  shows "\<exists>w p. caller a (Some tok) y = Inr w \<and> get_kyc k (sv_db y') = Some p \<and> kyc_user_id p = usr_id w"
proof -
  obtain w where w: "caller a (Some tok) y = Inr w"
    using assms(1,2) by (auto simp: serve_def admit_def id_of_def split: sum.splits prod.splits)
  obtain g where g: "parse_kyc_form (api_auth a) (api_today a (sv_served y)) f = Inr g"
    using assms(1,2) w by (auto simp: serve_def admit_def id_of_def split: sum.splits prod.splits)
  obtain p d' where r: "submit_kyc w g (now_of a y) (sv_db y) = Inr (p, d')"
    using assms(1,2) w g by (auto simp: serve_def admit_def id_of_def writes_def answer_def commit_or_keep_def split: sum.splits prod.splits)
  have y': "sv_db y' = d'" "kyc_id p = k"
    using assms(1,2) w g r by (auto simp: serve_def admit_def id_of_def writes_def answer_def commit_or_keep_def kyc_application_read_of_def)
  have p: "kyc_id p = next_id (sv_db y)" "kyc_user_id p = usr_id w" "kyc_applications d' = kyc_applications (sv_db y) @ [p]"
    using r by (auto simp: submit_kyc_def new_application_def Let_def split: if_splits)
  have "get_kyc k d' = Some p"
    using p y' assms(3) fresh_ids_get_by [of kyc_id "Suc (next_id (sv_db y))" "kyc_applications d'" p]
    by (simp add: get_kyc_def account_inv_def kyc_ok_def)
  then show ?thesis using w y' p by blast
qed

lemma approved_ok:
  assumes "serve a (bearer, Admin (Approve_kyc k)) y = ((code, b), y')" "code < 400" "get_kyc k (sv_db y) = Some p"
  shows "\<exists>u. get_user (kyc_user_id p) (sv_db y') = Some u \<and> usr_kyc_status u = KYC_APPROVED"
proof -
  obtain w where w: "admin_caller a bearer y = Inr w"
  proof (cases "admin_caller a bearer y")
    case (Inl e)
    then have "status_code e \<ge> 400"
      by (auto simp: admin_caller_def raise_simps require_admin_def status_code_def dest!: caller_Inl split: if_splits)
    then show ?thesis using assms(1,2) Inl by (simp add: serve_def admit_def)
  qed
  show ?thesis
  proof (cases "approve_kyc w k (now_of a y) (sv_db y)")
    case (Inl e)
    then have "status_code e \<ge> 400"
      by (auto simp: approve_kyc_def get_application_def require_pending_def applicant_def Let_def raise_simps status_code_def)
    then show ?thesis using assms(1,2) w Inl by (simp add: serve_def admit_def writes_def answer_def commit_or_keep_def)
  next
    case (Inr r)
    obtain q d' where r: "r = (q, d')" by fastforce
    obtain v f where "get_user (kyc_user_id p) (sv_db y) = Some v"
      "d' = put_user (usr_id v) (\<lambda>x. x\<lparr>usr_kyc_status := KYC_APPROVED\<rparr>) (put_kyc k f (sv_db y))"
      using approve_ok [of w k "now_of a y" "sv_db y" q d'] Inr r assms(3) by auto
    moreover from this have "kyc_user_id p = usr_id v" by (auto simp: get_user_def)
    ultimately have "get_user (kyc_user_id p) d' = Some (v\<lparr>usr_kyc_status := KYC_APPROVED\<rparr>)"
      by (simp add: get_user_def put_user_def get_by_put_by)
    moreover have "sv_db y' = d'" using assms(1) w Inr r by (auto simp: serve_def admit_def writes_def commit_or_keep_def)
    ultimately show ?thesis by simp
  qed
qed

lemma listed_ok:
  assumes "serve a (Some tok, Beneficiaries (Create_beneficiary f)) y = ((code, b), y')" "id_of b = Inr k" "account_inv (sv_db y)"
  shows "\<exists>w r v. caller a (Some tok) y = Inr w \<and> valid_email (api_auth a) (bf_contact f) = Some v \<and>
    get_beneficiary_row k (sv_db y') = Some r \<and> ben_sender_id r = usr_id w \<and> ben_contact r = py_lower (py_strip v)"
proof -
  obtain w where w: "caller a (Some tok) y = Inr w"
    using assms(1,2) by (auto simp: serve_def admit_def id_of_def split: sum.splits prod.splits)
  obtain g where g: "parse_beneficiary_form (api_auth a) f = Inr g"
    using assms(1,2) w by (auto simp: serve_def admit_def id_of_def split: sum.splits prod.splits)
  obtain r d' where r: "create_beneficiary w g (now_of a y) (sv_db y) = Inr (r, d')"
    using assms(1,2) w g by (auto simp: serve_def admit_def id_of_def writes_def answer_def commit_or_keep_def split: sum.splits prod.splits)
  have y': "sv_db y' = d'" "ben_id r = k"
    using assms(1,2) w g r by (auto simp: serve_def admit_def id_of_def writes_def answer_def commit_or_keep_def beneficiary_read_of_def)
  obtain v where v: "valid_email (api_auth a) (bf_contact f) = Some v" "bf_contact g = py_lower (py_strip v)"
    using g by (auto simp: parse_beneficiary_form_def ebind_eq_Inr some_or_def Let_def split: option.splits)
  note n = beneficiary_sound [OF r]
  have "get_beneficiary_row k d' = Some r"
    using n y' assms(3) fresh_ids_get_by [of ben_id "Suc (next_id (sv_db y))" "beneficiaries d'" r]
    by (simp add: get_beneficiary_row_def account_inv_def beneficiaries_ok_def)
  then show ?thesis using w v y' n by metis
qed

section \<open>The promise of the script\<close>

text \<open>What the entry promises of the database.\<close>

definition ready :: "'n auth_lib \<Rightarrow> db \<Rightarrow> seeded \<Rightarrow> bool" where
  "ready lib d e \<longleftrightarrow>
     (\<exists>u b. get_user (usr_id u) d = Some u \<and> valid_email lib (sd_email e) = Some (usr_email u) \<and>
        pw_verify lib (sd_password e) (usr_hashed_password u) = Inr True \<and> usr_kyc_status u = KYC_APPROVED \<and>
        get_beneficiary_row (sd_beneficiary_id e) d = Some b \<and> ben_sender_id b = usr_id u \<and>
        user_by_contact (ben_contact b) d \<noteq> None)"

lemma user_by_contact_exists:
  "get_user k d = Some r \<Longrightarrow> py_lower (usr_email r) = py_lower (py_strip c) \<Longrightarrow> user_by_contact c d \<noteq> None"
  by (auto simp: user_by_contact_def find_None_iff get_user_def)

lemma ready_keeps:
  assumes "ready lib d e" "keeps d d'" "account_inv d"
  shows "ready lib d' e"
proof -
  obtain u b where u: "get_user (usr_id u) d = Some u" "valid_email lib (sd_email e) = Some (usr_email u)"
    "pw_verify lib (sd_password e) (usr_hashed_password u) = Inr True" "usr_kyc_status u = KYC_APPROVED"
    and b: "get_beneficiary_row (sd_beneficiary_id e) d = Some b" "ben_sender_id b = usr_id u" "user_by_contact (ben_contact b) d \<noteq> None"
    using assms(1) by (auto simp: ready_def)
  obtain u' where u': "get_user (usr_id u) d' = Some u'" "usr_email u' = usr_email u"
    "usr_hashed_password u' = usr_hashed_password u" "usr_kyc_status u' = KYC_APPROVED"
    using keeps_user [OF assms(2) u(1)] u(4) by metis
  obtain r where r: "r \<in> set (users d)" "py_lower (usr_email r) = py_lower (py_strip (ben_contact b))"
    using b(3) find_holds [of "\<lambda>z. py_lower (usr_email z) = py_lower (py_strip (ben_contact b))"] by (auto simp: user_by_contact_def)
  then have "get_user (usr_id r) d = Some r"
    using assms(3) by (auto simp: account_inv_def users_ok_def get_user_def intro: fresh_ids_get_by)
  then obtain r' where "get_user (usr_id r) d' = Some r'" "usr_email r' = usr_email r" using keeps_user [OF assms(2)] by metis
  then have "user_by_contact (ben_contact b) d' \<noteq> None" using r(2) user_by_contact_exists by metis
  moreover have "usr_id u' = usr_id u" using u'(1) by (auto simp: get_user_def)
  moreover have "get_beneficiary_row (sd_beneficiary_id e) d' = Some b" using assms(2) b(1) by (simp add: keeps_def)
  ultimately show ?thesis using u u' b(2) unfolding ready_def by (intro exI [of _ u'] exI [of _ b]) simp
qed

lemma step_sound:
  assumes "considerate between" "account_inv (sv_db x)" "only_requests seeding_request m" "run_script between a m x = (r, x')"
  shows "account_inv (sv_db (between x))" "keeps (sv_db x) (sv_db (between x))" "account_inv (sv_db x')" "keeps (sv_db x) (sv_db x')"
  using assms run_sound [OF assms(1,3), of x a] by (auto simp: considerate_def sound_def)

lemma post_step:
  assumes "considerate between" "account_inv (sv_db x)" "seeding_request r" "run_script between a (post bearer r) x = (Inr b, x')"
  obtains code where "code < 400" "serve a (bearer, r) (between x) = ((code, b), x')" "account_inv (sv_db (between x))"
    "keeps (sv_db x) (sv_db (between x))" "account_inv (sv_db x')" "keeps (sv_db x) (sv_db x')"
proof -
  have "only_requests seeding_request (post bearer r)" using assms(3) by simp
  note st = step_sound [OF assms(1,2) this assms(4)]
  show ?thesis by (rule post_Inr [OF assms(4)]) (use st that in blast)
qed

lemma run_Done: "run_script between a (Done r) x = (Inr v, x') \<longleftrightarrow> r = Inr v \<and> x' = x"
  by auto

lemma create_sender_done:
  assumes run: "run_script between a (create_sender admin_token email password run_id i) x = (Inr tok, x')"
    and env: "considerate between" "account_inv (sv_db x)"
    and lib: "jwt_ok (api_auth a)" and ids: "next_id (sv_db x') \<le> 16 ^ 32"
  shows "\<exists>k u t u0. get_user k (sv_db x') = Some u \<and> valid_email (api_auth a) email = Some (usr_email u) \<and>
    pw_verify (api_auth a) password (usr_hashed_password u) = Inr True \<and> usr_kyc_status u = KYC_APPROVED \<and>
    usr_id u0 = k \<and> k < 16 ^ 32 \<and> tok = fst (issue_token (api_auth a) (api_settings a) t u0)"
proof -
  let ?A = "api_auth a"
  obtain b1 x1 where 1: "run_script between a (post None (Auth (Register email password (''Load Sender '' @ decimal_str i)))) x = (Inr b1, x1)"
    and r1: "run_script between a (sbind (login_as email password) (\<lambda>token.
     sbind (post (Some token) (KYC (Submit_kyc (load_sender_form email run_id i)))) (\<lambda>b.
     sbind (Done (id_of b)) (\<lambda>application.
     sbind (post (Some admin_token) (Admin (Approve_kyc application))) (\<lambda>_.
     Done (Inr token)))))) x1 = (Inr tok, x')"
    using run unfolding create_sender_def by (rule run_sbind_Inr)
  obtain token x2 where 2: "run_script between a (login_as email password) x1 = (Inr token, x2)"
    and r2: "run_script between a (sbind (post (Some token) (KYC (Submit_kyc (load_sender_form email run_id i)))) (\<lambda>b.
     sbind (Done (id_of b)) (\<lambda>application.
     sbind (post (Some admin_token) (Admin (Approve_kyc application))) (\<lambda>_. Done (Inr token))))) x2 = (Inr tok, x')"
    using r1 by (rule run_sbind_Inr)
  obtain b3 x3 where 3: "run_script between a (post (Some token) (KYC (Submit_kyc (load_sender_form email run_id i)))) x2 = (Inr b3, x3)"
    and r3: "run_script between a (sbind (Done (id_of b3)) (\<lambda>application.
     sbind (post (Some admin_token) (Admin (Approve_kyc application))) (\<lambda>_. Done (Inr token)))) x3 = (Inr tok, x')"
    using r2 by (rule run_sbind_Inr)
  obtain k where k: "id_of b3 = Inr k"
    and r4: "run_script between a (sbind (post (Some admin_token) (Admin (Approve_kyc k))) (\<lambda>_. Done (Inr token))) x3 = (Inr tok, x')"
    using r3 by (rule run_sbind_Inr) (auto simp: run_Done)
  obtain b5 where 5: "run_script between a (post (Some admin_token) (Admin (Approve_kyc k))) x3 = (Inr b5, x')" and tok: "tok = token"
    using r4 by (rule run_sbind_Inr) (auto simp: run_Done)
  obtain c1 where s1: "account_inv (sv_db x1)"
    by (rule post_step [OF env _ 1]) simp_all
  note s2 = step_sound [OF env(1) s1 _ 2, simplified]
  obtain v u1 t where l: "valid_email ?A email = Some v" "u1 \<in> set (users (sv_db (between x1)))" "usr_email u1 = v"
    "pw_verify ?A password (usr_hashed_password u1) = Inr True" "tok = fst (issue_token ?A (api_settings a) t u1)"
    "sv_db x2 = sv_db (between x1)"
    using login_ok [OF 2] tok by blast
  obtain c3 where 33: "serve a (Some token, KYC (Submit_kyc (load_sender_form email run_id i))) (between x2) = ((c3, b3), x3)"
    and s3: "account_inv (sv_db (between x2))" "account_inv (sv_db x3)" "keeps (sv_db x2) (sv_db x3)"
    by (rule post_step [OF env(1) s2(3) _ 3]) simp_all
  obtain w p where p: "caller a (Some token) (between x2) = Inr w" "get_kyc k (sv_db x3) = Some p" "kyc_user_id p = usr_id w"
    using applied_ok [OF 33 k s3(1)] by blast
  obtain c5 where 55: "c5 < 400" "serve a (Some admin_token, Admin (Approve_kyc k)) (between x3) = ((c5, b5), x')"
    and s5: "keeps (sv_db x3) (sv_db (between x3))" "keeps (sv_db x3) (sv_db x')"
    by (rule post_step [OF env(1) s3(2) _ 5]) simp_all
  have g1: "get_user (usr_id u1) (sv_db x2) = Some u1" "usr_id u1 < next_id (sv_db x2)"
    using l(2,6) s2(3) by (auto simp: account_inv_def users_ok_def get_user_def fresh_ids_def intro: get_by_unique)
  have kp: "keeps (sv_db x2) (sv_db x')" using keeps_trans [OF s3(3) s5(2)] .
  then have small: "usr_id u1 < 16 ^ 32" using g1(2) ids by (auto simp: keeps_def)
  have w: "usr_id w = usr_id u1" using token_caller [OF _ lib small] p(1) l(5) tok by metis
  obtain p' where "get_kyc k (sv_db (between x3)) = Some p'" "kyc_user_id p' = kyc_user_id p" by (rule keeps_kyc [OF s5(1) p(2)])
  then obtain u where u: "get_user (usr_id u1) (sv_db x') = Some u" "usr_kyc_status u = KYC_APPROVED"
    using approved_ok [OF 55(2,1)] p(3) w by metis
  obtain u' where "get_user (usr_id u1) (sv_db x') = Some u'" "usr_email u' = usr_email u1" "usr_hashed_password u' = usr_hashed_password u1"
    using keeps_user [OF kp g1(1)] by metis
  then show ?thesis using u l small by (intro exI [of _ "usr_id u1"] exI [of _ u] exI [of _ t] exI [of _ u1]) simp
qed

lemma seed_user_ready:
  assumes run: "run_script between a (seed_user admin_token password run_id i) x = (Inr e, x')"
    and env: "considerate between" "account_inv (sv_db x)"
    and lib: "jwt_ok (api_auth a)" "plain_errors (api_auth a)" "tidy_emails (api_auth a)"
    and ids: "next_id (sv_db x') \<le> 16 ^ 32"
  shows "ready (api_auth a) (sv_db x') e \<and> sd_email e = sender_address run_id i"
proof -
  let ?A = "api_auth a" and ?r = "recipient_address run_id i"
  obtain tok x1 where 1: "run_script between a (create_sender admin_token (sender_address run_id i) password run_id i) x = (Inr tok, x1)"
    and r1: "run_script between a (sbind (post None (Auth (Register ?r password (''Load Recipient '' @ decimal_str i)))) (\<lambda>_.
      sbind (post (Some tok) (Beneficiaries (Create_beneficiary (load_recipient_form ?r i)))) (\<lambda>b.
      sbind (Done (id_of b)) (\<lambda>beneficiary.
      Done (Inr \<lparr>sd_email = sender_address run_id i, sd_password = password, sd_recipient_email = ?r,
                  sd_beneficiary_id = beneficiary\<rparr>))))) x1 = (Inr e, x')"
    using run unfolding seed_user_def Let_def by (rule run_sbind_Inr)
  obtain b2 x2 where 2: "run_script between a (post None (Auth (Register ?r password (''Load Recipient '' @ decimal_str i)))) x1 = (Inr b2, x2)"
    and r2: "run_script between a (sbind (post (Some tok) (Beneficiaries (Create_beneficiary (load_recipient_form ?r i)))) (\<lambda>b.
      sbind (Done (id_of b)) (\<lambda>beneficiary.
      Done (Inr \<lparr>sd_email = sender_address run_id i, sd_password = password, sd_recipient_email = ?r,
                  sd_beneficiary_id = beneficiary\<rparr>)))) x2 = (Inr e, x')"
    using r1 by (rule run_sbind_Inr)
  obtain b3 k where 3: "run_script between a (post (Some tok) (Beneficiaries (Create_beneficiary (load_recipient_form ?r i)))) x2 = (Inr b3, x')"
    and k: "id_of b3 = Inr k" and e: "e = \<lparr>sd_email = sender_address run_id i, sd_password = password, sd_recipient_email = ?r, sd_beneficiary_id = k\<rparr>"
    using r2 by (rule run_sbind_Inr) (auto simp: run_Done split: sum.splits)
  have "only_requests seeding_request (create_sender admin_token (sender_address run_id i) password run_id i)"
    unfolding create_sender_def by (intro only_sbindI) simp_all
  note s1 = step_sound [OF env this 1]
  obtain c2 where 22: "c2 < 400" "serve a (None, Auth (Register ?r password (''Load Recipient '' @ decimal_str i))) (between x1) = ((c2, b2), x2)"
    and s2: "account_inv (sv_db (between x1))" "account_inv (sv_db x2)" "keeps (sv_db x1) (sv_db x2)"
    by (rule post_step [OF env(1) s1(3) _ 2]) simp_all
  obtain c3 where 33: "serve a (Some tok, Beneficiaries (Create_beneficiary (load_recipient_form ?r i))) (between x2) = ((c3, b3), x')"
    and s3: "account_inv (sv_db (between x2))" "account_inv (sv_db x')" "keeps (sv_db x2) (sv_db x')"
    by (rule post_step [OF env(1) s2(2) _ 3]) simp_all
  have k13: "keeps (sv_db x1) (sv_db x')" by (rule keeps_trans [OF s2(3) s3(3)])
  then have "next_id (sv_db x1) \<le> 16 ^ 32" using ids by (simp add: keeps_def)
  then obtain j u t u0 where u: "get_user j (sv_db x1) = Some u" "valid_email ?A (sender_address run_id i) = Some (usr_email u)"
    "pw_verify ?A password (usr_hashed_password u) = Inr True" "usr_kyc_status u = KYC_APPROVED" "usr_id u0 = j" "j < 16 ^ 32"
    "tok = fst (issue_token ?A (api_settings a) t u0)"
    using create_sender_done [OF 1 env lib(1)] by blast
  obtain v rc where rc: "valid_email ?A ?r = Some v" "get_user (usr_id rc) (sv_db x2) = Some rc" "usr_email rc = v"
    using registered_ok [OF 22(2,1) lib(2) s2(1)] by blast
  obtain w bn where bn: "caller a (Some tok) (between x2) = Inr w" "get_beneficiary_row k (sv_db x') = Some bn"
    "ben_sender_id bn = usr_id w" "ben_contact bn = py_lower (py_strip v)"
    using listed_ok [OF 33 k s3(1)] rc(1) by (auto simp: load_recipient_form_def)
  have w: "usr_id w = j" using token_caller [OF _ lib(1)] bn(1) u(5,6,7) by metis
  obtain u' where u': "get_user j (sv_db x') = Some u'" "usr_email u' = usr_email u" "usr_hashed_password u' = usr_hashed_password u"
    "usr_kyc_status u' = KYC_APPROVED"
    using keeps_user [OF k13 u(1)] u(4) by metis
  obtain rc' where rc': "get_user (usr_id rc) (sv_db x') = Some rc'" "usr_email rc' = v" using keeps_user [OF s3(3) rc(2)] rc(3) by metis
  have "user_by_contact (ben_contact bn) (sv_db x') \<noteq> None"
    using lib(3) rc(1) by (intro user_by_contact_exists [OF rc'(1)]) (simp add: rc'(2) bn(4) tidy_emails_def)
  moreover have "usr_id u' = j" using u'(1) by (auto simp: get_user_def)
  ultimately have "ready ?A (sv_db x') e"
    using u u' bn w unfolding ready_def e by (intro exI [of _ u'] exI [of _ bn]) simp
  then show ?thesis by (simp add: e)
qed

lemma seed_each_ready:
  assumes "run_script between a (seed_each admin_token password run_id ixs) x = (res, x')"
    and env: "considerate between" "account_inv (sv_db x)"
    and lib: "jwt_ok (api_auth a)" "plain_errors (api_auth a)" "tidy_emails (api_auth a)"
    and ids: "next_id (sv_db x') \<le> 16 ^ 32"
  shows "\<exists>es. res = Inr es \<and> (\<forall>e \<in> set es. ready (api_auth a) (sv_db x') e) \<and>
    subseq (map sd_email es) (map (sender_address run_id) ixs)"
  using assms(1,3)
proof (induction ixs arbitrary: x res)
  case (Cons i ixs)
  obtain r x1 where 1: "run_script between a (seed_user admin_token password run_id i) x = (r, x1)" by fastforce
  obtain res2 x2 where 2: "run_script between a (seed_each admin_token password run_id ixs) x1 = (res2, x2)" by fastforce
  note s1 = step_sound [OF env(1) Cons.prems(2) seed_user_only 1]
  have x2: "x2 = x'" using Cons.prems(1) 1 2 by (auto split: sum.splits)
  obtain es where es: "res2 = Inr es" "\<forall>e \<in> set es. ready (api_auth a) (sv_db x') e"
    "subseq (map sd_email es) (map (sender_address run_id) ixs)"
    using Cons.IH [OF 2 [unfolded x2] s1(3)] by blast
  have res: "res = Inr (case r of Inl e \<Rightarrow> es | Inr u \<Rightarrow> u # es)" using Cons.prems(1) 1 2 es(1) by simp
  have k: "keeps (sv_db x1) (sv_db x')" using step_sound(4) [OF env(1) s1(3) seed_each_only 2] x2 by simp
  show ?case
  proof (cases r)
    case (Inl f)
    then show ?thesis using res es by (auto intro: exI [of _ es])
  next
    case (Inr e)
    have "next_id (sv_db x1) \<le> 16 ^ 32" using k ids by (simp add: keeps_def)
    then have e: "ready (api_auth a) (sv_db x1) e \<and> sd_email e = sender_address run_id i"
      using seed_user_ready [OF 1 [unfolded Inr] env(1) Cons.prems(2) lib] by blast
    then have "ready (api_auth a) (sv_db x') e" using ready_keeps [OF _ k s1(3)] by blast
    then show ?thesis using es res Inr e by (intro exI [of _ "e # es"]) simp
  qed
qed simp

text \<open>
  C38. The seeded senders are ready to send. Whatever others do meanwhile, as long as they leave accounts,
  approvals and recipients in place, the script ends; and for each entry it lists, in the order of the
  indices it went through, there is an account the entry's e-mail and password log in to, approved, with
  the listed recipient on its own list and an account registered under the recipient's contact. Indices
  on which a request failed are left out.
\<close>

theorem seeded_senders_ready:
  assumes "considerate between" "account_inv (sv_db x)" "jwt_ok (api_auth a)" "plain_errors (api_auth a)"
    "tidy_emails (api_auth a)"
    "run_script between a (seed_users count admin_email admin_password password run_id) x = (res, x')"
    "next_id (sv_db x') \<le> 16 ^ 32"
  shows "res = Inr None \<or> (\<exists>es. res = Inr (Some es) \<and> (\<forall>e \<in> set es. ready (api_auth a) (sv_db x') e) \<and>
    subseq (map sd_email es) (map (sender_address run_id) [0..<nat count]))"
proof -
  obtain r x1 where 1: "run_script between a (login_as admin_email admin_password) x = (r, x1)" by fastforce
  show ?thesis
  proof (cases r)
    case (Inl e)
    then show ?thesis using assms(6) 1 by (simp add: seed_users_def)
  next
    case (Inr tok)
    obtain res2 x2 where 2: "run_script between a (seed_each tok password run_id [0..<nat count]) x1 = (res2, x2)" by fastforce
    have "only_requests seeding_request (login_as admin_email admin_password)" by simp
    note s = step_sound(3) [OF assms(1,2) this 1]
    have x2: "x2 = x'" using assms(6) 1 2 Inr by (auto simp: seed_users_def split: sum.splits)
    obtain es where "res2 = Inr es" "\<forall>e \<in> set es. ready (api_auth a) (sv_db x') e"
      "subseq (map sd_email es) (map (sender_address run_id) [0..<nat count])"
      using seed_each_ready [OF 2 [unfolded x2] assms(1) s assms(3,4,5,7)] by blast
    then show ?thesis using assms(6) 1 2 Inr by (auto simp: seed_users_def)
  qed
qed

text \<open>A run of it: one administrator, tokens that expire within the second, a stopped clock.\<close>

definition seed_api :: "(nat, nat, nat) api" where
  "seed_api = demo_api\<lparr>api_settings := demo_settings\<lparr>access_token_expire_minutes := 0\<rparr>,
     api_auth := plain_lib\<lparr>valid_email := (\<lambda>t. Some (py_strip t))\<rparr>, api_clock := (\<lambda>n. 62135596800 * 10 ^ 6)\<rparr>"

definition seed_db :: db where
  "seed_db = empty_db\<lparr>users := [\<lparr>usr_id = 0, usr_email = ''root@x.org'', usr_hashed_password = ''#rootpass1'',
     usr_full_name = ''Root'', usr_kyc_status = KYC_NOT_STARTED, usr_is_admin = True, usr_created_at = 0\<rparr>], next_id := 1\<rparr>"

definition seed_run :: "(failure + seeded list option) \<times> (nat, nat, nat) server" where
  "seed_run = run_script id seed_api (seed_users 1 ''root@x.org'' ''rootpass1'' ''loadtest-password-123'' ''ab12cd'') (demo_server seed_db)"

lemma seed_run_result:
  "map_prod id (next_id \<circ> sv_db) seed_run =
     (Inr (Some [\<lparr>sd_email = ''ls-ab12cd-0@example.com'', sd_password = ''loadtest-password-123'',
        sd_recipient_email = ''lr-ab12cd-0@example.com'', sd_beneficiary_id = 4\<rparr>]), 5)"
  by code_simp

lemma seed_api_ok: "jwt_ok (api_auth seed_api)" "plain_errors (api_auth seed_api)" "tidy_emails (api_auth seed_api)"
  using plain_lib_ok(1) by (simp_all add: seed_api_def jwt_ok_def plain_errors_def tidy_emails_def plain_lib_def)

lemma considerate_id: "considerate id"
  by (simp add: considerate_def)

theorem seeded_senders_ready_witness:
  "\<exists>res x'. run_script id seed_api (seed_users 1 ''root@x.org'' ''rootpass1'' ''loadtest-password-123'' ''ab12cd'') (demo_server seed_db) =
     (Inr (Some res), x') \<and> map sd_email res = [''ls-ab12cd-0@example.com''] \<and> map (ready (api_auth seed_api) (sv_db x')) res = [True]"
proof -
  obtain r x' where run: "run_script id seed_api (seed_users 1 ''root@x.org'' ''rootpass1'' ''loadtest-password-123'' ''ab12cd'') (demo_server seed_db) = (r, x')"
    by fastforce
  then have r: "r = Inr (Some [\<lparr>sd_email = ''ls-ab12cd-0@example.com'', sd_password = ''loadtest-password-123'',
      sd_recipient_email = ''lr-ab12cd-0@example.com'', sd_beneficiary_id = 4\<rparr>])" "next_id (sv_db x') = 5"
    using seed_run_result by (simp_all add: seed_run_def)
  have "account_inv (sv_db (demo_server seed_db))"
    by (simp add: seed_db_def account_inv_def users_ok_def kyc_ok_def synced_def beneficiaries_ok_def empty_db_def status_from_def fresh_ids_def)
  then show ?thesis
    using seeded_senders_ready [OF considerate_id _ seed_api_ok run] r run by auto
qed

end
