(* ===== verification/Journeys.thy ===== *)
theory Journeys
  imports Scripts Headroom
begin

text \<open>
  What the load test and the demonstration of \<open>Scripts\<close> show, measured against what the API did.
\<close>

section \<open>The load test's 403\<close>

lemma rate_covers_amount:
  assumes "rate_ok rate" "parse_send_amount zar = Inr z"
  shows "zar \<le> rate * 10 ^ 12"
proof -
  obtain n where n: "rate = of_int n / 10 ^ 6" "0 < rate" using assms(1) by (auto simp: rate_ok_def scaled_def)
  then have "1 \<le> n" by (simp add: zero_less_divide_iff)
  then have "1 / 10 ^ 6 \<le> rate" using n(1) by (simp add: divide_right_mono)
  moreover have "zar \<le> 10 ^ 6" using assms(2) by (auto simp: parse_send_amount_def MAX_SEND_AMOUNT_ZAR_def split: if_splits)
  ultimately show ?thesis by (auto intro: order_trans)
qed

lemma total_after_quote:
  assumes "remittances d' = remittances d @ [r]" "0 \<le> rem_zar_send_amount r"
  shows "total_since u now since d' \<le> total_since u now since d + rem_zar_send_amount r"
  using assms by (simp add: total_since_def)

text \<open>A quote that fits both limits is not refused for them.\<close>

lemma quote_refused_403:
  assumes run: "create_quote lib s u k zar key now d st = ((res, d'), st')"
    and own: "find (\<lambda>b. ben_id b = k \<and> ben_sender_id b = usr_id u) (beneficiaries d) = Some b"
    and rate: "fst (current_rate lib s now d st) = Inr rate" "rate_ok rate"
    and amt: "parse_send_amount zar = Inr zar"
    and ok: "fee_settings_ok s" "limit_settings_ok s" "rows_ok d"
    and win: "window_starts now = (ds, ms)" "limits_for s (usr_kyc_status u) = (daily, monthly)"
  shows "res = Inl (HTTPException 403) \<longleftrightarrow>
    daily < total_since (usr_id u) now ds d + zar \<or> monthly < total_since (usr_id u) now ms d + zar"
proof -
  obtain st1 where cr: "current_rate lib s now d st = (Inr rate, st1)" using rate(1) by (metis prod.collapse)
  let ?pref = "py_upper (ben_preferred_payout_currency b)"
  let ?cur = "if ?pref \<in> set PRICEABLE_PAYOUT_CURRENCIES then ?pref else ''USD''"
  let ?rest = "ebind (http_of (\<lambda>e. if e = AmountTooSmallError then Some 422 else None) (calculate_quote s zar rate ?cur)) (\<lambda>q.
      ebind (insert_remittance (new_remittance s key u b q now now) d) (\<lambda>(r, d2).
      ebind (http_of limit_refused (assert_within_limits s u 0 now d2)) (\<lambda>usage.
      Inr (\<lparr>qr_remittance_id = rem_id r, qr_status = rem_status r, qr_beneficiary_id = ben_id b,
            qr_quote = q, qr_quote_expires_at = rem_quote_expires_at r,
            qr_daily_limit_zar = lu_daily_limit usage, qr_monthly_limit_zar = lu_monthly_limit usage,
            qr_daily_remaining_zar = max (daily_remaining usage) 0,
            qr_monthly_remaining_zar = max (monthly_remaining usage) 0\<rparr>, d2))))"
  have res: "(res, d') = commit_or_keep d (ebind (http_of limit_refused (assert_within_limits s u zar now d)) (\<lambda>_. ?rest))"
    using run own cr by (simp add: create_quote_def create_quote_raced_def Let_def)
  have zar: "scaled 2 zar" "0 \<le> zar" using amt by (auto simp: parse_send_amount_def split: if_splits)
  note chk = limit_check_eq [OF ok(3,2) zar win, unfolded Let_def]
  show ?thesis
  proof (cases "daily < total_since (usr_id u) now ds d + zar \<or> monthly < total_since (usr_id u) now ms d + zar")
    case True
    then have "\<exists>e. assert_within_limits s u zar now d = Inl e" using chk by auto
    then obtain e where e: "assert_within_limits s u zar now d = Inl e" by blast
    then have "http_of limit_refused (assert_within_limits s u zar now d) = Inl (HTTPException 403)"
      using limit_error [OF e] by (simp add: http_of_def)
    then have "res = Inl (HTTPException 403)" using res by (simp add: commit_or_keep_def)
    then show ?thesis using True by simp
  next
    case False
    have "res \<noteq> Inl (HTTPException 403)"
    proof
      assume bad: "res = Inl (HTTPException 403)"
      obtain before where "assert_within_limits s u zar now d = Inr before" using chk False by auto
      then have "http_of limit_refused (assert_within_limits s u zar now d) = Inr before" by (simp add: http_of_Inr)
      then have "commit_or_keep d ?rest = (Inl (HTTPException 403), d')" using res bad by (simp only: ebind_Inr)
      then have "?rest = Inl (HTTPException 403)" unfolding commit_or_keep_Inl by (rule conjunct1)
      moreover have "?cur \<in> set PRICEABLE_PAYOUT_CURRENCIES" by (simp, code_simp)
      then have code: "py_upper (py_strip ?cur) \<in> set PRICEABLE_PAYOUT_CURRENCIES" by (simp only: priceable_normal)
      have "e = AmountTooSmallError" if "calculate_quote s zar rate ?cur = Inl e" for e
        using quote_exact_core [of s zar rate ?cur] exact_quote_error ok(1) rate(2) that code
          send_amount_parsed [OF amt] rate_covers_amount [OF rate(2) amt] by simp
      ultimately obtain q r d2 e2 where q: "calculate_quote s zar rate ?cur = Inr q"
        "insert_remittance (new_remittance s key u b q now now) d = Inr (r, d2)" "assert_within_limits s u 0 now d2 = Inl e2"
        by (auto simp: raise_simps simp del: if_split dest!: insert_remittance_error split: if_splits)
      note row = insert_remittance_Inr [OF q(2)]
      have "rem_zar_send_amount r = zar"
        using inserted_quote(2) [OF ok(1) _ rate(2) rate_covers_amount [OF rate(2) amt] _ q(1,2)] send_amount_parsed [OF amt]
          \<open>?cur \<in> set PRICEABLE_PAYOUT_CURRENCIES\<close> by blast
      then have tot: "total_since v now since d2 \<le> total_since v now since d + zar" for v since
        using total_after_quote [of d2 d r] row(1) zar(2) by simp
      have "rows_ok d2" using ok(3) row(1) zar \<open>rem_zar_send_amount r = zar\<close> by (simp add: rows_ok_def)
      then show False
        using limit_check_eq [OF _ ok(2) scaled_0 order_refl win, of d2] q(3) tot [of "usr_id u" ds] tot [of "usr_id u" ms] False
        by (auto simp: Let_def split: if_splits)
    qed
    then show ?thesis using False by simp
  qed
qed

lemma quote_task_serves:
  assumes "\<not> ls_limit_reached sd" "ls_headers sd = Some tok"
    "approved_caller a (Some tok) z = Inr u"
    "b \<in> set (beneficiaries (sv_db z))" "ben_id b = ls_beneficiary_id sd" "ben_sender_id b = usr_id u"
    "fst (current_rate (api_fx a) (api_settings a) (now_of a z) (sv_db z) (sv_fx z)) = Inr rate"
    "rate_ok rate" "parse_send_amount amount = Inr amount" "fee_settings_ok (api_settings a)" "limit_settings_ok (api_settings a)"
    "rows_ok (sv_db z)" "window_starts (now_of a z) = (ds, ms)"
    "limits_for (api_settings a) (usr_kyc_status u) = (daily, monthly)"
  shows "\<exists>res y. serve a (Some tok, Remittances (Create_quote (ls_beneficiary_id sd) amount)) z =
      (answer 201 (Quote_body \<circ> quote_read_of) res, y) \<and>
    (fst (answer 201 (Quote_body \<circ> quote_read_of) res) = 403 \<longleftrightarrow>
       daily < total_since (usr_id u) (now_of a z) ds (sv_db z) + amount \<or>
       monthly < total_since (usr_id u) (now_of a z) ms (sv_db z) + amount) \<and>
    (fst (answer 201 (Quote_body \<circ> quote_read_of) res) = 403 \<longrightarrow> sv_db y = sv_db z)"
proof -
  let ?y = z
  obtain b' where own: "find (\<lambda>b. ben_id b = ls_beneficiary_id sd \<and> ben_sender_id b = usr_id u) (beneficiaries (sv_db ?y)) = Some b'"
    using assms(4-6) by (cases "find (\<lambda>b. ben_id b = ls_beneficiary_id sd \<and> ben_sender_id b = usr_id u) (beneficiaries (sv_db ?y))")
      (auto simp: find_None_iff)
  obtain res d' st' where q: "create_quote (api_fx a) (api_settings a) u (ls_beneficiary_id sd) amount (api_hex a (sv_served ?y))
      (now_of a ?y) (sv_db ?y) (sv_fx ?y) = ((res, d'), st')" by (metis prod.exhaust)
  note r403 = quote_refused_403 [OF q own assms(7-14)]
  have s: "serve a (Some tok, Remittances (Create_quote (ls_beneficiary_id sd) amount)) ?y =
      (answer 201 (Quote_body \<circ> quote_read_of) res, ?y\<lparr>sv_db := d', sv_fx := st', sv_served := Suc (sv_served ?y)\<rparr>)"
    using assms(3,9) q by (simp add: serve_def admit_def writes_def)
  have codes: "fst (answer 201 (Quote_body \<circ> quote_read_of) res) = 403 \<longleftrightarrow> res = Inl (HTTPException 403)"
    by (cases res) (auto simp: answer_def status_code_def split: exc.split)
  have same: "d' = sv_db ?y" if "res = Inl (HTTPException 403)"
    using q that own assms(7) by (auto simp: create_quote_def create_quote_raced_def raise_simps split: prod.splits sum.splits)
  show ?thesis using s codes same r403 by (intro exI [of _ res] exI) (rule conjI, assumption, simp)
qed

lemma quote_task_runs:
  assumes "\<not> ls_limit_reached sd" "ls_headers sd = Some tok"
    "serve a (Some tok, Remittances (Create_quote (ls_beneficiary_id sd) amount)) (between x) = (resp, y)"
  shows "run_script between a (quote_task amount sd) x = (Inr (sd', v), x') \<Longrightarrow>
      x' = y \<and> (fst resp = 403 \<longleftrightarrow> ls_limit_reached sd') \<and> (fst resp = 403 \<longleftrightarrow> v = Some (True, Some ''limit_exhausted''))"
    and "fst resp = 403 \<Longrightarrow> run_script between a (quote_task amount sd) x =
      (Inr (sd\<lparr>ls_limit_reached := True\<rparr>, Some (True, Some ''limit_exhausted'')), y)"
  using assms by (auto simp: quote_task_def split: sum.splits prod.splits if_splits)

text \<open>
  C39. What the load test counts as exhausted limits is that. For a sender whose token names an approved
  user, quoting to a recipient of its own while a rate is served, a request is counted under
  \<open>limit_exhausted\<close>, and the sender stops quoting, exactly when the amount no longer fits the day's or
  the month's limit; it is not counted as a failure, and the API has changed nothing.
\<close>

theorem exhausted_means_limit:
  assumes "run_script between a (quote_task amount sd) x = (Inr (sd', v), x')" "\<not> ls_limit_reached sd" "ls_headers sd = Some tok"
    "approved_caller a (Some tok) (between x) = Inr u"
    "b \<in> set (beneficiaries (sv_db (between x)))" "ben_id b = ls_beneficiary_id sd" "ben_sender_id b = usr_id u"
    "fst (current_rate (api_fx a) (api_settings a) (now_of a (between x)) (sv_db (between x)) (sv_fx (between x))) = Inr rate"
    "rate_ok rate" "parse_send_amount amount = Inr amount" "fee_settings_ok (api_settings a)" "limit_settings_ok (api_settings a)"
    "rows_ok (sv_db (between x))" "window_starts (now_of a (between x)) = (ds, ms)"
    "limits_for (api_settings a) (usr_kyc_status u) = (daily, monthly)"
  shows "(ls_limit_reached sd' \<longleftrightarrow>
      daily < total_since (usr_id u) (now_of a (between x)) ds (sv_db (between x)) + amount \<or>
      monthly < total_since (usr_id u) (now_of a (between x)) ms (sv_db (between x)) + amount) \<and>
    (ls_limit_reached sd' \<longleftrightarrow> v = Some (True, Some ''limit_exhausted'')) \<and>
    (ls_limit_reached sd' \<longrightarrow> sv_db x' = sv_db (between x))"
proof -
  obtain res y where "serve a (Some tok, Remittances (Create_quote (ls_beneficiary_id sd) amount)) (between x) =
      (answer 201 (Quote_body \<circ> quote_read_of) res, y)"
    and c: "fst (answer 201 (Quote_body \<circ> quote_read_of) res) = 403 \<longleftrightarrow>
       daily < total_since (usr_id u) (now_of a (between x)) ds (sv_db (between x)) + amount \<or>
       monthly < total_since (usr_id u) (now_of a (between x)) ms (sv_db (between x)) + amount"
      "fst (answer 201 (Quote_body \<circ> quote_read_of) res) = 403 \<longrightarrow> sv_db y = sv_db (between x)"
    using quote_task_serves [OF assms(2-15)] by blast
  then show ?thesis using quote_task_runs(1) [OF assms(2,3) _ assms(1)] by metis
qed

text \<open>An approved sender with no room for the amount.\<close>

definition approved_ann :: user where
  "approved_ann = ann\<lparr>usr_kyc_status := KYC_APPROVED\<rparr>"

definition approved_db :: db where
  "approved_db = empty_db\<lparr>users := [approved_ann], beneficiaries := [bobs_mother\<lparr>ben_sender_id := 0\<rparr>], next_id := 9\<rparr>"

definition priced_api :: "(nat, nat, nat) api" where
  "priced_api = demo_api\<lparr>api_settings := FxRate.api_settings\<rparr>"

definition priced_token :: "user \<Rightarrow> string" where
  "priced_token u = fst (issue_token (api_auth priced_api) (api_settings priced_api) 5 u)"

definition ann_sending :: sender where
  "ann_sending = \<lparr>ls_beneficiary_id = 8, ls_quoted = [], ls_tracked = [], ls_limit_reached = False, ls_headers = Some (priced_token ann)\<rparr>"

lemma priced_api_facts:
  "api_auth priced_api = plain_lib" "api_settings priced_api = FxRate.api_settings" "api_fx priced_api = demo_fx"
  "access_token_expire_minutes FxRate.api_settings = 60" "limits_for FxRate.api_settings KYC_APPROVED = (3000, 25000)"
  "fee_settings_ok FxRate.api_settings" "limit_settings_ok FxRate.api_settings"
  using default_fee_settings_ok
  by (simp_all add: priced_api_def demo_api_def FxRate.api_settings_def demo_settings_def default_settings_def limits_for_def
      limit_settings_ok_def fee_settings_ok_def)

lemma priced_caller:
  assumes "get_user (usr_id u) (sv_db x) = Some v" "usr_id u < 16 ^ 32" "now_of priced_api x \<le> 1000"
  shows "caller priced_api (Some (priced_token u)) x = Inr v"
proof -
  have "timestamp (now_of priced_api x) \<le> timestamp (5 + 60 * 60 * 10 ^ 6)"
    using assms(3) by (auto simp: timestamp_def intro!: zdiv_mono1)
  then show ?thesis
    using token_names_user [OF plain_lib_ok(1) assms(2), of FxRate.api_settings 5 "now_of priced_api x" "sv_db x"] assms(1)
    by (simp add: caller_def priced_token_def priced_api_facts some_or_def)
qed

theorem exhausted_means_limit_witness:
  "\<exists>x'. run_script id priced_api (quote_task 5000 ann_sending) (demo_server approved_db) =
     (Inr (ann_sending\<lparr>ls_limit_reached := True\<rparr>, Some (True, Some ''limit_exhausted'')), x') \<and> sv_db x' = approved_db"
proof -
  let ?x = "demo_server approved_db"
  have f: "sv_db ?x = approved_db" "now_of priced_api ?x = 5" "sv_fx ?x = (Map.empty, 0)" "ls_headers ann_sending = Some (priced_token ann)"
    "ls_beneficiary_id ann_sending = 8" "\<not> ls_limit_reached ann_sending"
    by (simp_all add: demo_server_def now_of_def priced_api_def demo_api_def ann_sending_def)
  have u: "get_user (usr_id ann) (sv_db ?x) = Some approved_ann"
    by (simp add: f approved_db_def approved_ann_def ann_def get_user_def get_by_Cons)
  have c: "approved_caller priced_api (Some (priced_token ann)) (id ?x) = Inr approved_ann"
    using priced_caller [OF u] f(2) by (simp add: approved_caller_def require_kyc_approved_def approved_ann_def ann_def)
  have b: "bobs_mother\<lparr>ben_sender_id := 0\<rparr> \<in> set (beneficiaries (sv_db (id ?x)))"
    "ben_id (bobs_mother\<lparr>ben_sender_id := 0\<rparr>) = ls_beneficiary_id ann_sending"
    "ben_sender_id (bobs_mother\<lparr>ben_sender_id := 0\<rparr>) = usr_id approved_ann"
    by (simp_all add: f approved_db_def approved_ann_def ann_def bobs_mother_def)
  have r: "fst (current_rate (api_fx priced_api) (api_settings priced_api) (now_of priced_api (id ?x)) (sv_db (id ?x)) (sv_fx (id ?x))) = Inr (37/2)"
    by (simp add: priced_api_facts f current_rate_def demo_fx_run http_of_def)
  have k: "rate_ok (37/2)" "parse_send_amount 5000 = Inr 5000" by code_simp+
  have none: "remittances approved_db = []" by (simp add: approved_db_def empty_db_def)
  then have rows: "rows_ok (sv_db (id ?x))" by (simp add: rows_ok_def f)
  obtain ds ms where w: "window_starts (now_of priced_api (id ?x)) = (ds, ms)" by fastforce
  have lim: "limits_for (api_settings priced_api) (usr_kyc_status approved_ann) = (3000, 25000)"
    by (simp add: priced_api_facts approved_ann_def)
  note hyps = f(6,4) c b r k priced_api_facts(6,7) [folded priced_api_facts(2)] rows w lim
  have over: "(3000 :: rat) < total_since (usr_id approved_ann) 5 ds approved_db + 5000" by (simp add: total_since_def none)
  obtain resp x' where sv: "serve priced_api (Some (priced_token ann), Remittances (Create_quote (ls_beneficiary_id ann_sending) 5000)) (id ?x) = (resp, x')"
    "fst resp = 403"
    using quote_task_serves [OF hyps] over unfolding id_apply f(1,2) by blast
  have run: "run_script id priced_api (quote_task 5000 ann_sending) ?x =
      (Inr (ann_sending\<lparr>ls_limit_reached := True\<rparr>, Some (True, Some ''limit_exhausted'')), x')"
    by (rule quote_task_runs(2) [where between = id, OF f(6,4) sv])
  then show ?thesis using exhausted_means_limit [OF run hyps] by (simp add: f)
qed

section \<open>The last step of the demonstration\<close>

lemma balances_held:
  assumes "distinct (map bal_key (ledger_balances d))"
  shows "balances s w d = map (\<lambda>code. (code, held w code d)) (supported_currencies_list s)"
proof -
  have "get_by bal_currency code (rev (filter (\<lambda>b. bal_wallet_id b = w) (ledger_balances d))) = balance_row w code d" for code
  proof (cases "balance_row w code d")
    case None
    then have "get_by bal_currency code (rev (filter (\<lambda>b. bal_wallet_id b = w) (ledger_balances d))) = None"
      by (auto simp: balance_row_def get_by_None bal_key_def)
    then show ?thesis using None by simp
  next
    case (Some r)
    then have r: "r \<in> set (ledger_balances d)" "bal_wallet_id r = w" "bal_currency r = code"
      by (auto simp: balance_row_def bal_key_def)
    have "distinct (map bal_currency (filter (\<lambda>b. bal_wallet_id b = w) (ledger_balances d)))"
      using assms by (auto simp: distinct_map inj_on_def bal_key_def)
    then have "get_by bal_currency (bal_currency r) (rev (filter (\<lambda>b. bal_wallet_id b = w) (ledger_balances d))) = Some r"
      using r by (intro get_by_unique) (simp_all flip: rev_map)
    then show ?thesis using Some r by simp
  qed
  moreover have "bal_currency r = code" if "balance_row w code d = Some r" for r code
    using that by (auto simp: balance_row_def bal_key_def)
  ultimately show ?thesis by (auto simp: balances_def held_def Let_def split: option.splits)
qed

lemma app_inv_keys: "app_inv s d \<Longrightarrow> distinct (map bal_key (ledger_balances d))"
  by (simp add: app_inv_def ledger_inv_def ledger_shape_def balances_ok_def)

text \<open>Approving moves no balance, and keeps the invariant.\<close>

lemma approval_moves_nothing:
  assumes "approve_cash_out_endpoint pub admin k now d q = ((res, d'), q')"
  shows "ledger_balances d' = ledger_balances d" "wallets d' = wallets d"
  using assms
  by (auto simp: approve_cash_out_endpoint_def get_cash_out_def approve_cash_out_def put_cash_out_def raise_simps
      split: sum.splits option.splits prod.splits if_splits)

lemma approval_keeps_inv:
  assumes "approve_cash_out_endpoint pub admin k now d q = ((res, d'), q')" "app_inv s d"
  shows "app_inv s d'"
proof (cases "get_cash_out_row k d")
  case None
  then show ?thesis using assms by (auto simp: approve_cash_out_endpoint_def get_cash_out_def raise_simps)
next
  case (Some c)
  consider (new) "co_status c = CO_REQUESTED" | (again) "co_status c = CO_APPROVED"
    | (closed) "co_status c \<notin> {CO_REQUESTED, CO_APPROVED}" by blast
  then show ?thesis
  proof cases
    case new
    then show ?thesis using approve_first [OF Some new assms(2), of pub admin now q] assms(1) by auto
  next
    case again
    then show ?thesis using approve_again [OF Some again, of pub admin now q] assms by auto
  next
    case closed
    then show ?thesis using assms Some
      by (auto simp: approve_cash_out_endpoint_def get_cash_out_def approve_cash_out_def http_of_def)
  qed
qed

lemma approve_serves:
  "ledger_balances (sv_db (snd (serve a (bearer, Admin (Approve_cash_out k)) x))) = ledger_balances (sv_db x)"
  "wallets (sv_db (snd (serve a (bearer, Admin (Approve_cash_out k)) x))) = wallets (sv_db x)"
  "app_inv s (sv_db x) \<Longrightarrow> app_inv s (sv_db (snd (serve a (bearer, Admin (Approve_cash_out k)) x)))"
  by (auto simp: admit_def split: sum.splits prod.splits dest: approval_moves_nothing approval_keeps_inv)

lemma request_serves:
  assumes "serve a (bearer, Wallet (Request_cash_out amount cur None)) x = (resp, x1)" "ebind (ok_body resp) id_of = Inr k"
    "caller a bearer x = Inr u" "app_inv (api_settings a) (sv_db x)" "fee_settings_ok (api_settings a)" "plausible_rate a x"
    "wallet_of (usr_id u) (sv_db x) = Some w"
  shows "app_inv (api_settings a) (sv_db x1)" "wallet_of (usr_id u) (sv_db x1) = Some w"
    "held (wal_id w) code (sv_db x1) = held (wal_id w) code (sv_db x) - (if code = SETTLEMENT_CURRENCY then amount else 0)"
proof -
  let ?S = "api_settings a" and ?d = "sv_db x"
  obtain v where v: "parse_cash_out_request ?S amount cur = Inr v"
    using assms(1-3) by (auto simp: serve_def admit_def ok_body_def id_of_def ebind_eq_Inr split: sum.splits prod.splits if_splits)
  then obtain cur' where p: "parse_cash_out_request ?S amount cur = Inr (amount, cur')" "0 < amount" "amount < 10 ^ 12" "scaled 6 amount"
    by (auto simp: parse_cash_out_request_def Let_def split: if_splits)
  obtain res d1 st' where q: "request_cash_out_endpoint (api_fx a) ?S u amount cur' None (now_of a x) ?d (sv_fx x) = ((res, d1), st')"
    by (metis prod.exhaust)
  obtain c where c: "res = Inr c" and x1: "sv_db x1 = d1"
    using assms(1-3) p(1) q by (cases res) (auto simp: serve_def admit_def writes_def answer_def ok_body_def id_of_def split: if_splits)
  obtain rate where rate: "fst (current_rate (api_fx a) ?S (now_of a x) ?d (sv_fx x)) = Inr rate"
    and run: "request_cash_out ?S (usr_id u) amount cur' rate None (now_of a x) ?d = Inr (c, d1)"
    using q c by (auto simp: request_cash_out_endpoint_def raise_simps split: prod.splits sum.splits)
  have r: "rate_ok rate" "rate \<le> 1000" using assms(6) rate unfolding plausible_rate_def by blast+
  then have "amount * rate \<le> 10 ^ 12 * 1000" using p by (intro mult_mono) (auto simp: rate_ok_def)
  then have ok: "cash_out_request_ok ?S amount rate"
    using p r assms(5) by (simp add: cash_out_request_ok_def token_amount_ok_def)
  have "replayed_cash_out (usr_id u) None ?d = None" by (simp add: replayed_cash_out_def)
  note n = request_new_app [OF run this assms(4) ok]
  show "app_inv ?S (sv_db x1)" using n(1) x1 by simp
  show "wallet_of (usr_id u) (sv_db x1) = Some w"
    "held (wal_id w) code (sv_db x1) = held (wal_id w) code ?d - (if code = SETTLEMENT_CURRENCY then amount else 0)"
    using n(9) assms(7) x1 by auto
qed

text \<open>What happens on the server while the script is between two of its requests moves this much.\<close>

definition moved_by :: "(('n, 'f, 'r) server \<Rightarrow> ('n, 'f, 'r) server) \<Rightarrow> uuid \<Rightarrow> string \<Rightarrow> ('n, 'f, 'r) server \<Rightarrow> decimal" where
  "moved_by between wallet_id code x = held wallet_id code (sv_db (between x)) - held wallet_id code (sv_db x)"

text \<open>
  C40. Releasing a cash-out pays no fiat by itself. In the last three steps of the demonstration, where
  the recipient's UCTUSD is cashed out to dollars and an administrator releases it, the balance shown
  at the end is, in every currency, what it was when the request came in, less the amount if the
  currency is UCTUSD, and otherwise only what others moved between the script's requests: between the
  cash-out request and the release, and between the release and the reading. The two requests of the
  script put no dollars there. The server may do anything in those gaps that keeps the database's
  invariant and the recipient's wallet, the worker's burn included.
\<close>

theorem release_itself_pays_nothing:
  assumes "run_script between a (cash_out_and_release tok admin_token amount) x = (Inr ((200, Balance_body shown), entries), x')"
    "tok = fst (issue_token (api_auth a) (api_settings a) t u)" "jwt_ok (api_auth a)" "usr_id u < 16 ^ 32"
    "app_inv (api_settings a) (sv_db x)" "fee_settings_ok (api_settings a)" "plausible_rate a (between x)"
    "wallet_of (usr_id u) (sv_db x) = Some w"
    "\<And>y. app_inv (api_settings a) (sv_db y) \<Longrightarrow> app_inv (api_settings a) (sv_db (between y))"
    "\<And>y. wallet_of (usr_id u) (sv_db y) = Some w \<Longrightarrow> wallet_of (usr_id u) (sv_db (between y)) = Some w"
  shows "\<exists>k x1 x2.
    x1 = snd (serve a (Some tok, Wallet (Request_cash_out amount ''USD'' None)) (between x)) \<and>
    x2 = snd (serve a (Some admin_token, Admin (Approve_cash_out k)) (between x1)) \<and>
    wbr_balances shown = map (\<lambda>(code, before). (code, before - (if code = ''UCTUSD'' then amount else 0)
        + moved_by between (wal_id w) code x1 + moved_by between (wal_id w) code x2))
      (balances (api_settings a) (wal_id w) (sv_db (between x)))"
proof -
  let ?S = "api_settings a" and ?codes = "supported_currencies_list (api_settings a)"
  obtain resp x1 where 1: "serve a (Some tok, Wallet (Request_cash_out amount ''USD'' None)) (between x) = (resp, x1)" by fastforce
  obtain k where k: "ebind (ok_body resp) id_of = Inr k"
    and r2: "run_script between a (sbind (call (Some admin_token) (Admin (Approve_cash_out k))) (\<lambda>_.
      sbind (call (Some tok) (Wallet Get_balance)) (\<lambda>shown.
      sbind (call (Some tok) (Wallet Get_wallet_transactions)) (\<lambda>entries. Done (Inr (shown, entries)))))) x1 =
      (Inr ((200, Balance_body shown), entries), x')"
    using assms(1) 1 by (auto simp: cash_out_and_release_def split: sum.splits)
  obtain resp2 x2 where 2: "serve a (Some admin_token, Admin (Approve_cash_out k)) (between x1) = (resp2, x2)" by fastforce
  obtain x3 where 3: "serve a (Some tok, Wallet Get_balance) (between x2) = ((200, Balance_body shown), x3)"
    using r2 2 by (auto split: prod.splits)
  obtain u1 where u1: "caller a (Some tok) (between x) = Inr u1" using 1 k
    by (auto simp: serve_def admit_def ok_body_def ebind_eq_Inr id_of_def split: sum.splits prod.splits if_splits)
  have id1: "usr_id u1 = usr_id u" using token_caller [OF _ assms(3,4)] u1 assms(2) by metis
  note rq = request_serves [OF 1 k u1 assms(9) [OF assms(5)] assms(6,7), unfolded id1, OF assms(10) [OF assms(8)]]
  note ap = approve_serves [where a = a and bearer = "Some admin_token" and k = k and x = "between x1", unfolded 2 snd_conv]
  have inv: "app_inv ?S (sv_db (between x2))" using assms(9) [OF ap(3) [OF assms(9) [OF rq(1)]]] .
  have "wallet_of (usr_id u) (sv_db x2) = Some w" using assms(10) [OF rq(2)] ap(2) by (simp add: wallet_of_def)
  then have w: "wallet_of (usr_id u) (sv_db (between x2)) = Some w" by (rule assms(10))
  obtain u2 where u2: "caller a (Some tok) (between x2) = Inr u2"
    using 3 by (auto simp: serve_def admit_def split: sum.splits prod.splits)
  have id2: "usr_id u2 = usr_id u" using token_caller [OF _ assms(3,4)] u2 assms(2) by metis
  have "wbr_balances shown = balances ?S (wal_id w) (sv_db (between x2))"
    using 3 u2 w id2 by (auto simp: serve_def admit_def writes_def answer_def get_balance_def wallet_for_def wallet_for_raced_def
        wallet_balance_read_of_def ebind_eq_Inr split: sum.splits prod.splits)
  also have "\<dots> = map (\<lambda>code. (code, held (wal_id w) code (sv_db (between x2)))) ?codes"
    by (rule balances_held [OF app_inv_keys [OF inv]])
  also have "\<dots> = map (\<lambda>code. (code, held (wal_id w) code (sv_db (between x)) - (if code = ''UCTUSD'' then amount else 0)
      + moved_by between (wal_id w) code x1 + moved_by between (wal_id w) code x2)) ?codes"
  proof -
    have "held v code (sv_db x2) = held v code (sv_db (between x1))" for v code
      using ap(1) by (simp add: held_def balance_row_def)
    then show ?thesis by (simp add: moved_by_def rq(3) SETTLEMENT_CURRENCY_def)
  qed
  finally show ?thesis
    unfolding balances_held [OF app_inv_keys [OF assms(9) [OF assms(5)]]]
    by (intro exI [of _ k] exI [of _ x1] exI [of _ x2]) (simp add: 1 2)
qed

text \<open>Bob, with 50 UCTUSD, and an administrator.\<close>

definition paying_api :: "(nat, nat, nat) api" where
  "paying_api = demo_api\<lparr>api_settings := FxRate.api_settings\<lparr>access_token_expire_minutes := 0\<rparr>,
     api_clock := (\<lambda>n. 62135596800 * 10 ^ 6)\<rparr>"

definition bob_in_funds :: db where
  "bob_in_funds = demo_db\<lparr>users := [(demo_user 1 ''ann@x.org'')\<lparr>usr_is_admin := True\<rparr>, demo_user 2 ''Bob@x.org''],
     wallets := [\<lparr>wal_id = 10, wal_user_id = 2, wal_created_at = 0\<rparr>],
     ledger_balances := [\<lparr>bal_id = 12, bal_wallet_id = 10, bal_currency = ''UCTUSD'', bal_amount = 50, bal_updated_at = 0\<rparr>],
     wallet_transactions := [\<lparr>wtx_id = 11, wtx_wallet_id = 10, wtx_remittance_id = None, wtx_direction = INCOMING,
       wtx_currency = ''UCTUSD'', wtx_amount = 50, wtx_xrpl_tx_hash = None, wtx_status = ENTRY_SUCCESS,
       wtx_failure_reason = None, wtx_created_at = 0\<rparr>], next_id := 20\<rparr>"

definition paying_token :: "uuid \<Rightarrow> string" where
  "paying_token k = fst (issue_token (api_auth paying_api) (api_settings paying_api) (62135596800 * 10 ^ 6) (demo_user k []))"

lemma paying_run:
  "map_prod (map_sum id (\<lambda>r. (fst (fst r), (case snd (fst r) of Balance_body b \<Rightarrow> wbr_balances b | _ \<Rightarrow> []))))
     (map co_status \<circ> cash_outs \<circ> sv_db)
     (run_script id paying_api (cash_out_and_release (paying_token 2) (paying_token 1) 20) (demo_server bob_in_funds)) =
   (Inr (200, [(''UCTUSD'', 30), (''USD'', 0), (''ZAR'', 0)]), [CO_APPROVED])"
  by code_simp

lemma paying_rate:
  "fst (current_rate (api_fx paying_api) (api_settings paying_api) (now_of paying_api (demo_server bob_in_funds)) bob_in_funds (Map.empty, 0)) = Inr (37/2)"
  by code_simp

lemma bob_in_funds_ok: "app_inv (api_settings paying_api) bob_in_funds" "wallet_of 2 bob_in_funds = Some \<lparr>wal_id = 10, wal_user_id = 2, wal_created_at = 0\<rparr>"
    "balances (api_settings paying_api) 10 bob_in_funds = [(''UCTUSD'', 50), (''USD'', 0), (''ZAR'', 0)]"
proof -
  have sup: "supported_currencies_list (api_settings paying_api) = [''UCTUSD'', ''USD'', ''ZAR'']" by code_simp
  have "reconciled bob_in_funds"
    by (auto simp: reconciled_def held_def balance_row_def get_by_Cons bal_key_def entry_sum_def bob_in_funds_def moves_def Ledger.signed_def)
  moreover have "\<forall>b \<in> set (ledger_balances bob_in_funds). balance_ok (api_settings paying_api) b"
    using sup by (simp add: bob_in_funds_def balance_ok_def)
  ultimately show "app_inv (api_settings paying_api) bob_in_funds"
    by (simp add: app_inv_def ledger_inv_def ledger_shape_def wallets_ok_def balances_ok_def entries_ok_def fresh_ids_def)
      (simp add: bob_in_funds_def demo_db_def empty_db_def entry_linked_def bal_key_def)
  show "wallet_of 2 bob_in_funds = Some \<lparr>wal_id = 10, wal_user_id = 2, wal_created_at = 0\<rparr>"
    by (simp add: bob_in_funds_def wallet_of_def get_by_Cons)
  show "balances (api_settings paying_api) 10 bob_in_funds = [(''UCTUSD'', 50), (''USD'', 0), (''ZAR'', 0)]" by code_simp
qed

theorem release_itself_pays_nothing_witness:
  "\<exists>shown entries x'. run_script id paying_api (cash_out_and_release (paying_token 2) (paying_token 1) 20) (demo_server bob_in_funds) =
     (Inr ((200, Balance_body shown), entries), x') \<and> map co_status (cash_outs (sv_db x')) = [CO_APPROVED] \<and>
     balances (api_settings paying_api) 10 bob_in_funds = [(''UCTUSD'', 50), (''USD'', 0), (''ZAR'', 0)] \<and>
     wbr_balances shown = [(''UCTUSD'', 30), (''USD'', 0), (''ZAR'', 0)]"
proof -
  let ?x = "demo_server bob_in_funds"
  obtain r x' where run: "run_script id paying_api (cash_out_and_release (paying_token 2) (paying_token 1) 20) ?x = (r, x')" by fastforce
  obtain b entries where r: "r = Inr ((200, b), entries)"
    "(case b of Balance_body b \<Rightarrow> wbr_balances b | _ \<Rightarrow> []) = [(''UCTUSD'', 30), (''USD'', 0), (''ZAR'', 0)]"
    and st: "map co_status (cash_outs (sv_db x')) = [CO_APPROVED]"
    using paying_run unfolding run by (cases r) auto
  obtain shown where b: "b = Balance_body shown" using r(2) by (cases b) simp_all
  have u: "usr_id (demo_user 2 []) = 2" by (simp add: demo_user_def)
  have j: "jwt_ok (api_auth paying_api)" using plain_lib_ok(1) by (simp add: paying_api_def demo_api_def)
  have fee: "fee_settings_ok (api_settings paying_api)"
    using default_fee_settings_ok by (simp add: paying_api_def FxRate.api_settings_def demo_settings_def fee_settings_ok_def default_settings_def)
  have ok: "rate_ok (37/2)" "(37/2 :: rat) \<le> 1000" by code_simp+
  have fx: "sv_fx ?x = (Map.empty, 0)" by (simp add: demo_server_def)
  have "plausible_rate paying_api ?x"
    unfolding plausible_rate_def sv_db_demo fx paying_rate using ok by (metis sum.inject(2))
  from release_itself_pays_nothing [OF run [unfolded r b] paying_token_def j _ _ fee, unfolded id_apply, OF _ _ this]
  have "wbr_balances shown = map (\<lambda>(code, held). (code, if code = ''UCTUSD'' then held - 20 else held)) (balances (api_settings paying_api) 10 bob_in_funds)"
    by (simp add: u bob_in_funds_ok moved_by_def)
  then show ?thesis using run r b st by (simp add: bob_in_funds_ok)
qed

end
