(* ===== verification/Spec2Isabelle.thy ===== *)
theory Spec2Isabelle
  imports Promise FxRate Accounts Headroom WalletApi Delivery Backlog Migrations Recipients Measure Seeding Journeys
begin

text \<open>
  The back end of CrossFX, a South Africa to United States remittance service: a sender pays in
  rand, the amount is quoted in UCTUSD, a worker settles it from one pooled wallet to another on the
  XRP Ledger and credits the recipient on an off-chain ledger, and the recipient asks for the
  UCTUSD to be burned and paid out in a fiat currency. Everything under \<open>src/backend/app\<close>,
  \<open>src/backend/worker\<close>, \<open>src/backend/migrations\<close> and \<open>src/backend/scripts\<close> that computes or writes
  something is modelled, and so are the load test and the measurements of \<open>src/performance-testing\<close>.

  \<^bold>\<open>How the parts interact.\<close> The API handlers (\<open>app/routers\<close>) read and write one database through the
  services (\<open>app/services\<close>), commit, and put a message on a Redis stream. The worker
  (\<open>worker/settlement_worker.py\<close>) reads the stream in a consumer group, claims the row the message
  names by a compare-and-swap on its status, submits to the XRP Ledger, records the outcome in one
  transaction, and acknowledges. Redis may deliver a message again, as new or as reclaimed from a
  worker that stopped. Administrators retry, refund, approve, complete and reject.

  \<^bold>\<open>Shared ground.\<close>
  \<^item> \<open>Prelude\<close>: exceptions as the left of a sum with their monad, tables as lists of rows behind the
    laws of the locale \<open>row_store\<close>, Python strings, and the locales \<open>transition_invariant\<close> and
    \<open>refinement\<close> for runs of a step relation.
  \<^item> \<open>Errors\<close>: the exception classes callers tell apart.
  \<^item> \<open>PyDecimal\<close>: \<open>decimal.Decimal\<close> as a rational, every operator rounded to 28 digits,
    \<open>quantize\<close> with its modes. Its lemmas say when the rounding changes nothing.
  \<^item> \<open>Config\<close>, \<open>Models\<close>: \<open>app/config.py\<close> and \<open>app/models\<close>; the database is the record \<open>db\<close> of its tables.

  \<^bold>\<open>Services.\<close>
  \<^item> \<open>Fees\<close>: \<open>fee_service.py\<close>. Each figure equals the exact computation with one rounding, nothing is
    lost or charged twice, and only the documented errors are raised.
  \<^item> \<open>Ledger\<close>: \<open>ledger.py\<close>. The invariant of wallets, balances and entries, and the contract
    (a locale) under which the other services move money.
  \<^item> \<open>CashIO\<close>: \<open>cashin_cashout_service.py\<close>. Cash-in, requeue, refund, and the life of a cash-out;
    \<open>app_inv\<close> is the invariant of the money tables.
  \<^item> \<open>Queue\<close>: \<open>settlement_queue.py\<close>; \<open>Xrpl\<close>: \<open>xrpl_service.py\<close>, \<open>encryption.py\<close> and
    \<open>init_platform_wallets.py\<close>; \<open>FxRate\<close>: \<open>fx_rate_service.py\<close> and \<open>seed_fx_rates.py\<close>;
    \<open>SendLimits\<close>: \<open>limits_service.py\<close>.
  \<^item> \<open>Worker\<close>: the claim, settling, burning, acknowledging, and the consume loop, each with what it does
    on every outcome and on redelivery.

  \<^bold>\<open>Endpoints.\<close>
  \<^item> \<open>Access\<close>: \<open>app/security\<close>, \<open>dependencies.py\<close>, \<open>routers/auth.py\<close>, \<open>create_admin.py\<close>.
  \<^item> \<open>Kyc\<close>, \<open>Accounts\<close>: \<open>routers/kyc.py\<close>, the review half of \<open>routers/admin.py\<close>,
    \<open>routers/beneficiaries.py\<close>; \<open>account_inv\<close> is the invariant of these tables.
  \<^item> \<open>RemittanceApi\<close>: \<open>routers/remittances.py\<close>. A quote commits what it shows; confirming commits
    before it publishes.
  \<^item> \<open>WalletApi\<close>: \<open>routers/wallet.py\<close> and the money half of \<open>routers/admin.py\<close>.
  \<^item> \<open>Responses\<close>: the response models of \<open>app/schemas\<close>, timestamps tagged as UTC.
  \<^item> \<open>Api\<close>: \<open>app/main.py\<close>. A request is a value of the datatype \<open>request\<close>; \<open>serve\<close> takes it through the
    route's dependencies, its request schema, its handler and its response model to a status code and
    a body, and leaves the next state of the server. Whatever is served keeps the platform in \<open>System\<close>.
  \<^item> \<open>Isolation\<close>: who is turned away where; what a user reads depends on the user's own rows, and what
    a user does leaves the rows of all others alone. \<open>Recipients\<close>: the exception, an e-mail that
    differs in case, whichever order the database lists the users in.

  \<^bold>\<open>The whole.\<close>
  \<^item> \<open>System\<close>: transactions, XRP Ledger events and crashes as an interleaving step relation, with its
    invariant by rule induction. A payment or a burn is handed to the network and either answered, or
    its answer is lost and it may still land, at most once, at any later time. Solvency up to the burns
    that were refunded because their answer was lost, one outcome per remittance, one burn per
    cash-out, and the runs on which the stores disagree.
  \<^item> \<open>Promise\<close>: the abstract specification (offered, paid in, delivered or returned; reserved, paid out
    or released) and the simulation from \<open>System\<close>.
  \<^item> \<open>Service\<close>: every handler, taken whole, is a run of \<open>System\<close> and a history of \<open>Accounts\<close>.
  \<^item> \<open>Headroom\<close>: the send limits along every history of handlers.
  \<^item> \<open>Delivery\<close>: from a confirmed quote to the recipient's credit. \<open>Backlog\<close>: the consume loop works
    off the messages waiting on the stream while others publish more, and whatever XAUTOCLAIM hands it.
  \<^item> \<open>Migrations\<close>: the revisions of \<open>migrations/versions\<close> build the schema the models declare and undo
    themselves.

  \<^bold>\<open>Around the back end.\<close>
  \<^item> \<open>Scripts\<close>: \<open>walkthrough.py\<close>, \<open>walkthrough_remittance.py\<close>, \<open>seed_users.py\<close> and \<open>locustfile.py\<close> as
    trees of requests, run against \<open>serve\<close> while others act in between.
  \<^item> \<open>Seeding\<close>: the seeded senders are ready to send. \<open>Journeys\<close>: what the load test counts as exhausted
    limits, and what the last step of the demonstration shows, whoever acts between its requests.
  \<^item> \<open>Measure\<close>: \<open>measure_settlement.py\<close>, with Python's floats as exact doubles: its figures are measured
    latencies in their order, and what a refund does to its success rate.

  \<^bold>\<open>Bounds and fuel.\<close> Identifiers are counted and below \<open>16 ^ 32\<close> where their text form matters. Amounts
  satisfy what the request schemas enforce (\<open>send_amount_ok\<close>, \<open>token_amount_ok\<close>), rates are below
  \<open>10 ^ 6\<close> (\<open>rate_ok\<close>) and the settings lie in wide bands around their defaults (\<open>fee_settings_ok\<close>,
  \<open>mock_settings_ok\<close>, \<open>limit_settings_ok\<close>, \<open>corridor_ok\<close>), within which no figure needs more than 28
  digits. The consume loop of the worker runs until it is told to stop: \<open>run_turns n\<close> is its first \<open>n\<close>
  turns, and \<open>Backlog\<close> shows that as many turns whose takeover raises nothing as there are messages
  waiting are enough. Every other loop is structural.

  \<^bold>\<open>What is taken on trust.\<close> xrpl-py and the network, Redis, python-jose, passlib, Fernet, SHA-256, the
  HTTP client, Alembic and the database engine are arguments. The theorems that need something of them
  name it: \<open>jwt_ok\<close> and \<open>pw_ok\<close>, \<open>stream_documented\<close>, \<open>documented\<close> and the hypotheses of
  \<open>paid_in_is_delivered\<close>. \<open>stream_documented\<close> lets XAUTOCLAIM fail or hand over any ten pending entries.
  A query without an order, \<open>.first()\<close> on users or wallets, takes the first row of the table's list; where
  two rows can match, \<open>Recipients\<close> states its theorem for every order of the list. \<open>uuid4\<close> never repeats, clocks are UTC, a row lock makes one ledger
  movement atomic, and a session that ends in an exception leaves what was committed before. In
  \<open>System\<close> a handler's read, check and write of one row is one step, and solvency and the promise are
  stated under it; \<open>concurrent_rejects_refund_twice\<close> and \<open>queued_after_credit\<close> show what happens
  without it. A cash-out's burn is in flight once and each submission lands at most once.

  \<^bold>\<open>Not modelled.\<close> Wiring of libraries (\<open>app/database.py\<close>, \<open>migrations/env.py\<close>, the CORS headers of
  \<open>app/main.py\<close>), the serialisation of responses to JSON, log lines and the texts of refusals, argument
  parsing and printing of the scripts, Locust's choice of tasks and its statistics, the tests, and the
  web front end: they compute nothing the back end relies on, or are not written in its language.
\<close>

end
